(* ===== verification/Prelude.thy ===== *)
theory Prelude
  imports Main "HOL-Library.Word" "HOL-Library.AList" "HOL-Library.Monad_Syntax"
begin

text \<open>
  The vocabulary the component theories share.

  \<^item> Go's machine integers are words of their width; bytes are \<open>8 word\<close>; a byte slice is a
    list of bytes; a Go string, which is a sequence of bytes, is an Isabelle \<open>string\<close>.
  \<^item> A duration and an instant are integers counting nanoseconds, as \<open>time.Duration\<close> and
    \<open>time.Time\<close> do.
  \<^item> Writing into a caller-supplied buffer is a function from the old buffer to the new one;
    an index out of range is a run-time panic, the value \<open>None\<close>.
  \<^item> \<open>binary.BigEndian\<close>, the three \<open>strconv\<close> functions and the \<open>strings\<close> functions the
    program calls are defined here once.
\<close>

unbundle bit_operations_syntax

named_theorems buf_simps \<open>rewriting sequences of buffer writes\<close>
named_theorems wire_simps \<open>encodings and their lengths\<close>
named_theorems inv_intros \<open>invariant preservation rules\<close>

type_synonym u8 = "8 word"
type_synonym u16 = "16 word"
type_synonym u32 = "32 word"
type_synonym u64 = "64 word"
type_synonym i64 = "64 word"
type_synonym bytes = "u8 list"
type_synonym duration = int
type_synonym instant = int

text \<open>The units of package \<open>time\<close>, in nanoseconds.\<close>

definition Millisecond :: duration where "Millisecond = 1000000"
definition Second :: duration where "Second = 1000000000"

lemma time_units [simp]: "Millisecond = 1000000" "Second = 1000000000"
  by (simp_all add: Millisecond_def Second_def)

text \<open>\<open>time.Time.Unix\<close>: whole seconds, rounded down.\<close>

definition Unix :: "instant \<Rightarrow> int" where "Unix t = t div Second"

text \<open>Go's integer division and remainder truncate towards zero.\<close>

definition go_div :: "int \<Rightarrow> int \<Rightarrow> int" where
  "go_div a b = sgn a * sgn b * (\<bar>a\<bar> div \<bar>b\<bar>)"

definition go_mod :: "int \<Rightarrow> int \<Rightarrow> int" where
  "go_mod a b = a - b * go_div a b"

lemma go_div_nonneg [simp]: "0 \<le> a \<Longrightarrow> 0 < b \<Longrightarrow> go_div a b = a div b"
  by (cases "a = 0") (simp_all add: go_div_def)

lemma go_mod_nonneg [simp]: "0 \<le> a \<Longrightarrow> 0 < b \<Longrightarrow> go_mod a b = a mod b"
  by (simp add: go_mod_def minus_mult_div_eq_mod)

text \<open>The value of a signed 64-bit operation, where its mathematical result may not fit.\<close>

definition wrap64 :: "int \<Rightarrow> int" where
  "wrap64 x = (x + 2 ^ 63) mod 2 ^ 64 - 2 ^ 63"

lemma wrap64_id: "- (2 ^ 63) \<le> x \<Longrightarrow> x < 2 ^ 63 \<Longrightarrow> wrap64 x = x"
  by (simp add: wrap64_def)

lemma wrap64_range: "- (2 ^ 63) \<le> wrap64 x" "wrap64 x < 2 ^ 63"
  by (simp_all add: wrap64_def)

lemma wrap64_le: "0 \<le> x \<Longrightarrow> wrap64 x \<le> x"
  using zmod_le_nonneg_dividend [of "x + 2 ^ 63" "2 ^ 64"] by (simp add: wrap64_def)


section \<open>Strings and bytes\<close>

definition bytes_of :: "string \<Rightarrow> bytes" where
  "bytes_of s = map (\<lambda>c. of_nat (of_char c)) s"

definition string_of :: "bytes \<Rightarrow> string" where
  "string_of bs = map (\<lambda>b. char_of (unat b)) bs"

lemma length_bytes_of [simp]: "length (bytes_of s) = length s"
  by (simp add: bytes_of_def)

lemma length_string_of [simp]: "length (string_of bs) = length bs"
  by (simp add: string_of_def)

lemma of_char_less_256: "of_char c < (256::nat)"
  by (metis of_char_mod_256 mod_less_divisor zero_less_numeral)

lemma string_of_bytes_of [simp]: "string_of (bytes_of s) = s"
proof -
  have "char_of (unat (of_nat (of_char c) :: u8)) = c" for c
    using of_char_less_256 [of c] by (simp add: unat_of_nat take_bit_eq_mod)
  then show ?thesis by (simp add: string_of_def bytes_of_def o_def)
qed

lemma bytes_of_string_of [simp]: "bytes_of (string_of bs) = bs"
proof -
  have "of_nat (of_char (char_of (unat b)) :: nat) = b" for b :: u8
  proof -
    have "unat b < 2 ^ LENGTH(8)" by (rule unsigned_less)
    then show ?thesis by (simp add: of_char_of)
  qed
  then show ?thesis by (simp add: string_of_def bytes_of_def o_def)
qed

lemma string_of_append [simp]: "string_of (xs @ ys) = string_of xs @ string_of ys"
  by (simp add: string_of_def)

lemma bytes_of_append [simp]: "bytes_of (xs @ ys) = bytes_of xs @ bytes_of ys"
  by (simp add: bytes_of_def)

lemma of_Nil [simp]: "bytes_of [] = []" "string_of [] = []"
  by (simp_all add: bytes_of_def string_of_def)

lemma bytes_of_eq_Nil [simp]: "bytes_of s = [] \<longleftrightarrow> s = []"
  by (simp add: bytes_of_def)


section \<open>Writing into a buffer\<close>

text \<open>
  \<open>put_bytes buf off bs\<close> is the sequence of assignments \<open>buf[off] = bs[0]; buf[off+1] = bs[1]; \<dots>\<close>,
  which panics when one of the indices is not below the length. \<open>go_copy buf off src\<close> is
  \<open>copy(buf[off:], src)\<close>: slicing beyond the length panics, and \<open>copy\<close> moves as many bytes as
  both slices have and returns that number.
\<close>

definition put_bytes :: "bytes \<Rightarrow> nat \<Rightarrow> bytes \<Rightarrow> bytes option" where
  "put_bytes buf off bs =
     (if off + length bs \<le> length buf
      then Some (take off buf @ bs @ drop (off + length bs) buf) else None)"

definition go_copy :: "bytes \<Rightarrow> nat \<Rightarrow> bytes \<Rightarrow> (bytes \<times> nat) option" where
  "go_copy buf off src =
     (if off \<le> length buf
      then let n = min (length buf - off) (length src)
           in Some (take off buf @ take n src @ drop (off + n) buf, n)
      else None)"

definition make_bytes :: "nat \<Rightarrow> bytes" where
  "make_bytes n = replicate n 0"

text \<open>\<open>fill n r\<close> is a slice of \<open>n\<close> bytes after a random source delivering \<open>r\<close> was read into it.\<close>

definition fill :: "nat \<Rightarrow> bytes \<Rightarrow> bytes" where
  "fill n r = take n (r @ make_bytes n)"

lemma length_make_bytes [simp]: "length (make_bytes n) = n"
  by (simp add: make_bytes_def)

lemma length_fill [simp]: "length (fill n r) = n"
  by (simp add: fill_def)

lemma put_bytes_at [buf_simps]:
  assumes "n = length pre" and "length bs \<le> length rest"
  shows "put_bytes (pre @ rest) n bs = Some ((pre @ bs) @ drop (length bs) rest)"
  using assms by (simp add: put_bytes_def)

lemma go_copy_at [buf_simps]:
  assumes "n = length pre" and "length src \<le> length rest"
  shows "go_copy (pre @ rest) n src = Some ((pre @ src) @ drop (length src) rest, length src)"
  using assms by (simp add: go_copy_def Let_def min_def)


text \<open>
  The invariant of filling a fresh buffer from the left: what has been written, then zeroes.
  The rules rewrite one write at a time, on goals where appends are nested to the left.
\<close>

lemma drop_make_bytes [simp]: "drop n (make_bytes k) = make_bytes (k - n)"
  by (simp add: make_bytes_def)

lemma make_bytes_0 [simp]: "make_bytes 0 = []"
  by (simp add: make_bytes_def)

lemma put_bytes_fresh [buf_simps]:
  "n = length pre \<Longrightarrow> length bs \<le> k \<Longrightarrow>
   put_bytes (pre @ make_bytes k) n bs = Some ((pre @ bs) @ make_bytes (k - length bs))"
  by (simp add: put_bytes_def)

lemma go_copy_fresh [buf_simps]:
  "n = length pre \<Longrightarrow> length src \<le> k \<Longrightarrow>
   go_copy (pre @ make_bytes k) n src = Some ((pre @ src) @ make_bytes (k - length src), length src)"
  by (simp add: go_copy_def Let_def min_def)

section \<open>Big-endian integers (encoding/binary)\<close>

definition be16 :: "u16 \<Rightarrow> bytes" where
  "be16 w = [ucast (drop_bit 8 w), ucast w]"

definition be32 :: "u32 \<Rightarrow> bytes" where
  "be32 w = [ucast (drop_bit 24 w), ucast (drop_bit 16 w), ucast (drop_bit 8 w), ucast w]"

fun uint_be :: "bytes \<Rightarrow> 'a::len word \<Rightarrow> 'a word" where
  "uint_be [] acc = acc"
| "uint_be (b # bs) acc = uint_be bs (push_bit 8 acc OR ucast b)"

definition Uint16 :: "bytes \<Rightarrow> u16" where "Uint16 bs = uint_be (take 2 bs) 0"
definition Uint32 :: "bytes \<Rightarrow> u32" where "Uint32 bs = uint_be (take 4 bs) 0"

lemma length_be [simp]: "length (be16 w) = 2" "length (be32 v) = 4"
  by (simp_all add: be16_def be32_def)

text \<open>One step of reading: shift the bytes so far and add the next one.\<close>

lemma uint_be_step [simp]:
  "push_bit 8 (drop_bit (8 + n) w) OR ucast (ucast (drop_bit n w) :: u8) = drop_bit n (w :: 'a::len word)"
proof (rule bit_word_eqI)
  fix i assume "i < LENGTH('a)"
  then show "bit (push_bit 8 (drop_bit (8 + n) w) OR ucast (ucast (drop_bit n w) :: u8)) i
           = bit (drop_bit n w) i"
    by (cases "i < 8") (auto simp: bit_simps dest: bit_imp_le_length)
qed

lemma uint_be_step0 [simp]:
  "push_bit 8 (drop_bit 8 w) OR ucast (ucast w :: u8) = (w :: 'a::len word)"
  using uint_be_step [of 0 w] by simp

lemma uint_be_chain:
  "m = 8 + n \<Longrightarrow> uint_be (ucast (drop_bit n w) # bs) (drop_bit m w) = uint_be bs (drop_bit n w)"
  "uint_be (ucast w # bs) (drop_bit 8 w) = uint_be bs w"
  by (simp_all only: uint_be.simps uint_be_step uint_be_step0)

lemma Uint16_be16 [simp]: "Uint16 (be16 w @ rest) = w"
proof -
  have "ucast (ucast (drop_bit 8 w) :: u8) = drop_bit 8 w"
    by (rule bit_word_eqI) (auto simp: bit_simps dest: bit_imp_le_length)
  then show ?thesis by (simp add: Uint16_def be16_def)
qed

lemma Uint32_be32 [simp]: "Uint32 (be32 w @ rest) = w"
proof -
  have "ucast (ucast (drop_bit 24 w) :: u8) = drop_bit 24 w"
    by (rule bit_word_eqI) (auto simp: bit_simps dest: bit_imp_le_length)
  then show ?thesis
    using uint_be_step [of 16 w] uint_be_step [of 8 w] by (simp add: Uint32_def be32_def)
qed

text \<open>Bits of small words, and a word whose high bits carry a marker.\<close>

lemma bit_less_exp: 
  assumes "unat w < 2 ^ k" "bit (w :: 'a::len word) n" shows "n < k"
proof -
  have "take_bit k (unat w) = unat w" using assms(1) by (simp add: take_bit_nat_eq_self_iff)
  moreover have "bit (unat w) n" using assms(2) by (simp add: bit_simps)
  ultimately have "bit (take_bit k (unat w)) n" by simp
  then show ?thesis by (simp add: bit_take_bit_iff)
qed

lemma low_bits_or:
  fixes x m :: "'a::len word"
  assumes "\<And>n. bit x n \<Longrightarrow> n < k" "\<And>n. bit m n \<Longrightarrow> k \<le> n"
  shows "drop_bit k (x OR m) = drop_bit k m" "(x OR m) AND mask k = x"
  using assms by (auto intro!: bit_word_eqI simp: bit_simps dest: bit_imp_le_length)
   (meson le_add1 not_less)+



section \<open>Maps as association lists\<close>

text \<open>
  A Go map whose size or iteration order matters is an association list with distinct keys;
  insertion and deletion are those of \<open>AList\<close>.
\<close>

lemma set_alist_delete [simp]: "set (AList.delete k al) = {p \<in> set al. fst p \<noteq> k}"
  by (induction al) auto

lemma distinct_alist_delete [simp]: "distinct (map fst al) \<Longrightarrow> distinct (map fst (AList.delete k al))"
  by (rule distinct_delete)

lemma distinct_alist_update [simp]: "distinct (map fst al) \<Longrightarrow> distinct (map fst (AList.update k v al))"
  by (rule distinct_update)

lemma set_alist_update [simp]:
  "distinct (map fst al) \<Longrightarrow> set (AList.update k v al) = insert (k, v) {p \<in> set al. fst p \<noteq> k}"
  by (induction al) (force simp: image_iff)+

lemma length_alist_update:
  "length (AList.update k v al) = (if k \<in> fst ` set al then length al else Suc (length al))"
  by (induction al) auto

lemma length_alist_delete:
  "distinct (map fst al) \<Longrightarrow>
   length (AList.delete k al) = (if k \<in> fst ` set al then length al - 1 else length al)"
proof (induction al)
  case (Cons p al)
  then show ?case by (cases al) (auto simp: image_iff)
qed simp

lemmas alist_conv = update_conv' delete_conv'

lemma map_of_in_fst: "map_of al k = Some v \<Longrightarrow> k \<in> fst ` set al"
  by (force dest: map_of_SomeD)

end
