(* ===== verification/Go_Strings.thy ===== *)
theory Go_Strings
  imports Prelude
begin

text \<open>
  The functions of packages \<open>strings\<close> and \<open>strconv\<close> the program calls, on strings as sequences of
  bytes. Case mapping and trimming are those of ASCII text: the strings they are applied to are host names, keywords and
  configuration values.
\<close>

section \<open>Package strings\<close>

fun split_on :: "char \<Rightarrow> string \<Rightarrow> string list" where
  "split_on c [] = [[]]"
| "split_on c (x # xs) =
     (if x = c then [] # split_on c xs
      else case split_on c xs of [] \<Rightarrow> [[x]] | p # ps \<Rightarrow> (x # p) # ps)"

text \<open>\<open>strings.SplitN(s, sep, 2)\<close>.\<close>

fun split2 :: "char \<Rightarrow> string \<Rightarrow> string list" where
  "split2 c [] = [[]]"
| "split2 c (x # xs) =
     (if x = c then [[], xs] else case split2 c xs of [] \<Rightarrow> [[x]] | p # ps \<Rightarrow> (x # p) # ps)"

definition HasPrefix :: "string \<Rightarrow> string \<Rightarrow> bool" where "HasPrefix s p = (take (length p) s = p)"
definition HasSuffix :: "string \<Rightarrow> string \<Rightarrow> bool" where "HasSuffix s p = HasPrefix (rev s) (rev p)"

fun Contains_str :: "string \<Rightarrow> string \<Rightarrow> bool" where
  "Contains_str [] p = (p = [])"
| "Contains_str (x # xs) p = (HasPrefix (x # xs) p \<or> Contains_str xs p)"

definition lower_char :: "char \<Rightarrow> char" where
  "lower_char c = (let n = of_char c in if 65 \<le> n \<and> n \<le> (90 :: nat) then char_of (n + 32) else c)"

definition ToLower :: "string \<Rightarrow> string" where "ToLower = map lower_char"

definition is_space :: "char \<Rightarrow> bool" where
  "is_space c = (of_char c \<in> {9, 10, 11, 12, 13, 32 :: nat})"

definition TrimSpace :: "string \<Rightarrow> string" where
  "TrimSpace s = rev (dropWhile is_space (rev (dropWhile is_space s)))"

definition TrimRight_char :: "char \<Rightarrow> string \<Rightarrow> string" where
  "TrimRight_char c s = rev (dropWhile (\<lambda>x. x = c) (rev s))"

lemma split_on_ne [simp]: "split_on c s \<noteq> []"
  by (cases s) (auto split: list.splits)

lemma split_on_no_sep: "c \<notin> set s \<Longrightarrow> split_on c s = [s]"
  by (induction s) auto

lemma split_on_append: "c \<notin> set a \<Longrightarrow> split_on c (a @ c # b) = a # split_on c b"
  by (induction a) auto


section \<open>Package strconv\<close>

datatype num_error = ErrSyntax | ErrRange

definition digit_val :: "char \<Rightarrow> nat option" where
  "digit_val c = (let n = of_char c in if 48 \<le> n \<and> n \<le> 57 then Some (n - 48) else None)"

text \<open>
  \<open>strconv.ParseUint(s, 10, bitSize)\<close>: the value, and the error. On a range error the value is the
  largest of the width.
\<close>

fun parse_digits :: "nat \<Rightarrow> nat \<Rightarrow> string \<Rightarrow> nat \<times> num_error option" where
  "parse_digits maxVal n [] = (n, None)"
| "parse_digits maxVal n (c # cs) =
     (case digit_val c of
        None \<Rightarrow> (0, Some ErrSyntax)
      | Some d \<Rightarrow> let n1 = 10 * n + d in if n1 > maxVal then (maxVal, Some ErrRange) else parse_digits maxVal n1 cs)"

definition ParseUint :: "nat \<Rightarrow> string \<Rightarrow> nat \<times> num_error option" where
  "ParseUint bitSize s = (if s = [] then (0, Some ErrSyntax) else parse_digits (2 ^ bitSize - 1) 0 s)"

definition digit_char :: "nat \<Rightarrow> char" where "digit_char d = char_of (48 + d)"

function FormatUint :: "nat \<Rightarrow> string" where
  "FormatUint n = (if n < 10 then [digit_char n] else FormatUint (n div 10) @ [digit_char (n mod 10)])"
  by pat_completeness auto
termination by (relation "measure id") auto

declare FormatUint.simps [simp del]

definition FormatBool :: "bool \<Rightarrow> string" where
  "FormatBool b = (if b then ''true'' else ''false'')"

definition ParseBool :: "string \<Rightarrow> bool \<times> num_error option" where
  "ParseBool s =
     (if s \<in> {''1'', ''t'', ''T'', ''TRUE'', ''true'', ''True''} then (True, None)
      else if s \<in> {''0'', ''f'', ''F'', ''FALSE'', ''false'', ''False''} then (False, None)
      else (False, Some ErrSyntax))"

lemma digit_val_char [simp]: "d < 10 \<Longrightarrow> digit_val (digit_char d) = Some d"
  by (simp add: digit_val_def digit_char_def of_char_of)

lemma parse_digits_append:
  "parse_digits m n xs = (k, None) \<Longrightarrow> parse_digits m n (xs @ ys) = parse_digits m k ys"
  by (induction m n xs rule: parse_digits.induct) (auto simp: Let_def split: option.splits if_splits)

lemma parse_FormatUint: "n \<le> m \<Longrightarrow> parse_digits m 0 (FormatUint n) = (n, None)"
proof (induction n rule: FormatUint.induct)
  case (1 n)
  show ?case
  proof (cases "n < 10")
    case True
    then show ?thesis using 1(2) by (subst FormatUint.simps) (simp add: Let_def)
  next
    case False
    have "n div 10 \<le> m" using 1(2) by (rule order_trans [rotated]) simp
    then have "parse_digits m 0 (FormatUint (n div 10)) = (n div 10, None)" using 1(1) False by simp
    then show ?thesis
      using False 1(2) parse_digits_append [of m 0 "FormatUint (n div 10)"]
      by (subst FormatUint.simps) (simp add: Let_def)
  qed
qed

lemma FormatUint_ne [simp]: "FormatUint n \<noteq> []"
  by (subst FormatUint.simps) simp

lemma ParseUint_FormatUint: "n < 2 ^ k \<Longrightarrow> ParseUint k (FormatUint n) = (n, None)"
  using parse_FormatUint [of n "2 ^ k - 1"] by (simp add: ParseUint_def)

lemma ParseBool_FormatBool [simp]: "ParseBool (FormatBool b) = (b, None)"
  by (simp add: ParseBool_def FormatBool_def)

lemma parse_digits_le: "n \<le> m \<Longrightarrow> fst (parse_digits m n s) \<le> m"
  by (induction m n s rule: parse_digits.induct) (auto simp: Let_def split: option.splits)

lemma FormatUint_digits: "set (FormatUint n) \<subseteq> digit_char ` {0..<10}"
proof (induction n rule: FormatUint.induct)
  case (1 n)
  then show ?case
    by (cases "n < 10"; subst FormatUint.simps) auto
qed

end
