(* ===== verification/Timesource.thy ===== *)
theory Timesource
  imports Go_Strings "HOL-Library.Multiset"
begin

text \<open>
  The repair of a broken clock at start-up (\<open>extras/timesource\<close>, \<open>app/cmd/timesync.go\<close>): an SNTP client that takes the median answer of several servers, a clock
  with one correction on top, and the rule that only a clock that is provably wrong is ever touched. The exchange with one server is an argument, its
  random nonce and the readings of the clocks included; \<open>sort.Slice\<close>, which is free to order equal offsets as it likes, is an argument as well.
\<close>

section \<open>The clock\<close>

definition clockStepThreshold :: duration where "clockStepThreshold = 15 * Second"

text \<open>\<open>Time.Sub\<close> saturates.\<close>

definition Sub :: "instant \<Rightarrow> instant \<Rightarrow> duration" where "Sub a b = max (- (2 ^ 63)) (min (2 ^ 63 - 1) (a - b))"

record Clock =
  corrected :: bool
  ck_offset :: duration
  anchorWall :: instant
  anchorMono :: duration

definition NewClock :: Clock where "NewClock = \<lparr>corrected = False, ck_offset = 0, anchorWall = 0, anchorMono = 0\<rparr>"

definition release :: "Clock \<Rightarrow> Clock" where "release c = c\<lparr>corrected := False, ck_offset := 0\<rparr>"

text \<open>Reading the clock while the system clock shows \<open>wall\<close> and the monotonic one \<open>mon\<close>.\<close>

definition Clock_Now :: "instant \<Rightarrow> duration \<Rightarrow> Clock \<Rightarrow> instant \<times> Clock" where
  "Clock_Now wall mon c =
     (if \<not> corrected c then (wall, c)
      else let expected = anchorWall c + (mon - anchorMono c); diff = Sub wall expected
           in if diff > clockStepThreshold \<or> diff < - clockStepThreshold then (wall, release c) else (wall + ck_offset c, c))"

definition Correct :: "duration \<Rightarrow> instant \<Rightarrow> duration \<Rightarrow> Clock \<Rightarrow> Clock" where
  "Correct off wall mon c = c\<lparr>corrected := True, ck_offset := off, anchorWall := wall, anchorMono := mon\<rparr>"


section \<open>The SNTP client\<close>

definition ntpPacketSize :: nat where "ntpPacketSize = 48"
definition ntpEpochOffset :: int where "ntpEpochOffset = 2208988800"
definition sntpClientHeader :: u8 where "sntpClientHeader = 0x23"
definition maxRoundTrip :: duration where "maxRoundTrip = 5 * Second"

datatype time_error =
    ErrNoServers | errShortPacket | errNotServerMode | errUnsynchronized | errBadStratum | errNonceMismatch | errZeroTimestamp | errBadRoundTrip
  | ContextError string
  | RandError string
  | ExchangeError string
  | ServerError string time_error
  | Joined "time_error list"
  | PredatesBuild string instant
  | ErrClockUnsynced instant instant time_error

record Result =
  Server :: string
  Time :: instant
  Offset :: duration
  RTT :: duration

definition ntpTime :: "bytes \<Rightarrow> instant" where
  "ntpTime b =
     (let sec = uint (Uint32 b); frac = uint (Uint32 (drop 4 b)); sec = (if sec < 2 ^ 31 then sec + 2 ^ 32 else sec); nsec = (frac * Second) div 2 ^ 32
      in (sec - ntpEpochOffset) * Second + nsec)"

text \<open>
  What happens in one query: the error of the context before it, the nonce, what the transport answers to a request, what the system clock reads when the
  answer has come and how much time the monotonic clock has counted in between.
\<close>

record exchange =
  ex_server :: string
  ex_ctx :: "string option"
  ex_nonce :: "string + bytes"
  ex_answer :: "bytes \<Rightarrow> string + bytes"
  ex_t4 :: instant
  ex_elapsed :: duration

definition sntp_request :: "bytes \<Rightarrow> bytes" where "sntp_request nonce = sntpClientHeader # make_bytes 39 @ nonce"

definition queryOne :: "exchange \<Rightarrow> time_error + Result" where
  "queryOne ex =
     (case ex_nonce ex of
        Inl e \<Rightarrow> Inl (RandError e)
      | Inr nonce \<Rightarrow>
         (case ex_answer ex (sntp_request nonce) of
            Inl e \<Rightarrow> Inl (ExchangeError e)
          | Inr resp \<Rightarrow>
              if length resp < ntpPacketSize then Inl errShortPacket
              else if drop_bit 6 (resp ! 0) = 3 then Inl errUnsynchronized
              else if resp ! 0 AND 7 \<noteq> 4 then Inl errNotServerMode
              else if resp ! 1 = 0 \<or> resp ! 1 > 15 then Inl errBadStratum
              else if take 8 (drop 24 resp) \<noteq> nonce then Inl errNonceMismatch
              else if take 8 (drop 40 resp) = make_bytes 8 then Inl errZeroTimestamp
              else
                let t2 = ntpTime (drop 32 resp); t3 = ntpTime (drop 40 resp); rtt = wrap64 (ex_elapsed ex - Sub t3 t2)
                in if rtt < 0 \<or> rtt > maxRoundTrip then Inl errBadRoundTrip
                   else let off = wrap64 (Sub t3 (ex_t4 ex) + go_div rtt 2)
                        in Inr \<lparr>Server = ex_server ex, Time = ex_t4 ex + off, Offset = off, RTT = rtt\<rparr>))"

fun query_loop :: "exchange list \<Rightarrow> Result list \<Rightarrow> time_error list \<Rightarrow> Result list \<times> time_error list" where
  "query_loop [] results errs = (results, errs)"
| "query_loop (ex # exs) results errs =
     (case ex_ctx ex of
        Some e \<Rightarrow> (results, errs @ [ContextError e])
      | None \<Rightarrow>
         (case queryOne ex of
            Inl e \<Rightarrow> query_loop exs results (errs @ [ServerError (ex_server ex) e])
          | Inr res \<Rightarrow> query_loop exs (results @ [res]) errs))"

definition Query :: "(Result list \<Rightarrow> Result list) \<Rightarrow> exchange list \<Rightarrow> time_error + Result" where
  "Query sorted_by exs =
     (if exs = [] then Inl ErrNoServers
      else let (results, errs) = query_loop exs [] []
           in if results = [] then Inl (Joined errs) else Inr (sorted_by results ! (length results div 2)))"


section \<open>The policy\<close>

text \<open>The zero time, which stands for an unknown build time, is \<open>None\<close>.\<close>

definition NeedsCorrection :: "instant \<Rightarrow> instant option \<Rightarrow> bool" where
  "NeedsCorrection here flr = (case flr of None \<Rightarrow> False | Some f \<Rightarrow> here < f)"

text \<open>The clock is read three times: before the query, after it, and when the correction is anchored.\<close>

definition Bootstrap :: "instant \<times> duration \<Rightarrow> instant \<times> duration \<Rightarrow> instant \<times> duration \<Rightarrow> time_error + Result \<Rightarrow> instant option \<Rightarrow> Clock
    \<Rightarrow> (time_error + bool) \<times> Clock" where
  "Bootstrap r1 r2 r3 src flr c =
     (let (here, c) = Clock_Now (fst r1) (snd r1) c
      in if \<not> NeedsCorrection here flr then (Inr False, c)
         else case src of
           Inl e \<Rightarrow> (Inl (ErrClockUnsynced here (the flr) e), c)
         | Inr res \<Rightarrow>
             if Time res < the flr then (Inl (ErrClockUnsynced here (the flr) (PredatesBuild (Server res) (Time res))), c)
             else let (now, c) = Clock_Now (fst r2) (snd r2) c in (Inr True, Correct (Sub (Time res) now) (fst r3) (snd r3) c))"

definition obfsNeedsTimestamps :: "string \<Rightarrow> bool" where "obfsNeedsTimestamps obfsType \<longleftrightarrow> ToLower obfsType = ''salamander-v2''"

definition bootstrapObfsClock :: "string \<Rightarrow> instant \<times> duration \<Rightarrow> instant \<times> duration \<Rightarrow> instant \<times> duration \<Rightarrow> time_error + Result \<Rightarrow> instant option
    \<Rightarrow> time_error + Clock option" where
  "bootstrapObfsClock obfsType r1 r2 r3 src flr =
     (if \<not> obfsNeedsTimestamps obfsType then Inr None
      else if flr = None then Inr None
      else case Bootstrap r1 r2 r3 src flr NewClock of
             (Inl e, _) \<Rightarrow> Inl e
           | (Inr False, _) \<Rightarrow> Inr None
           | (Inr True, c) \<Rightarrow> Inr (Some c))"


section \<open>One measurement\<close>

lemma Sub_id [simp]: "- (2 ^ 63) \<le> a - b \<Longrightarrow> a - b < 2 ^ 63 \<Longrightarrow> Sub a b = a - b"
  by (simp add: Sub_def)

lemma ntpTime_range: "(2 ^ 31 - ntpEpochOffset) * Second \<le> ntpTime b" "ntpTime b < (2 ^ 31 + 2 ^ 32 - ntpEpochOffset) * Second"
proof -
  let ?f = "uint (Uint32 (drop 4 b)) * Second div 2 ^ 32" and ?s = "uint (Uint32 b)"
  have u: "0 \<le> ?s" "?s < 2 ^ 32" "0 \<le> uint (Uint32 (drop 4 b))" "uint (Uint32 (drop 4 b)) < 2 ^ 32" by (auto intro: uint_lt2p [where 'a=32, simplified])
  have "0 \<le> k * Second div 2 ^ 32" "k * Second div 2 ^ 32 < Second" if "0 \<le> k" "k < 2 ^ 32" for k using that by simp_all
  then have f: "0 \<le> ?f" "?f < Second" using u(3,4) by blast+
  show "(2 ^ 31 - ntpEpochOffset) * Second \<le> ntpTime b" using u(1,2) f by (simp add: ntpTime_def Let_def algebra_simps)
  show "ntpTime b < (2 ^ 31 + 2 ^ 32 - ntpEpochOffset) * Second" using u(1,2) f by (auto simp add: ntpTime_def Let_def algebra_simps)
qed

text \<open>
  A server whose clock is \<open>ahead\<close> of the local one and right, which a request reaches after \<open>dout\<close> and whose answer arrives after \<open>din\<close>: its two timestamps say so.
\<close>

definition honest :: "duration \<Rightarrow> exchange \<Rightarrow> bool" where
  "honest ahead ex \<longleftrightarrow> \<bar>ahead\<bar> < 2 ^ 62 \<and>
     (\<forall>nonce resp. ex_nonce ex = Inr nonce \<longrightarrow> ex_answer ex (sntp_request nonce) = Inr resp \<longrightarrow>
        (\<exists>dout din. 0 \<le> dout \<and> 0 \<le> din \<and> dout + din < 2 ^ 62
           \<and> ntpTime (drop 40 resp) = ex_t4 ex - din + ahead
           \<and> ex_elapsed ex = dout + (ntpTime (drop 40 resp) - ntpTime (drop 32 resp)) + din))"

lemma queryOne_honest:
  assumes h: "honest ahead ex" and q: "queryOne ex = Inr res"
  shows "Time res = ex_t4 ex + Offset res" "\<bar>Offset res - ahead\<bar> \<le> 2500000000"
proof -
  obtain nonce resp where a: "ex_nonce ex = Inr nonce" "ex_answer ex (sntp_request nonce) = Inr resp"
    using q by (auto simp: queryOne_def split: sum.splits)
  let ?t2 = "ntpTime (drop 32 resp)" and ?t3 = "ntpTime (drop 40 resp)"
  obtain dout din where d: "0 \<le> dout" "0 \<le> din" "dout + din < 2 ^ 62" "?t3 = ex_t4 ex - din + ahead" "ex_elapsed ex = dout + (?t3 - ?t2) + din"
    using h a by (auto simp: honest_def)
  have ah: "\<bar>ahead\<bar> < 2 ^ 62" using h by (simp add: honest_def)
  have s32: "Sub ?t3 ?t2 = ?t3 - ?t2" using ntpTime_range [of "drop 32 resp"] ntpTime_range [of "drop 40 resp"] by (intro Sub_id) (simp_all add: ntpEpochOffset_def)
  have s34: "Sub ?t3 (ex_t4 ex) = ahead - din" using d ah by (subst Sub_id) (simp_all add: d(4))
  have rtt: "wrap64 (ex_elapsed ex - Sub ?t3 ?t2) = dout + din" unfolding s32 d(5) using d(1-3) by (simp add: wrap64_id)
  have le: "dout + din \<le> maxRoundTrip" and res: "res = \<lparr>Server = ex_server ex, Time = ex_t4 ex + wrap64 (ahead - din + (dout + din) div 2),
      Offset = wrap64 (ahead - din + (dout + din) div 2), RTT = dout + din\<rparr>"
    using q d(1,2) unfolding queryOne_def a sum.case Let_def rtt s34 by (auto split: if_splits)
  have "wrap64 (ahead - din + (dout + din) div 2) = ahead - din + (dout + din) div 2"
  proof (intro wrap64_id)
    define h where "h = (dout + din) div 2"
    have half: "0 \<le> h" "h \<le> 2500000000" "din \<le> 5000000000" using le d(1,2) by (simp_all add: h_def maxRoundTrip_def)
    show "- (2 ^ 63) \<le> ahead - din + (dout + din) div 2" using half ah unfolding h_def [symmetric] by (simp add: abs_less_iff)
    show "ahead - din + (dout + din) div 2 < 2 ^ 63" using half ah d(2) unfolding h_def [symmetric] by (simp add: abs_less_iff)
  qed
  moreover have "\<bar>(dout + din) div 2 - din\<bar> \<le> 2500000000"
  proof -
    have "dout + din = 2 * ((dout + din) div 2) + (dout + din) mod 2" "0 \<le> (dout + din) mod 2" "(dout + din) mod 2 < 2" by simp_all
    then show ?thesis using le d(1,2) unfolding maxRoundTrip_def abs_le_iff time_units by linarith
  qed
  ultimately show "Time res = ex_t4 ex + Offset res" "\<bar>Offset res - ahead\<bar> \<le> 2500000000" by (simp_all add: res)
qed



section \<open>The median\<close>

definition sorts :: "(Result list \<Rightarrow> Result list) \<Rightarrow> bool" where
  "sorts srt \<longleftrightarrow> (\<forall>rs. mset (srt rs) = mset rs \<and> sorted (map Offset (srt rs)))"

lemma length_filter_mset: "mset xs = mset ys \<Longrightarrow> length (filter P xs) = length (filter P ys)"
  by (metis mset_filter size_mset)

lemma length_filter_mono: "(\<And>x. x \<in> set xs \<Longrightarrow> P x \<Longrightarrow> Q x) \<Longrightarrow> length (filter P xs) \<le> length (filter Q xs)"
  by (induction xs) (auto simp: le_SucI)

lemma sorted_median:
  fixes f :: "'a \<Rightarrow> int"
  assumes srt: "sorted (map f ys)" and half: "length ys < 2 * length (filter (\<lambda>r. lo \<le> f r \<and> f r \<le> hi) ys)"
  shows "lo \<le> f (ys ! (length ys div 2)) \<and> f (ys ! (length ys div 2)) \<le> hi"
proof -
  let ?k = "length ys div 2" and ?P = "\<lambda>r. lo \<le> f r \<and> f r \<le> hi"
  have k: "?k < length ys" using half by (cases ys) simp_all
  have cut: "length (filter ?P ys) = length (filter ?P (take j ys)) + length (filter ?P (drop j ys))" for j
    by (metis append_take_drop_id filter_append length_append)
  have mon: "f (ys ! i) \<le> f (ys ! j)" if "i \<le> j" "j < length ys" for i j
    using sorted_nth_mono [OF srt that(1)] that by simp
  have "\<not> f (ys ! ?k) < lo"
  proof
    assume low: "f (ys ! ?k) < lo"
    have "f r < lo" if "r \<in> set (take (Suc ?k) ys)" for r
      using that mon [of _ ?k] k low by (fastforce simp: in_set_conv_nth less_Suc_eq_le)
    then have "filter ?P (take (Suc ?k) ys) = []" by (fastforce simp: filter_empty_conv)
    then have "length (filter ?P ys) \<le> length ys - Suc ?k" using cut [of "Suc ?k"] length_filter_le [of ?P "drop (Suc ?k) ys"] by simp
    then show False using half by simp
  qed
  moreover have "\<not> hi < f (ys ! ?k)"
  proof
    assume high: "hi < f (ys ! ?k)"
    have "hi < f r" if r: "r \<in> set (drop ?k ys)" for r
    proof -
      obtain j where "j < length ys - ?k" "r = ys ! (?k + j)" using r by (auto simp: in_set_conv_nth)
      moreover have "?k + j < length ys" using \<open>j < length ys - ?k\<close> by simp
      ultimately show ?thesis using mon [of ?k "?k + j"] high by simp
    qed
    then have "filter ?P (drop ?k ys) = []" by (fastforce simp: filter_empty_conv)
    then have "length (filter ?P ys) \<le> ?k" using cut [of ?k] length_filter_le [of ?P "take ?k ys"] by simp
    then show False using half by simp
  qed
  ultimately show ?thesis by simp
qed

text \<open>The answers of a run, each with the exchange it comes from; what comes after the end of the context is not asked.\<close>

fun answers :: "exchange list \<Rightarrow> (exchange \<times> Result) list" where
  "answers [] = []"
| "answers (ex # exs) = (if ex_ctx ex \<noteq> None then [] else case queryOne ex of Inl _ \<Rightarrow> answers exs | Inr r \<Rightarrow> (ex, r) # answers exs)"

lemma query_loop_answers: "fst (query_loop exs rs errs) = rs @ map snd (answers exs)"
  by (induction exs arbitrary: rs errs) (auto split: option.splits sum.splits)

lemma answers_queryOne: "(ex, r) \<in> set (answers exs) \<Longrightarrow> ex \<in> set exs \<and> queryOne ex = Inr r"
  by (induction exs) (auto split: if_splits sum.splits)

lemma Query_median:
  assumes srt: "sorts srt" and q: "Query srt exs = Inr res"
    and most: "length (answers exs) < 2 * length (filter (\<lambda>(ex, r). honest ahead ex) (answers exs))"
  shows "\<bar>Offset res - ahead\<bar> \<le> 2500000000" "\<exists>ex. (ex, res) \<in> set (answers exs)"
proof -
  let ?as = "answers exs" and ?P = "\<lambda>r. ahead - 2500000000 \<le> Offset r \<and> Offset r \<le> ahead + 2500000000"
  let ?rs = "map snd ?as"
  have rs: "fst (query_loop exs [] []) = ?rs" by (simp add: query_loop_answers)
  then have res: "res = srt ?rs ! (length ?rs div 2)" and ne: "?rs \<noteq> []" using q by (auto simp: Query_def split: if_splits prod.splits)
  have m: "mset (srt ?rs) = mset ?rs" and s: "sorted (map Offset (srt ?rs))" using srt by (auto simp: sorts_def)
  have len: "length (srt ?rs) = length ?rs" using m by (metis size_mset)
  have "?P r" if "(ex, r) \<in> set ?as" "honest ahead ex" for ex r
    using queryOne_honest(2) [OF that(2)] answers_queryOne [OF that(1)] by (fastforce simp: abs_le_iff)
  then have "length (filter (\<lambda>(ex, r). honest ahead ex) ?as) \<le> length (filter (\<lambda>p. ?P (snd p)) ?as)"
    by (intro length_filter_mono) auto
  also have "\<dots> = length (filter ?P (srt ?rs))"
    by (simp add: length_filter_mset [OF m] filter_map comp_def)
  finally have "length (srt ?rs) < 2 * length (filter ?P (srt ?rs))" using most len by simp
  from sorted_median [OF s this] show "\<bar>Offset res - ahead\<bar> \<le> 2500000000" unfolding res len [symmetric] by (auto simp: abs_le_iff)
  have "length ?rs div 2 < length (srt ?rs)" using ne unfolding len by (cases ?rs) simp_all
  then have "res \<in> set (srt ?rs)" unfolding res by (rule nth_mem)
  then show "\<exists>ex. (ex, res) \<in> set ?as" using mset_eq_setD [OF m] by force
qed



section \<open>A repaired clock\<close>

lemma Clock_Now_corrected:
  assumes "c = Correct off wall mon NewClock"
  shows "\<bar>w - (wall + (m - mon))\<bar> \<le> clockStepThreshold \<Longrightarrow> Clock_Now w m c = (w + off, c)"
    "\<not> \<bar>w - (wall + (m - mon))\<bar> \<le> clockStepThreshold \<Longrightarrow> Clock_Now w m c = (w, release c)"
  by (auto simp: assms Clock_Now_def Correct_def NewClock_def clockStepThreshold_def Sub_def Let_def abs_le_iff)

text \<open>
  C40. The repair of a clock touches no clock that may be right, and repairs one that is not. If the system clock does not read earlier than the build, or the
  build time is unknown, the clock stays as it is, whatever a time source would say. Otherwise, if more than half of the servers that answered are right, a
  successful repair leaves a clock that is wrong by at most 2.5 seconds plus the time that passed between the measurement that was taken and its adoption -
  the queries of the servers asked after it included - and does not read earlier than the build; and it does succeed when the measurement is not before the
  build. When somebody steps the system clock by more than 15 seconds the correction is given up for good.
\<close>

theorem clock_repair:
  assumes srt: "sorts srt" and q: "Query srt exs = Inr res"
    and most: "length (answers exs) < 2 * length (filter (\<lambda>(ex, r). honest ahead ex) (answers exs))"
    and time: "\<forall>ex \<in> set exs. 0 \<le> w2 - ex_t4 ex \<and> w2 - ex_t4 ex < 2 ^ 61"
  shows "(\<not> NeedsCorrection w1 flr \<longrightarrow> Bootstrap (w1, m1) r2 r3 src flr NewClock = (Inr False, NewClock))
    \<and> (w1 < f \<longrightarrow> f \<le> Time res \<longrightarrow> fst (Bootstrap (w1, m1) (w2, m2) (w3, m3) (Inr res) (Some f) NewClock) = Inr True)
    \<and> (Bootstrap (w1, m1) (w2, m2) (w3, m3) (Inr res) (Some f) NewClock = (Inr True, c) \<longrightarrow>
      f \<le> Time res \<and> (\<exists>ex \<in> set exs. queryOne ex = Inr res
        \<and> (\<forall>w m. if \<bar>w - (w3 + (m - m3))\<bar> \<le> clockStepThreshold
              then \<exists>t. Clock_Now w m c = (t, c) \<and> \<bar>t - (w + ahead) + (w2 - ex_t4 ex)\<bar> \<le> 2500000000
              else Clock_Now w m c = (w, release c) \<and> (\<forall>w m. Clock_Now w m (release c) = (w, release c)))))"
proof -
  have new: "Clock_Now w m NewClock = (w, NewClock)" for w m by (simp add: Clock_Now_def NewClock_def)
  have b: "Bootstrap (w1, m1) (w2, m2) (w3, m3) (Inr res) (Some f) NewClock =
      (if w1 < f then if Time res < f then (Inl (ErrClockUnsynced w1 f (PredatesBuild (Server res) (Time res))), NewClock)
                      else (Inr True, Correct (Sub (Time res) w2) w3 m3 NewClock)
       else (Inr False, NewClock))"
    by (simp add: Bootstrap_def new NeedsCorrection_def)
  have part1: "\<not> NeedsCorrection w1 flr \<longrightarrow> Bootstrap (w1, m1) r2 r3 src flr NewClock = (Inr False, NewClock)" by (simp add: Bootstrap_def new)
  have part2: "w1 < f \<longrightarrow> f \<le> Time res \<longrightarrow> fst (Bootstrap (w1, m1) (w2, m2) (w3, m3) (Inr res) (Some f) NewClock) = Inr True" by (simp add: b)
  have off: "\<bar>Offset res - ahead\<bar> \<le> 2500000000" by (rule Query_median(1) [OF srt q most])
  obtain ex where ex: "(ex, res) \<in> set (answers exs)" using Query_median(2) [OF srt q most] by blast
  have e: "ex \<in> set exs" "queryOne ex = Inr res" using answers_queryOne [OF ex] by simp_all
  have t: "Time res = ex_t4 ex + Offset res" using e(2) by (auto simp: queryOne_def Let_def split: sum.splits if_splits)
  have "filter (\<lambda>(ex, r). honest ahead ex) (answers exs) \<noteq> []" using most by auto
  then have "\<bar>ahead\<bar> < 2 ^ 62" by (auto simp: honest_def filter_empty_conv)
  then have sub: "Sub (Time res) w2 = Offset res - (w2 - ex_t4 ex)" using off bspec [OF time e(1)] by (subst Sub_id) (simp_all add: t abs_less_iff abs_le_iff)
  have part3: "Bootstrap (w1, m1) (w2, m2) (w3, m3) (Inr res) (Some f) NewClock = (Inr True, c) \<longrightarrow>
      f \<le> Time res \<and> (\<exists>ex \<in> set exs. queryOne ex = Inr res
        \<and> (\<forall>w m. if \<bar>w - (w3 + (m - m3))\<bar> \<le> clockStepThreshold
              then \<exists>t. Clock_Now w m c = (t, c) \<and> \<bar>t - (w + ahead) + (w2 - ex_t4 ex)\<bar> \<le> 2500000000
              else Clock_Now w m c = (w, release c) \<and> (\<forall>w m. Clock_Now w m (release c) = (w, release c))))"
  proof
    assume "Bootstrap (w1, m1) (w2, m2) (w3, m3) (Inr res) (Some f) NewClock = (Inr True, c)"
    then have f: "f \<le> Time res" and c: "c = Correct (Sub (Time res) w2) w3 m3 NewClock" by (simp_all add: b split: if_splits)
    have rel: "Clock_Now w m (release c) = (w, release c)" for w m by (simp add: Clock_Now_def release_def)
    have "if \<bar>w - (w3 + (m - m3))\<bar> \<le> clockStepThreshold
          then \<exists>t. Clock_Now w m c = (t, c) \<and> \<bar>t - (w + ahead) + (w2 - ex_t4 ex)\<bar> \<le> 2500000000
          else Clock_Now w m c = (w, release c) \<and> (\<forall>w m. Clock_Now w m (release c) = (w, release c))" for w m
      using Clock_Now_corrected [OF c, of w m] off rel by (simp add: sub)
    then show "f \<le> Time res \<and> (\<exists>ex \<in> set exs. queryOne ex = Inr res
        \<and> (\<forall>w m. if \<bar>w - (w3 + (m - m3))\<bar> \<le> clockStepThreshold
              then \<exists>t. Clock_Now w m c = (t, c) \<and> \<bar>t - (w + ahead) + (w2 - ex_t4 ex)\<bar> \<le> 2500000000
              else Clock_Now w m c = (w, release c) \<and> (\<forall>w m. Clock_Now w m (release c) = (w, release c))))"
      using f e by blast
  qed
  show ?thesis using part1 part2 part3 by (intro conjI)
qed

text \<open>One server, asked by a host that has booted in 1970.\<close>

definition time_example :: exchange where
  "time_example = \<lparr>ex_server = ''time.google.com:123'', ex_ctx = None, ex_nonce = Inr [1, 2, 3, 4, 5, 6, 7, 8],
     ex_answer = (\<lambda>req. Inr ([0x24, 1] @ make_bytes 22 @ drop 40 req @ [0xE8, 0, 0, 0, 0, 0, 0, 0] @ [0xE8, 0, 0, 0, 0, 0, 0, 0])),
     ex_t4 = 100000000, ex_elapsed = 100000000\<rparr>"

lemma time_example_result:
  "queryOne time_example = Inr \<lparr>Server = ''time.google.com:123'', Time = 1683325312050000000, Offset = 1683325311950000000, RTT = 100000000\<rparr>"
  by code_simp

lemma time_example_honest: "honest 1683325311950000000 time_example"
proof -
  have ctx: "ex_t4 time_example = 100000000" "ex_elapsed time_example = 100000000" by (simp_all add: time_example_def)
  have r: "ex_answer time_example (sntp_request [1, 2, 3, 4, 5, 6, 7, 8]) = Inr resp \<Longrightarrow> ntpTime (drop 32 resp) = 1683325312000000000 \<and> ntpTime (drop 40 resp) = 1683325312000000000" for resp
  proof -
    assume "ex_answer time_example (sntp_request [1, 2, 3, 4, 5, 6, 7, 8]) = Inr resp"
    then have resp: "resp = [0x24, 1] @ make_bytes 22 @ drop 40 (sntp_request [1, 2, 3, 4, 5, 6, 7, 8]) @ [0xE8, 0, 0, 0, 0, 0, 0, 0] @ [0xE8, 0, 0, 0, 0, 0, 0, 0]"
      by (simp add: time_example_def)
    show ?thesis unfolding resp by code_simp
  qed
  show ?thesis unfolding honest_def
  proof (intro conjI allI impI)
    fix nonce resp assume "ex_nonce time_example = Inr nonce" "ex_answer time_example (sntp_request nonce) = Inr resp"
    then have "nonce = [1, 2, 3, 4, 5, 6, 7, 8]" by (simp add: time_example_def)
    then show "\<exists>dout din. 0 \<le> dout \<and> 0 \<le> din \<and> dout + din < 2 ^ 62 \<and> ntpTime (drop 40 resp) = ex_t4 time_example - din + 1683325311950000000
        \<and> ex_elapsed time_example = dout + (ntpTime (drop 40 resp) - ntpTime (drop 32 resp)) + din"
      using r [of resp] \<open>ex_answer time_example (sntp_request nonce) = Inr resp\<close> by (intro exI [of _ 50000000]) (simp add: ctx)
  qed simp
qed

theorem clock_repair_witness:
  "\<exists>res c. Query (sort_key Offset) [time_example] = Inr res
     \<and> Bootstrap (0, 0) (Second, Second) (Second, Second) (Inr res) (Some (1600000000 * Second)) NewClock = (Inr True, c)
     \<and> (\<exists>t. Clock_Now (60 * Second) (60 * Second) c = (t, c) \<and> \<bar>t - (60 * Second + 1683325311950000000) + 900000000\<bar> \<le> 2500000000)"
proof -
  let ?res = "\<lparr>Server = ''time.google.com:123'', Time = 1683325312050000000, Offset = 1683325311950000000, RTT = 100000000\<rparr>"
  have ctx: "ex_ctx time_example = None" "ex_t4 time_example = 100000000" by (simp_all add: time_example_def)
  have q: "Query (sort_key Offset) [time_example] = Inr ?res" by (simp add: Query_def time_example_result ctx)
  have srt: "sorts (sort_key Offset)" by (simp add: sorts_def)
  have most: "length (answers [time_example]) < 2 * length (filter (\<lambda>(ex, r). honest 1683325311950000000 ex) (answers [time_example]))"
    by (simp add: time_example_result ctx time_example_honest)
  have time: "\<forall>ex \<in> set [time_example]. 0 \<le> Second - ex_t4 ex \<and> Second - ex_t4 ex < 2 ^ 61" by (simp add: ctx)
  note r = clock_repair [OF srt q most time, of 0 "Some 0" 0 "(0, 0)" "(0, 0)" "Inr ?res" "1600000000 * Second" Second Second Second]
  let ?b = "Bootstrap (0, 0) (Second, Second) (Second, Second) (Inr ?res) (Some (1600000000 * Second)) NewClock"
  have "fst ?b = Inr True" using r [THEN conjunct2, THEN conjunct1] by simp
  then obtain c where c: "?b = (Inr True, c)" by (metis prod.collapse)
  have "\<exists>t. Clock_Now (60 * Second) (60 * Second) c = (t, c) \<and> \<bar>t - (60 * Second + 1683325311950000000) + 900000000\<bar> \<le> 2500000000"
    using r [THEN conjunct2, THEN conjunct2, THEN mp, OF c]
    by (auto simp: ctx clockStepThreshold_def dest!: spec [of _ 60000000000])
  then show ?thesis using q c by blast
qed

end
