(* ===== verification/Punch_Packet.thy ===== *)
theory Punch_Packet
  imports Prelude
begin

text \<open>
  Key derivation (\<open>extras/crypto/kdf.go\<close>) and the packets of hole punching (\<open>extras/realm/punch.go\<close>): a salt, a header masked with a
  hash of the realm's key and the salt, and random padding up to a chosen length. SHA-256, Argon2id and HKDF are arguments, as are
  the random bytes.
\<close>

section \<open>Key derivation\<close>

definition CtxSalamanderV2Root :: string where "CtxSalamanderV2Root = ''chameleon/obfs/salamander-v2/root''"
definition CtxPunchMask :: string where "CtxPunchMask = ''chameleon/punch-mask-v1''"
definition rootKeyLen :: nat where "rootKeyLen = 32"
definition MinPasswordLen :: nat where "MinPasswordLen = 4"
definition MinSecretLen :: nat where "MinSecretLen = 32"

record kdf_env =
  Sum256 :: "bytes \<Rightarrow> bytes"
  IDKey :: "bytes \<Rightarrow> bytes \<Rightarrow> bytes"
  Expand :: "bytes \<Rightarrow> string \<Rightarrow> nat \<Rightarrow> string + bytes"

type_synonym rootKeyCache = "bytes \<times> string \<rightharpoonup> bytes"

text \<open>\<open>IDKey password salt\<close> is \<open>argon2.IDKey\<close> at the protocol's cost parameters and the length of a root key.\<close>

definition stretch :: "kdf_env \<Rightarrow> bytes \<Rightarrow> string \<Rightarrow> bytes" where
  "stretch env password realm =
     (let saltInput = Sum256 env (bytes_of (CtxSalamanderV2Root @ [char_of (0::nat)] @ realm)) in IDKey env password (take 16 saltInput))"

definition StretchPassword :: "kdf_env \<Rightarrow> bytes \<Rightarrow> string \<Rightarrow> rootKeyCache \<Rightarrow> rootKeyCache \<times> (string + bytes)" where
  "StretchPassword env password realm cache =
     (if length password < MinPasswordLen then (cache, Inl ''password must be at least 4 bytes'')
      else
        let ck = (Sum256 env password, realm)
        in case cache ck of
             Some v \<Rightarrow> (cache, Inr v)
           | None \<Rightarrow> let rk = fill rootKeyLen (stretch env password realm) in (cache(ck \<mapsto> rk), Inr rk))"

definition DeriveSubkey :: "kdf_env \<Rightarrow> bytes \<Rightarrow> string \<Rightarrow> nat \<Rightarrow> string + bytes" where
  "DeriveSubkey env root ctx len = Expand env root ctx len"

definition DeriveFromSecret :: "kdf_env \<Rightarrow> bytes \<Rightarrow> string \<Rightarrow> nat \<Rightarrow> string + bytes" where
  "DeriveFromSecret env secret ctx len =
     (if length secret < MinSecretLen then Inl ''secret must be at least 32 bytes'' else Expand env secret ctx len)"

text \<open>The cache is invisible: what is in it is what would be derived, for passwords the hash tells apart.\<close>

definition cache_ok :: "kdf_env \<Rightarrow> rootKeyCache \<Rightarrow> bool" where
  "cache_ok env cache \<longleftrightarrow> (\<forall>password realm v. cache (Sum256 env password, realm) = Some v \<longrightarrow> v = fill rootKeyLen (stretch env password realm))"

lemma StretchPassword_cached:
  assumes "inj (Sum256 env)" and "cache_ok env cache"
  shows "snd (StretchPassword env password realm cache) =
      (if length password < 4 then Inl ''password must be at least 4 bytes'' else Inr (fill rootKeyLen (stretch env password realm)))"
    and "cache_ok env (fst (StretchPassword env password realm cache))"
  using assms
  by (auto simp: StretchPassword_def cache_ok_def MinPasswordLen_def Let_def inj_eq split: option.splits if_splits)


section \<open>Punch packets\<close>

definition PunchNonceSize :: nat where "PunchNonceSize = 16"
definition punchSaltLen :: nat where "punchSaltLen = 8"
definition punchHeaderLen :: nat where "punchHeaderLen = 8 + 1 + PunchNonceSize"
definition punchMinWireLen :: nat where "punchMinWireLen = punchSaltLen + punchHeaderLen"
definition punchMaxWireLen :: nat where "punchMaxWireLen = 1484"
definition punchMaskKeyLen :: nat where "punchMaskKeyLen = 32"
definition punchFallbackMinLen :: nat where "punchFallbackMinLen = 1280"
definition punchFallbackMaxLen :: nat where "punchFallbackMaxLen = 1473"

lemmas punch_consts = PunchNonceSize_def punchSaltLen_def punchHeaderLen_def punchMinWireLen_def punchMaxWireLen_def punchMaskKeyLen_def
  punchFallbackMinLen_def punchFallbackMaxLen_def

definition punchMagic :: bytes where "punchMagic = bytes_of ''CHRLMv3'' @ [0]"

datatype punch_error =
    ErrPunchMaskRequired
  | ErrInvalidNonce
  | ErrInvalidNonceLength
  | ErrWireLength
  | errPunchPacketTooShort
  | errPunchPacketTooLong
  | errPunchBadMagic
  | errPunchUnknownType
  | errPunchNonceMismatch
  | errPunchRand

type_synonym PunchPacketType = u8

definition PunchPacketHello :: PunchPacketType where "PunchPacketHello = 1"
definition PunchPacketAck :: PunchPacketType where "PunchPacketAck = 2"

record PunchPacket =
  Type :: PunchPacketType
  PaddingLength :: nat

record PunchMetadata =
  Nonce :: string
  Obfs_key :: string

type_synonym PunchMask = bytes

definition NewPunchMask :: "kdf_env \<Rightarrow> bytes \<Rightarrow> string \<Rightarrow> rootKeyCache \<Rightarrow> rootKeyCache \<times> (string + PunchMask)" where
  "NewPunchMask env password realmName cache =
     (case StretchPassword env password realmName cache of
        (c, Inl e) \<Rightarrow> (c, Inl e)
      | (c, Inr root) \<Rightarrow> (c, DeriveSubkey env root CtxPunchMask punchMaskKeyLen))"

definition mask_valid :: "PunchMask \<Rightarrow> bool" where "mask_valid m \<longleftrightarrow> length m = punchMaskKeyLen"

definition mask_equal :: "PunchMask \<Rightarrow> PunchMask \<Rightarrow> bool" where "mask_equal m other \<longleftrightarrow> m = other"

record punchKey =
  key_nonce :: bytes
  key_mask :: PunchMask

record punchHeader =
  packetType :: PunchPacketType
  ph_nonce :: bytes

text \<open>\<open>hex.DecodeString\<close>.\<close>

definition hex_val :: "char \<Rightarrow> nat option" where
  "hex_val c =
     (let n = of_char c
      in if 48 \<le> n \<and> n \<le> 57 then Some (n - 48) else if 97 \<le> n \<and> n \<le> 102 then Some (n - 87) else if 65 \<le> n \<and> n \<le> 70 then Some (n - 55) else None)"

fun hex_decode :: "string \<Rightarrow> bytes option" where
  "hex_decode [] = Some []"
| "hex_decode [_] = None"
| "hex_decode (a # b # cs) =
     (case (hex_val a, hex_val b, hex_decode cs) of (Some x, Some y, Some bs) \<Rightarrow> Some (of_nat (16 * x + y) # bs) | _ \<Rightarrow> None)"

definition decodeHexSize :: "string \<Rightarrow> nat \<Rightarrow> punch_error + bytes" where
  "decodeHexSize value n =
     (case hex_decode value of None \<Rightarrow> Inl ErrInvalidNonce | Some b \<Rightarrow> if length b \<noteq> n then Inl ErrInvalidNonceLength else Inr b)"

definition newPunchKey :: "PunchMetadata \<Rightarrow> PunchMask \<Rightarrow> punch_error + punchKey" where
  "newPunchKey meta m =
     (if \<not> mask_valid m then Inl ErrPunchMaskRequired
      else case decodeHexSize (Nonce meta) PunchNonceSize of Inl e \<Rightarrow> Inl e | Inr n \<Rightarrow> Inr \<lparr>key_nonce = n, key_mask = m\<rparr>)"

definition validPunchPacketType :: "PunchPacketType \<Rightarrow> bool" where
  "validPunchPacketType t \<longleftrightarrow> t = PunchPacketHello \<or> t = PunchPacketAck"

definition validPunchWireLen :: "int \<Rightarrow> bool" where
  "validPunchWireLen n \<longleftrightarrow> n \<ge> int punchMinWireLen \<and> n \<le> int punchMaxWireLen"

definition clampPunchWireLen :: "int \<Rightarrow> nat" where
  "clampPunchWireLen n = nat (min (max n (int punchMinWireLen)) (int punchMaxWireLen))"

text \<open>\<open>randomUint\<close>, with the four random bytes as an argument.\<close>

definition randomUint :: "bytes option \<Rightarrow> nat \<Rightarrow> punch_error + nat" where
  "randomUint r n =
     (if n \<le> 1 then Inr 0
      else case r of None \<Rightarrow> Inl errPunchRand | Some buf \<Rightarrow> Inr (unat (Uint32 buf mod of_nat n)))"

definition fallbackPunchWireLen :: "bytes option \<Rightarrow> punch_error + nat" where
  "fallbackPunchWireLen r =
     (case randomUint r (punchFallbackMaxLen - punchFallbackMinLen + 1) of Inl e \<Rightarrow> Inl e | Inr n \<Rightarrow> Inr (punchFallbackMinLen + n))"

definition xorPunchHeader :: "(bytes \<Rightarrow> bytes) \<Rightarrow> PunchMask \<Rightarrow> bytes \<Rightarrow> bytes \<Rightarrow> bytes" where
  "xorPunchHeader sha m salt header = map2 (XOR) header (sha (m @ salt))"

text \<open>\<open>rand\<close> is what \<open>rand.Read\<close> leaves in a buffer of the given length, or its failure.\<close>

definition encodePunchPacket :: "(bytes \<Rightarrow> bytes) \<Rightarrow> (nat \<Rightarrow> bytes option) \<Rightarrow> PunchPacketType \<Rightarrow> punchKey \<Rightarrow> int \<Rightarrow> punch_error + bytes" where
  "encodePunchPacket sha rand t key wireLen =
     (if \<not> validPunchPacketType t then Inl errPunchUnknownType
      else if \<not> mask_valid (key_mask key) then Inl ErrPunchMaskRequired
      else
        let n = clampPunchWireLen wireLen
        in case rand n of
             None \<Rightarrow> Inl errPunchRand
           | Some r \<Rightarrow>
               let packet = fill n r; salt = take punchSaltLen packet;
                   header = xorPunchHeader sha (key_mask key) salt (punchMagic @ [t] @ key_nonce key)
               in Inr (salt @ header @ drop punchMinWireLen packet))"

definition EncodePunchPacketAt :: "(bytes \<Rightarrow> bytes) \<Rightarrow> (nat \<Rightarrow> bytes option) \<Rightarrow> PunchPacketType \<Rightarrow> PunchMetadata \<Rightarrow> PunchMask \<Rightarrow> int \<Rightarrow> punch_error + bytes" where
  "EncodePunchPacketAt sha rand t meta m wireLen =
     (case newPunchKey meta m of
        Inl e \<Rightarrow> Inl e
      | Inr key \<Rightarrow> if \<not> validPunchWireLen wireLen then Inl ErrWireLength else encodePunchPacket sha rand t key wireLen)"

definition EncodePunchPacket :: "(bytes \<Rightarrow> bytes) \<Rightarrow> bytes option \<Rightarrow> (nat \<Rightarrow> bytes option) \<Rightarrow> PunchPacketType \<Rightarrow> PunchMetadata \<Rightarrow> PunchMask \<Rightarrow> punch_error + bytes" where
  "EncodePunchPacket sha r rand t meta m =
     (case fallbackPunchWireLen r of Inl e \<Rightarrow> Inl e | Inr wireLen \<Rightarrow> EncodePunchPacketAt sha rand t meta m (int wireLen))"

definition unmaskPunchHeader :: "(bytes \<Rightarrow> bytes) \<Rightarrow> bytes \<Rightarrow> PunchMask \<Rightarrow> punch_error + punchHeader" where
  "unmaskPunchHeader sha packet m =
     (if \<not> mask_valid m then Inl ErrPunchMaskRequired
      else if length packet < punchMinWireLen then Inl errPunchPacketTooShort
      else if length packet > punchMaxWireLen then Inl errPunchPacketTooLong
      else
        let header = xorPunchHeader sha m (take punchSaltLen packet) (take punchHeaderLen (drop punchSaltLen packet))
        in if take 8 header \<noteq> punchMagic then Inl errPunchBadMagic
           else if \<not> validPunchPacketType (header ! 8) then Inl errPunchUnknownType
           else Inr \<lparr>packetType = header ! 8, ph_nonce = drop 9 header\<rparr>)"

definition decodePunchPacket :: "(bytes \<Rightarrow> bytes) \<Rightarrow> bytes \<Rightarrow> punchKey \<Rightarrow> punch_error + PunchPacket" where
  "decodePunchPacket sha packet key =
     (case unmaskPunchHeader sha packet (key_mask key) of
        Inl e \<Rightarrow> Inl e
      | Inr header \<Rightarrow>
          if ph_nonce header \<noteq> key_nonce key then Inl errPunchNonceMismatch
          else Inr \<lparr>Type = packetType header, PaddingLength = length packet - punchMinWireLen\<rparr>)"

definition DecodePunchPacket :: "(bytes \<Rightarrow> bytes) \<Rightarrow> bytes \<Rightarrow> PunchMetadata \<Rightarrow> PunchMask \<Rightarrow> punch_error + PunchPacket" where
  "DecodePunchPacket sha packet meta m = (case newPunchKey meta m of Inl e \<Rightarrow> Inl e | Inr key \<Rightarrow> decodePunchPacket sha packet key)"


section \<open>Round trip\<close>

lemma length_punchMagic [simp]: "length punchMagic = 8"
  by (simp add: punchMagic_def)

lemma length_xorPunchHeader: "length (sha (m @ salt)) = 32 \<Longrightarrow> length header \<le> 32 \<Longrightarrow> length (xorPunchHeader sha m salt header) = length header"
  by (simp add: xorPunchHeader_def)

lemma xorPunchHeader_twice:
  assumes "length header \<le> length (sha (m @ salt))"
  shows "xorPunchHeader sha m salt (xorPunchHeader sha m salt header) = header"
proof (rule nth_equalityI)
  show "xorPunchHeader sha m salt (xorPunchHeader sha m salt header) ! i = header ! i"
    if "i < length (xorPunchHeader sha m salt (xorPunchHeader sha m salt header))" for i
    using that assms by (simp add: xorPunchHeader_def xor.assoc)
qed (use assms in \<open>simp add: xorPunchHeader_def\<close>)

lemma newPunchKey_Inr: "newPunchKey meta m = Inr key \<Longrightarrow> length (key_nonce key) = 16 \<and> key_mask key = m \<and> length m = 32"
  by (auto simp: newPunchKey_def decodeHexSize_def mask_valid_def punch_consts split: if_splits option.splits sum.splits)

text \<open>What the receiver reads off an encoded packet, whoever it belongs to.\<close>

lemma unmask_encoded:
  assumes sha: "\<And>x. length (sha x) = 32" and key: "length (key_nonce key) = 16" and enc: "encodePunchPacket sha rand t key n = Inr packet"
  shows "unmaskPunchHeader sha packet (key_mask key) = Inr \<lparr>packetType = t, ph_nonce = key_nonce key\<rparr>" "length packet = clampPunchWireLen n"
    "validPunchPacketType t"
proof -
  from enc obtain r where r: "validPunchPacketType t" "mask_valid (key_mask key)" "rand (clampPunchWireLen n) = Some r"
    and p: "packet = (let packet = fill (clampPunchWireLen n) r; salt = take punchSaltLen packet;
                          header = xorPunchHeader sha (key_mask key) salt (punchMagic @ [t] @ key_nonce key)
                      in salt @ header @ drop punchMinWireLen packet)"
    by (auto simp: encodePunchPacket_def Let_def split: if_splits option.splits)
  define c where "c = clampPunchWireLen n"
  define salt where "salt = take 8 (fill c r)"
  define h where "h = xorPunchHeader sha (key_mask key) salt (punchMagic @ [t] @ key_nonce key)"
  have c: "33 \<le> c" "c \<le> 1484" by (simp_all add: c_def clampPunchWireLen_def punch_consts)
  have len: "length salt = 8" "length h = 25" using c sha key by (simp_all add: salt_def h_def length_xorPunchHeader)
  have pe: "packet = salt @ h @ drop 33 (fill c r)" using p by (simp add: c_def salt_def h_def punch_consts Let_def)
  then show lp: "length packet = clampPunchWireLen n" using len c by (simp add: c_def [symmetric])
  have hh: "xorPunchHeader sha (key_mask key) salt h = punchMagic @ [t] @ key_nonce key"
    unfolding h_def by (rule xorPunchHeader_twice) (simp add: sha key)
  show "unmaskPunchHeader sha packet (key_mask key) = Inr \<lparr>packetType = t, ph_nonce = key_nonce key\<rparr>"
    using r(1,2) lp c len hh by (simp add: unmaskPunchHeader_def pe punch_consts c_def [symmetric] nth_append)
  show "validPunchPacketType t" by (rule r(1))
qed

text \<open>
  C31. A punch packet encoded for one attempt is exactly as long as asked for; the other end, which knows the same mask, decodes it to the type it was given
  and the length of its padding; an attempt with another nonce rejects it as not its own; and no length other than those a punch packet can have
  is ever encoded.
\<close>

theorem punch_packet_roundtrip:
  assumes "\<And>x. length (sha x) = 32" and "EncodePunchPacketAt sha rand t meta m wireLen = Inr packet"
  shows "int (length packet) = wireLen \<and> validPunchWireLen wireLen
    \<and> DecodePunchPacket sha packet meta m = Inr \<lparr>Type = t, PaddingLength = length packet - 33\<rparr>
    \<and> (\<forall>other k k'. newPunchKey meta m = Inr k \<and> newPunchKey other m = Inr k' \<and> key_nonce k' \<noteq> key_nonce k
          \<longrightarrow> DecodePunchPacket sha packet other m = Inl errPunchNonceMismatch)"
proof -
  from assms(2) obtain key where key: "newPunchKey meta m = Inr key" and w: "validPunchWireLen wireLen"
    and enc: "encodePunchPacket sha rand t key wireLen = Inr packet"
    by (auto simp: EncodePunchPacketAt_def split: sum.splits if_splits)
  note k = newPunchKey_Inr [OF key]
  note u = unmask_encoded [OF assms(1) _ enc]
  have "int (length packet) = wireLen"
    using w u(2) k by (simp add: clampPunchWireLen_def validPunchWireLen_def)
  moreover have "decodePunchPacket sha packet k' =
      (if key_nonce key \<noteq> key_nonce k' then Inl errPunchNonceMismatch else Inr \<lparr>Type = t, PaddingLength = length packet - 33\<rparr>)" if "key_mask k' = m" for k'
    using u(1) k that by (simp add: decodePunchPacket_def punch_consts)
  ultimately show ?thesis using w key k newPunchKey_Inr by (auto simp: DecodePunchPacket_def)
qed

theorem punch_packet_roundtrip_witness:
  "let sha = \<lambda>_. replicate 32 7; meta = \<lparr>Nonce = ''00112233445566778899aabbccddeeFF'', Obfs_key = []\<rparr>; m = replicate 32 9
   in \<exists>packet. EncodePunchPacketAt sha (\<lambda>n. Some (replicate n 5)) PunchPacketAck meta m 40 = Inr packet
     \<and> DecodePunchPacket sha packet meta m = Inr \<lparr>Type = PunchPacketAck, PaddingLength = 7\<rparr>"
proof -
  let ?sha = "\<lambda>_ :: bytes. replicate 32 (7 :: u8)" and ?meta = "\<lparr>Nonce = ''00112233445566778899aabbccddeeFF'', Obfs_key = []\<rparr>" and ?m = "replicate 32 (9 :: u8)"
  have "\<exists>key. newPunchKey ?meta ?m = Inr key"
    by (simp add: newPunchKey_def mask_valid_def punch_consts decodeHexSize_def hex_val_def)
  then obtain packet where e: "EncodePunchPacketAt ?sha (\<lambda>n. Some (replicate n 5)) PunchPacketAck ?meta ?m 40 = Inr packet"
    using newPunchKey_Inr by (fastforce simp: EncodePunchPacketAt_def encodePunchPacket_def validPunchWireLen_def punch_consts validPunchPacketType_def mask_valid_def Let_def)
  from punch_packet_roundtrip [OF _ e] show ?thesis unfolding Let_def using e by (intro exI [of _ packet]) auto
qed

end
