(* ===== verification/Netip.thy ===== *)
theory Netip
  imports Prelude Go_Strings "HOL-Library.List_Lexorder" "HOL-Library.Char_ord"
begin

text \<open>
  The part of package \<open>net/netip\<close> that hole punching uses: addresses, their classes, unmapping, comparison and text.
  The zero \<open>netip.Addr\<close> is \<open>NoAddr\<close>; an IPv4 address in IPv6 form is an \<open>IPv6\<close> that \<open>Unmap\<close> turns into an \<open>IPv4\<close>.
\<close>

datatype Addr = NoAddr | IPv4 u32 | IPv6 "128 word" string

type_synonym AddrPort = "Addr \<times> u16"

fun Is4 :: "Addr \<Rightarrow> bool" where "Is4 (IPv4 _) = True" | "Is4 _ = False"
fun Is6 :: "Addr \<Rightarrow> bool" where "Is6 (IPv6 _ _) = True" | "Is6 _ = False"

definition Addr_IsValid :: "Addr \<Rightarrow> bool" where "Addr_IsValid a \<longleftrightarrow> a \<noteq> NoAddr"
definition AddrPort_IsValid :: "AddrPort \<Rightarrow> bool" where "AddrPort_IsValid p \<longleftrightarrow> Addr_IsValid (fst p)"

fun Is4In6 :: "Addr \<Rightarrow> bool" where
  "Is4In6 (IPv6 w _) \<longleftrightarrow> drop_bit 32 w = 0xffff"
| "Is4In6 _ \<longleftrightarrow> False"

fun Unmap :: "Addr \<Rightarrow> Addr" where
  "Unmap (IPv6 w z) = (if Is4In6 (IPv6 w z) then IPv4 (ucast w) else IPv6 w z)"
| "Unmap a = a"

fun WithoutZone :: "Addr \<Rightarrow> Addr" where
  "WithoutZone (IPv6 w _) = IPv6 w []"
| "WithoutZone a = a"

fun IsLoopback4 :: "Addr \<Rightarrow> bool" where
  "IsLoopback4 (IPv4 w) \<longleftrightarrow> drop_bit 24 w = 127"
| "IsLoopback4 (IPv6 w _) \<longleftrightarrow> w = 1"
| "IsLoopback4 NoAddr \<longleftrightarrow> False"

definition IsLoopback :: "Addr \<Rightarrow> bool" where "IsLoopback a = IsLoopback4 (Unmap a)"

fun IsMulticast4 :: "Addr \<Rightarrow> bool" where
  "IsMulticast4 (IPv4 w) \<longleftrightarrow> drop_bit 28 w = 14"
| "IsMulticast4 (IPv6 w _) \<longleftrightarrow> drop_bit 120 w = 255"
| "IsMulticast4 NoAddr \<longleftrightarrow> False"

definition IsMulticast :: "Addr \<Rightarrow> bool" where "IsMulticast a = IsMulticast4 (Unmap a)"

fun IsLinkLocalUnicast4 :: "Addr \<Rightarrow> bool" where
  "IsLinkLocalUnicast4 (IPv4 w) \<longleftrightarrow> drop_bit 16 w = 0xa9fe"
| "IsLinkLocalUnicast4 (IPv6 w _) \<longleftrightarrow> drop_bit 118 w = 0x3fa"
| "IsLinkLocalUnicast4 NoAddr \<longleftrightarrow> False"

definition IsLinkLocalUnicast :: "Addr \<Rightarrow> bool" where "IsLinkLocalUnicast a = IsLinkLocalUnicast4 (Unmap a)"

definition IsUnspecified :: "Addr \<Rightarrow> bool" where "IsUnspecified a \<longleftrightarrow> a = IPv4 0 \<or> a = IPv6 0 []"


section \<open>Order and text\<close>

text \<open>\<open>Addr.Compare\<close> orders by bit length, then value, then zone.\<close>

fun addr_key :: "Addr \<Rightarrow> nat \<times> nat \<times> string" where
  "addr_key NoAddr = (0, 0, [])"
| "addr_key (IPv4 w) = (32, unat w, [])"
| "addr_key (IPv6 w z) = (128, unat w, z)"

lemma addr_key_inject: "addr_key a = addr_key b \<longleftrightarrow> a = b"
  by (cases a; cases b) (auto simp: word_unat_eq_iff)

instantiation Addr :: linorder
begin

definition less_eq_Addr :: "Addr \<Rightarrow> Addr \<Rightarrow> bool" where
  "a \<le> b \<longleftrightarrow> (let (l, v, z) = addr_key a; (l', v', z') = addr_key b in l < l' \<or> l = l' \<and> (v < v' \<or> v = v' \<and> z \<le> z'))"

definition less_Addr :: "Addr \<Rightarrow> Addr \<Rightarrow> bool" where
  "a < b \<longleftrightarrow> a \<le> b \<and> \<not> b \<le> (a :: Addr)"

instance
proof
  fix a b c :: Addr
  show "a < b \<longleftrightarrow> a \<le> b \<and> \<not> b \<le> a" by (rule less_Addr_def)
  show "a \<le> a" by (simp add: less_eq_Addr_def split: prod.split)
  show "a \<le> b \<Longrightarrow> b \<le> c \<Longrightarrow> a \<le> c" by (auto simp: less_eq_Addr_def split: prod.splits)
  show "a \<le> b \<Longrightarrow> b \<le> a \<Longrightarrow> a = b"
    by (subst addr_key_inject [symmetric]) (auto simp: less_eq_Addr_def split: prod.splits)
  show "a \<le> b \<or> b \<le> a" by (auto simp: less_eq_Addr_def split: prod.splits)
qed

end

text \<open>Dotted decimal, and the shortest hexadecimal form with the first longest run of two or more zero groups left out.\<close>

definition dotted :: "u32 \<Rightarrow> string" where
  "dotted w = concat (map (\<lambda>i. (if i = 0 then [] else ''.'') @ FormatUint (unat (drop_bit (24 - 8 * i) w AND 255))) [0, 1, 2, 3])"

definition hex_char :: "nat \<Rightarrow> char" where "hex_char d = (if d < 10 then char_of (48 + d) else char_of (87 + d))"

function hex_digits :: "nat \<Rightarrow> string" where
  "hex_digits n = (if n < 16 then [hex_char n] else hex_digits (n div 16) @ [hex_char (n mod 16)])"
  by pat_completeness auto
termination by (relation "measure id") auto

declare hex_digits.simps [simp del]

definition groups :: "128 word \<Rightarrow> nat list" where "groups w = map (\<lambda>i. unat (drop_bit (112 - 16 * i) w AND 0xffff)) [0..<8]"

definition zero_run :: "nat list \<Rightarrow> nat \<times> nat" where
  "zero_run gs = (let runs = map (\<lambda>i. (i, i + length (takeWhile (\<lambda>g. g = 0) (drop i gs)))) [0..<length gs]
     in fold (\<lambda>(i, j) (bi, bj). if j - i \<ge> 2 \<and> j - i > bj - bi then (i, j) else (bi, bj)) runs (255, 255))"

fun join_groups :: "nat list \<Rightarrow> string" where
  "join_groups [] = []"
| "join_groups [g] = hex_digits g"
| "join_groups (g # gs) = hex_digits g @ '':'' @ join_groups gs"

definition String6 :: "128 word \<Rightarrow> string" where
  "String6 w =
     (let gs = groups w; (i, j) = zero_run gs
      in if i = 255 then join_groups gs else join_groups (take i gs) @ ''::'' @ join_groups (drop j gs))"

fun Addr_String :: "Addr \<Rightarrow> string" where
  "Addr_String NoAddr = ''invalid IP''"
| "Addr_String (IPv4 w) = dotted w"
| "Addr_String (IPv6 w z) = (if Is4In6 (IPv6 w z) then ''::ffff:'' @ dotted (ucast w) else String6 w) @ (if z = [] then [] else ''%'' @ z)"

definition AddrPort_String :: "AddrPort \<Rightarrow> string" where
  "AddrPort_String p =
     (case fst p of NoAddr \<Rightarrow> ''invalid AddrPort''
      | IPv4 w \<Rightarrow> dotted w @ '':'' @ FormatUint (unat (snd p))
      | IPv6 w z \<Rightarrow> ''['' @ Addr_String (fst p) @ '']:'' @ FormatUint (unat (snd p)))"


section \<open>Unmapped addresses\<close>

lemma Unmap_not_4In6 [simp]: "\<not> Is4In6 (Unmap a)"
  by (cases a) auto

lemma Unmap_idem [simp]: "Unmap (Unmap a) = Unmap a"
  by (cases a) auto

lemma Unmap_valid [simp]: "Addr_IsValid (Unmap a) = Addr_IsValid a"
  by (cases a) (auto simp: Addr_IsValid_def)

end
