(* ===== verification/Nat_Probes.thy ===== *)
theory Nat_Probes
  imports Netip
begin

text \<open>
  Address candidates for hole punching: the classification of NATs and the ports guessed on a peer behind one that maps per destination
  (\<open>extras/realm/nat.go\<close>), the local candidates (\<open>extras/realm/local.go\<close>), and address families (\<open>extras/realm/stun.go\<close>).
  The maps of the source are association lists where their order does not reach the result. The random draws are an argument. A \<open>net.IP\<close> is
  the \<open>Addr\<close> it denotes.
\<close>

section \<open>Classification (nat.go)\<close>

datatype NATClass = NATClassUnknown | NATClassEndpointIndependent | NATClassEndpointDependent

definition symmetricNATSequentialSpan :: nat where "symmetricNATSequentialSpan = 64"
definition symmetricNATStrideProbes :: nat where "symmetricNATStrideProbes = 16"
definition symmetricNATProbeMissLimit :: nat where "symmetricNATProbeMissLimit = 256"
definition symmetricNATMinProbePort :: int where "symmetricNATMinProbePort = 1024"

fun classify_loop :: "(Addr \<rightharpoonup> u16) \<Rightarrow> AddrPort list \<Rightarrow> NATClass" where
  "classify_loop ports [] = NATClassUnknown"
| "classify_loop ports (addr # rest) =
     (if \<not> AddrPort_IsValid addr then classify_loop ports rest
      else
        let ip = Unmap (fst addr)
        in case ports ip of
             Some port \<Rightarrow> if port \<noteq> snd addr then NATClassEndpointDependent else classify_loop (ports(ip \<mapsto> snd addr)) rest
           | None \<Rightarrow> classify_loop (ports(ip \<mapsto> snd addr)) rest)"

definition ClassifyNAT :: "AddrPort list \<Rightarrow> NATClass" where
  "ClassifyNAT observed = classify_loop (\<lambda>_. None) observed"

definition uniqueSortedPorts :: "u16 list \<Rightarrow> u16 list" where
  "uniqueSortedPorts ports = remdups_adj (sort ports)"

fun group_by_host :: "AddrPort list \<Rightarrow> (Addr \<times> u16 list) list \<Rightarrow> (Addr \<times> u16 list) list" where
  "group_by_host [] byHost = byHost"
| "group_by_host (addr # rest) byHost =
     (if \<not> AddrPort_IsValid addr \<or> \<not> Is4 (fst addr) then group_by_host rest byHost
      else
        let ip = Unmap (fst addr); ports = (case map_of byHost ip of Some ps \<Rightarrow> ps | None \<Rightarrow> [])
        in group_by_host rest (AList.update ip (ports @ [snd addr]) byHost))"

definition endpointDependentHosts :: "AddrPort list \<Rightarrow> bool \<Rightarrow> (Addr \<times> u16 list) list" where
  "endpointDependentHosts addrs force =
     filter (\<lambda>(ip, ports). \<not> (length ports < 2 \<and> \<not> force)) (map (\<lambda>(ip, ports). (ip, uniqueSortedPorts ports)) (group_by_host addrs []))"

fun stride_ok :: "int \<Rightarrow> u16 list \<Rightarrow> bool" where
  "stride_ok stride (p # q # ports) \<longleftrightarrow> uint q - uint p = stride \<and> stride_ok stride (q # ports)"
| "stride_ok stride _ \<longleftrightarrow> True"

definition portStride :: "u16 list \<Rightarrow> int option" where
  "portStride ports =
     (if length ports < 2 then None
      else let stride = uint (ports ! 1) - uint (ports ! 0)
           in if stride \<le> 0 then None else if stride_ok stride (drop 1 ports) then Some stride else None)"

text \<open>The state of the search: the addresses seen, and the probes so far. \<open>add\<close> answers whether there was room.\<close>

type_synonym probe_state = "AddrPort set \<times> AddrPort list"

definition add :: "nat \<Rightarrow> Addr \<Rightarrow> int \<Rightarrow> probe_state \<Rightarrow> bool \<times> probe_state" where
  "add limit ip port st =
     (case st of (seen, probes) \<Rightarrow>
        if length probes \<ge> limit then (False, st)
        else if port < symmetricNATMinProbePort \<or> port > 65535 then (True, st)
        else let addr = (ip, word_of_int port)
             in if addr \<in> seen then (True, st) else (True, (insert addr seen, probes @ [addr])))"

text \<open>A loop that adds until there is no room left.\<close>

fun add_until :: "nat \<Rightarrow> (Addr \<times> int) list \<Rightarrow> probe_state \<Rightarrow> probe_state" where
  "add_until limit [] st = st"
| "add_until limit ((ip, port) # rest) st = (case add limit ip port st of (ok, st) \<Rightarrow> if ok then add_until limit rest st else st)"

definition tier1 :: "(Addr \<times> u16 list) list \<Rightarrow> (Addr \<times> int) list" where
  "tier1 hosts =
     concat (map (\<lambda>offset. concat (map (\<lambda>(ip, ports). concat (map (\<lambda>port. [(ip, uint port + int offset), (ip, uint port - int offset)]) ports)) hosts))
       [1..<symmetricNATSequentialSpan + 1])"

definition tier2 :: "Addr \<times> u16 list \<Rightarrow> (Addr \<times> int) list" where
  "tier2 h =
     (case h of (ip, ports) \<Rightarrow>
        case portStride ports of
          None \<Rightarrow> []
        | Some stride \<Rightarrow> map (\<lambda>i. (ip, uint (last ports) + stride * int i)) [1..<symmetricNATStrideProbes + 1])"

definition randomProbePort :: "nat \<Rightarrow> int" where
  "randomProbePort draw = symmetricNATMinProbePort + int draw mod (65536 - symmetricNATMinProbePort)"

lemma add_grows: "length (snd st) \<le> length (snd (snd (add limit ip port st)))"
  by (auto simp: add_def Let_def split: prod.splits)

lemma add_until_grows: "length (snd st) \<le> length (snd (add_until limit xs st))"
proof (induction limit xs st rule: add_until.induct)
  case (2 limit ip port rest st)
  obtain ok st' where a: "add limit ip port st = (ok, st')" by (cases "add limit ip port st")
  then have "length (snd st) \<le> length (snd st')" using add_grows [of st limit ip port] by simp
  then show ?case using 2 [OF a [symmetric]] a by (cases ok) simp_all
qed simp

text \<open>
  The random tier: rounds over all hosts until the limit, or too many rounds in a row without a new port. \<open>draws k i\<close> is the random number for host \<open>i\<close>
  in round \<open>k\<close>.
\<close>

function tier3 :: "nat \<Rightarrow> (nat \<Rightarrow> nat \<Rightarrow> nat) \<Rightarrow> Addr list \<Rightarrow> nat \<Rightarrow> nat \<Rightarrow> probe_state \<Rightarrow> probe_state" where
  "tier3 limit draws ips k misses st =
     (if length (snd st) < limit \<and> misses < symmetricNATProbeMissLimit
      then let st' = add_until limit (map (\<lambda>(i, ip). (ip, randomProbePort (draws k i))) (enumerate 0 ips)) st
           in if length (snd st') = length (snd st) then tier3 limit draws ips (k + 1) (misses + 1) st'
              else tier3 limit draws ips (k + 1) 0 st'
      else st)"
  by pat_completeness auto
termination
proof (relation "measures [\<lambda>(limit, draws, ips, k, misses, st). limit - length (snd st), \<lambda>(limit, draws, ips, k, misses, st). symmetricNATProbeMissLimit - misses]", goal_cases)
  case (2 limit draws ips k misses st x)
  then show ?case by auto
next
  case (3 limit draws ips k misses st x)
  then show ?case
    using add_until_grows [of st limit "map (\<lambda>(i, ip). (ip, randomProbePort (draws k i))) (enumerate 0 ips)"] by auto
qed simp

declare tier3.simps [simp del]

definition symmetricNATProbes :: "(nat \<Rightarrow> nat \<Rightarrow> nat) \<Rightarrow> AddrPort list \<Rightarrow> int \<Rightarrow> bool \<Rightarrow> AddrPort list" where
  "symmetricNATProbes draws peerAddrs limit force =
     (if limit \<le> 0 then []
      else
        let hosts = sort_key fst (endpointDependentHosts peerAddrs force)
        in if hosts = [] then []
           else
             let seen = set (map (\<lambda>(a, p). (Unmap a, p)) peerAddrs);
                 st = add_until (nat limit) (tier1 hosts) (seen, []);
                 st = fold (\<lambda>h. add_until (nat limit) (tier2 h)) hosts st
             in snd (tier3 (nat limit) draws (map fst hosts) 0 0 st))"


section \<open>What is probed\<close>

definition probes_ok :: "nat \<Rightarrow> AddrPort set \<Rightarrow> Addr set \<Rightarrow> probe_state \<Rightarrow> bool" where
  "probes_ok limit known ips st \<longleftrightarrow> (case st of (seen, probes) \<Rightarrow>
     seen = known \<union> set probes \<and> distinct probes \<and> set probes \<inter> known = {} \<and> length probes \<le> limit
     \<and> (\<forall>(ip, port) \<in> set probes. ip \<in> ips \<and> 1024 \<le> uint port))"

lemma probe_port: "1024 \<le> port \<Longrightarrow> port \<le> 65535 \<Longrightarrow> uint (word_of_int port :: u16) = port" for port :: int
  by (simp add: uint_word_of_int take_bit_eq_mod)

lemma add_ok: "probes_ok limit known ips st \<Longrightarrow> ip \<in> ips \<Longrightarrow> probes_ok limit known ips (snd (add limit ip port st))"
  by (auto simp: add_def probes_ok_def Let_def symmetricNATMinProbePort_def probe_port split: prod.splits)

lemma add_until_ok: "probes_ok limit known ips st \<Longrightarrow> fst ` set xs \<subseteq> ips \<Longrightarrow> probes_ok limit known ips (add_until limit xs st)"
proof (induction limit xs st rule: add_until.induct)
  case (2 limit ip port rest st)
  then show ?case using add_ok [of limit known ips st ip port] by (auto split: prod.splits)
qed simp

lemma tier3_ok: "probes_ok limit known ips st \<Longrightarrow> set hs \<subseteq> ips \<Longrightarrow> probes_ok limit known ips (tier3 limit draws hs k misses st)"
proof (induction limit draws hs k misses st rule: tier3.induct)
  case (1 limit draws hs k misses st)
  let ?st = "add_until limit (map (\<lambda>(i, ip). (ip, randomProbePort (draws k i))) (enumerate 0 hs)) st"
  have "probes_ok limit known ips ?st"
    using 1(3,4) by (intro add_until_ok) (auto simp: in_set_enumerate_eq subset_iff)
  then show ?case using 1 by (subst tier3.simps) (simp add: Let_def)
qed

lemma tier_hosts: "fst ` set (tier1 hosts) \<subseteq> fst ` set hosts" "h \<in> set hosts \<Longrightarrow> fst ` set (tier2 h) \<subseteq> fst ` set hosts"
  by (force simp: tier1_def tier2_def split: prod.splits option.splits)+

lemma fold_tier2_ok:
  "probes_ok limit known (fst ` set hosts) st \<Longrightarrow> set hs \<subseteq> set hosts \<Longrightarrow> probes_ok limit known (fst ` set hosts) (fold (\<lambda>h. add_until limit (tier2 h)) hs st)"
  by (induction hs arbitrary: st) (simp_all add: add_until_ok tier_hosts(2))

lemma group_by_host_hosts:
  "fst ` set (group_by_host addrs byHost) \<subseteq> fst ` set byHost \<union> {a. Is4 a \<and> a \<in> fst ` set addrs}"
proof (induction addrs byHost rule: group_by_host.induct)
  case (2 addr rest byHost)
  let ?B = "AList.update (Unmap (fst addr)) ((case map_of byHost (Unmap (fst addr)) of Some ps \<Rightarrow> ps | None \<Rightarrow> []) @ [snd addr]) byHost"
  show ?case
  proof (cases "\<not> AddrPort_IsValid addr \<or> \<not> Is4 (fst addr)")
    case True
    then show ?thesis using 2(1) by auto
  next
    case False
    then have u: "Unmap (fst addr) = fst addr" by (cases "fst addr") simp_all
    have e: "group_by_host (addr # rest) byHost = group_by_host rest ?B" using False by (simp add: Let_def)
    have "fst ` set (group_by_host rest ?B) \<subseteq> fst ` set ?B \<union> {a. Is4 a \<and> a \<in> fst ` set rest}" using 2(2) [OF False refl refl] .
    moreover have "fst ` set ?B = insert (fst addr) (fst ` set byHost)" using u by (simp add: dom_update)
    ultimately show ?thesis unfolding e using False by auto
  qed
qed simp

text \<open>
  The probes of one attempt: no more than the limit, each once, none of them announced, all on unprivileged ports of IPv4 hosts the peer announced.
\<close>

lemma symmetricNATProbes_ok:
  assumes "p = symmetricNATProbes draws peerAddrs limit force"
  shows "int (length p) \<le> max limit 0" "distinct p" "set p \<inter> (\<lambda>(a, q). (Unmap a, q)) ` set peerAddrs = {}"
    "\<And>ip port. (ip, port) \<in> set p \<Longrightarrow> Is4 ip \<and> ip \<in> fst ` set peerAddrs \<and> 1024 \<le> uint port"
proof -
  let ?hosts = "sort_key fst (endpointDependentHosts peerAddrs force)"
  let ?known = "set (map (\<lambda>(a, p). (Unmap a, p)) peerAddrs)"
  have h: "fst ` set ?hosts \<subseteq> {a. Is4 a \<and> a \<in> fst ` set peerAddrs}"
    using group_by_host_hosts [of peerAddrs "[]"] by (force simp: endpointDependentHosts_def)
  have "\<exists>seen. probes_ok (nat limit) ?known (fst ` set ?hosts) (seen, p)" if "0 < limit" "?hosts \<noteq> []"
  proof -
    let ?st = "fold (\<lambda>h. add_until (nat limit) (tier2 h)) ?hosts (add_until (nat limit) (tier1 ?hosts) (?known, []))"
    have "probes_ok (nat limit) ?known (fst ` set ?hosts) (?known, [])" by (simp add: probes_ok_def)
    then have "probes_ok (nat limit) ?known (fst ` set ?hosts) ?st" by (intro fold_tier2_ok add_until_ok tier_hosts) simp_all
    then have "probes_ok (nat limit) ?known (fst ` set ?hosts) (tier3 (nat limit) draws (map fst ?hosts) 0 0 ?st)" by (rule tier3_ok) simp
    moreover have "p = snd (tier3 (nat limit) draws (map fst ?hosts) 0 0 ?st)" using that assms by (simp add: symmetricNATProbes_def Let_def)
    ultimately show ?thesis by (metis prod.collapse)
  qed
  moreover have "p = []" if "\<not> (0 < limit \<and> ?hosts \<noteq> [])" using that assms by (auto simp: symmetricNATProbes_def Let_def)
  ultimately have c: "p = [] \<or> (\<exists>seen. probes_ok (nat limit) ?known (fst ` set ?hosts) (seen, p))" by blast
  then show "int (length p) \<le> max limit 0" "distinct p" "set p \<inter> (\<lambda>(a, q). (Unmap a, q)) ` set peerAddrs = {}"
    by (auto simp: probes_ok_def)
  show "Is4 ip \<and> ip \<in> fst ` set peerAddrs \<and> 1024 \<le> uint port" if "(ip, port) \<in> set p" for ip port
  proof -
    from c that obtain seen where "probes_ok (nat limit) ?known (fst ` set ?hosts) (seen, p)" by auto
    then have "\<forall>x \<in> set p. fst x \<in> fst ` set ?hosts \<and> 1024 \<le> uint (snd x)" unfolding probes_ok_def by (simp add: case_prod_beta)
    from bspec [OF this that] have "ip \<in> fst ` set ?hosts" "1024 \<le> uint port" by (simp_all only: fst_conv snd_conv)
    then show ?thesis using h by blast
  qed
qed

text \<open>The classification is conclusive exactly when one address was observed with two ports.\<close>

lemma classify_loop_iff:
  "classify_loop ports obs = NATClassEndpointDependent \<longleftrightarrow>
     (\<exists>(a, p) \<in> set obs. a \<noteq> NoAddr \<and> (\<exists>q. ports (Unmap a) = Some q \<and> p \<noteq> q))
     \<or> (\<exists>(a, p) \<in> set obs. \<exists>(b, q) \<in> set obs. a \<noteq> NoAddr \<and> Unmap a = Unmap b \<and> p \<noteq> q)"
proof (induction obs arbitrary: ports)
  case (Cons addr rest)
  obtain a p where addr: "addr = (a, p)" by (cases addr)
  have nv: "Unmap x = NoAddr \<longleftrightarrow> x = NoAddr" for x by (cases x) auto
  show ?case
  proof (cases "a = NoAddr")
    case True
    then have "classify_loop ports (addr # rest) = classify_loop ports rest" by (simp add: addr AddrPort_IsValid_def Addr_IsValid_def)
    moreover have "\<not> AddrPort_IsValid addr" using True by (simp add: addr AddrPort_IsValid_def Addr_IsValid_def)
    ultimately show ?thesis using Cons.IH [of ports] True by (simp add: addr case_prod_unfold nv cong: conj_cong)
  next
    case False
    then have v: "AddrPort_IsValid addr" by (simp add: addr AddrPort_IsValid_def Addr_IsValid_def)
    show ?thesis
    proof (cases "\<exists>q. ports (Unmap a) = Some q \<and> p \<noteq> q")
      case True
      then show ?thesis using False v by (auto simp: addr Let_def)
    next
      case np: False
      then have "classify_loop ports (addr # rest) = classify_loop (ports(Unmap a \<mapsto> p)) rest" using v by (auto simp: addr Let_def split: option.splits)
      moreover have "classify_loop (ports(Unmap a \<mapsto> p)) rest = NATClassEndpointDependent \<longleftrightarrow>
          (\<exists>x \<in> set rest. fst x \<noteq> NoAddr \<and> (\<exists>q. (ports(Unmap a \<mapsto> p)) (Unmap (fst x)) = Some q \<and> snd x \<noteq> q))
          \<or> (\<exists>x \<in> set rest. \<exists>y \<in> set rest. fst x \<noteq> NoAddr \<and> Unmap (fst x) = Unmap (fst y) \<and> snd x \<noteq> snd y)"
        by (simp only: Cons.IH case_prod_unfold)
      moreover have "fst x \<noteq> NoAddr \<and> (\<exists>q. (ports(Unmap a \<mapsto> p)) (Unmap (fst x)) = Some q \<and> snd x \<noteq> q) \<longleftrightarrow>
          Unmap a = Unmap (fst x) \<and> p \<noteq> snd x \<or> fst x \<noteq> NoAddr \<and> (\<exists>q. ports (Unmap (fst x)) = Some q \<and> snd x \<noteq> q)" for x
        using np False nv [of a] nv [of "fst x"] by (cases "Unmap (fst x) = Unmap a") auto
      moreover have "(\<exists>x \<in> set (addr # rest). \<exists>y \<in> set (addr # rest). fst x \<noteq> NoAddr \<and> Unmap (fst x) = Unmap (fst y) \<and> snd x \<noteq> snd y) \<longleftrightarrow>
          (\<exists>x \<in> set rest. Unmap a = Unmap (fst x) \<and> p \<noteq> snd x)
          \<or> (\<exists>x \<in> set rest. \<exists>y \<in> set rest. fst x \<noteq> NoAddr \<and> Unmap (fst x) = Unmap (fst y) \<and> snd x \<noteq> snd y)"
      proof -
        have "Unmap a = Unmap (fst x) \<Longrightarrow> fst x \<noteq> NoAddr" for x :: AddrPort using False nv [of a] by auto
        then show ?thesis using False by (simp add: addr eq_commute [of "Unmap a"] eq_commute [of p]) blast
      qed
      moreover have "(\<exists>x \<in> set (addr # rest). fst x \<noteq> NoAddr \<and> (\<exists>q. ports (Unmap (fst x)) = Some q \<and> snd x \<noteq> q)) \<longleftrightarrow>
          (\<exists>x \<in> set rest. fst x \<noteq> NoAddr \<and> (\<exists>q. ports (Unmap (fst x)) = Some q \<and> snd x \<noteq> q))"
        using np by (auto simp: addr)
      ultimately show ?thesis unfolding case_prod_unfold by (simp only: bex_disj_distrib) blast
    qed
  qed
qed simp

lemma ClassifyNAT_iff:
  "ClassifyNAT obs = NATClassEndpointDependent \<longleftrightarrow> (\<exists>(a, p) \<in> set obs. \<exists>(b, q) \<in> set obs. a \<noteq> NoAddr \<and> Unmap a = Unmap b \<and> p \<noteq> q)"
  by (simp add: ClassifyNAT_def classify_loop_iff)


section \<open>Families (stun.go)\<close>

datatype AddrFamily = AddrFamilyAny | AddrFamilyIPv4 | AddrFamilyIPv6

text \<open>The local address of a socket: \<open>None\<close> where it is not a UDP address.\<close>

definition localAddrFamily :: "Addr option \<Rightarrow> AddrFamily" where
  "localAddrFamily local =
     (case local of
        None \<Rightarrow> AddrFamilyAny
      | Some ip \<Rightarrow> if ip = NoAddr \<or> IsUnspecified (Unmap ip) then AddrFamilyAny else if Is4 (Unmap ip) then AddrFamilyIPv4 else AddrFamilyIPv6)"

definition effectiveFamily :: "AddrFamily \<Rightarrow> Addr option \<Rightarrow> AddrFamily" where
  "effectiveFamily family local = (if family \<noteq> AddrFamilyAny then family else localAddrFamily local)"

definition family_allows :: "AddrFamily \<Rightarrow> Addr \<Rightarrow> bool" where
  "family_allows f ip =
     (let is4 = Is4 (Unmap ip) in case f of AddrFamilyIPv4 \<Rightarrow> is4 | AddrFamilyIPv6 \<Rightarrow> \<not> is4 | AddrFamilyAny \<Rightarrow> True)"


section \<open>Local candidates (local.go)\<close>

definition maxLocalCandidates :: nat where "maxLocalCandidates = 8"

record Interface =
  FlagUp :: bool
  FlagLoopback :: bool
  Addrs :: "Addr list"

text \<open>IPv6 before IPv4, then by text, stable.\<close>

definition orderCandidates :: "AddrPort list \<Rightarrow> AddrPort list" where
  "orderCandidates addrs =
     (let out = map (\<lambda>(a, p). (WithoutZone (Unmap a), p)) addrs
      in sort_key (\<lambda>q. (if Is4 (fst q) then [CHR ''1''] else [CHR ''0'']) @ AddrPort_String q) out)"

definition capLocalCandidates :: "AddrPort list \<Rightarrow> AddrPort list \<Rightarrow> AddrPort list" where
  "capLocalCandidates v6 v4 =
     (if length v6 + length v4 \<le> maxLocalCandidates then v6 @ v4
      else
        let share = maxLocalCandidates div 2;
            take6 = min (length v6) share; take4 = min (length v4) share;
            spare = maxLocalCandidates - take6 - take4;
            extra = min spare (length v6 - take6);
            (take6, spare) = (take6 + extra, spare - extra);
            take4 = take4 + min spare (length v4 - take4)
        in take take6 v6 @ take take4 v4)"

record local_tiers =
  routable6 :: "AddrPort list"
  routable4 :: "AddrPort list"
  linkLocal4 :: "AddrPort list"
  lt_seen :: "AddrPort set"

definition local_addr :: "u16 \<Rightarrow> AddrFamily \<Rightarrow> Addr \<Rightarrow> local_tiers \<Rightarrow> local_tiers" where
  "local_addr port family ip t =
     (let ip = Unmap ip
      in if \<not> Addr_IsValid ip \<or> IsLoopback ip \<or> IsUnspecified ip \<or> IsMulticast ip then t
         else if \<not> family_allows family ip then t
         else
           let addr = (WithoutZone ip, port)
           in if addr \<in> lt_seen t then t
              else
                let t = t\<lparr>lt_seen := insert addr (lt_seen t)\<rparr>
                in if Is4 ip \<and> IsLinkLocalUnicast ip then t\<lparr>linkLocal4 := linkLocal4 t @ [addr]\<rparr>
                   else if Is6 ip \<and> IsLinkLocalUnicast ip then t
                   else if Is6 ip then t\<lparr>routable6 := routable6 t @ [addr]\<rparr>
                   else t\<lparr>routable4 := routable4 t @ [addr]\<rparr>)"

definition LocalCandidatesFrom :: "Interface list \<Rightarrow> u16 \<Rightarrow> AddrFamily \<Rightarrow> AddrPort list" where
  "LocalCandidatesFrom ifaces port family =
     (if port = 0 then []
      else
        let t = fold (\<lambda>iface t. if \<not> FlagUp iface then t else if FlagLoopback iface then t else fold (local_addr port family) (Addrs iface) t)
                  ifaces \<lparr>routable6 = [], routable4 = [], linkLocal4 = [], lt_seen = {}\<rparr>;
            out = capLocalCandidates (orderCandidates (routable6 t)) (orderCandidates (routable4 t))
        in if out = [] then capLocalCandidates [] (orderCandidates (linkLocal4 t)) else out)"

definition MergeCandidates :: "AddrPort list \<Rightarrow> AddrPort list \<Rightarrow> AddrPort list" where
  "MergeCandidates local reflexive =
     fold (\<lambda>addrs out. fold (\<lambda>addr out. if \<not> AddrPort_IsValid addr \<or> snd addr = 0 \<or> addr \<in> set out then out else out @ [addr]) (orderCandidates addrs) out)
       [local, reflexive] []"

text \<open>
  The candidates announced for the host itself: at most eight, and no family starves the other: each keeps four places, or all it has.
\<close>

lemma capLocalCandidates_fair:
  "length (capLocalCandidates v6 v4) \<le> 8"
  "\<exists>n6 n4. capLocalCandidates v6 v4 = take n6 v6 @ take n4 v4 \<and> min (length v6) 4 \<le> n6 \<and> min (length v4) 4 \<le> n4
     \<and> min n6 (length v6) + min n4 (length v4) = min 8 (length v6 + length v4)"
proof -
  have "(8 :: nat) div 2 = 4" by simp
  define t6 t4 where "t6 = min (length v6) 4" and "t4 = min (length v4) 4"
  define e6 where "e6 = min (8 - t6 - t4) (length v6 - t6)"
  define e4 where "e4 = min (8 - t6 - t4 - e6) (length v4 - t4)"
  have c: "capLocalCandidates v6 v4 = (if length v6 + length v4 \<le> 8 then v6 @ v4 else take (t6 + e6) v6 @ take (t4 + e4) v4)"
    unfolding capLocalCandidates_def maxLocalCandidates_def t6_def t4_def e6_def e4_def Let_def prod.case \<open>8 div 2 = 4\<close> by (rule refl)
  have n: "length v6 + length v4 > 8 \<Longrightarrow> t6 + e6 \<le> length v6 \<and> t4 + e4 \<le> length v4 \<and> t6 + e6 + (t4 + e4) = 8"
    unfolding t6_def t4_def e6_def e4_def by (cases "length v6 \<le> 4"; cases "length v4 \<le> 4"; simp add: min_def; linarith)
  show "length (capLocalCandidates v6 v4) \<le> 8" using n by (simp add: c)
  show "\<exists>n6 n4. capLocalCandidates v6 v4 = take n6 v6 @ take n4 v4 \<and> min (length v6) 4 \<le> n6 \<and> min (length v4) 4 \<le> n4
     \<and> min n6 (length v6) + min n4 (length v4) = min 8 (length v6 + length v4)"
  proof (cases "length v6 + length v4 \<le> 8")
    case True
    then show ?thesis by - (rule exI [of _ "length v6"], rule exI [of _ "length v4"], simp add: c)
  next
    case False
    with n show ?thesis by - (rule exI [of _ "t6 + e6"], rule exI [of _ "t4 + e4"], simp add: c t6_def t4_def)
  qed
qed

end
