(* ===== verification/Punch_Engine.thy ===== *)
theory Punch_Engine
  imports Punch_Packet Nat_Probes
begin

text \<open>
  A hole punching attempt (\<open>extras/realm/punch_engine.go\<close>): resolving the configuration into a plan - whom to send to, how fast, for how long,
  and whom to accept an answer from - and the loop that executes it. The clock, the context and the packets received are the loop's environment: one
  record per turn. What the loop sends is the list of its \<open>transport.send\<close> calls, each with the time of its turn.
\<close>

section \<open>Configuration\<close>

definition defaultPunchTimeout :: duration where "defaultPunchTimeout = 10 * Second"
definition defaultPunchInterval :: duration where "defaultPunchInterval = 100 * Millisecond"
definition defaultSymmetricNATProbes :: int where "defaultSymmetricNATProbes = 1024"
definition defaultSymmetricNATProbeRate :: int where "defaultSymmetricNATProbeRate = 100"
definition defaultSymmetricNATProbeBudget :: duration where "defaultSymmetricNATProbeBudget = 20 * Second"
definition defaultSymmetricNATPunchTimeout :: duration where "defaultSymmetricNATPunchTimeout = defaultSymmetricNATProbeBudget"
definition defaultSymmetricNATBothEndsTimeout :: duration where "defaultSymmetricNATBothEndsTimeout = 2 * Second"
definition maxPunchPeerAddrs :: nat where "maxPunchPeerAddrs = 16"
definition maxSymmetricNATProbes :: int where "maxSymmetricNATProbes = 4096"

lemmas engine_consts = defaultPunchTimeout_def defaultPunchInterval_def defaultSymmetricNATProbes_def defaultSymmetricNATProbeRate_def
  defaultSymmetricNATProbeBudget_def defaultSymmetricNATPunchTimeout_def defaultSymmetricNATBothEndsTimeout_def maxPunchPeerAddrs_def maxSymmetricNATProbes_def

datatype PunchSourcePolicy = PunchSourceDefault | PunchSourceCandidates | PunchSourceCandidateHosts | PunchSourceAny | PunchSourceUnknown int

record SymmetricNATConfig =
  Disable :: bool
  LocalNAT :: NATClass
  PeerNAT :: NATClass
  Probes :: int
  ProbeRate :: int
  ProbeBudget :: duration
  BothEndsTimeout :: duration

record PunchConfig =
  Timeout :: duration
  Interval :: duration
  Family :: AddrFamily
  SourcePolicy :: PunchSourcePolicy
  SymmetricNAT :: SymmetricNATConfig
  PadToWireLen :: int

datatype engine_error =
    ErrKey punch_error
  | ErrInvalidPunchConfig string
  | ErrPunchTimeout bool
  | ErrContext
  | ErrTransport string

record PunchPacketEvent =
  AttemptID :: string
  From :: AddrPort
  Packet :: PunchPacket

record punchSourceFilter =
  f_policy :: PunchSourcePolicy
  f_addrs :: "AddrPort set"
  f_hosts :: "Addr set"

record punchPlan =
  pl_key :: punchKey
  sources :: punchSourceFilter
  padToWireLen :: int
  targets :: "AddrPort list"
  interval :: duration
  probes :: "AddrPort list"
  probeBurst :: int
  probeGap :: duration
  probeBudget :: duration
  timeout :: duration
  bothEndsSymmetric :: bool


section \<open>Whom to send to, and whom to accept\<close>

definition resolvePunchSourcePolicy :: "PunchSourcePolicy \<Rightarrow> PunchSourcePolicy \<Rightarrow> engine_error + PunchSourcePolicy" where
  "resolvePunchSourcePolicy policy fallback =
     (case policy of
        PunchSourceDefault \<Rightarrow> Inr fallback
      | PunchSourceUnknown _ \<Rightarrow> Inl (ErrInvalidPunchConfig ''unknown source policy'')
      | _ \<Rightarrow> Inr policy)"

definition newPunchSourceFilter :: "AddrPort list \<Rightarrow> PunchSourcePolicy \<Rightarrow> punchSourceFilter" where
  "newPunchSourceFilter candidates policy =
     (let filter = \<lparr>f_policy = policy, f_addrs = {}, f_hosts = {}\<rparr>
      in case policy of
           PunchSourceCandidates \<Rightarrow> filter\<lparr>f_addrs := set candidates\<rparr>
         | PunchSourceCandidateHosts \<Rightarrow> filter\<lparr>f_hosts := set (map fst candidates)\<rparr>
         | _ \<Rightarrow> filter)"

definition filter_allows :: "punchSourceFilter \<Rightarrow> AddrPort \<Rightarrow> bool" where
  "filter_allows f addr =
     (case f_policy f of
        PunchSourceCandidates \<Rightarrow> addr \<in> f_addrs f
      | PunchSourceCandidateHosts \<Rightarrow> fst addr \<in> f_hosts f
      | PunchSourceAny \<Rightarrow> True
      | _ \<Rightarrow> False)"

definition punchableTarget :: "AddrPort \<Rightarrow> bool \<Rightarrow> bool" where
  "punchableTarget addr allowLoopback =
     (if \<not> AddrPort_IsValid addr \<or> snd addr = 0 then False
      else if IsUnspecified (fst addr) \<or> IsMulticast (fst addr) then False
      else \<not> IsLoopback (fst addr) \<or> allowLoopback)"

definition containsLoopback :: "AddrPort list \<Rightarrow> bool" where
  "containsLoopback addrs \<longleftrightarrow> (\<exists>addr \<in> set addrs. AddrPort_IsValid addr \<and> IsLoopback (fst addr))"

definition sortAddrPorts :: "AddrPort list \<Rightarrow> AddrPort list" where
  "sortAddrPorts addrs = sort_key AddrPort_String addrs"

record punchFamilySet =
  v4 :: bool
  v6 :: bool

definition punchFamilies :: "AddrPort list \<Rightarrow> AddrFamily \<Rightarrow> punchFamilySet" where
  "punchFamilies localAddrs family =
     (case family of
        AddrFamilyIPv4 \<Rightarrow> \<lparr>v4 = True, v6 = False\<rparr>
      | AddrFamilyIPv6 \<Rightarrow> \<lparr>v4 = False, v6 = True\<rparr>
      | AddrFamilyAny \<Rightarrow>
          let fs = fold (\<lambda>addr fs. if \<not> AddrPort_IsValid addr then fs
                              else if Is4 (fst addr) then fs\<lparr>v4 := True\<rparr> else if Is6 (fst addr) then fs\<lparr>v6 := True\<rparr> else fs)
                     localAddrs \<lparr>v4 = False, v6 = False\<rparr>
          in if \<not> v4 fs \<and> \<not> v6 fs then \<lparr>v4 = True, v6 = True\<rparr> else fs)"

definition families_allows :: "punchFamilySet \<Rightarrow> Addr \<Rightarrow> bool" where
  "families_allows s addr = (if Is4 addr then v4 s else if Is6 addr then v6 s else False)"

fun candidate_loop :: "punchFamilySet \<Rightarrow> bool \<Rightarrow> AddrPort list \<Rightarrow> AddrPort list \<Rightarrow> AddrPort list" where
  "candidate_loop allowed allowLoopback [] candidates = candidates"
| "candidate_loop allowed allowLoopback (addr # rest) candidates =
     (if length candidates \<ge> maxPunchPeerAddrs then candidates
      else
        let addr = (Unmap (fst addr), snd addr)
        in if \<not> punchableTarget addr allowLoopback \<or> \<not> families_allows allowed (fst addr) \<or> addr \<in> set candidates
           then candidate_loop allowed allowLoopback rest candidates
           else candidate_loop allowed allowLoopback rest (candidates @ [addr]))"

definition candidatePunchAddrs :: "AddrPort list \<Rightarrow> AddrPort list \<Rightarrow> AddrFamily \<Rightarrow> AddrPort list" where
  "candidatePunchAddrs localAddrs peerAddrs family =
     sortAddrPorts (candidate_loop (punchFamilies localAddrs family) (containsLoopback localAddrs) peerAddrs [])"

text \<open>The address of a received packet: \<open>None\<close> where it is not a UDP address.\<close>

definition addrToAddrPort :: "(Addr \<times> int) option \<Rightarrow> AddrPort option" where
  "addrToAddrPort addr =
     (case addr of
        None \<Rightarrow> None
      | Some (ip, port) \<Rightarrow> if \<not> Addr_IsValid ip \<or> port \<le> 0 \<or> port > 65535 then None else Some (Unmap ip, word_of_int port))"


section \<open>The plan\<close>

definition probePacing :: "int \<Rightarrow> int \<times> duration" where
  "probePacing rate =
     (if rate \<le> 0 then (0, 0) else let burst = max 1 (go_div rate 10) in (burst, go_div (wrap64 (Second * burst)) rate))"

text \<open>The probing part of a plan: probes, burst, gap and budget.\<close>

definition plan_probes :: "(nat \<Rightarrow> nat \<Rightarrow> nat) \<Rightarrow> AddrPort list \<Rightarrow> SymmetricNATConfig \<Rightarrow> NATClass \<Rightarrow> bool \<Rightarrow> engine_error + AddrPort list \<times> int \<times> duration \<times> duration" where
  "plan_probes draws ts sn peerNAT bothEnds =
     (if \<not> Disable sn \<and> peerNAT = NATClassEndpointDependent \<and> \<not> bothEnds then
        let n = (if Probes sn = 0 then defaultSymmetricNATProbes else Probes sn)
        in if n < 0 then Inl (ErrInvalidPunchConfig ''probes must not be negative'')
           else
             let n = min n maxSymmetricNATProbes;
                 rate = (if ProbeRate sn = 0 then defaultSymmetricNATProbeRate else ProbeRate sn)
             in if rate < 0 then Inl (ErrInvalidPunchConfig ''probe rate must not be negative'')
                else
                  let ps = symmetricNATProbes draws ts n (PeerNAT sn = NATClassEndpointDependent);
                      (burst, gap) = probePacing rate;
                      ps = (if burst = 0 then [] else ps);
                      budget = (if ProbeBudget sn = 0 then defaultSymmetricNATProbeBudget else ProbeBudget sn)
                  in if budget < 0 then Inl (ErrInvalidPunchConfig ''probe budget must not be negative'') else Inr (ps, burst, gap, budget)
      else Inr ([], 0, 0, 0))"

definition plan_timeout :: "PunchConfig \<Rightarrow> AddrPort list \<Rightarrow> bool \<Rightarrow> engine_error + duration" where
  "plan_timeout config ps bothEnds =
     (let t = (if Timeout config = 0 then (if ps \<noteq> [] then defaultSymmetricNATPunchTimeout else defaultPunchTimeout) else Timeout config)
      in if t < 0 then Inl (ErrInvalidPunchConfig ''timeout must not be negative'')
         else if bothEnds then
           let b = (if BothEndsTimeout (SymmetricNAT config) = 0 then defaultSymmetricNATBothEndsTimeout else BothEndsTimeout (SymmetricNAT config))
           in if b < 0 then Inl (ErrInvalidPunchConfig ''both-ends timeout must not be negative'') else Inr (min t b)
         else Inr t)"

definition newPunchPlan :: "(nat \<Rightarrow> nat \<Rightarrow> nat) \<Rightarrow> AddrPort list \<Rightarrow> AddrPort list \<Rightarrow> PunchMetadata \<Rightarrow> PunchMask \<Rightarrow> PunchConfig \<Rightarrow> PunchSourcePolicy
    \<Rightarrow> Addr option \<Rightarrow> engine_error + punchPlan" where
  "newPunchPlan draws localAddrs peerAddrs meta m config fallbackPolicy local =
     (case newPunchKey meta m of
        Inl e \<Rightarrow> Inl (ErrKey e)
      | Inr key \<Rightarrow>
     case resolvePunchSourcePolicy (SourcePolicy config) fallbackPolicy of
        Inl e \<Rightarrow> Inl e
      | Inr policy \<Rightarrow>
          let ts = candidatePunchAddrs localAddrs peerAddrs (effectiveFamily (Family config) local)
          in if ts = [] then Inl (ErrInvalidPunchConfig ''no compatible peer addresses'')
             else
               let iv = (if Interval config = 0 then defaultPunchInterval else Interval config)
               in if iv \<le> 0 then Inl (ErrInvalidPunchConfig ''interval must be positive'')
                  else
                    let sn = SymmetricNAT config;
                        localNAT = (if LocalNAT sn = NATClassUnknown then ClassifyNAT localAddrs else LocalNAT sn);
                        peerNAT = (if PeerNAT sn = NATClassUnknown then ClassifyNAT peerAddrs else PeerNAT sn);
                        both = (localNAT = NATClassEndpointDependent \<and> peerNAT = NATClassEndpointDependent)
                    in case plan_probes draws ts sn peerNAT both of
                         Inl e \<Rightarrow> Inl e
                       | Inr (ps, burst, gap, budget) \<Rightarrow>
                     case plan_timeout config ps both of
                         Inl e \<Rightarrow> Inl e
                       | Inr t \<Rightarrow>
                           Inr \<lparr>pl_key = key, sources = newPunchSourceFilter (ts @ ps) policy, padToWireLen = PadToWireLen config, targets = ts,
                                interval = iv, probes = ps, probeBurst = burst, probeGap = gap, probeBudget = budget, timeout = t,
                                bothEndsSymmetric = both\<rparr>)"


section \<open>The loop\<close>

datatype ctx_state = Live | Deadline_exceeded | Canceled

datatype recv_result = Received PunchPacketEvent | Nothing | Recv_failed string

record turn =
  t_ctx :: ctx_state
  t_now :: instant
  t_ctxDeadline :: "instant option"
  t_recv :: recv_result

record PunchResult =
  PeerAddr :: AddrPort
  R_Packet :: PunchPacket

record loop_state =
  nextTargets :: instant
  nextProbe :: instant
  probeIndex :: nat

type_synonym sent = "instant \<times> AddrPort \<times> PunchPacketType"

definition timeoutError :: "punchPlan \<Rightarrow> ctx_state \<Rightarrow> engine_error" where
  "timeoutError p c = (if c \<noteq> Deadline_exceeded then ErrContext else ErrPunchTimeout (bothEndsSymmetric p))"

text \<open>The sends of one turn, and the state after them.\<close>

definition send_targets :: "punchPlan \<Rightarrow> instant \<Rightarrow> loop_state \<Rightarrow> loop_state \<times> sent list" where
  "send_targets plan now s =
     (if \<not> now < nextTargets s
      then (s\<lparr>nextTargets := now + interval plan\<rparr>, map (\<lambda>a. (now, a, PunchPacketHello)) (targets plan)) else (s, []))"

definition send_probes :: "punchPlan \<Rightarrow> instant \<Rightarrow> instant \<Rightarrow> loop_state \<Rightarrow> loop_state \<times> bool \<times> sent list" where
  "send_probes plan probeDeadline now s =
     (let probing = (probeIndex s < length (probes plan) \<and> now < probeDeadline)
      in if probing \<and> \<not> now < nextProbe s
         then let end = min (probeIndex s + nat (probeBurst plan)) (length (probes plan))
              in (s\<lparr>probeIndex := end, nextProbe := now + probeGap plan\<rparr>, end < length (probes plan),
                  map (\<lambda>a. (now, a, PunchPacketHello)) (take (end - probeIndex s) (drop (probeIndex s) (probes plan))))
         else (s, probing, []))"

text \<open>The deadline of a turn's wait.\<close>

definition wake :: "instant \<Rightarrow> instant option \<Rightarrow> instant \<Rightarrow> loop_state \<Rightarrow> bool \<Rightarrow> instant" where
  "wake punchDeadline ctxDeadline now s probing =
     (let d = punchDeadline;
          d = (if nextTargets s < d then nextTargets s else d);
          d = (if probing \<and> nextProbe s < d then nextProbe s else d);
          d = (case ctxDeadline of Some c \<Rightarrow> if c < d then c else d | None \<Rightarrow> d)
      in if \<not> d > now then now + Millisecond else d)"

definition punch_turn :: "punchPlan \<Rightarrow> instant \<Rightarrow> instant \<Rightarrow> loop_state \<Rightarrow> loop_state \<times> sent list" where
  "punch_turn plan probeDeadline now s =
     (let (s, sent1) = send_targets plan now s; (s, probing, sent2) = send_probes plan probeDeadline now s in (s, sent1 @ sent2))"

fun punch_loop :: "punchPlan \<Rightarrow> instant \<Rightarrow> instant \<Rightarrow> turn list \<Rightarrow> loop_state \<Rightarrow> sent list \<times> (engine_error + PunchResult) option" where
  "punch_loop plan probeDeadline punchDeadline [] s = ([], None)"
| "punch_loop plan probeDeadline punchDeadline (r # rs) s =
     (if t_ctx r \<noteq> Live then ([], Some (Inl (timeoutError plan (t_ctx r))))
      else if \<not> t_now r < punchDeadline then ([], Some (Inl (timeoutError plan Deadline_exceeded)))
      else
        let (s, sent) = punch_turn plan probeDeadline (t_now r) s;
            continue = (case punch_loop plan probeDeadline punchDeadline rs s of (sent', out) \<Rightarrow> (sent @ sent', out))
        in case t_recv r of
             Recv_failed e \<Rightarrow> (sent, Some (Inl (ErrTransport e)))
           | Nothing \<Rightarrow> continue
           | Received ev \<Rightarrow>
               if \<not> filter_allows (sources plan) (From ev) then continue
               else (sent @ (if Type (Packet ev) = PunchPacketHello then [(t_now r, From ev, PunchPacketAck)] else []),
                     Some (Inr \<lparr>PeerAddr = From ev, R_Packet = Packet ev\<rparr>)))"

definition runPunch :: "punchPlan \<Rightarrow> instant \<Rightarrow> turn list \<Rightarrow> sent list \<times> (engine_error + PunchResult) option" where
  "runPunch plan now rs =
     punch_loop plan (now + probeBudget plan) (now + timeout plan) rs \<lparr>nextTargets = now, nextProbe = now, probeIndex = 0\<rparr>"


section \<open>What a plan can contain\<close>

lemma candidate_loop_ok:
  assumes "length cs \<le> 16" and "distinct cs"
    and "\<And>a. a \<in> set cs \<Longrightarrow> punchableTarget a lo \<and> families_allows fam (fst a) \<and> a \<in> (\<lambda>(a, p). (Unmap a, p)) ` set all"
    and "set addrs \<subseteq> set all"
  shows "length (candidate_loop fam lo addrs cs) \<le> 16 \<and> distinct (candidate_loop fam lo addrs cs)
    \<and> (\<forall>a \<in> set (candidate_loop fam lo addrs cs). punchableTarget a lo \<and> families_allows fam (fst a) \<and> a \<in> (\<lambda>(a, p). (Unmap a, p)) ` set all)"
  using assms
proof (induction fam lo addrs cs rule: candidate_loop.induct)
  case (2 fam lo addr rest cs)
  let ?a = "(Unmap (fst addr), snd addr)"
  have a: "?a \<in> (\<lambda>(a, p). (Unmap a, p)) ` set all" using 2(6) by (intro image_eqI [of _ _ addr]) (simp_all add: case_prod_unfold)
  show ?case
  proof (cases "length cs \<ge> maxPunchPeerAddrs")
    case True
    then show ?thesis using 2(3-5) by simp
  next
    case False
    note IH = 2(1,2) [OF False refl]
    have sub: "set rest \<subseteq> set all" using 2(6) by simp
    show ?thesis
    proof (cases "\<not> punchableTarget ?a lo \<or> \<not> families_allows fam (fst ?a) \<or> ?a \<in> set cs")
      case True
      then have e: "candidate_loop fam lo (addr # rest) cs = candidate_loop fam lo rest cs" using False by (simp add: Let_def)
      show ?thesis unfolding e by (rule IH(1) [OF True 2(3-5) sub])
    next
      case ok: False
      have "length (cs @ [?a]) \<le> 16" "distinct (cs @ [?a])" using False ok 2(4) by (simp_all add: maxPunchPeerAddrs_def)
      moreover have "b \<in> set (cs @ [?a]) \<Longrightarrow> punchableTarget b lo \<and> families_allows fam (fst b) \<and> b \<in> (\<lambda>(a, p). (Unmap a, p)) ` set all" for b
        using ok a 2(5) [of b] by (cases "b = ?a") simp_all
      moreover have e: "candidate_loop fam lo (addr # rest) cs = candidate_loop fam lo rest (cs @ [?a])" using False ok by (simp add: Let_def)
      ultimately show ?thesis unfolding e by (intro IH(2) [OF ok] sub)
    qed
  qed
qed simp

lemma candidatePunchAddrs_ok:
  assumes "ts = candidatePunchAddrs localAddrs peerAddrs family"
  shows "length ts \<le> 16" "distinct ts"
    "\<And>a. a \<in> set ts \<Longrightarrow> punchableTarget a (containsLoopback localAddrs) \<and> a \<in> (\<lambda>(a, p). (Unmap a, p)) ` set peerAddrs"
  using assms candidate_loop_ok [of "[]" "containsLoopback localAddrs" "punchFamilies localAddrs family" peerAddrs peerAddrs]
  by (simp_all add: candidatePunchAddrs_def sortAddrPorts_def)

lemma probePacing_ok:
  assumes "0 < rate" and "rate \<le> 9 * 10 ^ 10" and "probePacing rate = (burst, gap)"
  shows "0 < burst" "50 * Millisecond \<le> gap" "burst \<le> max 1 (rate div 10)"
proof -
  have b: "burst = max 1 (rate div 10)" using assms by (simp add: probePacing_def Let_def)
  then show "0 < burst" "burst \<le> max 1 (rate div 10)" by simp_all
  have "burst \<le> 9 * 10 ^ 9" using b assms(2) by simp
  then have w: "wrap64 (Second * burst) = Second * burst" using \<open>0 < burst\<close> by (intro wrap64_id) simp_all
  have "gap = Second * burst div rate" using assms(1,3) b w \<open>0 < burst\<close> by (simp add: probePacing_def Let_def)
  moreover have "rate \<le> 20 * burst" using b assms(1) by (simp add: max_def; linarith)
  then have "50 * Millisecond * rate \<le> Second * burst" by simp
  then have "50 * Millisecond * rate div rate \<le> Second * burst div rate" using assms(1) by (intro zdiv_mono1)
  then have "50 * Millisecond \<le> Second * burst div rate" using assms(1) by simp
  ultimately show "50 * Millisecond \<le> gap" by simp
qed


lemma plan_probes_ok:
  assumes "plan_probes draws ts sn peerNAT both = Inr (ps, burst, gap, budget)"
  shows "length ps \<le> 4096 \<and> distinct ps \<and> set ps \<inter> (\<lambda>(a, q). (Unmap a, q)) ` set ts = {} \<and> 0 \<le> budget
    \<and> (\<forall>(ip, port) \<in> set ps. Is4 ip \<and> ip \<in> fst ` set ts \<and> 1024 \<le> uint port)"
    and "ps \<noteq> [] \<Longrightarrow> \<exists>rate. 0 < rate \<and> (rate = ProbeRate sn \<or> ProbeRate sn = 0 \<and> rate = 100) \<and> probePacing rate = (burst, gap)"
proof -
  define n where "n = min (if Probes sn = 0 then defaultSymmetricNATProbes else Probes sn) maxSymmetricNATProbes"
  define rate where "rate = (if ProbeRate sn = 0 then defaultSymmetricNATProbeRate else ProbeRate sn)"
  let ?q = "symmetricNATProbes draws ts n (PeerNAT sn = NATClassEndpointDependent)"
  have c: "ps = [] \<and> budget = 0 \<or> (0 \<le> rate \<and> 0 \<le> budget \<and> probePacing rate = (burst, gap) \<and> (ps = [] \<or> ps = ?q))"
    using assms unfolding plan_probes_def Let_def n_def [symmetric] rate_def [symmetric]
    by (auto split: if_splits prod.splits)
  have q: "length ?q \<le> 4096" using symmetricNATProbes_ok(1) [OF refl, where draws = draws and peerAddrs = ts and limit = n and force = "PeerNAT sn = NATClassEndpointDependent"]
    by (simp add: n_def maxSymmetricNATProbes_def)
  note qs = symmetricNATProbes_ok(2-4) [OF refl, where draws = draws and peerAddrs = ts and limit = n and force = "PeerNAT sn = NATClassEndpointDependent"]
  from c consider "ps = []" "0 \<le> budget" | "ps = ?q" "0 \<le> budget" by auto
  then show "length ps \<le> 4096 \<and> distinct ps \<and> set ps \<inter> (\<lambda>(a, q). (Unmap a, q)) ` set ts = {} \<and> 0 \<le> budget
    \<and> (\<forall>(ip, port) \<in> set ps. Is4 ip \<and> ip \<in> fst ` set ts \<and> 1024 \<le> uint port)"
    using q qs by cases auto
  show "\<exists>rate. 0 < rate \<and> (rate = ProbeRate sn \<or> ProbeRate sn = 0 \<and> rate = 100) \<and> probePacing rate = (burst, gap)" if "ps \<noteq> []"
  proof -
    have "0 \<le> rate" "probePacing rate = (burst, gap)" using c that by auto
    moreover have "rate \<noteq> 0" "rate = ProbeRate sn \<or> ProbeRate sn = 0 \<and> rate = 100" by (auto simp: rate_def defaultSymmetricNATProbeRate_def)
    ultimately show ?thesis by (intro exI [of _ rate]) linarith
  qed
qed

lemma plan_timeout_ok: "plan_timeout config ps both = Inr t \<Longrightarrow> 0 \<le> t"
  by (auto simp: plan_timeout_def engine_consts Let_def split: if_splits)

lemma plan_ok:
  assumes "newPunchPlan draws localAddrs peerAddrs meta m config fallback local = Inr plan"
  shows "targets plan = candidatePunchAddrs localAddrs peerAddrs (effectiveFamily (Family config) local) \<and> 0 < interval plan
    \<and> (\<exists>peerNAT both. plan_probes draws (targets plan) (SymmetricNAT config) peerNAT both = Inr (probes plan, probeBurst plan, probeGap plan, probeBudget plan))
    \<and> (\<exists>policy. resolvePunchSourcePolicy (SourcePolicy config) fallback = Inr policy \<and> sources plan = newPunchSourceFilter (targets plan @ probes plan) policy)
    \<and> 0 \<le> timeout plan"
proof -
  define ts where "ts = candidatePunchAddrs localAddrs peerAddrs (effectiveFamily (Family config) local)"
  define iv where "iv = (if Interval config = 0 then defaultPunchInterval else Interval config)"
  define peerNAT where "peerNAT = (if PeerNAT (SymmetricNAT config) = NATClassUnknown then ClassifyNAT peerAddrs else PeerNAT (SymmetricNAT config))"
  define both where "both = ((if LocalNAT (SymmetricNAT config) = NATClassUnknown then ClassifyNAT localAddrs else LocalNAT (SymmetricNAT config))
    = NATClassEndpointDependent \<and> peerNAT = NATClassEndpointDependent)"
  note p = assms [unfolded newPunchPlan_def Let_def, folded ts_def iv_def peerNAT_def both_def, folded both_def]
  obtain key where key: "newPunchKey meta m = Inr key" using p by (cases "newPunchKey meta m") simp_all
  obtain policy where policy: "resolvePunchSourcePolicy (SourcePolicy config) fallback = Inr policy"
    using p key by (cases "resolvePunchSourcePolicy (SourcePolicy config) fallback") simp_all
  have iv: "0 < iv" using p key policy by (auto split: if_splits)
  obtain ps burst gap budget where pp: "plan_probes draws ts (SymmetricNAT config) peerNAT both = Inr (ps, burst, gap, budget)"
    using p key policy iv by (cases "plan_probes draws ts (SymmetricNAT config) peerNAT both") (auto split: if_splits)
  obtain t where t: "plan_timeout config ps both = Inr t"
    using p key policy iv pp by (cases "plan_timeout config ps both") (auto split: if_splits)
  have "plan = \<lparr>pl_key = key, sources = newPunchSourceFilter (ts @ ps) policy, padToWireLen = PadToWireLen config, targets = ts,
      interval = iv, probes = ps, probeBurst = burst, probeGap = gap, probeBudget = budget, timeout = t, bothEndsSymmetric = both\<rparr>"
    using p key policy iv pp t by (simp split: if_splits)
  then show ?thesis using policy pp iv plan_timeout_ok [OF t] by (auto simp: ts_def)
qed


section \<open>What the loop sends and accepts\<close>

text \<open>One turn: it ends the loop, or sends and goes on.\<close>

lemma punch_loop_Cons [consumes 2, case_names stopped failed finished more]:
  assumes "punch_loop plan pd qd (r # rs) s = (sent, out)" and "punch_turn plan pd (t_now r) s = (s', now_sent)"
  obtains
    (stopped) e where "t_ctx r \<noteq> Live \<or> \<not> t_now r < qd" "sent = []" "out = Some (Inl e)"
  | (failed) e where "t_ctx r = Live" "t_now r < qd" "sent = now_sent" "out = Some (Inl e)"
  | (finished) ev :: PunchPacketEvent where "t_ctx r = Live" "t_now r < qd" "filter_allows (sources plan) (From ev)"
      "sent = now_sent @ (if Type (Packet ev) = PunchPacketHello then [(t_now r, From ev, PunchPacketAck)] else [])"
      "out = Some (Inr \<lparr>PeerAddr = From ev, R_Packet = Packet ev\<rparr>)"
  | (more) sent' where "t_ctx r = Live" "t_now r < qd" "punch_loop plan pd qd rs s' = (sent', out)" "sent = now_sent @ sent'"
proof (cases "t_ctx r \<noteq> Live \<or> \<not> t_now r < qd")
  case True
  then show thesis using stopped assms(1) by (auto split: if_splits)
next
  case False
  obtain sent' out' where l: "punch_loop plan pd qd rs s' = (sent', out')" by (cases "punch_loop plan pd qd rs s'")
  note step = assms(1) [unfolded punch_loop.simps assms(2) Let_def prod.case l]
  show thesis
  proof (cases "t_recv r")
    case (Received ev)
    then show thesis using step l False failed finished more by (cases "filter_allows (sources plan) (From ev)") simp_all
  next
    case Nothing
    then show thesis using step l False more by simp
  next
    case (Recv_failed x)
    then show thesis using step False failed by auto
  qed
qed

lemma send_targets_in: "x \<in> set (snd (send_targets plan now s)) \<Longrightarrow> fst (snd x) \<in> set (targets plan)"
  by (auto simp: send_targets_def split: if_splits)

lemma send_probes_in:
  assumes "x \<in> set (snd (snd (send_probes plan pd now s)))"
  shows "fst (snd x) \<in> set (probes plan)"
proof -
  have "\<exists>k j. fst (snd x) \<in> set (take k (drop j (probes plan)))"
    using assms by (auto simp: send_probes_def Let_def split: if_splits) blast
  then show ?thesis by (meson in_set_takeD in_set_dropD)
qed

lemma turn_sends:
  assumes "punch_turn plan pd now s = (s', sent)" and "x \<in> set sent"
  shows "fst (snd x) \<in> set (targets plan) \<union> set (probes plan)"
proof -
  have "x \<in> set (snd (send_targets plan now s)) \<or> x \<in> set (snd (snd (send_probes plan pd now (fst (send_targets plan now s)))))"
    using assms by (auto simp: punch_turn_def split: prod.splits)
  then show ?thesis using send_targets_in send_probes_in by blast
qed

lemma loop_sends:
  assumes "punch_loop plan pd qd rs s = (sent, out)" and "(t, a, ty) \<in> set sent"
  shows "a \<in> set (targets plan) \<union> set (probes plan) \<or> ty = PunchPacketAck \<and> filter_allows (sources plan) a"
  using assms
proof (induction rs arbitrary: s sent)
  case (Cons r rs)
  obtain s' now where n: "punch_turn plan pd (t_now r) s = (s', now)" by (cases "punch_turn plan pd (t_now r) s")
  have now: "(t, a, ty) \<in> set now \<Longrightarrow> a \<in> set (targets plan) \<union> set (probes plan)" using turn_sends [OF n, of "(t, a, ty)"] by simp
  from Cons.prems(1) n show ?case
  proof (cases rule: punch_loop_Cons)
    case (finished ev)
    then show ?thesis using Cons.prems(2) now by (auto split: if_splits)
  next
    case (more sent')
    then show ?thesis using Cons.prems(2) Cons.IH [OF more(3)] now by auto
  qed (use Cons.prems(2) now in auto)
qed simp

lemma loop_result:
  assumes "punch_loop plan pd qd rs s = (sent, Some (Inr res))"
  shows "filter_allows (sources plan) (PeerAddr res)"
  using assms
proof (induction rs arbitrary: s sent)
  case (Cons r rs)
  obtain s' now where n: "punch_turn plan pd (t_now r) s = (s', now)" by (cases "punch_turn plan pd (t_now r) s")
  from Cons.prems n show ?case
  proof (cases rule: punch_loop_Cons)
    case (more sent')
    then show ?thesis using Cons.IH by blast
  qed simp_all
qed simp

text \<open>The loop returns as soon as a turn finds the deadline passed or the context gone.\<close>

lemma loop_ends:
  assumes "\<exists>r \<in> set rs. t_ctx r \<noteq> Live \<or> qd \<le> t_now r"
  shows "snd (punch_loop plan pd qd rs s) \<noteq> None"
  using assms
proof (induction rs arbitrary: s)
  case (Cons r rs)
  obtain s' now where n: "punch_turn plan pd (t_now r) s = (s', now)" by (cases "punch_turn plan pd (t_now r) s")
  obtain sent out where l: "punch_loop plan pd qd (r # rs) s = (sent, out)" by (cases "punch_loop plan pd qd (r # rs) s")
  have "out \<noteq> None" using l n
  proof (cases rule: punch_loop_Cons)
    case (more sent')
    then show ?thesis using Cons.prems Cons.IH [of s'] by auto
  qed auto
  then show ?case using l by simp
qed simp

lemma wake_later: "now < wake qd c now s probing" "wake qd c now s probing \<le> max qd (now + Millisecond)"
  by (auto simp: wake_def Let_def split: option.splits)


section \<open>How much the loop sends\<close>

text \<open>
  Between two rounds of hellos lies the interval, between two bursts of probes the gap. A turn costs \<open>a\<close> rounds and \<open>b\<close> bursts, each zero or one.
\<close>

lemma turn_cost:
  assumes "punch_turn plan pd now s = (s', sent)"
  obtains a b :: nat where "length sent = length (targets plan) * a + (probeIndex s' - probeIndex s)" "probeIndex s \<le> probeIndex s'"
    "probeIndex s' \<le> probeIndex s + nat (probeBurst plan) * b" "probeIndex s \<le> length (probes plan) \<Longrightarrow> probeIndex s' \<le> length (probes plan)"
    "nextTargets s + int a * interval plan \<le> nextTargets s'" "a > 0 \<Longrightarrow> nextTargets s' \<le> now + interval plan" "a = 0 \<Longrightarrow> nextTargets s' = nextTargets s"
    "nextProbe s + int b * probeGap plan \<le> nextProbe s'" "b > 0 \<Longrightarrow> nextProbe s' \<le> now + probeGap plan" "b = 0 \<Longrightarrow> nextProbe s' = nextProbe s"
proof -
  define a :: nat where "a = (if \<not> now < nextTargets s then 1 else 0)"
  define b :: nat where "b = (if probeIndex s < length (probes plan) \<and> now < pd \<and> \<not> now < nextProbe s then 1 else 0)"
  define e where "e = min (probeIndex s + nat (probeBurst plan)) (length (probes plan))"
  have s': "s' = \<lparr>nextTargets = (if a = 1 then now + interval plan else nextTargets s), nextProbe = (if b = 1 then now + probeGap plan else nextProbe s),
      probeIndex = (if b = 1 then e else probeIndex s)\<rparr>"
    and l: "length sent = length (targets plan) * a + (if b = 1 then min (e - probeIndex s) (length (probes plan) - probeIndex s) else 0)"
    using assms(1) by (auto simp: punch_turn_def send_targets_def send_probes_def a_def b_def e_def Let_def split: if_splits)
  show thesis
  proof (rule that [of a b])
    show "length sent = length (targets plan) * a + (probeIndex s' - probeIndex s)" using l by (auto simp: s' e_def)
  qed (auto simp: s' a_def b_def e_def)
qed

lemma rate_step:
  assumes "nt + int a * iv \<le> nt'" and "a > 0 \<Longrightarrow> nt' \<le> T + iv" and "a = 0 \<Longrightarrow> nt' = nt" and "int k * iv \<le> max 0 (T + iv - nt')"
  shows "int (a + k) * iv \<le> max 0 (T + iv - nt)"
proof (cases "a = 0")
  case False
  then have "int k * iv \<le> T + iv - nt'" using assms(2,4) by simp
  then show ?thesis using assms(1) by (simp add: distrib_right)
qed (use assms in simp)

lemma loop_count:
  assumes "punch_loop plan pd qd rs s = (sent, out)" and "\<forall>r \<in> set rs. t_now r \<le> T"
    and "probeIndex s \<le> length (probes plan)"
  shows "\<exists>kt kp np. length sent \<le> length (targets plan) * kt + np + 1 \<and> np \<le> length (probes plan) - probeIndex s \<and> np \<le> nat (probeBurst plan) * kp
    \<and> int kt * interval plan \<le> max 0 (T + interval plan - nextTargets s) \<and> int kp * probeGap plan \<le> max 0 (T + probeGap plan - nextProbe s)"
  using assms
proof (induction rs arbitrary: s sent)
  case Nil
  then show ?case by (intro exI [of _ 0]) simp
next
  case (Cons r rs)
  obtain s' now where n: "punch_turn plan pd (t_now r) s = (s', now)" by (cases "punch_turn plan pd (t_now r) s")
  obtain a b where c: "length now = length (targets plan) * a + (probeIndex s' - probeIndex s)" "probeIndex s \<le> probeIndex s'"
    "probeIndex s' \<le> probeIndex s + nat (probeBurst plan) * b" "probeIndex s' \<le> length (probes plan)"
    "nextTargets s + int a * interval plan \<le> nextTargets s'" "a > 0 \<Longrightarrow> nextTargets s' \<le> t_now r + interval plan" "a = 0 \<Longrightarrow> nextTargets s' = nextTargets s"
    "nextProbe s + int b * probeGap plan \<le> nextProbe s'" "b > 0 \<Longrightarrow> nextProbe s' \<le> t_now r + probeGap plan" "b = 0 \<Longrightarrow> nextProbe s' = nextProbe s"
    using turn_cost [OF n] Cons.prems(3) by metis
  have T: "t_now r \<le> T" using Cons.prems(2) by simp
  have combine: ?case if "length sent \<le> length now + length rest" "length rest \<le> length (targets plan) * kt + np + 1"
      "np \<le> length (probes plan) - probeIndex s'" "np \<le> nat (probeBurst plan) * kp"
      "int kt * interval plan \<le> max 0 (T + interval plan - nextTargets s')" "int kp * probeGap plan \<le> max 0 (T + probeGap plan - nextProbe s')"
    for rest :: "sent list" and kt kp np
  proof -
    have "int (a + kt) * interval plan \<le> max 0 (T + interval plan - nextTargets s)" 
      by (rule rate_step [OF c(5) order_trans [OF c(6)] c(7) that(5)]) (use T in simp_all)
    moreover have "int (b + kp) * probeGap plan \<le> max 0 (T + probeGap plan - nextProbe s)" 
      by (rule rate_step [OF c(8) order_trans [OF c(9)] c(10) that(6)]) (use T in simp_all)
    moreover have "length sent \<le> length (targets plan) * (a + kt) + (probeIndex s' - probeIndex s + np) + 1"
      using that(1,2) c(1) by (simp add: distrib_left)
    moreover have "probeIndex s' - probeIndex s + np \<le> length (probes plan) - probeIndex s" using that(3) c(2,4) by simp
    moreover have "probeIndex s' - probeIndex s + np \<le> nat (probeBurst plan) * (b + kp)" using that(4) c(3) by (simp add: distrib_left)
    ultimately show ?thesis by blast
  qed
  from Cons.prems(1) n show ?case
  proof (cases rule: punch_loop_Cons)
    case (more sent')
    have "\<forall>r \<in> set rs. t_now r \<le> T" using Cons.prems(2) by simp
    then obtain kt kp np where "length sent' \<le> length (targets plan) * kt + np + 1" "np \<le> length (probes plan) - probeIndex s'" "np \<le> nat (probeBurst plan) * kp"
        "int kt * interval plan \<le> max 0 (T + interval plan - nextTargets s')" "int kp * probeGap plan \<le> max 0 (T + probeGap plan - nextProbe s')"
      using Cons.IH [OF more(3) _ c(4)] by blast
    then show ?thesis using more(4) by (intro combine [of sent' kt np kp]) simp_all
  next
    case (finished ev)
    then show ?thesis by (intro combine [of "[(0, From ev, 0)]" 0 0 0]) simp_all
  next
    case (stopped e)
    then show ?thesis by (intro combine [of "[]" 0 0 0]) simp_all
  next
    case (failed e)
    then show ?thesis by (intro combine [of "[]" 0 0 0]) simp_all
  qed
qed


section \<open>The attempt as a whole\<close>

text \<open>An attempt at one peer behind a predictable NAT, whose hello is answered.\<close>

definition demo_config :: PunchConfig where
  "demo_config = \<lparr>Timeout = 0, Interval = 0, Family = AddrFamilyAny, SourcePolicy = PunchSourceDefault,
     SymmetricNAT = \<lparr>Disable = False, LocalNAT = NATClassUnknown, PeerNAT = NATClassUnknown, Probes = 0, ProbeRate = 0, ProbeBudget = 0, BothEndsTimeout = 0\<rparr>,
     PadToWireLen = 0\<rparr>"

definition demo_meta :: PunchMetadata where "demo_meta = \<lparr>Nonce = ''00112233445566778899aabbccddeeFF'', Obfs_key = []\<rparr>"

definition demo_turn :: "instant \<Rightarrow> AddrPort \<Rightarrow> turn" where
  "demo_turn now from = \<lparr>t_ctx = Live, t_now = now, t_ctxDeadline = None,
     t_recv = Received \<lparr>AttemptID = ''a'', From = from, Packet = \<lparr>Type = PunchPacketHello, PaddingLength = 0\<rparr>\<rparr>\<rparr>"

lemma demo_plan:
  "\<exists>plan. newPunchPlan draws [] [(IPv4 0x01020304, 5000)] demo_meta (replicate 32 9) demo_config PunchSourceCandidates None = Inr plan
    \<and> targets plan = [(IPv4 0x01020304, 5000)] \<and> probes plan = [] \<and> interval plan = 100000000
    \<and> sources plan = \<lparr>f_policy = PunchSourceCandidates, f_addrs = {(IPv4 0x01020304, 5000)}, f_hosts = {}\<rparr>"
proof -
  have t: "candidatePunchAddrs [] [(IPv4 0x01020304, 5000)] AddrFamilyAny = [(IPv4 0x01020304, 5000)]"
    by (simp add: candidatePunchAddrs_def sortAddrPorts_def punchFamilies_def maxPunchPeerAddrs_def punchableTarget_def AddrPort_IsValid_def Addr_IsValid_def
        IsUnspecified_def IsMulticast_def IsLoopback_def families_allows_def containsLoopback_def Let_def)
  obtain key where "newPunchKey demo_meta (replicate 32 9) = Inr key"
    by (simp add: newPunchKey_def mask_valid_def punch_consts decodeHexSize_def hex_val_def demo_meta_def)
  then show ?thesis
    by (simp add: newPunchPlan_def demo_config_def resolvePunchSourcePolicy_def effectiveFamily_def localAddrFamily_def t plan_probes_def plan_timeout_def
        ClassifyNAT_def engine_consts newPunchSourceFilter_def AddrPort_IsValid_def Addr_IsValid_def Let_def)
qed



text \<open>
  How much an attempt sends: until time \<open>T\<close> of a run that started at \<open>now\<close>, at most one round of hellos to the targets per interval and the first, the
  probes in bursts of a tenth of the configured rate that are at least 50 ms apart, each probe once, and one acknowledgement.
\<close>

theorem punch_traffic_bounded:
  assumes plan: "newPunchPlan draws localAddrs peerAddrs meta m config fallback local = Inr plan" and run: "runPunch plan now rs = (sent, out)"
    and T: "\<forall>r \<in> set rs. t_now r \<le> T" "now \<le> T" and rate: "ProbeRate (SymmetricNAT config) \<le> 9 * 10 ^ 10"
  shows "\<exists>rounds np. length sent \<le> length (targets plan) * rounds + np + 1
    \<and> int rounds \<le> 1 + (T - now) div interval plan
    \<and> np \<le> length (probes plan) \<and> (probes plan \<noteq> [] \<longrightarrow> 50 * Millisecond \<le> probeGap plan \<and> int np \<le> probeBurst plan * (1 + (T - now) div probeGap plan))"
proof -
  note p = plan_ok [OF plan]
  then obtain peerNAT both where pp: "plan_probes draws (targets plan) (SymmetricNAT config) peerNAT both = Inr (probes plan, probeBurst plan, probeGap plan, probeBudget plan)"
    by blast
  have iv: "0 < interval plan" using p by blast
  have gap: "50 * Millisecond \<le> probeGap plan" "0 < probeBurst plan" if "probes plan \<noteq> []"
  proof -
    from plan_probes_ok(2) [OF pp that] obtain r where "0 < r" "r = ProbeRate (SymmetricNAT config) \<or> r = 100" "probePacing r = (probeBurst plan, probeGap plan)" by blast
    moreover from this have "r \<le> 9 * 10 ^ 10" using rate by (elim disjE) simp_all
    ultimately obtain r where r: "0 < r" "r \<le> 9 * 10 ^ 10" "probePacing r = (probeBurst plan, probeGap plan)" by blast
    show "50 * Millisecond \<le> probeGap plan" "0 < probeBurst plan" using probePacing_ok [OF r] by simp_all
  qed
  have per: "int k \<le> 1 + (T - now) div d" if "0 < d" "int k * d \<le> max 0 (T + d - now)" for k d
  proof -
    have "int k * d \<le> (T - now) + d" using that T(2) by simp
    then have "(int k * d) div d \<le> ((T - now) + d) div d" using that(1) by (intro zdiv_mono1)
    then show ?thesis using that(1) div_add_self2 [of d "T - now"] by simp
  qed
  obtain kt kp np where k: "length sent \<le> length (targets plan) * kt + np + 1" "np \<le> length (probes plan)" "np \<le> nat (probeBurst plan) * kp"
      "int kt * interval plan \<le> max 0 (T + interval plan - now)" "int kp * probeGap plan \<le> max 0 (T + probeGap plan - now)"
    using loop_count [OF run [unfolded runPunch_def] T(1)] by auto
  have "int np \<le> probeBurst plan * (1 + (T - now) div probeGap plan)" if "probes plan \<noteq> []"
  proof -
    have "int kp \<le> 1 + (T - now) div probeGap plan" using per [OF _ k(5)] gap(1) [OF that] by simp
    then have "probeBurst plan * int kp \<le> probeBurst plan * (1 + (T - now) div probeGap plan)" using gap(2) [OF that] by (intro mult_left_mono) simp_all
    moreover have "int np \<le> int (nat (probeBurst plan) * kp)" using k(3) by (simp only: of_nat_le_iff)
    then have "int np \<le> probeBurst plan * int kp" using gap(2) [OF that] by simp
    ultimately show ?thesis by (rule order_trans [rotated])
  qed
  then show ?thesis using k(1,2) per [OF iv k(4)] gap(1) by blast
qed

theorem punch_traffic_bounded_witness:
  "\<exists>plan sent out. newPunchPlan (\<lambda>_ _. 0) [] [(IPv4 0x01020304, 5000)] demo_meta (replicate 32 9) demo_config PunchSourceCandidates None = Inr plan
    \<and> runPunch plan 7 [demo_turn 7 (IPv4 9, 5000), demo_turn 8 (IPv4 0x01020304, 5000)] = (sent, out) \<and> length sent \<le> 2"
proof -
  obtain plan where p: "newPunchPlan (\<lambda>_ _. 0) [] [(IPv4 0x01020304, 5000)] demo_meta (replicate 32 9) demo_config PunchSourceCandidates None = Inr plan"
    and t: "targets plan = [(IPv4 0x01020304, 5000)]" "probes plan = []" "interval plan = 100000000" using demo_plan by blast
  obtain sent out where r: "runPunch plan 7 [demo_turn 7 (IPv4 9, 5000), demo_turn 8 (IPv4 0x01020304, 5000)] = (sent, out)"
    by (cases "runPunch plan 7 [demo_turn 7 (IPv4 9, 5000), demo_turn 8 (IPv4 0x01020304, 5000)]")
  have "\<exists>rounds np. length sent \<le> length (targets plan) * rounds + np + 1 \<and> int rounds \<le> 1 + (8 - 7) div interval plan
      \<and> np \<le> length (probes plan) \<and> (probes plan \<noteq> [] \<longrightarrow> 50 * Millisecond \<le> probeGap plan \<and> int np \<le> probeBurst plan * (1 + (8 - 7) div probeGap plan))"
    by (rule punch_traffic_bounded [OF p r]) (simp_all add: demo_turn_def demo_config_def)
  then have "length sent \<le> 2" by (auto simp: t)
  then show ?thesis using p r by blast
qed

end
