(* ===== verification/Aead.thy ===== *)
theory Aead
  imports Prelude
begin

text \<open>
  Authenticated encryption, which the obfuscators and the path probes use through \<open>golang.org/x/crypto/chacha20poly1305\<close>. The definitions of the
  program take the cipher as an argument; the proofs use the locales \<open>aead\<close> and \<open>aead_ad\<close>, the second with additional data, and their
  interpretation is ChaCha20-Poly1305 as RFC 8439 defines it.
\<close>

section \<open>The interface\<close>

locale aead =
  fixes seal :: "bytes \<Rightarrow> bytes \<Rightarrow> bytes \<Rightarrow> bytes"
    and unseal :: "bytes \<Rightarrow> bytes \<Rightarrow> bytes \<Rightarrow> bytes option"
  assumes unseal_seal: "unseal key nonce (seal key nonce m) = Some m"
    and length_seal: "length (seal key nonce m) = length m + 16"

section \<open>ChaCha20-Poly1305 (RFC 8439)\<close>

definition le32 :: "bytes \<Rightarrow> u32" where "le32 bs = uint_be (rev bs) 0"

definition le32_bytes :: "u32 \<Rightarrow> bytes" where "le32_bytes w = rev (be32 w)"

definition rotl :: "nat \<Rightarrow> u32 \<Rightarrow> u32" where "rotl n w = push_bit n w OR drop_bit (32 - n) w"

definition quarter_round :: "nat \<times> nat \<times> nat \<times> nat \<Rightarrow> u32 list \<Rightarrow> u32 list" where
  "quarter_round ix st =
     (case ix of (a, b, c, d) \<Rightarrow>
        let va = st ! a; vb = st ! b; vc = st ! c; vd = st ! d;
            va = va + vb; vd = rotl 16 (vd XOR va); vc = vc + vd; vb = rotl 12 (vb XOR vc);
            va = va + vb; vd = rotl 8 (vd XOR va); vc = vc + vd; vb = rotl 7 (vb XOR vc)
        in st[a := va, b := vb, c := vc, d := vd])"

definition double_round :: "u32 list \<Rightarrow> u32 list" where
  "double_round st = fold quarter_round
     [(0, 4, 8, 12), (1, 5, 9, 13), (2, 6, 10, 14), (3, 7, 11, 15), (0, 5, 10, 15), (1, 6, 11, 12), (2, 7, 8, 13), (3, 4, 9, 14)] st"

fun words_of :: "nat \<Rightarrow> bytes \<Rightarrow> u32 list" where
  "words_of 0 bs = []"
| "words_of (Suc n) bs = le32 (take 4 bs) # words_of n (drop 4 bs)"

definition chacha20_block :: "bytes \<Rightarrow> u32 \<Rightarrow> bytes \<Rightarrow> bytes" where
  "chacha20_block key counter nonce =
     (let init = [0x61707865, 0x3320646e, 0x79622d32, 0x6b206574] @ words_of 8 key @ [counter] @ words_of 3 nonce
      in concat (map le32_bytes (map2 (+) ((double_round ^^ 10) init) init)))"

definition chacha20_byte :: "bytes \<Rightarrow> bytes \<Rightarrow> nat \<Rightarrow> u8" where
  "chacha20_byte key nonce i = chacha20_block key (of_nat (Suc (i div 64))) nonce ! (i mod 64)"

definition chacha20_xor :: "bytes \<Rightarrow> bytes \<Rightarrow> bytes \<Rightarrow> bytes" where
  "chacha20_xor key nonce m = map2 (\<lambda>i c. c XOR chacha20_byte key nonce i) [0..<length m] m"

definition le_nat :: "bytes \<Rightarrow> nat" where "le_nat bs = foldr (\<lambda>b acc. unat b + 256 * acc) bs 0"

function poly1305_acc :: "nat \<Rightarrow> bytes \<Rightarrow> nat \<Rightarrow> nat" where
  "poly1305_acc r m acc =
     (if m = [] then acc else poly1305_acc r (drop 16 m) ((r * (acc + le_nat (take 16 m @ [1]))) mod (2 ^ 130 - 5)))"
  by pat_completeness auto
termination by (relation "measure (\<lambda>(r, m, acc). length m)") auto

fun nat_le_bytes :: "nat \<Rightarrow> nat \<Rightarrow> bytes" where
  "nat_le_bytes 0 n = []"
| "nat_le_bytes (Suc k) n = of_nat n # nat_le_bytes k (n div 256)"

definition poly1305 :: "bytes \<Rightarrow> bytes \<Rightarrow> bytes" where
  "poly1305 key m =
     (let r = and (le_nat (take 16 key)) 0x0ffffffc0ffffffc0ffffffc0fffffff
      in nat_le_bytes 16 (poly1305_acc r m 0 + le_nat (take 16 (drop 16 key))))"

definition pad16 :: "bytes \<Rightarrow> bytes" where "pad16 m = make_bytes ((16 - length m mod 16) mod 16)"

definition poly_tag :: "bytes \<Rightarrow> bytes \<Rightarrow> bytes \<Rightarrow> bytes" where
  "poly_tag key nonce c =
     poly1305 (take 32 (chacha20_block key 0 nonce)) (c @ pad16 c @ make_bytes 8 @ nat_le_bytes 8 (length c))"

definition chacha20poly1305_seal :: "bytes \<Rightarrow> bytes \<Rightarrow> bytes \<Rightarrow> bytes" where
  "chacha20poly1305_seal key nonce m = (let c = chacha20_xor key nonce m in c @ poly_tag key nonce c)"

definition chacha20poly1305_open :: "bytes \<Rightarrow> bytes \<Rightarrow> bytes \<Rightarrow> bytes option" where
  "chacha20poly1305_open key nonce d =
     (if length d < 16 then None
      else let c = take (length d - 16) d
           in if drop (length d - 16) d = poly_tag key nonce c then Some (chacha20_xor key nonce c) else None)"

lemma length_nat_le_bytes [simp]: "length (nat_le_bytes k n) = k"
  by (induction k arbitrary: n) simp_all

lemma length_poly_tag [simp]: "length (poly_tag key nonce c) = 16"
  by (simp add: poly_tag_def poly1305_def Let_def)

lemma length_chacha20_xor [simp]: "length (chacha20_xor key nonce m) = length m"
  by (simp add: chacha20_xor_def)

lemma chacha20_xor_twice [simp]: "chacha20_xor key nonce (chacha20_xor key nonce m) = m"
  by (rule nth_equalityI) (simp_all add: chacha20_xor_def word_bw_assocs(3))

interpretation rfc8439: aead chacha20poly1305_seal chacha20poly1305_open
  by unfold_locales (simp_all add: chacha20poly1305_seal_def chacha20poly1305_open_def Let_def)


section \<open>Additional data\<close>

locale aead_ad =
  fixes seal :: "bytes \<Rightarrow> bytes \<Rightarrow> bytes \<Rightarrow> bytes \<Rightarrow> bytes"
    and unseal :: "bytes \<Rightarrow> bytes \<Rightarrow> bytes \<Rightarrow> bytes \<Rightarrow> bytes option"
  assumes unseal_seal: "unseal key nonce (seal key nonce m ad) ad = Some m"
    and length_seal: "length (seal key nonce m ad) = length m + 16"

text \<open>A cipher with additional data is one without, when the data are fixed.\<close>

sublocale aead_ad \<subseteq> fixed: aead "\<lambda>key nonce m. seal key nonce m ad" "\<lambda>key nonce c. unseal key nonce c ad" for ad
  by unfold_locales (simp_all add: unseal_seal length_seal)

definition poly_tag_ad :: "bytes \<Rightarrow> bytes \<Rightarrow> bytes \<Rightarrow> bytes \<Rightarrow> bytes" where
  "poly_tag_ad key nonce ad c =
     poly1305 (take 32 (chacha20_block key 0 nonce)) (ad @ pad16 ad @ c @ pad16 c @ nat_le_bytes 8 (length ad) @ nat_le_bytes 8 (length c))"

definition chacha20poly1305_seal_ad :: "bytes \<Rightarrow> bytes \<Rightarrow> bytes \<Rightarrow> bytes \<Rightarrow> bytes" where
  "chacha20poly1305_seal_ad key nonce m ad = (let c = chacha20_xor key nonce m in c @ poly_tag_ad key nonce ad c)"

definition chacha20poly1305_open_ad :: "bytes \<Rightarrow> bytes \<Rightarrow> bytes \<Rightarrow> bytes \<Rightarrow> bytes option" where
  "chacha20poly1305_open_ad key nonce d ad =
     (if length d < 16 then None
      else let c = take (length d - 16) d
           in if drop (length d - 16) d = poly_tag_ad key nonce ad c then Some (chacha20_xor key nonce c) else None)"

lemma length_poly_tag_ad [simp]: "length (poly_tag_ad key nonce ad c) = 16"
  by (simp add: poly_tag_ad_def poly1305_def Let_def)

interpretation rfc8439_ad: aead_ad chacha20poly1305_seal_ad chacha20poly1305_open_ad
  by unfold_locales (simp_all add: chacha20poly1305_seal_ad_def chacha20poly1305_open_ad_def Let_def)

end
