(* ===== verification/Disco.thy ===== *)
theory Disco
  imports Punch_Engine Aead
begin

text \<open>
  The envelope of the path probes (\<open>extras/realm/disco.go\<close>): the key schedule of a connection, the tags that route a datagram to it, the tokens that
  tie a probe to an address, and the packets. HKDF, HMAC-SHA256 and the cipher are arguments, collected in \<open>disco_env\<close> (the key
  derivation of \<open>extras/crypto\<close> is that of \<open>Punch_Packet\<close>); so are the random bytes, where \<open>None\<close> is a failing source. Fixed-size
  arrays are lists. Errors carry what the callers look at; the texts of \<open>ErrInvalidDiscoPacket\<close> are left out.
\<close>

section \<open>Constants\<close>

definition discoVersion :: u8 where "discoVersion = 2"
definition discoTagLen :: nat where "discoTagLen = 8"
definition discoNonceLen :: nat where "discoNonceLen = 12"
definition discoSealLen :: nat where "discoSealLen = 16"
definition discoHeaderLen :: nat where "discoHeaderLen = 12"
definition discoKeyLen :: nat where "discoKeyLen = 32"
definition discoMinWire :: nat where "discoMinWire = discoTagLen + discoNonceLen + discoHeaderLen + discoSealLen"
definition discoMaxWire :: nat where "discoMaxWire = 1452"
definition DiscoBindNonceSize :: nat where "DiscoBindNonceSize = 16"
definition discoEpoch :: duration where "discoEpoch = 120 * Second"
definition discoMaxSkew :: duration where "discoMaxSkew = 30 * Second"
definition DiscoMaxCandidates :: nat where "DiscoMaxCandidates = 16"
definition discoSeqCeiling :: u32 where "discoSeqCeiling = 0xFFFFFFF0"
definition discoFamilyV4 :: u8 where "discoFamilyV4 = 4"
definition discoFamilyV6 :: u8 where "discoFamilyV6 = 6"

lemmas disco_consts = discoVersion_def discoTagLen_def discoNonceLen_def discoSealLen_def discoHeaderLen_def discoKeyLen_def discoMinWire_def
  discoMaxWire_def DiscoBindNonceSize_def discoEpoch_def discoMaxSkew_def DiscoMaxCandidates_def discoSeqCeiling_def discoFamilyV4_def discoFamilyV6_def

definition CtxDiscoTagC2S :: string where "CtxDiscoTagC2S = ''chameleon/realm/disco-v1/tag/c2s''"
definition CtxDiscoTagS2C :: string where "CtxDiscoTagS2C = ''chameleon/realm/disco-v1/tag/s2c''"
definition CtxDiscoBodyC2S :: string where "CtxDiscoBodyC2S = ''chameleon/realm/disco-v1/body/c2s''"
definition CtxDiscoBodyS2C :: string where "CtxDiscoBodyS2C = ''chameleon/realm/disco-v1/body/s2c''"
definition CtxDiscoProbe :: string where "CtxDiscoProbe = ''chameleon/realm/disco-v1/probe''"
definition CtxDiscoEpoch :: string where "CtxDiscoEpoch = ''chameleon/realm/disco-v1/epoch''"

datatype disco_error =
    ErrNotDisco
  | ErrDiscoAuth
  | ErrDiscoBadVersion u8
  | DiscoSkewError duration
  | ErrInvalidDiscoPacket
  | ErrDiscoSecretTooShort
  | DeriveError string
  | BadKeyLength
  | RandomError

definition DiscoProbeType :: u8 where "DiscoProbeType = 0x10"
definition DiscoPongType :: u8 where "DiscoPongType = 0x11"
definition DiscoCallMeType :: u8 where "DiscoCallMeType = 0x12"
definition DiscoBindType :: u8 where "DiscoBindType = 0x13"
definition DiscoBindAckType :: u8 where "DiscoBindAckType = 0x14"

lemmas disco_types = DiscoProbeType_def DiscoPongType_def DiscoCallMeType_def DiscoBindType_def DiscoBindAckType_def

definition DiscoType_String :: "u8 \<Rightarrow> string" where
  "DiscoType_String t =
     (if t = DiscoProbeType then ''PROBE'' else if t = DiscoPongType then ''PONG'' else if t = DiscoCallMeType then ''CALLME''
      else if t = DiscoBindType then ''BIND'' else if t = DiscoBindAckType then ''BINDACK'' else ''disco(0x'' @ hex_digits (unat t) @ '')'')"


section \<open>Packets\<close>

record DiscoHeader =
  Type :: u8
  Seq :: u32
  TS :: instant

record DiscoProbe =
  pr_Token :: bytes
  TxMicros :: i64

record DiscoPong =
  po_Token :: bytes
  TxMicrosEcho :: i64
  po_ObservedAddr :: AddrPort

record DiscoCandidate =
  ca_Addr :: AddrPort
  Priority :: u8

record DiscoBind =
  bi_Nonce :: bytes
  ClaimedAddr :: AddrPort

record DiscoBindAck =
  ba_Nonce :: bytes
  ba_ObservedAddr :: AddrPort

record DiscoPacket =
  Header :: DiscoHeader
  Probe :: "DiscoProbe option"
  Pong :: "DiscoPong option"
  CallMe :: "DiscoCandidate list option"
  Bind :: "DiscoBind option"
  BindAck :: "DiscoBindAck option"


section \<open>Keys, tags and tokens\<close>

record disco_env =
  kdf :: kdf_env
  HMAC :: "bytes \<Rightarrow> bytes \<Rightarrow> bytes"
  Seal :: "bytes \<Rightarrow> bytes \<Rightarrow> bytes \<Rightarrow> bytes \<Rightarrow> bytes"
  Unseal :: "bytes \<Rightarrow> bytes \<Rightarrow> bytes \<Rightarrow> bytes \<Rightarrow> bytes option"

record DiscoKeys =
  tagSend :: bytes
  tagRecv :: bytes
  seal_key :: bytes
  open_key :: bytes
  probe_key :: bytes

definition disco_derive :: "disco_env \<Rightarrow> bytes \<Rightarrow> string \<Rightarrow> nat \<Rightarrow> disco_error + bytes" where
  "disco_derive env secret ctx len = (case DeriveFromSecret (kdf env) secret ctx len of Inl e \<Rightarrow> Inl (DeriveError e) | Inr k \<Rightarrow> Inr k)"

definition NewDiscoKeys :: "disco_env \<Rightarrow> bytes \<Rightarrow> bool \<Rightarrow> disco_error + DiscoKeys" where
  "NewDiscoKeys env secret server =
     (if length secret < MinSecretLen then Inl ErrDiscoSecretTooShort
      else case disco_derive env secret CtxDiscoTagC2S discoKeyLen of Inl e \<Rightarrow> Inl e | Inr tagC2S \<Rightarrow>
      case disco_derive env secret CtxDiscoTagS2C discoKeyLen of Inl e \<Rightarrow> Inl e | Inr tagS2C \<Rightarrow>
      case disco_derive env secret CtxDiscoBodyC2S discoKeyLen of Inl e \<Rightarrow> Inl e | Inr bodyC2S \<Rightarrow>
      case disco_derive env secret CtxDiscoBodyS2C discoKeyLen of Inl e \<Rightarrow> Inl e | Inr bodyS2C \<Rightarrow>
      case disco_derive env secret CtxDiscoProbe discoKeyLen of Inl e \<Rightarrow> Inl e | Inr probe \<Rightarrow>
        let (tSend, tRecv) = (if server then (tagS2C, tagC2S) else (tagC2S, tagS2C));
            (bSend, bRecv) = (if server then (bodyS2C, bodyC2S) else (bodyC2S, bodyS2C))
        in if length bSend \<noteq> discoKeyLen then Inl BadKeyLength
           else if length bRecv \<noteq> discoKeyLen then Inl BadKeyLength
           else Inr \<lparr>tagSend = tSend, tagRecv = tRecv, seal_key = bSend, open_key = bRecv, probe_key = probe\<rparr>)"

definition discoEpochOf :: "instant \<Rightarrow> u64" where
  "discoEpochOf now = (let secs = Unix now; secs = (if secs < 0 then 0 else secs) in word_of_int secs div word_of_int (discoEpoch div Second))"

definition discoTag :: "disco_env \<Rightarrow> bytes \<Rightarrow> u64 \<Rightarrow> disco_error + bytes" where
  "discoTag env tagKey epoch =
     (case disco_derive env tagKey (CtxDiscoEpoch @ ''/'' @ FormatUint (unat epoch)) discoTagLen of
        Inl e \<Rightarrow> Inl e
      | Inr b \<Rightarrow> Inr (fill discoTagLen b))"

definition SendTag :: "disco_env \<Rightarrow> DiscoKeys \<Rightarrow> instant \<Rightarrow> disco_error + bytes" where
  "SendTag env k now = discoTag env (tagSend k) (discoEpochOf now)"

fun recv_tags :: "disco_env \<Rightarrow> bytes \<Rightarrow> u64 list \<Rightarrow> disco_error + bytes list" where
  "recv_tags env key [] = Inr []"
| "recv_tags env key (e # es) =
     (case discoTag env key e of Inl err \<Rightarrow> Inl err | Inr tag \<Rightarrow> (case recv_tags env key es of Inl err \<Rightarrow> Inl err | Inr tags \<Rightarrow> Inr (tag # tags)))"

definition RecvTags :: "disco_env \<Rightarrow> DiscoKeys \<Rightarrow> instant \<Rightarrow> disco_error + bytes list" where
  "RecvTags env k now = (let epoch = discoEpochOf now in recv_tags env (tagRecv k) [epoch - 1, epoch, epoch + 1])"

text \<open>A word as its bytes, the most significant first.\<close>

fun be_bytes :: "nat \<Rightarrow> 'a::len word \<Rightarrow> bytes" where
  "be_bytes 0 w = []"
| "be_bytes (Suc n) w = ucast (drop_bit (8 * n) w) # be_bytes n w"

fun MarshalBinary :: "Addr \<Rightarrow> bytes" where
  "MarshalBinary NoAddr = []"
| "MarshalBinary (IPv4 w) = be_bytes 4 w"
| "MarshalBinary (IPv6 w z) = be_bytes 16 w @ bytes_of z"

definition ProbeToken :: "disco_env \<Rightarrow> DiscoKeys \<Rightarrow> AddrPort \<Rightarrow> i64 \<Rightarrow> bytes" where
  "ProbeToken env k to txMicros =
     fill 8 (take 8 (HMAC env (probe_key k) (MarshalBinary (Unmap (fst to)) @ be16 (snd to) @ be_bytes 8 txMicros)))"

definition CheckProbeToken :: "disco_env \<Rightarrow> DiscoKeys \<Rightarrow> AddrPort \<Rightarrow> i64 \<Rightarrow> bytes \<Rightarrow> bool" where
  "CheckProbeToken env k frm txMicros token \<longleftrightarrow> ProbeToken env k frm txMicros = token"


section \<open>Addresses and payloads\<close>

definition appendDiscoAddrPort :: "bytes \<Rightarrow> AddrPort \<Rightarrow> disco_error + bytes" where
  "appendDiscoAddrPort dst a =
     (case Unmap (fst a) of
        IPv4 w \<Rightarrow> Inr (dst @ [discoFamilyV4] @ be_bytes 4 w @ be16 (snd a))
      | IPv6 w z \<Rightarrow> Inr (dst @ [discoFamilyV6] @ be_bytes 16 w @ be16 (snd a))
      | NoAddr \<Rightarrow> Inl ErrInvalidDiscoPacket)"

definition parseDiscoAddrPort :: "bytes \<Rightarrow> disco_error + AddrPort \<times> nat" where
  "parseDiscoAddrPort b =
     (case b of
        [] \<Rightarrow> Inl ErrInvalidDiscoPacket
      | f # _ \<Rightarrow>
          (case (if f = discoFamilyV4 then Some 4 else if f = discoFamilyV6 then Some 16 else None) of
             None \<Rightarrow> Inl ErrInvalidDiscoPacket
           | Some sz \<Rightarrow>
               let n = 1 + sz + 2
               in if length b < n then Inl ErrInvalidDiscoPacket
                  else let s = take sz (drop 1 b);
                           addr = (if sz = 4 then IPv4 (uint_be s 0) else IPv6 (uint_be s 0) []);
                           port = Uint16 (drop (1 + sz) b)
                       in Inr ((Unmap addr, port), n)))"

definition parseDiscoNonceAndAddr :: "bytes \<Rightarrow> disco_error + bytes \<times> AddrPort" where
  "parseDiscoNonceAndAddr b =
     (if length b < DiscoBindNonceSize then Inl ErrInvalidDiscoPacket
      else case parseDiscoAddrPort (drop DiscoBindNonceSize b) of
             Inl e \<Rightarrow> Inl e
           | Inr (addr, n) \<Rightarrow> if DiscoBindNonceSize + n \<noteq> length b then Inl ErrInvalidDiscoPacket else Inr (take DiscoBindNonceSize b, addr))"

fun append_candidates :: "bytes \<Rightarrow> DiscoCandidate list \<Rightarrow> disco_error + bytes" where
  "append_candidates dst [] = Inr dst"
| "append_candidates dst (c # cs) =
     (case appendDiscoAddrPort dst (ca_Addr c) of Inl e \<Rightarrow> Inl e | Inr dst \<Rightarrow> append_candidates (dst @ [Priority c]) cs)"

definition appendDiscoPayload :: "bytes \<Rightarrow> DiscoPacket \<Rightarrow> disco_error + bytes" where
  "appendDiscoPayload dst p =
     (let t = Type (Header p)
      in if t = DiscoProbeType then
           (case Probe p of None \<Rightarrow> Inl ErrInvalidDiscoPacket | Some x \<Rightarrow> Inr (dst @ pr_Token x @ be_bytes 8 (TxMicros x)))
         else if t = DiscoPongType then
           (case Pong p of None \<Rightarrow> Inl ErrInvalidDiscoPacket
            | Some x \<Rightarrow> appendDiscoAddrPort (dst @ po_Token x @ be_bytes 8 (TxMicrosEcho x)) (po_ObservedAddr x))
         else if t = DiscoCallMeType then
           (case CallMe p of None \<Rightarrow> Inl ErrInvalidDiscoPacket
            | Some cs \<Rightarrow> if length cs > DiscoMaxCandidates then Inl ErrInvalidDiscoPacket else append_candidates (dst @ [of_nat (length cs)]) cs)
         else if t = DiscoBindType then
           (case Bind p of None \<Rightarrow> Inl ErrInvalidDiscoPacket | Some x \<Rightarrow> appendDiscoAddrPort (dst @ bi_Nonce x) (ClaimedAddr x))
         else if t = DiscoBindAckType then
           (case BindAck p of None \<Rightarrow> Inl ErrInvalidDiscoPacket | Some x \<Rightarrow> appendDiscoAddrPort (dst @ ba_Nonce x) (ba_ObservedAddr x))
         else Inl ErrInvalidDiscoPacket)"

text \<open>The candidates of a \<open>CALLME\<close>, and what is left behind them.\<close>

fun parse_candidates :: "nat \<Rightarrow> bytes \<Rightarrow> disco_error + DiscoCandidate list \<times> bytes" where
  "parse_candidates 0 rest = Inr ([], rest)"
| "parse_candidates (Suc n) rest =
     (case parseDiscoAddrPort rest of
        Inl e \<Rightarrow> Inl e
      | Inr (addr, k) \<Rightarrow>
          (case drop k rest of
             [] \<Rightarrow> Inl ErrInvalidDiscoPacket
           | pr # rest \<Rightarrow>
               (case parse_candidates n rest of
                  Inl e \<Rightarrow> Inl e
                | Inr (cs, rest) \<Rightarrow> Inr (\<lparr>ca_Addr = addr, Priority = pr\<rparr> # cs, rest))))"

definition parseDiscoPayload :: "DiscoPacket \<Rightarrow> bytes \<Rightarrow> disco_error + DiscoPacket" where
  "parseDiscoPayload p b =
     (let t = Type (Header p)
      in if t = DiscoProbeType then
           (if length b \<noteq> 16 then Inl ErrInvalidDiscoPacket
            else Inr (p\<lparr>Probe := Some \<lparr>pr_Token = take 8 b, TxMicros = uint_be (drop 8 b) 0\<rparr>\<rparr>))
         else if t = DiscoPongType then
           (if length b < 16 then Inl ErrInvalidDiscoPacket
            else case parseDiscoAddrPort (drop 16 b) of
                   Inl e \<Rightarrow> Inl e
                 | Inr (addr, n) \<Rightarrow>
                     if 16 + n \<noteq> length b then Inl ErrInvalidDiscoPacket
                     else Inr (p\<lparr>Pong := Some \<lparr>po_Token = take 8 b, TxMicrosEcho = uint_be (take 8 (drop 8 b)) 0, po_ObservedAddr = addr\<rparr>\<rparr>))
         else if t = DiscoCallMeType then
           (case b of
              [] \<Rightarrow> Inl ErrInvalidDiscoPacket
            | c # rest \<Rightarrow>
                if unat c > DiscoMaxCandidates then Inl ErrInvalidDiscoPacket
                else case parse_candidates (unat c) rest of
                       Inl e \<Rightarrow> Inl e
                     | Inr (cs, rest) \<Rightarrow> if rest \<noteq> [] then Inl ErrInvalidDiscoPacket else Inr (p\<lparr>CallMe := Some cs\<rparr>))
         else if t = DiscoBindType then
           (case parseDiscoNonceAndAddr b of
              Inl e \<Rightarrow> Inl e
            | Inr (nonce, addr) \<Rightarrow> Inr (p\<lparr>Bind := Some \<lparr>bi_Nonce = nonce, ClaimedAddr = addr\<rparr>\<rparr>))
         else if t = DiscoBindAckType then
           (case parseDiscoNonceAndAddr b of
              Inl e \<Rightarrow> Inl e
            | Inr (nonce, addr) \<Rightarrow> Inr (p\<lparr>BindAck := Some \<lparr>ba_Nonce = nonce, ba_ObservedAddr = addr\<rparr>\<rparr>))
         else Inl ErrInvalidDiscoPacket)"


section \<open>The envelope\<close>

definition EncodeDisco :: "disco_env \<Rightarrow> bytes option \<Rightarrow> DiscoPacket \<Rightarrow> DiscoKeys option \<Rightarrow> u32 \<Rightarrow> instant \<Rightarrow> nat \<Rightarrow> disco_error + bytes" where
  "EncodeDisco env r p k seq now padTo =
     (case k of
        None \<Rightarrow> Inl ErrInvalidDiscoPacket
      | Some k \<Rightarrow>
          (case appendDiscoPayload [] p of
             Inl e \<Rightarrow> Inl e
           | Inr payload \<Rightarrow>
               if padTo < discoMinWire \<or> padTo > discoMaxWire then Inl ErrInvalidDiscoPacket
               else
                 let plainLen = padTo - discoTagLen - discoNonceLen - discoSealLen
                 in if plainLen < discoHeaderLen + length payload then Inl ErrInvalidDiscoPacket
                    else case SendTag env k now of
                           Inl e \<Rightarrow> Inl e
                         | Inr tag \<Rightarrow>
                             (case r of
                                None \<Rightarrow> Inl RandomError
                              | Some r \<Rightarrow>
                                  let nonce = fill discoNonceLen r;
                                      plain = [discoVersion, Type (Header p)] @ be16 (of_nat (length payload)) @ be32 (word_of_int (Unix now)) @ be32 seq
                                              @ payload @ make_bytes (plainLen - discoHeaderLen - length payload)
                                  in Inr (tag @ nonce @ Seal env (seal_key k) nonce plain tag))))"

definition empty_packet :: "DiscoHeader \<Rightarrow> DiscoPacket" where
  "empty_packet h = \<lparr>Header = h, Probe = None, Pong = None, CallMe = None, Bind = None, BindAck = None\<rparr>"

definition decodeDiscoBody :: "disco_env \<Rightarrow> bytes \<Rightarrow> DiscoKeys \<Rightarrow> instant \<Rightarrow> disco_error + DiscoPacket" where
  "decodeDiscoBody env wire k now =
     (case Unseal env (open_key k) (take discoNonceLen (drop discoTagLen wire)) (drop (discoTagLen + discoNonceLen) wire) (take discoTagLen wire) of
        None \<Rightarrow> Inl ErrDiscoAuth
      | Some plain \<Rightarrow>
          if length plain < discoHeaderLen then Inl ErrInvalidDiscoPacket
          else if plain ! 0 \<noteq> discoVersion then Inl (ErrDiscoBadVersion (plain ! 0))
          else
            let payloadLen = unat (Uint16 (drop 2 plain))
            in if discoHeaderLen + payloadLen > length plain then Inl ErrInvalidDiscoPacket
               else
                 let ts = uint (Uint32 (drop 4 plain)) * Second; skew = now - ts
                 in if skew > discoMaxSkew \<or> skew < - discoMaxSkew then Inl (DiscoSkewError skew)
                    else
                      let h = \<lparr>Type = plain ! 1, Seq = Uint32 (drop 8 plain), TS = ts\<rparr>
                      in if Seq h = 0 then Inl ErrInvalidDiscoPacket
                         else parseDiscoPayload (empty_packet h) (take payloadLen (drop discoHeaderLen plain)))"

definition DecodeDisco :: "disco_env \<Rightarrow> bytes \<Rightarrow> DiscoKeys option \<Rightarrow> instant \<Rightarrow> disco_error + DiscoPacket" where
  "DecodeDisco env wire k now =
     (case k of
        None \<Rightarrow> Inl ErrNotDisco
      | Some k \<Rightarrow>
          if length wire < discoMinWire \<or> length wire > discoMaxWire then Inl ErrNotDisco
          else case RecvTags env k now of
                 Inl e \<Rightarrow> Inl e
               | Inr tags \<Rightarrow> if take discoTagLen wire \<notin> set tags then Inl ErrNotDisco else decodeDiscoBody env wire k now)"


section \<open>Addresses and payloads come back\<close>

lemma length_be_bytes [simp]: "length (be_bytes n w) = n"
  by (induction n) simp_all

lemma uint_be_be_bytes: "uint_be (be_bytes n w) (drop_bit (8 * n) w) = w"
proof (induction n)
  case (Suc n)
  have "8 * Suc n = 8 + 8 * n" by simp
  then show ?case using Suc uint_be_chain(1) [of "8 * Suc n" "8 * n" w "be_bytes n w"] by simp
qed simp

lemma be_bytes_inverse [simp]: "uint_be (be_bytes 4 w) 0 = w" "uint_be (be_bytes 8 x) 0 = x" "uint_be (be_bytes 16 y) 0 = y"
  for w :: u32 and x :: u64 and y :: "128 word"
proof -
  have "drop_bit (8 * 4) w = 0" "drop_bit (8 * 8) x = 0" "drop_bit (8 * 16) y = 0"
    by (auto intro!: bit_word_eqI simp: bit_simps dest: bit_imp_le_length)
  then show "uint_be (be_bytes 4 w) 0 = w" "uint_be (be_bytes 8 x) 0 = x" "uint_be (be_bytes 16 y) 0 = y"
    using uint_be_be_bytes [of 4 w] uint_be_be_bytes [of 8 x] uint_be_be_bytes [of 16 y] by simp_all
qed

text \<open>An address as the peer sees it: IPv4 in its short form, and without a zone, which means nothing to another host.\<close>

definition canon_addr :: "AddrPort \<Rightarrow> AddrPort" where "canon_addr a = (WithoutZone (Unmap (fst a)), snd a)"

fun enc_addr :: "AddrPort \<Rightarrow> bytes" where
  "enc_addr a = (case Unmap (fst a) of IPv4 w \<Rightarrow> discoFamilyV4 # be_bytes 4 w @ be16 (snd a) | IPv6 w z \<Rightarrow> discoFamilyV6 # be_bytes 16 w @ be16 (snd a) | NoAddr \<Rightarrow> [])"

lemma appendDiscoAddrPort_enc:
  "AddrPort_IsValid a \<Longrightarrow> appendDiscoAddrPort dst a = Inr (dst @ enc_addr a)"
  "\<not> AddrPort_IsValid a \<Longrightarrow> appendDiscoAddrPort dst a = Inl ErrInvalidDiscoPacket"
proof -
  have "Addr_IsValid (fst a) = (Unmap (fst a) \<noteq> NoAddr)" using Unmap_valid [of "fst a"] by (simp add: Addr_IsValid_def)
  then show "AddrPort_IsValid a \<Longrightarrow> appendDiscoAddrPort dst a = Inr (dst @ enc_addr a)"
    "\<not> AddrPort_IsValid a \<Longrightarrow> appendDiscoAddrPort dst a = Inl ErrInvalidDiscoPacket"
    by (auto simp: appendDiscoAddrPort_def AddrPort_IsValid_def split: Addr.splits)
qed

lemma parse_enc_addr:
  assumes "AddrPort_IsValid a"
  shows "parseDiscoAddrPort (enc_addr a @ rest) = Inr (canon_addr a, length (enc_addr a))"
proof (cases "Unmap (fst a)")
  case NoAddr
  then show ?thesis using assms Unmap_valid [of "fst a"] by (simp add: AddrPort_IsValid_def Addr_IsValid_def)
next
  case (IPv4 w)
  then show ?thesis by (simp add: parseDiscoAddrPort_def canon_addr_def discoFamilyV4_def Let_def)
next
  case (IPv6 w z)
  then have "drop_bit 32 w \<noteq> 0xffff" using Unmap_not_4In6 [of "fst a"] by simp
  then show ?thesis using IPv6 by (simp add: parseDiscoAddrPort_def canon_addr_def discoFamilyV4_def discoFamilyV6_def Let_def)
qed

lemma length_enc_addr: "length (enc_addr a) \<le> 19"
  by (cases "Unmap (fst a)") simp_all

declare enc_addr.simps [simp del]

definition canon_cand :: "DiscoCandidate \<Rightarrow> DiscoCandidate" where "canon_cand c = c\<lparr>ca_Addr := canon_addr (ca_Addr c)\<rparr>"

lemma candidates_enc:
  "list_all (\<lambda>c. AddrPort_IsValid (ca_Addr c)) cs \<Longrightarrow>
     append_candidates dst cs = Inr (dst @ concat (map (\<lambda>c. enc_addr (ca_Addr c) @ [Priority c]) cs))"
  by (induction cs arbitrary: dst) (simp_all add: appendDiscoAddrPort_enc)

lemma candidates_parse:
  "list_all (\<lambda>c. AddrPort_IsValid (ca_Addr c)) cs \<Longrightarrow>
     parse_candidates (length cs) (concat (map (\<lambda>c. enc_addr (ca_Addr c) @ [Priority c]) cs) @ rest) = Inr (map canon_cand cs, rest)"
  by (induction cs) (simp_all add: parse_enc_addr canon_cand_def)

lemma candidates_length: "length (concat (map (\<lambda>c. enc_addr (ca_Addr c) @ [Priority c]) cs)) \<le> 20 * length cs"
proof (induction cs)
  case (Cons c cs)
  then show ?case using length_enc_addr [of "ca_Addr c"] by simp
qed simp

text \<open>A packet that can be sent has the payload its type names, with addresses and arrays of their lengths; what arrives has that payload and no other.\<close>

definition packet_ok :: "DiscoPacket \<Rightarrow> bool" where
  "packet_ok p =
     (let t = Type (Header p)
      in if t = DiscoProbeType then (case Probe p of None \<Rightarrow> False | Some x \<Rightarrow> length (pr_Token x) = 8)
         else if t = DiscoPongType then (case Pong p of None \<Rightarrow> False | Some x \<Rightarrow> length (po_Token x) = 8 \<and> AddrPort_IsValid (po_ObservedAddr x))
         else if t = DiscoCallMeType then
           (case CallMe p of None \<Rightarrow> False | Some cs \<Rightarrow> length cs \<le> DiscoMaxCandidates \<and> list_all (\<lambda>c. AddrPort_IsValid (ca_Addr c)) cs)
         else if t = DiscoBindType then (case Bind p of None \<Rightarrow> False | Some x \<Rightarrow> length (bi_Nonce x) = DiscoBindNonceSize \<and> AddrPort_IsValid (ClaimedAddr x))
         else if t = DiscoBindAckType then
           (case BindAck p of None \<Rightarrow> False | Some x \<Rightarrow> length (ba_Nonce x) = DiscoBindNonceSize \<and> AddrPort_IsValid (ba_ObservedAddr x))
         else False)"

definition received :: "DiscoHeader \<Rightarrow> DiscoPacket \<Rightarrow> DiscoPacket" where
  "received h p =
     (let t = Type (Header p)
      in \<lparr>Header = h,
          Probe = (if t = DiscoProbeType then Probe p else None),
          Pong = (if t = DiscoPongType then map_option (\<lambda>x. x\<lparr>po_ObservedAddr := canon_addr (po_ObservedAddr x)\<rparr>) (Pong p) else None),
          CallMe = (if t = DiscoCallMeType then map_option (map canon_cand) (CallMe p) else None),
          Bind = (if t = DiscoBindType then map_option (\<lambda>x. x\<lparr>ClaimedAddr := canon_addr (ClaimedAddr x)\<rparr>) (Bind p) else None),
          BindAck = (if t = DiscoBindAckType then map_option (\<lambda>x. x\<lparr>ba_ObservedAddr := canon_addr (ba_ObservedAddr x)\<rparr>) (BindAck p) else None)\<rparr>)"

lemma nonce_and_addr:
  "length nonce = DiscoBindNonceSize \<Longrightarrow> AddrPort_IsValid a \<Longrightarrow> parseDiscoNonceAndAddr (nonce @ enc_addr a) = Inr (nonce, canon_addr a)"
  using parse_enc_addr [of a "[]"] by (simp add: parseDiscoNonceAndAddr_def)

lemma payload_roundtrip:
  assumes "packet_ok p" and "Type h = Type (Header p)"
  shows "\<exists>b. appendDiscoPayload [] p = Inr b \<and> length b \<le> 321 \<and> parseDiscoPayload (empty_packet h) b = Inr (received h p)"
proof -
  consider (probe) x where "Type (Header p) = DiscoProbeType" "Probe p = Some x" "length (pr_Token x) = 8"
    | (pong) x where "Type (Header p) = DiscoPongType" "Pong p = Some x" "length (po_Token x) = 8" "AddrPort_IsValid (po_ObservedAddr x)"
    | (callme) cs where "Type (Header p) = DiscoCallMeType" "CallMe p = Some cs" "length cs \<le> 16" "list_all (\<lambda>c. AddrPort_IsValid (ca_Addr c)) cs"
    | (bind) x where "Type (Header p) = DiscoBindType" "Bind p = Some x" "length (bi_Nonce x) = DiscoBindNonceSize" "AddrPort_IsValid (ClaimedAddr x)"
    | (ack) x where "Type (Header p) = DiscoBindAckType" "BindAck p = Some x" "length (ba_Nonce x) = DiscoBindNonceSize" "AddrPort_IsValid (ba_ObservedAddr x)"
    using assms(1) unfolding packet_ok_def Let_def by (auto simp: DiscoMaxCandidates_def split: if_splits option.splits)
  then show ?thesis
  proof cases
    case probe
    then show ?thesis using assms(2) by (simp add: appendDiscoPayload_def parseDiscoPayload_def empty_packet_def received_def disco_types)
  next
    case pong
    then show ?thesis using assms(2) parse_enc_addr [of "po_ObservedAddr x" "[]"] length_enc_addr [of "po_ObservedAddr x"]
      by (simp add: appendDiscoPayload_def parseDiscoPayload_def empty_packet_def received_def disco_types appendDiscoAddrPort_enc)
  next
    case callme
    let ?b = "concat (map (\<lambda>c. enc_addr (ca_Addr c) @ [Priority c]) cs)"
    have n: "unat (of_nat (length cs) :: u8) = length cs" using callme(3) by (simp add: unat_of_nat)
    have "length ?b \<le> 320" using candidates_length [of cs] callme(3) by simp
    moreover have "appendDiscoPayload [] p = Inr (of_nat (length cs) # ?b)"
      using callme by (simp add: appendDiscoPayload_def disco_types DiscoMaxCandidates_def candidates_enc)
    moreover have "parseDiscoPayload (empty_packet h) (of_nat (length cs) # ?b) = Inr (received h p)"
      using callme assms(2) candidates_parse [of cs "[]"] n
      by (simp add: parseDiscoPayload_def empty_packet_def received_def disco_types DiscoMaxCandidates_def)
    ultimately show ?thesis by simp
  next
    case bind
    then show ?thesis using assms(2) nonce_and_addr length_enc_addr [of "ClaimedAddr x"]
      by (simp add: appendDiscoPayload_def parseDiscoPayload_def empty_packet_def received_def disco_types appendDiscoAddrPort_enc DiscoBindNonceSize_def)
  next
    case ack
    then show ?thesis using assms(2) nonce_and_addr length_enc_addr [of "ba_ObservedAddr x"]
      by (simp add: appendDiscoPayload_def parseDiscoPayload_def empty_packet_def received_def disco_types appendDiscoAddrPort_enc DiscoBindNonceSize_def)
  qed
qed


section \<open>Tags\<close>

text \<open>HKDF delivers keys of every length the program asks for.\<close>

definition hkdf_ok :: "disco_env \<Rightarrow> bool" where
  "hkdf_ok env \<longleftrightarrow> (\<forall>s c n. n \<le> 8160 \<longrightarrow> (\<exists>k. Expand (kdf env) s c n = Inr k \<and> length k = n))"

definition the_key :: "disco_env \<Rightarrow> bytes \<Rightarrow> string \<Rightarrow> nat \<Rightarrow> bytes" where
  "the_key env s c n = (case Expand (kdf env) s c n of Inr k \<Rightarrow> k | Inl _ \<Rightarrow> [])"

lemma derive_ok:
  assumes "hkdf_ok env" and "32 \<le> length s" and "n \<le> 32"
  shows "disco_derive env s c n = Inr (the_key env s c n)" "length (the_key env s c n) = n"
proof -
  obtain k where "Expand (kdf env) s c n = Inr k" "length k = n" using assms unfolding hkdf_ok_def by (meson le_trans numeral_le_iff semiring_norm(71,69,72,68))
  then show "disco_derive env s c n = Inr (the_key env s c n)" "length (the_key env s c n) = n"
    using assms(2) by (simp_all add: disco_derive_def DeriveFromSecret_def MinSecretLen_def the_key_def)
qed

definition schedule :: "disco_env \<Rightarrow> bytes \<Rightarrow> bool \<Rightarrow> DiscoKeys" where
  "schedule env s server =
     (let key = (\<lambda>c. the_key env s c discoKeyLen)
      in \<lparr>tagSend = key (if server then CtxDiscoTagS2C else CtxDiscoTagC2S), tagRecv = key (if server then CtxDiscoTagC2S else CtxDiscoTagS2C),
          seal_key = key (if server then CtxDiscoBodyS2C else CtxDiscoBodyC2S), open_key = key (if server then CtxDiscoBodyC2S else CtxDiscoBodyS2C),
          probe_key = key CtxDiscoProbe\<rparr>)"

lemma NewDiscoKeys_ok:
  assumes "hkdf_ok env" and "32 \<le> length s"
  shows "NewDiscoKeys env s server = Inr (schedule env s server)"
  using assms(2) by (simp add: NewDiscoKeys_def derive_ok [OF assms] discoKeyLen_def MinSecretLen_def schedule_def Let_def)

text \<open>The two ends use each other's keys.\<close>

lemma schedule_peer:
  "tagRecv (schedule env s (\<not> server)) = tagSend (schedule env s server)" "open_key (schedule env s (\<not> server)) = seal_key (schedule env s server)"
  "probe_key (schedule env s (\<not> server)) = probe_key (schedule env s server)"
  by (simp_all add: schedule_def Let_def)

definition tag_of :: "disco_env \<Rightarrow> bytes \<Rightarrow> u64 \<Rightarrow> bytes" where
  "tag_of env key e = the_key env key (CtxDiscoEpoch @ ''/'' @ FormatUint (unat e)) discoTagLen"

lemma discoTag_ok:
  assumes "hkdf_ok env" and "32 \<le> length key"
  shows "discoTag env key e = Inr (tag_of env key e)" "length (tag_of env key e) = 8"
  using derive_ok [OF assms, of discoTagLen] by (simp_all add: discoTag_def tag_of_def discoTagLen_def fill_def)

lemma schedule_lengths:
  assumes "hkdf_ok env" and "32 \<le> length s"
  shows "length (tagSend (schedule env s sv)) = 32" "length (tagRecv (schedule env s sv)) = 32"
  using derive_ok(2) [OF assms, of 32] by (simp_all add: schedule_def Let_def discoKeyLen_def)

lemma RecvTags_ok:
  assumes "hkdf_ok env" and "32 \<le> length (tagRecv k)"
  shows "RecvTags env k now = Inr (map (tag_of env (tagRecv k)) [discoEpochOf now - 1, discoEpochOf now, discoEpochOf now + 1])"
  using discoTag_ok(1) [OF assms] by (simp add: RecvTags_def Let_def)

text \<open>Clocks less than 120 seconds apart are at most one epoch apart.\<close>

lemma epoch_near:
  assumes "\<bar>Unix a - Unix b\<bar> \<le> 120" and "Unix a < 2 ^ 63" "Unix b < 2 ^ 63"
  shows "discoEpochOf a \<in> {discoEpochOf b - 1, discoEpochOf b, discoEpochOf b + 1}"
proof -
  have e: "discoEpochOf t = word_of_int (max 0 (Unix t) div 120)" if "Unix t < 2 ^ 63" for t
  proof -
    have "uint (word_of_int (max 0 (Unix t)) :: u64) = max 0 (Unix t)" using that by (simp add: uint_word_of_int)
    moreover have "(if Unix t < 0 then 0 else Unix t) = max 0 (Unix t)" by simp
    ultimately show ?thesis unfolding discoEpochOf_def Let_def by (simp add: word_div_def discoEpoch_def)
  qed
  have "\<bar>max 0 (Unix a) - max 0 (Unix b)\<bar> \<le> 120" using assms(1) by (auto simp: max_def)
  moreover have "x div 120 = y div 120 - 1 \<or> x div 120 = y div 120 \<or> x div 120 = y div 120 + 1" if "\<bar>x - y\<bar> \<le> 120" for x y :: int
  proof -
    have "x div 120 \<le> (y + 120) div 120" "y div 120 \<le> (x + 120) div 120" using that by (intro zdiv_mono1; simp)+
    then have "x div 120 \<le> y div 120 + 1" "y div 120 \<le> x div 120 + 1" by simp_all
    then show ?thesis by linarith
  qed
  ultimately have "max 0 (Unix a) div 120 = max 0 (Unix b) div 120 - 1 \<or> max 0 (Unix a) div 120 = max 0 (Unix b) div 120
      \<or> max 0 (Unix a) div 120 = max 0 (Unix b) div 120 + 1" by blast
  then show ?thesis unfolding e [OF assms(2)] e [OF assms(3)] by (elim disjE) (simp_all only: of_int_1 of_int_add of_int_diff insert_iff simp_thms)
qed


section \<open>The envelope comes back\<close>

lemma body_roundtrip:
  assumes "aead_ad (Seal env) (Unseal env)" and "open_key k = key" and "length tag = 8" and "length nonce = 12"
    and len: "length payload \<le> 321" and parse: "parseDiscoPayload (empty_packet \<lparr>Type = t, Seq = seq, TS = ts\<rparr>) payload = Inr q"
    and seq: "seq \<noteq> 0" and ts: "ts = uint w * Second" and skew: "\<bar>now - ts\<bar> \<le> 30 * Second"
    and plain: "plain = [discoVersion, t] @ be16 (of_nat (length payload)) @ be32 w @ be32 seq @ payload @ pad"
  shows "decodeDiscoBody env (tag @ nonce @ Seal env key nonce plain tag) k now = Inr q"
proof -
  have "Unseal env key nonce (Seal env key nonce plain tag) tag = Some plain" by (rule aead_ad.unseal_seal [OF assms(1)])
  moreover have "length plain \<ge> 12" "plain ! 0 = discoVersion" "plain ! 1 = t" by (simp_all add: plain)
  moreover have "drop 2 plain = be16 (of_nat (length payload)) @ be32 w @ be32 seq @ payload @ pad" by (simp add: plain)
  moreover have "drop 4 plain = be32 w @ be32 seq @ payload @ pad" by (simp add: plain)
  moreover have "drop 8 plain = be32 seq @ payload @ pad" by (simp add: plain)
  moreover have "drop 12 plain = payload @ pad" by (simp add: plain)
  moreover have "unat (of_nat (length payload) :: u16) = length payload" using len by (simp add: unat_of_nat)
  moreover have "length payload + 12 \<le> length plain" by (simp add: plain)
  ultimately show ?thesis
    using assms(2-4) seq skew ts parse by (simp add: decodeDiscoBody_def disco_consts Let_def abs_le_iff)
qed

text \<open>What the sender puts on the wire, for a payload that fits.\<close>

lemma EncodeDisco_ok:
  assumes "hkdf_ok env" and "32 \<le> length (tagSend k)" and "appendDiscoPayload [] p = Inr payload" and "length payload + 48 \<le> padTo" and "padTo \<le> 1452"
  shows "EncodeDisco env (Some r) p (Some k) seq now padTo =
     (let tag = tag_of env (tagSend k) (discoEpochOf now); nonce = fill 12 r;
          plain = [discoVersion, Type (Header p)] @ be16 (of_nat (length payload)) @ be32 (word_of_int (Unix now)) @ be32 seq
                  @ payload @ make_bytes (padTo - 48 - length payload)
      in Inr (tag @ nonce @ Seal env (seal_key k) nonce plain tag))"
  using assms(3-5) discoTag_ok(1) [OF assms(1,2)] by (simp add: EncodeDisco_def SendTag_def disco_consts Let_def)

text \<open>
  C35. Probes arrive: a packet that one end of a connection seals is exactly as long as asked for and is opened by the other end, whose clock is less than
  30 seconds off, as the packet that was sent - with the sequence number and the second it was sent, its addresses in the form every host
  understands, and no other payload. The keys are those both ends derive from the secret of their TLS session, in either direction.
\<close>

theorem disco_roundtrip:
  assumes "aead_ad (Seal env) (Unseal env)" and "hkdf_ok env" and "32 \<le> length secret" and "packet_ok p" and "seq \<noteq> 0"
    and "369 \<le> padTo" "padTo \<le> 1452" and "0 \<le> Unix tx" "Unix tx < 2 ^ 32" and "\<bar>rx - Unix tx * Second\<bar> \<le> 30 * Second"
  shows "\<exists>k k' wire. NewDiscoKeys env secret server = Inr k \<and> NewDiscoKeys env secret (\<not> server) = Inr k'
      \<and> EncodeDisco env (Some r) p (Some k) seq tx padTo = Inr wire \<and> length wire = padTo
      \<and> DecodeDisco env wire (Some k') rx = Inr (received \<lparr>Type = Type (Header p), Seq = seq, TS = Unix tx * Second\<rparr> p)"
proof -
  let ?k = "schedule env secret server" and ?k' = "schedule env secret (\<not> server)"
  let ?h = "\<lparr>Type = Type (Header p), Seq = seq, TS = Unix tx * Second\<rparr>"
  obtain payload where pl: "appendDiscoPayload [] p = Inr payload" "length payload \<le> 321" "parseDiscoPayload (empty_packet ?h) payload = Inr (received ?h p)"
    using payload_roundtrip [OF assms(4), of ?h] by auto
  note len = schedule_lengths [OF assms(2,3)]
  define tag where "tag = tag_of env (tagSend ?k) (discoEpochOf tx)"
  define plain where "plain = [discoVersion, Type (Header p)] @ be16 (of_nat (length payload)) @ be32 (word_of_int (Unix tx)) @ be32 seq
                  @ payload @ make_bytes (padTo - 48 - length payload)"
  define wire where "wire = tag @ fill 12 r @ Seal env (seal_key ?k) (fill 12 r) plain tag"
  have tag: "length tag = 8" using discoTag_ok(2) [OF assms(2)] len by (simp add: tag_def)
  have enc: "EncodeDisco env (Some r) p (Some ?k) seq tx padTo = Inr wire"
    using EncodeDisco_ok [OF assms(2) _ pl(1), of ?k padTo r seq tx] len(1) pl(2) assms(6,7) by (simp add: wire_def tag_def plain_def Let_def)
  have "length (Seal env (seal_key ?k) (fill 12 r) plain tag) = length plain + 16" by (rule aead_ad.length_seal [OF assms(1)])
  then have lw: "length wire = padTo" using pl(2) assms(6) tag by (simp add: wire_def plain_def)
  have u: "uint (word_of_int (Unix tx) :: u32) = Unix tx" using assms(8,9) by (simp add: uint_word_of_int)
  have body: "decodeDiscoBody env wire ?k' rx = Inr (received ?h p)"
    unfolding wire_def
    by (rule body_roundtrip [OF assms(1) _ tag _ pl(2,3) assms(5) _ assms(10) plain_def]) (simp_all add: schedule_peer(2) u)
  have near: "\<bar>Unix tx - Unix rx\<bar> \<le> 120" "Unix rx < 2 ^ 63"
  proof -
    have "rx = Second * Unix rx + rx mod Second" "0 \<le> rx mod Second" "rx mod Second < Second" by (simp_all add: Unix_def)
    moreover have "rx - Unix tx * Second \<le> 30 * Second" "- (30 * Second) \<le> rx - Unix tx * Second" using assms(10) by linarith+
    ultimately have b: "Unix rx - Unix tx \<le> 31" "Unix tx - Unix rx \<le> 31" unfolding time_units by linarith+
    then show "\<bar>Unix tx - Unix rx\<bar> \<le> 120" by linarith
    show "Unix rx < 2 ^ 63" using b(1) assms(9) by simp
  qed
  have "tag \<in> set (map (tag_of env (tagRecv ?k')) [discoEpochOf rx - 1, discoEpochOf rx, discoEpochOf rx + 1])"
    using epoch_near [OF near(1) _ near(2)] assms(9) by (auto simp: tag_def schedule_peer(1))
  then have "DecodeDisco env wire (Some ?k') rx = Inr (received ?h p)"
    using RecvTags_ok [OF assms(2), of ?k' rx] len(2) lw assms(6,7) body tag by (simp add: DecodeDisco_def disco_consts wire_def)
  then show ?thesis using NewDiscoKeys_ok [OF assms(2,3)] enc lw by blast
qed

definition example_env :: disco_env where
  "example_env = \<lparr>kdf = \<lparr>Sum256 = (\<lambda>x. x), IDKey = (\<lambda>x y. x), Expand = (\<lambda>s c n. Inr (take n (bytes_of c @ make_bytes n)))\<rparr>,
     HMAC = (\<lambda>k m. m), Seal = chacha20poly1305_seal_ad, Unseal = chacha20poly1305_open_ad\<rparr>"

theorem disco_roundtrip_witness:
  "\<exists>k k' wire. NewDiscoKeys example_env (make_bytes 32) True = Inr k \<and> NewDiscoKeys example_env (make_bytes 32) False = Inr k'
     \<and> EncodeDisco example_env (Some [1, 2, 3]) ((empty_packet \<lparr>Type = DiscoProbeType, Seq = 0, TS = 0\<rparr>)\<lparr>Probe := Some \<lparr>pr_Token = make_bytes 8, TxMicros = 7\<rparr>\<rparr>)
          (Some k) 1 5000000000 1200 = Inr wire \<and> length wire = 1200
     \<and> (\<exists>q. DecodeDisco example_env wire (Some k') 20000000000 = Inr q \<and> Probe q = Some \<lparr>pr_Token = make_bytes 8, TxMicros = 7\<rparr>)"
proof -
  let ?p = "(empty_packet \<lparr>Type = DiscoProbeType, Seq = 0, TS = 0\<rparr>)\<lparr>Probe := Some \<lparr>pr_Token = make_bytes 8, TxMicros = 7\<rparr>\<rparr>"
  have cipher: "aead_ad (Seal example_env) (Unseal example_env)" by (simp add: example_env_def rfc8439_ad.aead_ad_axioms)
  have "hkdf_ok example_env" by (auto simp: hkdf_ok_def example_env_def)
  moreover have "packet_ok ?p" by (simp add: packet_ok_def empty_packet_def)
  ultimately show ?thesis
    using disco_roundtrip [OF cipher, of "make_bytes 32" ?p 1 1200 5000000000 20000000000 True "[1, 2, 3]"]
    by (force simp: Unix_def received_def empty_packet_def)
qed

end
