(* ===== verification/Disco_Conn.thy ===== *)
theory Disco_Conn
  imports Disco "HOL-Library.Multiset"
begin

text \<open>
  The connection that takes path probes out of the traffic of a socket (\<open>extras/realm/disco_conn.go\<close>). Sessions are objects shared by four tables, so
  they live in a store and the tables hold their addresses. A Go map is an association list where its iteration order matters - the order is the
  argument \<open>ord\<close> - and a partial function elsewhere; a channel is the list of its events. The sections under one lock are one definition each; removing a
  session, which takes two locks in turn, is one as well. The socket below is outside: what is written to it is a result, and what it answers an argument.
\<close>

section \<open>Constants and errors\<close>

definition defaultDiscoEventBuffer :: nat where "defaultDiscoEventBuffer = 16"
definition discoWireLenWindow :: nat where "discoWireLenWindow = 64"
definition discoWireLenMaxAge :: duration where "discoWireLenMaxAge = 10 * Second"
definition discoObfuscatorName :: string where "discoObfuscatorName = ''salamander-v2''"

datatype conn_error =
    ErrInvalidDiscoSession
  | ErrUnknownDiscoSession
  | ErrDiscoRequiresObfs
  | ErrDiscoRequiresSalamanderV2 string
  | ErrDiscoNoWireLength
  | ErrDiscoSeqExhausted
  | ErrClosed
  | CodecError disco_error
  | SocketError string


section \<open>The lengths a session imitates\<close>

record discoWireLens =
  wl_lens :: "u32 list"
  wl_at :: "int list"
  wl_count :: u64

definition newWireLens :: discoWireLens where
  "newWireLens = \<lparr>wl_lens = replicate discoWireLenWindow 0, wl_at = replicate discoWireLenWindow 0, wl_count = 0\<rparr>"

definition disco_observe :: "nat \<Rightarrow> instant \<Rightarrow> discoWireLens \<Rightarrow> discoWireLens" where
  "disco_observe n now w =
     (if n < discoMinWire \<or> n > discoMaxWire then w
      else let c = wl_count w + 1; i = unat ((c - 1) mod of_nat discoWireLenWindow)
           in w\<lparr>wl_count := c, wl_lens := (wl_lens w)[i := of_nat n], wl_at := (wl_at w)[i := now]\<rparr>)"

text \<open>The loop over the sorted lengths: the previous one, its run so far, the best length and its run.\<close>

fun mode_loop :: "u32 \<Rightarrow> nat \<Rightarrow> u32 \<Rightarrow> nat \<Rightarrow> u32 list \<Rightarrow> u32" where
  "mode_loop prev run best bestRun [] = best"
| "mode_loop prev run best bestRun (x # xs) =
     (let run = (if x = prev then run + 1 else 1)
      in if run \<ge> bestRun then mode_loop x run x run xs else mode_loop x run best bestRun xs)"

definition mode :: "discoWireLens \<Rightarrow> nat" where
  "mode w =
     (let filled = unat (min (wl_count w) (of_nat discoWireLenWindow))
      in if filled = 0 then 0
         else
           let newest = fold (\<lambda>i newest. if wl_at w ! i > newest then wl_at w ! i else newest) [0..<filled] (- (2 ^ 63));
               since = newest - discoWireLenMaxAge;
               window = map (\<lambda>i. wl_lens w ! i) (filter (\<lambda>i. \<not> wl_at w ! i < since \<and> wl_lens w ! i \<noteq> 0) [0..<filled])
           in case sort window of
                [] \<Rightarrow> 0
              | x # xs \<Rightarrow> unat (mode_loop x 1 x 1 xs))"


section \<open>The replay window\<close>

record discoReplayWindow =
  high :: u32
  bits :: u64
  seen :: bool

definition newReplayWindow :: discoReplayWindow where "newReplayWindow = \<lparr>high = 0, bits = 0, seen = False\<rparr>"

definition window_accept :: "u32 \<Rightarrow> discoReplayWindow \<Rightarrow> bool \<times> discoReplayWindow" where
  "window_accept seq w =
     (if seq = 0 then (False, w)
      else if \<not> seen w then (True, \<lparr>high = seq, bits = 1, seen = True\<rparr>)
      else if seq > high w then
        let shift = seq - high w;
            b = (if shift \<ge> 64 then 0 else push_bit (unat shift) (bits w))
        in (True, w\<lparr>bits := b OR 1, high := seq\<rparr>)
      else if high w - seq \<ge> 64 then (False, w)
      else
        let m = push_bit (unat (high w - seq)) 1
        in if bits w AND m \<noteq> 0 then (False, w) else (True, w\<lparr>bits := bits w OR m\<rparr>))"


section \<open>Sessions and the connection\<close>

record DiscoPacketEvent =
  From :: AddrPort
  At :: instant
  Packet :: DiscoPacket

record DiscoStats =
  Delivered :: u64
  AuthFail :: u64
  BadVersion :: u64
  ClockSkew :: u64
  MaxSkewSeconds :: int
  Replay :: u64
  Malformed :: u64
  Dropped :: u64

record discoSession =
  ds_id :: string
  ds_keys :: DiscoKeys
  ds_events :: "DiscoPacketEvent list"
  ds_seq :: u32
  wireLens :: discoWireLens
  ds_peer :: AddrPort
  ds_tags :: "bytes list"
  ds_window :: discoReplayWindow

record DiscoPacketConn =
  dc_eventBuffer :: nat
  dc_stats :: DiscoStats
  byPeer :: "AddrPort \<rightharpoonup> nat list"
  sessions :: "(string \<times> nat) list"
  dc_closed :: bool
  byTag :: "bytes \<rightharpoonup> nat list"
  dc_epoch :: u64
  dc_ticker :: bool
  store :: "nat \<Rightarrow> discoSession"
  next_session :: nat

definition new_session :: "string \<Rightarrow> DiscoKeys \<Rightarrow> AddrPort \<Rightarrow> discoSession" where
  "new_session i k peer = \<lparr>ds_id = i, ds_keys = k, ds_events = [], ds_seq = 0, wireLens = newWireLens, ds_peer = peer, ds_tags = [],
     ds_window = newReplayWindow\<rparr>"

definition upd :: "nat \<Rightarrow> (discoSession \<Rightarrow> discoSession) \<Rightarrow> DiscoPacketConn \<Rightarrow> DiscoPacketConn" where
  "upd i f c = c\<lparr>store := (store c)(i := f (store c i))\<rparr>"

text \<open>A missing entry of a map of slices reads as the empty slice.\<close>

definition bucket :: "('a \<rightharpoonup> nat list) \<Rightarrow> 'a \<Rightarrow> nat list" where
  "bucket m x = (case m x of None \<Rightarrow> [] | Some b \<Rightarrow> b)"

definition set_bucket :: "'a \<Rightarrow> nat list \<Rightarrow> ('a \<rightharpoonup> nat list) \<Rightarrow> ('a \<rightharpoonup> nat list)" where
  "set_bucket x b m = (if b = [] then m(x := None) else m(x \<mapsto> b))"

text \<open>The connection below: nil, a bare socket, or one with the name of its obfuscator.\<close>

definition NewDiscoPacketConn :: "string option option \<Rightarrow> int \<Rightarrow> conn_error + DiscoPacketConn" where
  "NewDiscoPacketConn conn eventBuffer =
     (case conn of
        None \<Rightarrow> Inl ErrInvalidDiscoSession
      | Some None \<Rightarrow> Inl ErrDiscoRequiresObfs
      | Some (Some name) \<Rightarrow>
          if name \<noteq> discoObfuscatorName then Inl (ErrDiscoRequiresSalamanderV2 name)
          else Inr \<lparr>dc_eventBuffer = (if eventBuffer \<le> 0 then defaultDiscoEventBuffer else nat eventBuffer),
                    dc_stats = \<lparr>Delivered = 0, AuthFail = 0, BadVersion = 0, ClockSkew = 0, MaxSkewSeconds = 0, Replay = 0, Malformed = 0, Dropped = 0\<rparr>,
                    byPeer = (\<lambda>_. None), sessions = [], dc_closed = False, byTag = (\<lambda>_. None), dc_epoch = 0, dc_ticker = False,
                    store = (\<lambda>_. new_session [] \<lparr>tagSend = [], tagRecv = [], seal_key = [], open_key = [], probe_key = []\<rparr> (NoAddr, 0)), next_session = 0\<rparr>)"

definition normaliseDiscoPeer :: "AddrPort \<Rightarrow> AddrPort" where "normaliseDiscoPeer peer = (Unmap (fst peer), snd peer)"


section \<open>The tables\<close>

definition appendDiscoBucket :: "nat list \<Rightarrow> nat \<Rightarrow> nat list" where "appendDiscoBucket b s = b @ [s]"
definition appendDiscoPeer :: "nat list \<Rightarrow> nat \<Rightarrow> nat list" where "appendDiscoPeer b s = b @ [s]"

fun add_tags :: "nat \<Rightarrow> bytes list \<Rightarrow> (bytes \<rightharpoonup> nat list) \<Rightarrow> (bytes \<rightharpoonup> nat list)" where
  "add_tags s [] m = m"
| "add_tags s (t # ts) m = add_tags s ts (m(t \<mapsto> appendDiscoBucket (bucket m t) s))"

fun rebuild_loop :: "disco_env \<Rightarrow> instant \<Rightarrow> nat list \<Rightarrow> (bytes \<rightharpoonup> nat list) \<Rightarrow> disco_error option \<Rightarrow> DiscoPacketConn
    \<Rightarrow> disco_error option \<times> DiscoPacketConn" where
  "rebuild_loop env now [] m err c = (err, c\<lparr>byTag := m, dc_epoch := discoEpochOf now\<rparr>)"
| "rebuild_loop env now (i # is) m err c =
     (case RecvTags env (ds_keys (store c i)) now of
        Inl e \<Rightarrow> rebuild_loop env now is m (if err = None then Some e else err) (upd i (\<lambda>s. s\<lparr>ds_tags := []\<rparr>) c)
      | Inr tags \<Rightarrow> rebuild_loop env now is (add_tags i tags m) err (upd i (\<lambda>s. s\<lparr>ds_tags := tags\<rparr>) c))"

definition rebuildTagsLocked :: "disco_env \<Rightarrow> ((string \<times> nat) list \<Rightarrow> (string \<times> nat) list) \<Rightarrow> instant \<Rightarrow> DiscoPacketConn
    \<Rightarrow> disco_error option \<times> DiscoPacketConn" where
  "rebuildTagsLocked env ord now c = rebuild_loop env now (map snd (ord (sessions c))) (\<lambda>_. None) None c"

definition addTagsLocked :: "disco_env \<Rightarrow> ((string \<times> nat) list \<Rightarrow> (string \<times> nat) list) \<Rightarrow> nat \<Rightarrow> instant \<Rightarrow> DiscoPacketConn
    \<Rightarrow> disco_error option \<times> DiscoPacketConn" where
  "addTagsLocked env ord s now c =
     (if discoEpochOf now \<noteq> dc_epoch c then rebuildTagsLocked env ord now c
      else case RecvTags env (ds_keys (store c s)) now of
             Inl e \<Rightarrow> (Some e, c)
           | Inr tags \<Rightarrow> (None, upd s (\<lambda>x. x\<lparr>ds_tags := tags\<rparr>) (c\<lparr>byTag := add_tags s tags (byTag c)\<rparr>)))"

definition drop_tags :: "nat \<Rightarrow> bytes list \<Rightarrow> (bytes \<rightharpoonup> nat list) \<Rightarrow> (bytes \<rightharpoonup> nat list)" where
  "drop_tags s ts m = fold (\<lambda>t m. set_bucket t (filter (\<lambda>other. other \<noteq> s) (bucket m t)) m) ts m"

definition dropTagsLocked :: "nat \<Rightarrow> DiscoPacketConn \<Rightarrow> DiscoPacketConn" where
  "dropTagsLocked s c = upd s (\<lambda>x. x\<lparr>ds_tags := []\<rparr>) (c\<lparr>byTag := drop_tags s (ds_tags (store c s)) (byTag c)\<rparr>)"

definition dropPeerLocked :: "nat \<Rightarrow> DiscoPacketConn \<Rightarrow> DiscoPacketConn" where
  "dropPeerLocked s c =
     (let peer = ds_peer (store c s) in c\<lparr>byPeer := set_bucket peer (filter (\<lambda>other. other \<noteq> s) (bucket (byPeer c) peer)) (byPeer c)\<rparr>)"

text \<open>Admission up to the release of the locks; the caller synchronises the ticker when it succeeds.\<close>

definition AddDiscoSession :: "disco_env \<Rightarrow> ((string \<times> nat) list \<Rightarrow> (string \<times> nat) list) \<Rightarrow> instant \<Rightarrow> string \<Rightarrow> DiscoKeys option \<Rightarrow> AddrPort
    \<Rightarrow> DiscoPacketConn \<Rightarrow> (conn_error + nat) \<times> DiscoPacketConn" where
  "AddDiscoSession env ord now i keys peer c =
     (let peer = normaliseDiscoPeer peer
      in if i = [] then (Inl ErrInvalidDiscoSession, c)
         else case keys of
           None \<Rightarrow> (Inl ErrInvalidDiscoSession, c)
         | Some keys \<Rightarrow>
             if \<not> AddrPort_IsValid peer then (Inl ErrInvalidDiscoSession, c)
             else if dc_closed c then (Inl ErrClosed, c)
             else if map_of (sessions c) i \<noteq> None then (Inl ErrInvalidDiscoSession, c)
             else
               let s = next_session c;
                   c = c\<lparr>store := (store c)(s := new_session i keys peer), next_session := s + 1, sessions := sessions c @ [(i, s)]\<rparr>
               in case addTagsLocked env ord s now c of
                    (Some e, c) \<Rightarrow> (Inl (CodecError e), dropTagsLocked s (c\<lparr>sessions := AList.delete i (sessions c)\<rparr>))
                  | (None, c) \<Rightarrow> (Inr s, c\<lparr>byPeer := (byPeer c)(peer \<mapsto> appendDiscoPeer (bucket (byPeer c) peer) s)\<rparr>))"

text \<open>What happens under the lock of the peer index, for a session looked up before it was taken.\<close>

definition set_peer_locked :: "nat \<Rightarrow> AddrPort \<Rightarrow> DiscoPacketConn \<Rightarrow> DiscoPacketConn" where
  "set_peer_locked s peer c =
     (if ds_peer (store c s) = peer then c
      else let c = upd s (\<lambda>x. x\<lparr>ds_peer := peer\<rparr>) (dropPeerLocked s c)
           in c\<lparr>byPeer := (byPeer c)(peer \<mapsto> appendDiscoPeer (bucket (byPeer c) peer) s)\<rparr>)"

definition SetDiscoSessionPeer :: "string \<Rightarrow> AddrPort \<Rightarrow> DiscoPacketConn \<Rightarrow> conn_error option \<times> DiscoPacketConn" where
  "SetDiscoSessionPeer i peer c =
     (let peer = normaliseDiscoPeer peer
      in if \<not> AddrPort_IsValid peer then (Some ErrInvalidDiscoSession, c)
         else case map_of (sessions c) i of
           None \<Rightarrow> (Some ErrUnknownDiscoSession, c)
         | Some s \<Rightarrow> (None, set_peer_locked s peer c))"

definition RemoveDiscoSession :: "string \<Rightarrow> DiscoPacketConn \<Rightarrow> DiscoPacketConn" where
  "RemoveDiscoSession i c =
     (case map_of (sessions c) i of
        None \<Rightarrow> c
      | Some s \<Rightarrow> dropPeerLocked s (dropTagsLocked s (c\<lparr>sessions := AList.delete i (sessions c)\<rparr>)))"

definition refreshTags :: "disco_env \<Rightarrow> ((string \<times> nat) list \<Rightarrow> (string \<times> nat) list) \<Rightarrow> instant \<Rightarrow> DiscoPacketConn \<Rightarrow> DiscoPacketConn" where
  "refreshTags env ord now c = (if discoEpochOf now = dc_epoch c \<or> sessions c = [] then c else snd (rebuildTagsLocked env ord now c))"

text \<open>\<open>syncEpochTicker\<close> holds its own lock, but reads the table before it acts; other calls may change the table in between.\<close>

definition sync_live :: "DiscoPacketConn \<Rightarrow> bool" where "sync_live c \<longleftrightarrow> \<not> dc_closed c \<and> sessions c \<noteq> []"

definition sync_act :: "bool \<Rightarrow> DiscoPacketConn \<Rightarrow> DiscoPacketConn" where
  "sync_act live c = (if live \<and> \<not> dc_ticker c then c\<lparr>dc_ticker := True\<rparr> else if \<not> live \<and> dc_ticker c then c\<lparr>dc_ticker := False\<rparr> else c)"

definition syncEpochTicker :: "DiscoPacketConn \<Rightarrow> DiscoPacketConn" where "syncEpochTicker c = sync_act (sync_live c) c"

definition disco_Close :: "DiscoPacketConn \<Rightarrow> DiscoPacketConn" where
  "disco_Close c = c\<lparr>dc_closed := True, sessions := [], byTag := (\<lambda>_. None), byPeer := (\<lambda>_. None)\<rparr>"


section \<open>Sending\<close>

text \<open>The compare-and-swap loop ends in the round in which nobody else has moved the counter, so its effect is one atomic step.\<close>

definition nextSeq :: "discoSession \<Rightarrow> conn_error + u32 \<times> discoSession" where
  "nextSeq s = (let cur = ds_seq s in if cur \<ge> discoSeqCeiling - 1 then Inl ErrDiscoSeqExhausted else Inr (cur + 1, s\<lparr>ds_seq := cur + 1\<rparr>))"

text \<open>The error, the connection and the datagrams written to the socket, which answers \<open>sock\<close>.\<close>

definition writeDisco :: "disco_env \<Rightarrow> bytes option \<Rightarrow> conn_error option \<Rightarrow> instant \<Rightarrow> nat \<Rightarrow> AddrPort \<Rightarrow> DiscoPacket \<Rightarrow> nat \<Rightarrow> DiscoPacketConn
    \<Rightarrow> conn_error option \<times> DiscoPacketConn \<times> (bytes \<times> AddrPort) list" where
  "writeDisco env r sock now s to p padTo c =
     (case nextSeq (store c s) of
        Inl e \<Rightarrow> (Some e, c, [])
      | Inr (seq, x) \<Rightarrow>
          let c = c\<lparr>store := (store c)(s := x)\<rparr>
          in case EncodeDisco env r p (Some (ds_keys x)) seq now padTo of
               Inl e \<Rightarrow> (Some (CodecError e), c, [])
             | Inr wire \<Rightarrow> (sock, c, [(wire, to)]))"

definition WriteDisco :: "disco_env \<Rightarrow> bytes option \<Rightarrow> conn_error option \<Rightarrow> instant \<Rightarrow> string \<Rightarrow> AddrPort \<Rightarrow> DiscoPacket \<Rightarrow> DiscoPacketConn
    \<Rightarrow> conn_error option \<times> DiscoPacketConn \<times> (bytes \<times> AddrPort) list" where
  "WriteDisco env r sock now i to p c =
     (case map_of (sessions c) i of
        None \<Rightarrow> (Some ErrUnknownDiscoSession, c, [])
      | Some s \<Rightarrow> let padTo = mode (wireLens (store c s)) in if padTo = 0 then (Some ErrDiscoNoWireLength, c, []) else writeDisco env r sock now s to p padTo c)"

definition WriteDiscoAt :: "disco_env \<Rightarrow> bytes option \<Rightarrow> conn_error option \<Rightarrow> instant \<Rightarrow> string \<Rightarrow> AddrPort \<Rightarrow> DiscoPacket \<Rightarrow> nat \<Rightarrow> DiscoPacketConn
    \<Rightarrow> conn_error option \<times> DiscoPacketConn \<times> (bytes \<times> AddrPort) list" where
  "WriteDiscoAt env r sock now i to p padTo c =
     (case map_of (sessions c) i of None \<Rightarrow> (Some ErrUnknownDiscoSession, c, []) | Some s \<Rightarrow> writeDisco env r sock now s to p padTo c)"

definition PadToWireLen :: "string \<Rightarrow> DiscoPacketConn \<Rightarrow> nat" where
  "PadToWireLen i c = (case map_of (sessions c) i of None \<Rightarrow> 0 | Some s \<Rightarrow> mode (wireLens (store c s)))"

definition disco_WriteTo :: "instant \<Rightarrow> bytes \<Rightarrow> (Addr \<times> int) option \<Rightarrow> DiscoPacketConn \<Rightarrow> DiscoPacketConn \<times> (bytes \<times> (Addr \<times> int) option) list" where
  "disco_WriteTo now p addr c =
     (case addrToAddrPort addr of
        None \<Rightarrow> c
      | Some to \<Rightarrow> fold (\<lambda>s. upd s (\<lambda>x. x\<lparr>wireLens := disco_observe (length p) now (wireLens x)\<rparr>)) (bucket (byPeer c) to) c,
      [(p, addr)])"


section \<open>Receiving\<close>

definition disco_emit :: "nat \<Rightarrow> DiscoPacketEvent \<Rightarrow> DiscoPacketConn \<Rightarrow> DiscoPacketConn" where
  "disco_emit s ev c =
     (if length (ds_events (store c s)) < dc_eventBuffer c then upd s (\<lambda>x. x\<lparr>ds_events := ds_events x @ [ev]\<rparr>) c
      else c\<lparr>dc_stats := (dc_stats c)\<lparr>Dropped := Dropped (dc_stats c) + 1\<rparr>\<rparr>)"

definition countDecodeFailure :: "disco_error \<Rightarrow> DiscoStats \<Rightarrow> DiscoStats" where
  "countDecodeFailure err st =
     (case err of
        DiscoSkewError skew \<Rightarrow>
          let secs = go_div skew Second; secs = (if secs < 0 then - secs else secs)
          in st\<lparr>ClockSkew := ClockSkew st + 1, MaxSkewSeconds := (if secs \<le> MaxSkewSeconds st then MaxSkewSeconds st else secs)\<rparr>
      | ErrDiscoBadVersion _ \<Rightarrow> st\<lparr>BadVersion := BadVersion st + 1\<rparr>
      | _ \<Rightarrow> st\<lparr>Malformed := Malformed st + 1\<rparr>)"

definition session_accept :: "nat \<Rightarrow> u32 \<Rightarrow> DiscoPacketConn \<Rightarrow> bool \<times> DiscoPacketConn" where
  "session_accept s seq c = (let (ok, w) = window_accept seq (ds_window (store c s)) in (ok, upd s (\<lambda>x. x\<lparr>ds_window := w\<rparr>) c))"

fun dispatch_loop :: "disco_env \<Rightarrow> instant \<Rightarrow> AddrPort \<Rightarrow> bytes \<Rightarrow> nat list \<Rightarrow> DiscoPacketConn \<Rightarrow> bool \<times> DiscoPacketConn" where
  "dispatch_loop env now frm packet [] c = (False, c\<lparr>dc_stats := (dc_stats c)\<lparr>AuthFail := AuthFail (dc_stats c) + 1\<rparr>\<rparr>)"
| "dispatch_loop env now frm packet (s # ss) c =
     (case decodeDiscoBody env packet (ds_keys (store c s)) now of
        Inl err \<Rightarrow> if err = ErrDiscoAuth then dispatch_loop env now frm packet ss c else (True, c\<lparr>dc_stats := countDecodeFailure err (dc_stats c)\<rparr>)
      | Inr p \<Rightarrow>
          (case session_accept s (Seq (Header p)) c of
             (False, c) \<Rightarrow> (True, c\<lparr>dc_stats := (dc_stats c)\<lparr>Replay := Replay (dc_stats c) + 1\<rparr>\<rparr>)
           | (True, c) \<Rightarrow>
               (True, disco_emit s \<lparr>From = frm, At = now, Packet = p\<rparr> (c\<lparr>dc_stats := (dc_stats c)\<lparr>Delivered := Delivered (dc_stats c) + 1\<rparr>\<rparr>))))"

definition disco_dispatch :: "disco_env \<Rightarrow> instant \<Rightarrow> bytes \<Rightarrow> (Addr \<times> int) option \<Rightarrow> DiscoPacketConn \<Rightarrow> bool \<times> DiscoPacketConn" where
  "disco_dispatch env now packet addr c =
     (if length packet < discoMinWire \<or> length packet > discoMaxWire then (False, c)
      else let b = bucket (byTag c) (take discoTagLen packet)
           in if b = [] then (False, c)
              else case addrToAddrPort addr of
                     None \<Rightarrow> (False, c)
                   | Some frm \<Rightarrow> dispatch_loop env now frm packet b c)"

text \<open>What the socket delivers, each with the time of its arrival; \<open>None\<close> while the reader is still waiting.\<close>

fun disco_ReadFrom :: "disco_env \<Rightarrow> (instant \<times> (conn_error + bytes \<times> (Addr \<times> int) option)) list \<Rightarrow> DiscoPacketConn
    \<Rightarrow> (conn_error + bytes \<times> (Addr \<times> int) option) option \<times> DiscoPacketConn" where
  "disco_ReadFrom env [] c = (None, c)"
| "disco_ReadFrom env ((now, Inl e) # rs) c = (Some (Inl e), c)"
| "disco_ReadFrom env ((now, Inr (p, addr)) # rs) c =
     (case disco_dispatch env now p addr c of
        (True, c) \<Rightarrow> disco_ReadFrom env rs c
      | (False, c) \<Rightarrow> (Some (Inr (p, addr)), c))"


section \<open>The replay window is a set\<close>

text \<open>
  What the window stands for: the numbers accepted so far. A number is new when it is not zero, was not accepted before, and is less than 64 behind every
  number that was.
\<close>

definition fresh :: "u32 list \<Rightarrow> u32 \<Rightarrow> bool" where
  "fresh acc seq \<longleftrightarrow> seq \<noteq> 0 \<and> seq \<notin> set acc \<and> list_all (\<lambda>a. unat a < unat seq + 64) acc"

definition window_abs :: "discoReplayWindow \<Rightarrow> u32 list \<Rightarrow> bool" where
  "window_abs w acc \<longleftrightarrow> (seen w \<longleftrightarrow> acc \<noteq> []) \<and> 0 \<notin> set acc
     \<and> (acc \<noteq> [] \<longrightarrow> high w \<in> set acc \<and> (\<forall>a \<in> set acc. a \<le> high w)
          \<and> (\<forall>k < 64. bit (bits w) k \<longleftrightarrow> (\<exists>a \<in> set acc. unat a + k = unat (high w))))"

lemma window_absD:
  assumes "window_abs w acc" and "acc \<noteq> []"
  shows "seen w" "high w \<in> set acc" "\<And>a. a \<in> set acc \<Longrightarrow> unat a \<le> unat (high w)"
    "\<And>k. k < 64 \<Longrightarrow> bit (bits w) k \<longleftrightarrow> (\<exists>a \<in> set acc. unat a + k = unat (high w))"
  using assms by (auto simp: window_abs_def word_le_nat_alt)

lemma window_old:
  assumes abs: "window_abs w acc" and ne: "acc \<noteq> []" and seq: "seq \<noteq> 0" "\<not> seq > high w"
  shows "fresh acc seq \<longleftrightarrow> \<not> high w - seq \<ge> 64 \<and> \<not> bit (bits w) (unat (high w - seq))"
proof -
  note d = window_absD [OF abs ne]
  have le: "unat seq \<le> unat (high w)" using seq(2) by (simp add: word_le_nat_alt not_less)
  then have s: "unat (high w - seq) = unat (high w) - unat seq" by (simp add: unat_sub word_le_nat_alt)
  have far: "high w - seq \<ge> 64 \<longleftrightarrow> 64 \<le> unat (high w) - unat seq" using s by (simp add: word_le_nat_alt)
  have all: "list_all (\<lambda>a. unat a < unat seq + 64) acc \<longleftrightarrow> unat (high w) - unat seq < 64"
  proof
    show "list_all (\<lambda>a. unat a < unat seq + 64) acc \<Longrightarrow> unat (high w) - unat seq < 64" using d(2) by (auto simp: list_all_iff)
    show "unat (high w) - unat seq < 64 \<Longrightarrow> list_all (\<lambda>a. unat a < unat seq + 64) acc" using d(3) le by (fastforce simp: list_all_iff)
  qed
  have "seq \<in> set acc \<longleftrightarrow> (\<exists>a \<in> set acc. unat a + (unat (high w) - unat seq) = unat (high w))"
  proof
    assume "\<exists>a \<in> set acc. unat a + (unat (high w) - unat seq) = unat (high w)"
    then obtain a where "a \<in> set acc" "unat a = unat seq" using le by auto
    then show "seq \<in> set acc" by (simp add: word_unat_eq_iff [symmetric])
  next
    assume "seq \<in> set acc"
    then show "\<exists>a \<in> set acc. unat a + (unat (high w) - unat seq) = unat (high w)" using le by (intro bexI [of _ seq]) simp_all
  qed
  then show ?thesis using seq(1) d(4) [of "unat (high w) - unat seq"] unfolding fresh_def all far s by auto
qed

lemma window_new:
  assumes abs: "window_abs w acc" and ne: "acc \<noteq> []" and gt: "seq > high w"
  shows "fresh acc seq" "window_abs (w\<lparr>bits := (if seq - high w \<ge> 64 then 0 else push_bit (unat (seq - high w)) (bits w)) OR 1, high := seq\<rparr>) (seq # acc)"
proof -
  note d = window_absD [OF abs ne]
  have lt: "unat (high w) < unat seq" using gt by (simp add: word_less_nat_alt)
  then have "seq \<noteq> 0" by auto
  have s: "unat (seq - high w) = unat seq - unat (high w)" using gt by (simp add: unat_sub word_le_nat_alt word_less_nat_alt less_imp_le)
  have far: "seq - high w \<ge> 64 \<longleftrightarrow> 64 \<le> unat seq - unat (high w)" using s by (simp add: word_le_nat_alt)
  have below: "unat a < unat seq" if "a \<in> set acc" for a using d(3) [OF that] lt by simp
  show "fresh acc seq" using \<open>seq \<noteq> 0\<close> below by (fastforce simp: fresh_def list_all_iff)
  let ?b = "(if seq - high w \<ge> 64 then 0 else push_bit (unat (seq - high w)) (bits w)) OR 1"
  have bits: "bit ?b k \<longleftrightarrow> (\<exists>a \<in> set (seq # acc). unat a + k = unat seq)" if "k < 64" for k
  proof -
    let ?s = "unat seq - unat (high w)"
    have "bit ?b k \<longleftrightarrow> k = 0 \<or> ?s \<le> k \<and> bit (bits w) (k - ?s)"
      using that lt unfolding far s by (cases "64 \<le> ?s") (auto simp: bit_simps)
    also have "\<dots> \<longleftrightarrow> k = 0 \<or> (\<exists>a \<in> set acc. unat a + k = unat seq)"
    proof (cases "?s \<le> k")
      case True
      have "unat a + (k - ?s) = unat (high w) \<longleftrightarrow> unat a + k = unat seq" for a :: u32 using True lt by arith
      then show ?thesis using d(4) [of "k - ?s"] that True by simp
    next
      case False
      then show ?thesis using d(3) lt by fastforce
    qed
    also have "\<dots> \<longleftrightarrow> (\<exists>a \<in> set (seq # acc). unat a + k = unat seq)" by auto
    finally show ?thesis .
  qed
  show "window_abs (w\<lparr>bits := ?b, high := seq\<rparr>) (seq # acc)"
    using abs \<open>seq \<noteq> 0\<close> d(1) bits below unfolding window_abs_def by (auto simp: word_le_nat_alt less_imp_le)
qed

lemma window_accept_abs:
  assumes "window_abs w acc"
  shows "fst (window_accept seq w) = fresh acc seq \<and> window_abs (snd (window_accept seq w)) (if fresh acc seq then seq # acc else acc)"
proof (cases "seq = 0 \<or> acc = []")
  case True
  then show ?thesis using assms
    by (auto simp: window_accept_def fresh_def window_abs_def bit_simps Let_def)
next
  case False
  then have ne: "acc \<noteq> []" and nz: "seq \<noteq> 0" by simp_all
  note d = window_absD [OF assms ne]
  show ?thesis
  proof (cases "seq > high w")
    case True
    then show ?thesis using window_new [OF assms ne True] nz d(1) by (simp add: window_accept_def Let_def)
  next
    case old: False
    note f = window_old [OF assms ne nz old]
    have le: "unat seq \<le> unat (high w)" using old by (simp add: word_le_nat_alt not_less)
    have s: "unat (high w - seq) = unat (high w) - unat seq" using le by (simp add: unat_sub word_le_nat_alt)
    show ?thesis
    proof (cases "high w - seq \<ge> 64")
      case True
      then show ?thesis using f nz d(1) old assms by (simp add: window_accept_def Let_def)
    next
      case near: False
      let ?n = "unat (high w - seq)"
      have n: "?n < 64" using near by (simp add: word_le_nat_alt not_le)
      have m: "bits w AND push_bit ?n 1 \<noteq> 0 \<longleftrightarrow> bit (bits w) ?n" using n by (simp add: bit_iff_and_push_bit_not_eq_0)
      have b: "bit (bits w OR push_bit ?n 1) k \<longleftrightarrow> (\<exists>a \<in> set (seq # acc). unat a + k = unat (high w))" if "k < 64" for k
        using d(4) [OF that] le s that by (auto simp: bit_simps)
      have "window_abs (w\<lparr>bits := bits w OR push_bit ?n 1\<rparr>) (seq # acc)"
        using assms nz d(1,2) b le unfolding window_abs_def by (auto simp: word_le_nat_alt)
      then show ?thesis using f near nz d(1) old m assms by (simp add: window_accept_def Let_def)
    qed
  qed
qed

fun window_run :: "u32 list \<Rightarrow> discoReplayWindow \<Rightarrow> bool list" where
  "window_run [] w = []"
| "window_run (seq # seqs) w = (let (ok, w) = window_accept seq w in ok # window_run seqs w)"

fun fresh_run :: "u32 list \<Rightarrow> u32 list \<Rightarrow> bool list" where
  "fresh_run [] acc = []"
| "fresh_run (seq # seqs) acc = fresh acc seq # fresh_run seqs (if fresh acc seq then seq # acc else acc)"

lemma window_run_abs: "window_abs w acc \<Longrightarrow> window_run seqs w = fresh_run seqs acc"
proof (induction seqs arbitrary: w acc)
  case (Cons seq seqs)
  then show ?case using window_accept_abs [OF Cons.prems, of seq] by (cases "window_accept seq w") simp
qed simp

text \<open>
  C38. No probe is taken twice, and none is lost to reordering: the 64-bit window answers every sequence of numbers exactly as the set of the numbers
  accepted so far would - it accepts a number if and only if it is not zero, was not accepted before, and is less than 64 behind all that were.
\<close>

theorem replay_window_refines_set: "window_run seqs newReplayWindow = fresh_run seqs []"
  by (rule window_run_abs) (simp add: window_abs_def newReplayWindow_def)


section \<open>The length to imitate\<close>

text \<open>The most common element of a list, and of several such the largest.\<close>

definition most_common :: "'a::linorder list \<Rightarrow> 'a \<Rightarrow> bool" where
  "most_common ys x \<longleftrightarrow> x \<in> set ys \<and> (\<forall>y \<in> set ys. count_list ys y < count_list ys x \<or> count_list ys y = count_list ys x \<and> y \<le> x)"

lemma most_common_mset: "mset xs = mset ys \<Longrightarrow> most_common xs x = most_common ys x"
proof -
  assume "mset xs = mset ys"
  then have "set xs = set ys" "count_list xs = count_list ys" by (auto dest: mset_eq_setD simp: fun_eq_iff count_mset [symmetric])
  then show ?thesis by (simp add: most_common_def)
qed

lemma sorted_le_last: "sorted p \<Longrightarrow> y \<in> set p \<Longrightarrow> y \<le> last p" for p :: "'a::linorder list"
  by (induction p) auto

lemma mode_loop_ok:
  assumes "sorted (p @ xs)" and "p \<noteq> []" and "prev = last p" and "run = count_list p prev" and "bestRun = count_list p best" and "most_common p best"
  shows "most_common (p @ xs) (mode_loop prev run best bestRun xs)"
  using assms
proof (induction xs arbitrary: p prev run best bestRun)
  case (Cons x xs)
  let ?run = "if x = prev then run + 1 else 1"
  have srt: "sorted (p @ [x])" "sorted ((p @ [x]) @ xs)" "sorted p" using Cons.prems(1) by (simp_all add: sorted_append)
  have le: "y \<le> x" if "y \<in> set p" for y using that srt(1) by (simp add: sorted_append)
  have run: "?run = count_list (p @ [x]) x"
  proof (cases "x = prev")
    case False
    have "x \<noteq> last p" using False Cons.prems(3) by simp
    then have "x \<notin> set p" using sorted_le_last [OF srt(3), of x] le [of "last p"] Cons.prems(2) by fastforce
    then show ?thesis using False by simp
  qed (use Cons.prems(4) in simp)
  have mc: "\<And>y. y \<in> set p \<Longrightarrow> count_list p y < bestRun \<or> count_list p y = bestRun \<and> y \<le> best" "best \<in> set p"
    using Cons.prems(5,6) by (auto simp: most_common_def)
  show ?case
  proof (cases "?run \<ge> bestRun")
    case True
    have "most_common (p @ [x]) x"
      unfolding most_common_def
    proof (intro conjI ballI)
      fix y assume y: "y \<in> set (p @ [x])"
      show "count_list (p @ [x]) y < count_list (p @ [x]) x \<or> count_list (p @ [x]) y = count_list (p @ [x]) x \<and> y \<le> x"
      proof (cases "y = x")
        case False
        then have "y \<in> set p" using y by simp
        then have "count_list p y \<le> bestRun" "y \<le> x" using mc(1) le by fastforce+
        then show ?thesis using False True unfolding run by auto
      qed simp
    qed simp
    then show ?thesis using Cons.IH [OF srt(2), of x ?run ?run x] run True by (simp add: Let_def)
  next
    case False
    have ne: "best \<noteq> x"
    proof
      assume "best = x"
      then have "prev = x" using sorted_le_last [OF srt(3), of x] le [of "last p"] mc(2) Cons.prems(2,3) by fastforce
      then show False using \<open>best = x\<close> False Cons.prems(4,5) by simp
    qed
    have "most_common (p @ [x]) best"
      unfolding most_common_def
    proof (intro conjI ballI)
      fix y assume y: "y \<in> set (p @ [x])"
      show "count_list (p @ [x]) y < count_list (p @ [x]) best \<or> count_list (p @ [x]) y = count_list (p @ [x]) best \<and> y \<le> best"
      proof (cases "y = x")
        case True
        then show ?thesis using False ne Cons.prems(5) unfolding run by simp
      qed (use y mc(1) ne Cons.prems(5) in auto)
    qed (use mc(2) in simp)
    then show ?thesis using Cons.IH [OF srt(2), of x ?run bestRun best] run False ne Cons.prems(5) by (simp add: Let_def)
  qed
qed simp

lemma sort_mode:
  assumes "sort ys = x # xs"
  shows "most_common ys (mode_loop x 1 x 1 xs)"
proof -
  have "sorted (sort ys)" by simp
  then have "sorted ([x] @ xs)" by (simp add: assms)
  then have "most_common ([x] @ xs) (mode_loop x 1 x 1 xs)" by (rule mode_loop_ok) (simp_all add: most_common_def)
  moreover have "mset ([x] @ xs) = mset ys" using assms by (metis append_Cons append_Nil mset_sort)
  ultimately show ?thesis using most_common_mset by blast
qed

text \<open>The slots after a history of datagrams: the last 64 that a probe could imitate, wherever they are.\<close>

definition imitable :: "(nat \<times> instant) list \<Rightarrow> (u32 \<times> instant) list" where
  "imitable obs = map (\<lambda>(n, t). (of_nat n, t)) (filter (\<lambda>(n, t). discoMinWire \<le> n \<and> n \<le> discoMaxWire) obs)"

definition slots_ok :: "(u32 \<times> instant) list \<Rightarrow> discoWireLens \<Rightarrow> bool" where
  "slots_ok xs w \<longleftrightarrow> length (wl_lens w) = 64 \<and> length (wl_at w) = 64 \<and> wl_count w = of_nat (length xs)
     \<and> (\<forall>j < length xs. length xs \<le> j + 64 \<longrightarrow> (wl_lens w ! (j mod 64), wl_at w ! (j mod 64)) = xs ! j)"

lemma slots_step:
  assumes "slots_ok xs w" and "length xs < 2 ^ 63" and "discoMinWire \<le> n" "n \<le> discoMaxWire"
  shows "slots_ok (xs @ [(of_nat n, t)]) (disco_observe n t w)"
proof -
  let ?i = "length xs mod 64"
  have "unat (wl_count w mod 64) = ?i" using assms(1,2) by (simp add: slots_ok_def unat_mod unat_of_nat take_bit_nat_eq_self)
  then have e: "disco_observe n t w = w\<lparr>wl_count := of_nat (length xs) + 1, wl_lens := (wl_lens w)[?i := of_nat n], wl_at := (wl_at w)[?i := t]\<rparr>"
    using assms by (simp add: disco_observe_def slots_ok_def Let_def discoWireLenWindow_def)
  show ?thesis
    unfolding slots_ok_def e
  proof (intro conjI allI impI)
    fix j assume j: "j < length (xs @ [(of_nat n, t)])" "length (xs @ [(of_nat n, t)]) \<le> j + 64"
    show "(wl_lens (w\<lparr>wl_count := of_nat (length xs) + 1, wl_lens := (wl_lens w)[?i := of_nat n], wl_at := (wl_at w)[?i := t]\<rparr>) ! (j mod 64),
        wl_at (w\<lparr>wl_count := of_nat (length xs) + 1, wl_lens := (wl_lens w)[?i := of_nat n], wl_at := (wl_at w)[?i := t]\<rparr>) ! (j mod 64)) =
        (xs @ [(of_nat n, t)]) ! j"
    proof (cases "j = length xs")
      case True
      then show ?thesis using assms(1) by (simp add: slots_ok_def)
    next
      case False
      then have lt: "j < length xs" "length xs - j < 64" using j by simp_all
      have "j mod 64 \<noteq> ?i"
      proof
        assume "j mod 64 = ?i"
        then have "64 dvd length xs - j" using lt by (metis less_imp_le mod_eq_dvd_iff_nat)
        then show False using lt by (auto dest: dvd_imp_le)
      qed
      then show ?thesis using assms(1) lt by (simp add: slots_ok_def nth_append)
    qed
  qed (use assms(1) in \<open>simp_all add: slots_ok_def\<close>)
qed

lemma slots_run: "length obs < 2 ^ 63 \<Longrightarrow> slots_ok (imitable obs) (fold (\<lambda>(n, t). disco_observe n t) obs newWireLens)"
proof (induction obs rule: rev_induct)
  case Nil
  then show ?case by (simp add: slots_ok_def imitable_def newWireLens_def discoWireLenWindow_def)
next
  case (snoc x obs)
  obtain n t where x: "x = (n, t)" by (cases x)
  have ih: "slots_ok (imitable obs) (fold (\<lambda>(n, t). disco_observe n t) obs newWireLens)" using snoc by simp
  have "length (imitable obs) \<le> length obs" by (simp add: imitable_def)
  then have len: "length (imitable obs) < 2 ^ 63" using snoc.prems by simp
  show ?case
  proof (cases "discoMinWire \<le> n \<and> n \<le> discoMaxWire")
    case True
    then show ?thesis using slots_step [OF ih len] by (simp add: x imitable_def)
  next
    case False
    then have "disco_observe n t w = w" for w by (auto simp: disco_observe_def)
    then show ?thesis using ih False by (auto simp: x imitable_def)
  qed
qed

lemma slots_mset:
  assumes "slots_ok xs w"
  shows "mset (map (\<lambda>i. (wl_lens w ! i, wl_at w ! i)) [0..<min (length xs) 64]) = mset (drop (length xs - 64) xs)"
proof (cases "length xs \<le> 64")
  case True
  have "map (\<lambda>i. (wl_lens w ! i, wl_at w ! i)) [0..<length xs] = xs"
    using assms True by (intro nth_equalityI) (simp_all add: slots_ok_def)
  then show ?thesis using True by simp
next
  case False
  let ?N = "length xs" and ?f = "\<lambda>i. (wl_lens w ! i, wl_at w ! i)"
  have "drop (?N - 64) xs = map (\<lambda>j. xs ! j) [?N - 64..<?N]" using False by (intro nth_equalityI) simp_all
  also have "\<dots> = map (\<lambda>j. ?f (j mod 64)) [?N - 64..<?N]" using assms by (auto simp: slots_ok_def)
  also have "\<dots> = map ?f (map (\<lambda>j. j mod 64) [?N - 64..<?N])" by simp
  finally have d: "drop (?N - 64) xs = map ?f (map (\<lambda>j. j mod 64) [?N - 64..<?N])" .
  have inj: "inj_on (\<lambda>j. j mod 64) {?N - 64..<?N}"
  proof (rule inj_onI)
    fix i j assume ij: "i \<in> {?N - 64..<?N}" "j \<in> {?N - 64..<?N}" "i mod 64 = j mod 64"
    have "\<bar>int i - int j\<bar> < 64" using ij(1,2) False by auto
    moreover have "64 dvd int i - int j" using ij(3) by (metis mod_eq_dvd_iff of_nat_mod of_nat_numeral)
    ultimately show "i = j" using dvd_imp_le_int [of "int i - int j" 64] by auto
  qed
  have "(\<lambda>j. j mod 64) ` {?N - 64..<?N} = {0..<64}"
    using False card_image [OF inj] by (intro card_subset_eq) auto
  then have "mset (map (\<lambda>j. j mod 64) [?N - 64..<?N]) = mset [0..<64]"
    using inj by (intro iffD1 [OF set_eq_iff_mset_eq_distinct]) (simp_all add: distinct_map)
  then show ?thesis using False unfolding d mset_map by simp
qed

lemma newest_Max: "fold (\<lambda>i m. if f i > m then f i else m) is b = Max (insert b (f ` set is))" for f :: "'a \<Rightarrow> int"
proof (induction "is" arbitrary: b)
  case (Cons i "is")
  have "Max (insert (max b (f i)) (f ` set is)) = Max (insert b (insert (f i) (f ` set is)))"
    by (cases "is = []") (simp_all add: max.assoc)
  moreover have "(if f i > b then f i else b) = max b (f i)" by (simp add: max_def)
  ultimately show ?case using Cons [of "max b (f i)"] by simp
qed simp

text \<open>The lengths of a history that count: among the last 64 imitable datagrams, those at most ten seconds older than the newest of them.\<close>

definition recent_lens :: "(u32 \<times> instant) list \<Rightarrow> u32 list" where
  "recent_lens xs =
     (let recent = drop (length xs - discoWireLenWindow) xs
      in map fst (filter (\<lambda>(n, t). Max (snd ` set recent) - discoWireLenMaxAge \<le> t) recent))"

lemma imitable_not_0: "(n, t) \<in> set (imitable obs) \<Longrightarrow> n \<noteq> 0"
proof -
  have "(of_nat k :: u32) \<noteq> 0" if "discoMinWire \<le> k" "k \<le> discoMaxWire" for k
  proof -
    have "unat (of_nat k :: u32) = k" using that by (simp add: unat_of_nat take_bit_nat_eq_self discoMaxWire_def)
    then show ?thesis using that by (auto simp: disco_consts)
  qed
  then show "(n, t) \<in> set (imitable obs) \<Longrightarrow> n \<noteq> 0" by (auto simp: imitable_def)
qed

lemma sort_Cons_ex: "mset v = mset u \<Longrightarrow> u \<noteq> [] \<Longrightarrow> \<exists>x xs. sort v = x # xs" for u v :: "'a::linorder list"
  by (metis list.exhaust mset_sort mset_zero_iff)

lemma mode_of_slots:
  assumes ok: "slots_ok xs w" and len: "length xs < 2 ^ 63" and pos: "\<And>n t. (n, t) \<in> set xs \<Longrightarrow> n \<noteq> 0 \<and> - (2 ^ 63) < t" and ne: "xs \<noteq> []"
  shows "most_common (recent_lens xs) (of_nat (mode w))"
proof -
  let ?f = "\<lambda>i. (wl_lens w ! i, wl_at w ! i)" and ?is = "[0..<min (length xs) 64]" and ?r = "drop (length xs - 64) xs"
  have ms: "mset (map ?f ?is) = mset ?r" by (rule slots_mset [OF ok])
  have st: "?f ` set ?is = set ?r" using mset_eq_setD [OF ms] by (simp only: set_map)
  have sub: "set ?r \<subseteq> set xs" by (rule set_drop_subset)
  have rne: "?r \<noteq> []" using ne by (cases xs) auto
  have filled: "unat (min (wl_count w) (of_nat discoWireLenWindow)) = min (length xs) 64"
    using ok len by (simp add: slots_ok_def discoWireLenWindow_def min_def word_le_nat_alt unat_of_nat take_bit_nat_eq_self)
  have at: "(\<lambda>i. wl_at w ! i) ` set ?is = snd ` set ?r" unfolding st [symmetric] image_image by simp
  have low: "- (2 ^ 63) \<le> m" if "m \<in> snd ` set ?r" for m using that sub pos by force
  have newest: "fold (\<lambda>i m. if wl_at w ! i > m then wl_at w ! i else m) ?is (- (2 ^ 63)) = Max (snd ` set ?r)" (is "_ = ?new")
    unfolding newest_Max [of "\<lambda>i. wl_at w ! i"] at using rne Max_in [of "snd ` set ?r"] low [of "Max (snd ` set ?r)"]
    by (simp add: max_absorb2 del: Max_in)
  let ?w = "map (\<lambda>i. wl_lens w ! i) (filter (\<lambda>i. \<not> wl_at w ! i < ?new - discoWireLenMaxAge \<and> wl_lens w ! i \<noteq> 0) ?is)"
  have nz: "wl_lens w ! i \<noteq> 0" if "i \<in> set ?is" for i
    using that st sub pos by (metis (no_types, lifting) imageI subsetD)
  have "filter (\<lambda>i. \<not> wl_at w ! i < ?new - discoWireLenMaxAge \<and> wl_lens w ! i \<noteq> 0) ?is = filter (\<lambda>i. ?new - discoWireLenMaxAge \<le> wl_at w ! i) ?is"
    by (rule filter_cong) (use nz in \<open>auto simp: not_less\<close>)
  then have "?w = map fst (filter (\<lambda>(n, t). ?new - discoWireLenMaxAge \<le> t) (map ?f ?is))"
    unfolding filter_map comp_def map_map by simp
  then have "mset ?w = mset (recent_lens xs)" by (simp only: recent_lens_def discoWireLenWindow_def Let_def mset_map mset_filter ms [unfolded mset_map])
  moreover have "recent_lens xs \<noteq> []"
  proof -
    obtain n t where "(n, t) \<in> set ?r" "t = ?new" using Max_in [of "snd ` set ?r"] rne by (auto simp del: Max_in)
    then have "(n, t) \<in> set (filter (\<lambda>(n, t). ?new - discoWireLenMaxAge \<le> t) ?r)" by (simp add: discoWireLenMaxAge_def Second_def)
    then show ?thesis by (auto simp: recent_lens_def discoWireLenWindow_def Let_def filter_empty_conv)
  qed
  ultimately obtain x ys where srt: "sort ?w = x # ys" using sort_Cons_ex by blast
  have "mode w = unat (mode_loop x 1 x 1 ys)"
    unfolding mode_def Let_def filled newest using srt ne by (simp add: min_def)
  then show ?thesis using sort_mode [OF srt] most_common_mset [OF \<open>mset ?w = mset (recent_lens xs)\<close>] by simp
qed

text \<open>
  C39. What a session pads its probes to imitates the traffic of its connection: after any history of datagrams sent to the peer, the length is 0 - no
  probe is sent - if none of them had a length a probe can have, and otherwise the most common length, the largest of several as common, among
  those of the last 64 such datagrams that are at most ten seconds older than the newest of these; ring, slot order and wrapping count do not show.
\<close>

theorem pad_imitates:
  assumes "length obs < 2 ^ 63" and "\<And>n t. (n, t) \<in> set obs \<Longrightarrow> - (2 ^ 63) < t"
  shows "if imitable obs = [] then mode (fold (\<lambda>(n, t). disco_observe n t) obs newWireLens) = 0
         else most_common (recent_lens (imitable obs)) (of_nat (mode (fold (\<lambda>(n, t). disco_observe n t) obs newWireLens)))"
proof (cases "imitable obs = []")
  case True
  then show ?thesis using slots_run [OF assms(1)] by (simp add: slots_ok_def mode_def)
next
  case False
  have "length (imitable obs) < 2 ^ 63" using assms(1) by (simp add: imitable_def le_less_trans [OF length_filter_le])
  moreover have "n \<noteq> 0 \<and> - (2 ^ 63) < t" if "(n, t) \<in> set (imitable obs)" for n t
    using that imitable_not_0 [OF that] assms(2) by (auto simp: imitable_def)
  ultimately show ?thesis using mode_of_slots [OF slots_run [OF assms(1)] _ _ False] False by simp
qed

theorem pad_imitates_witness:
  "most_common (recent_lens (imitable [(1200, 0), (40, 1), (1200, 2), (100, 3)])) 1200
   \<and> mode (fold (\<lambda>(n, t). disco_observe n t) [(1200, 0), (40, 1), (1200, 2), (100, 3)] newWireLens) = 1200"
proof -
  have m: "mode (fold (\<lambda>(n, t). disco_observe n t) [(1200, 0), (40, 1), (1200, 2), (100, 3)] newWireLens) = 1200" by code_simp
  have "imitable [(1200, 0), (40, 1), (1200, 2), (100, 3)] \<noteq> []" by code_simp
  moreover have "- (2 ^ 63) < t" if "(n, t) \<in> set [(1200, 0), (40, 1), (1200, 2), (100, 3)]" for n :: nat and t :: int using that by auto
  ultimately show ?thesis using pad_imitates [of "[(1200, 0), (40, 1), (1200, 2), (100, 3)]"] m by simp
qed

end
