(* ===== verification/Disco_Demux.thy ===== *)
theory Disco_Demux
  imports Disco_Conn
begin

text \<open>
  What the tables of the path probe connection mean. Goroutines call the operations of \<open>extras/realm/disco_conn.go\<close> side by side; each section under a
  lock is a step of a relation, and the synchronisation of the epoch ticker, which takes its own lock and the lock of the table in turn, is two. In every
  state such a run reaches the tag index holds exactly the tags of the registered sessions, so a datagram is taken from QUIC exactly when it is for
  one of them; and once no synchronisation is outstanding the ticker runs exactly when there is a session.
\<close>

section \<open>What an operation leaves alone\<close>

definition view :: "DiscoPacketConn \<Rightarrow> (string \<times> nat) list \<times> (bytes \<rightharpoonup> nat list) \<times> u64 \<times> bool \<times> bool \<times> nat \<times> (nat \<Rightarrow> DiscoKeys \<times> bytes list)" where
  "view c = (sessions c, byTag c, dc_epoch c, dc_closed c, dc_ticker c, next_session c, \<lambda>i. (ds_keys (store c i), ds_tags (store c i)))"

lemma viewD:
  assumes "view c = view c'"
  shows "sessions c = sessions c'" "byTag c = byTag c'" "dc_epoch c = dc_epoch c'" "dc_closed c = dc_closed c'" "dc_ticker c = dc_ticker c'"
    "next_session c = next_session c'" "ds_keys (store c i) = ds_keys (store c' i)" "ds_tags (store c i) = ds_tags (store c' i)"
  using assms by (auto simp: view_def fun_eq_iff)

lemma view_stats [simp]: "view (c\<lparr>dc_stats := x\<rparr>) = view c" "view (c\<lparr>byPeer := y\<rparr>) = view c"
  by (simp_all add: view_def)

lemma view_upd [simp]: "(\<And>x. ds_keys (f x) = ds_keys x \<and> ds_tags (f x) = ds_tags x) \<Longrightarrow> view (upd i f c) = view c"
  by (simp add: view_def upd_def fun_eq_iff)

lemma view_dropPeerLocked [simp]: "view (dropPeerLocked s c) = view c"
  by (simp add: dropPeerLocked_def Let_def)

lemma view_set_peer_locked [simp]: "view (set_peer_locked s peer c) = view c"
  by (simp add: set_peer_locked_def Let_def)

lemma view_disco_WriteTo [simp]: "view (fst (disco_WriteTo now p addr c)) = view c"
proof -
  have "view (fold (\<lambda>s. upd s (\<lambda>x. x\<lparr>wireLens := disco_observe (length p) now (wireLens x)\<rparr>)) ss c) = view c" for ss
    by (induction ss arbitrary: c) simp_all
  then show ?thesis by (simp add: disco_WriteTo_def split: option.split)
qed

lemma view_writeDisco [simp]: "view (fst (snd (writeDisco env r sock now s to p padTo c))) = view c"
  by (auto simp: writeDisco_def nextSeq_def Let_def view_def fun_eq_iff split: sum.split)

lemma view_session_accept: "session_accept s seq c = (ok, c') \<Longrightarrow> view c' = view c"
  by (auto simp: session_accept_def split: prod.splits)

lemma view_disco_emit [simp]: "view (disco_emit s ev c) = view c"
  by (simp add: disco_emit_def)

lemma view_dispatch_loop [simp]: "view (snd (dispatch_loop env now frm packet ss c)) = view c"
proof (induction ss arbitrary: c)
  case (Cons s ss)
  show ?case
  proof (cases "decodeDiscoBody env packet (ds_keys (store c s)) now")
    case (Inl e)
    then show ?thesis using Cons by simp
  next
    case (Inr p)
    obtain ok c' where a: "session_accept s (Seq (Header p)) c = (ok, c')" by fastforce
    show ?thesis using view_session_accept [OF a] by (cases ok) (simp_all add: Inr a)
  qed
qed simp

lemma view_disco_dispatch [simp]: "view (snd (disco_dispatch env now packet addr c)) = view c"
  by (simp add: disco_dispatch_def Let_def split: option.split)


section \<open>The tag index\<close>

definition tags_of :: "disco_env \<Rightarrow> u64 \<Rightarrow> DiscoKeys \<Rightarrow> bytes list" where
  "tags_of env e k = (case recv_tags env (tagRecv k) [e - 1, e, e + 1] of Inl _ \<Rightarrow> [] | Inr ts \<Rightarrow> ts)"

lemma tags_of_RecvTags:
  "RecvTags env k now = Inr ts \<Longrightarrow> tags_of env (discoEpochOf now) k = ts"
  "RecvTags env k now = Inl err \<Longrightarrow> tags_of env (discoEpochOf now) k = []"
  by (simp_all add: tags_of_def RecvTags_def Let_def)

lemma bucket_simps [simp]: "bucket (\<lambda>_. None) t = []" "bucket (m(t \<mapsto> b)) t' = (if t' = t then b else bucket m t')"
  by (simp_all add: bucket_def)

lemma bucket_set_bucket [simp]: "bucket (set_bucket t b m) t' = (if t' = t then b else bucket m t')"
  by (simp add: bucket_def set_bucket_def)

lemma in_add_tags [simp]: "i \<in> set (bucket (add_tags s ts m) t) \<longleftrightarrow> i \<in> set (bucket m t) \<or> i = s \<and> t \<in> set ts"
  by (induction ts arbitrary: m) (auto simp: appendDiscoBucket_def)

lemma in_drop_tags [simp]: "i \<in> set (bucket (drop_tags s ts m) t) \<longleftrightarrow> i \<in> set (bucket m t) \<and> \<not> (i = s \<and> t \<in> set ts)"
  unfolding drop_tags_def by (induction ts arbitrary: m) auto

text \<open>No bucket is left empty.\<close>

definition no_empty :: "('a \<rightharpoonup> nat list) \<Rightarrow> bool" where "no_empty m \<longleftrightarrow> (\<forall>t. m t \<noteq> Some [])"

lemma no_empty_add [intro]: "no_empty m \<Longrightarrow> no_empty (add_tags s ts m)"
  by (induction ts arbitrary: m) (auto simp: no_empty_def appendDiscoBucket_def)

lemma no_empty_drop [intro]: "no_empty m \<Longrightarrow> no_empty (drop_tags s ts m)"
  unfolding drop_tags_def by (induction ts arbitrary: m) (auto simp: no_empty_def set_bucket_def)

definition registered :: "DiscoPacketConn \<Rightarrow> nat set" where "registered c = snd ` set (sessions c)"

definition demux_ok :: "disco_env \<Rightarrow> DiscoPacketConn \<Rightarrow> bool" where
  "demux_ok env c \<longleftrightarrow> distinct (map fst (sessions c)) \<and> distinct (map snd (sessions c)) \<and> (\<forall>i \<in> registered c. i < next_session c)
     \<and> no_empty (byTag c) \<and> (\<forall>t i. i \<in> set (bucket (byTag c) t) \<longleftrightarrow> i \<in> registered c \<and> t \<in> set (ds_tags (store c i)))
     \<and> (\<forall>i \<in> registered c. ds_tags (store c i) = tags_of env (dc_epoch c) (ds_keys (store c i)))
     \<and> (dc_closed c \<longrightarrow> sessions c = [])"

lemma demux_ok_view: "demux_ok env c \<Longrightarrow> view c' = view c \<Longrightarrow> demux_ok env c'"
  using viewD [of c' c] by (simp add: demux_ok_def registered_def)

lemma demux_ok_cong:
  assumes "demux_ok env c" and "sessions c' = sessions c" "byTag c' = byTag c" "dc_epoch c' = dc_epoch c" "dc_closed c' = dc_closed c"
    and "next_session c \<le> next_session c'"
    and "\<And>i. i \<in> registered c \<Longrightarrow> ds_keys (store c' i) = ds_keys (store c i)" "\<And>i. i \<in> registered c \<Longrightarrow> ds_tags (store c' i) = ds_tags (store c i)"
  shows "demux_ok env c'"
proof -
  have r: "registered c' = registered c" using assms(2) by (simp add: registered_def)
  show ?thesis using assms(1,6-8) unfolding demux_ok_def r assms(2-5) by (auto intro: less_le_trans)
qed

lemma upd_simps [simp]:
  "sessions (upd j f c) = sessions c" "byTag (upd j f c) = byTag c" "dc_epoch (upd j f c) = dc_epoch c" "dc_closed (upd j f c) = dc_closed c"
  "dc_ticker (upd j f c) = dc_ticker c" "next_session (upd j f c) = next_session c"
  by (simp_all add: upd_def)

lemma upd_tags [simp]:
  "ds_keys (store (upd j (\<lambda>s. s\<lparr>ds_tags := ts\<rparr>) c) i) = ds_keys (store c i)"
  "ds_tags (store (upd j (\<lambda>s. s\<lparr>ds_tags := ts\<rparr>) c) i) = (if i = j then ts else ds_tags (store c i))"
  by (simp_all add: upd_def)

lemma rebuild_loop_ok:
  assumes "distinct is" and "no_empty m" and "rebuild_loop env now is m err c = (err', c')"
  shows "sessions c' = sessions c \<and> dc_closed c' = dc_closed c \<and> dc_ticker c' = dc_ticker c \<and> next_session c' = next_session c \<and> dc_epoch c' = discoEpochOf now
    \<and> no_empty (byTag c') \<and> (\<forall>i. ds_keys (store c' i) = ds_keys (store c i))
    \<and> (\<forall>i. ds_tags (store c' i) = (if i \<in> set is then tags_of env (discoEpochOf now) (ds_keys (store c i)) else ds_tags (store c i)))
    \<and> (\<forall>i t. i \<in> set (bucket (byTag c') t) \<longleftrightarrow> i \<in> set (bucket m t) \<or> i \<in> set is \<and> t \<in> set (tags_of env (discoEpochOf now) (ds_keys (store c i))))"
  using assms
proof (induction "is" arbitrary: m err c)
  case (Cons j "is")
  show ?case
  proof (cases "RecvTags env (ds_keys (store c j)) now")
    case (Inl e)
    show ?thesis using Cons.IH [of m "if err = None then Some e else err" "upd j (\<lambda>s. s\<lparr>ds_tags := []\<rparr>) c"] Cons.prems tags_of_RecvTags(2) [OF Inl]
      by (auto simp: Inl)
  next
    case (Inr ts)
    have "no_empty (add_tags j ts m)" using Cons.prems(2) by auto
    then show ?thesis using Cons.IH [of "add_tags j ts m" err "upd j (\<lambda>s. s\<lparr>ds_tags := ts\<rparr>) c"] Cons.prems tags_of_RecvTags(1) [OF Inr]
      by (auto simp: Inr)
  qed
qed auto

lemma rebuild_ok:
  assumes ord: "\<And>xs. mset (ord xs) = mset xs" and r: "rebuildTagsLocked env ord now c = (err, c')"
    and ok: "distinct (map fst (sessions c))" "distinct (map snd (sessions c))" "\<forall>i \<in> registered c. i < next_session c" "\<not> dc_closed c"
  shows "demux_ok env c'" "sessions c' = sessions c" "dc_ticker c' = dc_ticker c" "dc_closed c' = dc_closed c"
proof -
  have "mset (map snd (ord (sessions c))) = mset (map snd (sessions c))" by (simp add: ord)
  then have d: "distinct (map snd (ord (sessions c)))" and st: "set (map snd (ord (sessions c))) = registered c"
    using ok(2) mset_eq_imp_distinct_iff mset_eq_setD by (blast, fastforce simp: registered_def)
  note l = rebuild_loop_ok [OF d _ r [unfolded rebuildTagsLocked_def]]
  show "demux_ok env c'" "sessions c' = sessions c" "dc_ticker c' = dc_ticker c" "dc_closed c' = dc_closed c"
    using l ok unfolding st by (simp_all add: no_empty_def demux_ok_def registered_def)
qed

text \<open>Removing a session: the fields but the two tables stay as they are.\<close>

definition unregister :: "nat \<Rightarrow> string \<Rightarrow> DiscoPacketConn \<Rightarrow> DiscoPacketConn" where
  "unregister s i c = dropTagsLocked s (c\<lparr>sessions := AList.delete i (sessions c)\<rparr>)"

lemma delete_snoc: "i \<notin> fst ` set xs \<Longrightarrow> AList.delete i (xs @ [(i, s)]) = xs"
  by (induction xs) auto

lemma registered_delete:
  assumes "distinct (map fst ss)" "distinct (map snd ss)" "map_of ss i = Some s"
  shows "snd ` set (AList.delete i ss) = snd ` set ss - {s}"
proof -
  have "(i, s) \<in> set ss" using assms(3) by (rule map_of_SomeD)
  then have "fst p = i \<longleftrightarrow> snd p = s" if "p \<in> set ss" for p
  proof -
    have "inj_on fst (set ss)" "inj_on snd (set ss)" using assms(1,2) by (simp_all add: distinct_map)
    then have "fst p = fst (i, s) \<longleftrightarrow> p = (i, s)" "snd p = snd (i, s) \<longleftrightarrow> p = (i, s)"
      using that \<open>(i, s) \<in> set ss\<close> by (simp_all only: inj_on_eq_iff)
    then show ?thesis by simp
  qed
  then have "AList.delete i ss = filter (\<lambda>p. snd p \<noteq> s) ss" unfolding AList.delete_eq by (intro filter_cong refl) (simp add: case_prod_beta, metis)
  then show ?thesis by auto
qed

lemma unregister_ok:
  assumes "demux_ok env c" and "map_of (sessions c) i = Some s"
  shows "demux_ok env (unregister s i c)"
proof -
  have r: "snd ` set (AList.delete i (sessions c)) = registered c - {s}"
    using registered_delete [of "sessions c" i s] assms by (simp add: demux_ok_def registered_def)
  have d: "distinct (map fst (AList.delete i (sessions c)))" "distinct (map snd (AList.delete i (sessions c)))"
    using assms by (auto simp: demux_ok_def AList.delete_eq distinct_map intro: inj_on_subset)
  show ?thesis using assms d r by (auto simp: unregister_def dropTagsLocked_def demux_ok_def registered_def)
qed

lemma RemoveDiscoSession_ok: "demux_ok env c \<Longrightarrow> demux_ok env (RemoveDiscoSession i c)"
proof -
  assume ok: "demux_ok env c"
  show ?thesis
  proof (cases "map_of (sessions c) i")
    case (Some s)
    then have "demux_ok env (unregister s i c)" by (rule unregister_ok [OF ok])
    then show ?thesis using demux_ok_view [of env "unregister s i c" "dropPeerLocked s (unregister s i c)"]
      by (simp add: RemoveDiscoSession_def Some unregister_def)
  qed (simp add: RemoveDiscoSession_def ok)
qed

lemma disco_Close_ok: "demux_ok env (disco_Close c)"
  by (simp add: disco_Close_def demux_ok_def registered_def no_empty_def)

lemma refreshTags_ok:
  assumes "\<And>xs. mset (ord xs) = mset xs" and "demux_ok env c"
  shows "demux_ok env (refreshTags env ord now c)" "sessions (refreshTags env ord now c) = sessions c"
    "dc_closed (refreshTags env ord now c) = dc_closed c" "dc_ticker (refreshTags env ord now c) = dc_ticker c"
proof -
  obtain err c' where r: "rebuildTagsLocked env ord now c = (err, c')" by fastforce
  have "\<not> dc_closed c" if "sessions c \<noteq> []" using that assms(2) by (auto simp: demux_ok_def)
  then show "demux_ok env (refreshTags env ord now c)" "sessions (refreshTags env ord now c) = sessions c"
    "dc_closed (refreshTags env ord now c) = dc_closed c" "dc_ticker (refreshTags env ord now c) = dc_ticker c"
    using rebuild_ok [OF assms(1) r] assms(2) by (auto simp: refreshTags_def r demux_ok_def)
qed

text \<open>Admission puts the session into the store and the table, and then gives it its tags.\<close>

definition admitted :: "string \<Rightarrow> DiscoKeys \<Rightarrow> AddrPort \<Rightarrow> DiscoPacketConn \<Rightarrow> DiscoPacketConn" where
  "admitted i k peer c = c\<lparr>store := (store c)(next_session c := new_session i k peer), next_session := next_session c + 1, sessions := sessions c @ [(i, next_session c)]\<rparr>"

lemma addTags_ok:
  assumes ord: "\<And>xs. mset (ord xs) = mset xs" and ok: "demux_ok env c" and opn: "\<not> dc_closed c" "map_of (sessions c) i = None"
    and a: "addTagsLocked env ord (next_session c) now (admitted i k peer c) = (err, c')"
  shows "sessions c' = sessions c @ [(i, next_session c)]" "dc_closed c' = dc_closed c" "dc_ticker c' = dc_ticker c"
    "if err = None then demux_ok env c' else demux_ok env (unregister (next_session c) i c')"
proof -
  let ?c = "admitted i k peer c" and ?s = "next_session c"
  have i: "i \<notin> fst ` set (sessions c)" using opn(2) by (simp add: map_of_eq_None_iff)
  have s: "?s \<notin> registered c" using ok by (auto simp: demux_ok_def)
  have reg: "registered ?c = insert ?s (registered c)" by (auto simp: admitted_def registered_def)
  have pre: "distinct (map fst (sessions ?c))" "distinct (map snd (sessions ?c))" "\<forall>j \<in> registered ?c. j < next_session ?c" "\<not> dc_closed ?c"
    using ok opn i s unfolding reg by (auto simp: demux_ok_def admitted_def registered_def)
  have all: "sessions c' = sessions ?c \<and> dc_closed c' = dc_closed ?c \<and> dc_ticker c' = dc_ticker ?c
    \<and> (if err = None then demux_ok env c' else demux_ok env (unregister ?s i c'))"
  proof (cases "discoEpochOf now \<noteq> dc_epoch ?c")
    case True
    then have "rebuildTagsLocked env ord now ?c = (err, c')" using a by (simp add: addTagsLocked_def)
    note r = rebuild_ok [OF ord this pre]
    have "map_of (sessions c') i = Some ?s" using r(2) opn(2) by (simp add: admitted_def map_add_def)
    then show ?thesis using r unregister_ok [OF r(1)] by simp
  next
    case False
    then have e: "discoEpochOf now = dc_epoch c" by (simp add: admitted_def)
    have same: "ds_tags (store ?c j) = ds_tags (store c j)" "ds_keys (store ?c j) = ds_keys (store c j)" if "j \<noteq> ?s" for j
      using that by (simp_all add: admitted_def)
    have new: "ds_tags (store ?c ?s) = []" "ds_keys (store ?c ?s) = k" by (simp_all add: admitted_def new_session_def)
    have fields: "sessions ?c = sessions c @ [(i, ?s)]" "byTag ?c = byTag c" "dc_epoch ?c = dc_epoch c" "dc_closed ?c = dc_closed c"
      "dc_ticker ?c = dc_ticker c" "next_session ?c = Suc ?s" by (simp_all add: admitted_def)
    show ?thesis
    proof (cases "RecvTags env k now")
      case (Inl e)
      have "AList.delete i (sessions ?c) = sessions c" using i by (simp add: fields delete_snoc)
      moreover have "j \<noteq> ?s" if "j \<in> registered c" for j using that s by auto
      ultimately have "demux_ok env (unregister ?s i ?c)"
        using new fields by (intro demux_ok_cong [OF ok]) (simp_all add: same unregister_def dropTagsLocked_def drop_tags_def)
      moreover have "err = Some e" "c' = ?c" using a False Inl by (auto simp: addTagsLocked_def new)
      ultimately show ?thesis by simp
    next
      case (Inr ts)
      have "err = None" "c' = upd ?s (\<lambda>x. x\<lparr>ds_tags := ts\<rparr>) (?c\<lparr>byTag := add_tags ?s ts (byTag ?c)\<rparr>)"
        using a False Inr by (auto simp: addTagsLocked_def new)
      moreover have "demux_ok env (upd ?s (\<lambda>x. x\<lparr>ds_tags := ts\<rparr>) (?c\<lparr>byTag := add_tags ?s ts (byTag ?c)\<rparr>))"
        using ok pre same new tags_of_RecvTags(1) [OF Inr] s unfolding demux_ok_def registered_def
        by (auto simp: fields e)
      ultimately show ?thesis by simp
    qed
  qed
  then show "sessions c' = sessions c @ [(i, ?s)]" "dc_closed c' = dc_closed c" "dc_ticker c' = dc_ticker c"
    "if err = None then demux_ok env c' else demux_ok env (unregister ?s i c')"
    by (simp_all add: admitted_def)
qed

lemma AddDiscoSession_ok:
  assumes ord: "\<And>xs. mset (ord xs) = mset xs" and ok: "demux_ok env c" and a: "AddDiscoSession env ord now i keys peer c = (r, c')"
  shows "demux_ok env c'" "dc_ticker c' = dc_ticker c" "(\<exists>s. r = Inr s) \<or> sync_live c' = sync_live c"
proof -
  have "demux_ok env c' \<and> dc_ticker c' = dc_ticker c \<and> ((\<exists>s. r = Inr s) \<or> sync_live c' = sync_live c)"
  proof (cases "c' = c")
    case False
    then obtain k where k: "keys = Some k" "\<not> dc_closed c" "map_of (sessions c) i = None"
      using a by (auto simp: AddDiscoSession_def Let_def split: if_splits option.splits)
    let ?p = "normaliseDiscoPeer peer"
    obtain err c1 where t: "addTagsLocked env ord (next_session c) now (admitted i k ?p c) = (err, c1)" by fastforce
    note ad = addTags_ok [OF ord ok k(2,3) t]
    have i: "i \<notin> fst ` set (sessions c)" using k(3) by (simp add: map_of_eq_None_iff)
    show ?thesis
    proof (cases err)
      case None
      then have "r = Inr (next_session c)" "c' = c1\<lparr>byPeer := (byPeer c1)(?p \<mapsto> appendDiscoPeer (bucket (byPeer c1) ?p) (next_session c))\<rparr>"
        using a False t k by (auto simp: AddDiscoSession_def admitted_def Let_def split: if_splits)
      then show ?thesis using ad None demux_ok_view [of env c1 c'] by simp
    next
      case (Some e)
      then have "c' = unregister (next_session c) i c1"
        using a False t k by (auto simp: AddDiscoSession_def admitted_def unregister_def Let_def split: if_splits)
      moreover have "AList.delete i (sessions c1) = sessions c" using i ad(1) by (simp add: delete_snoc)
      ultimately show ?thesis using ad Some by (simp add: sync_live_def unregister_def dropTagsLocked_def)
    qed
  qed (simp add: ok)
  then show "demux_ok env c'" "dc_ticker c' = dc_ticker c" "(\<exists>s. r = Inr s) \<or> sync_live c' = sync_live c" by simp_all
qed


section \<open>Goroutines side by side\<close>

text \<open>
  The code walks a bucket after it has released the lock of the index. A bucket is never written in place and the keys of a session never change, so which
  session takes a datagram is decided by the index at the lookup, and reception is one step here.
\<close>

text \<open>The connection, the calls of \<open>syncEpochTicker\<close> that have not read the table yet, and what the one that holds the lock has read.\<close>

record disco_system =
  conn :: DiscoPacketConn
  pending :: nat
  reader :: "bool option"

inductive disco_step :: "disco_env \<Rightarrow> disco_system \<Rightarrow> disco_system \<Rightarrow> bool" for env :: disco_env where
  Add: "\<lbrakk>\<And>xs. mset (ord xs) = mset xs; AddDiscoSession env ord now i keys peer (conn w) = (r, c')\<rbrakk>
    \<Longrightarrow> disco_step env w (w\<lparr>conn := c', pending := (case r of Inl _ \<Rightarrow> pending w | Inr _ \<Rightarrow> Suc (pending w))\<rparr>)"
| SetPeer: "disco_step env w (w\<lparr>conn := set_peer_locked s peer (conn w)\<rparr>)"
| Remove: "disco_step env w (w\<lparr>conn := RemoveDiscoSession i (conn w), pending := Suc (pending w)\<rparr>)"
| Close: "disco_step env w (w\<lparr>conn := disco_Close (conn w), pending := Suc (pending w)\<rparr>)"
| Refresh: "(\<And>xs. mset (ord xs) = mset xs) \<Longrightarrow> disco_step env w (w\<lparr>conn := refreshTags env ord now (conn w)\<rparr>)"
| Send: "disco_step env w (w\<lparr>conn := fst (snd (writeDisco env rnd sock now s to p padTo (conn w)))\<rparr>)"
| Quic: "disco_step env w (w\<lparr>conn := fst (disco_WriteTo now p addr (conn w))\<rparr>)"
| Receive: "disco_step env w (w\<lparr>conn := snd (disco_dispatch env now packet addr (conn w))\<rparr>)"
| SyncRead: "\<lbrakk>pending w = Suc n; reader w = None\<rbrakk> \<Longrightarrow> disco_step env w (w\<lparr>pending := n, reader := Some (sync_live (conn w))\<rparr>)"
| SyncAct: "reader w = Some live \<Longrightarrow> disco_step env w (w\<lparr>conn := sync_act live (conn w), reader := None\<rparr>)"

inductive disco_reachable :: "disco_env \<Rightarrow> disco_system \<Rightarrow> bool" for env :: disco_env where
  Start: "NewDiscoPacketConn sock buf = Inr c \<Longrightarrow> disco_reachable env \<lparr>conn = c, pending = 0, reader = None\<rparr>"
| Step: "\<lbrakk>disco_reachable env w; disco_step env w w'\<rbrakk> \<Longrightarrow> disco_reachable env w'"

text \<open>With nothing outstanding, what the holder of the lock has read is still true, and without a holder the ticker is right.\<close>

definition ticker_ok :: "disco_system \<Rightarrow> bool" where
  "ticker_ok w \<longleftrightarrow> (pending w = 0 \<longrightarrow> (case reader w of None \<Rightarrow> dc_ticker (conn w) = sync_live (conn w) | Some live \<Rightarrow> live = sync_live (conn w)))"

lemma ticker_ok_frame:
  assumes "ticker_ok w" and "dc_ticker c = dc_ticker (conn w)" and "sync_live c = sync_live (conn w)"
  shows "ticker_ok (w\<lparr>conn := c\<rparr>)"
  using assms by (simp add: ticker_ok_def split: option.splits)

lemma sync_live_view: "view c = view c' \<Longrightarrow> sync_live c = sync_live c'"
  using viewD [of c c'] by (simp add: sync_live_def)

lemma view_frame:
  assumes "demux_ok env (conn w)" and "ticker_ok w" and "view c = view (conn w)"
  shows "demux_ok env (conn (w\<lparr>conn := c\<rparr>)) \<and> ticker_ok (w\<lparr>conn := c\<rparr>)"
  using assms demux_ok_view [OF assms(1,3)] ticker_ok_frame [OF assms(2)] sync_live_view [OF assms(3)] viewD(5) [OF assms(3)] by simp

lemma disco_step_ok:
  assumes "disco_step env w w'" and "demux_ok env (conn w)" and "ticker_ok w"
  shows "demux_ok env (conn w') \<and> ticker_ok w'"
  using assms
proof cases
  case (Add ord now i keys peer r c')
  note a = AddDiscoSession_ok [OF Add(2) assms(2) Add(3)]
  show ?thesis
  proof (cases r)
    case (Inl e)
    then show ?thesis using a assms(3) by (simp add: Add(1) ticker_ok_def split: option.splits)
  next
    case (Inr s)
    then show ?thesis using a by (simp add: Add(1) ticker_ok_def)
  qed
next
  case (Remove i)
  then show ?thesis using RemoveDiscoSession_ok [OF assms(2)] by (simp add: ticker_ok_def)
next
  case Close
  then show ?thesis using disco_Close_ok by (simp add: ticker_ok_def)
next
  case (Refresh ord now)
  note r = refreshTags_ok [OF Refresh(2) assms(2)]
  then show ?thesis using ticker_ok_frame [OF assms(3)] by (simp add: Refresh(1) sync_live_def)
next
  case (SyncRead n)
  then show ?thesis using assms(2) by (simp add: ticker_ok_def)
next
  case (SyncAct live)
  then show ?thesis using assms(2,3) by (auto simp: ticker_ok_def sync_act_def sync_live_def demux_ok_def registered_def)
qed (use assms(2,3) view_frame in simp_all)

lemma disco_reachable_ok: "disco_reachable env w \<Longrightarrow> demux_ok env (conn w) \<and> ticker_ok w"
proof (induction rule: disco_reachable.induct)
  case (Start sock buf c)
  then show ?case
    by (auto simp: NewDiscoPacketConn_def demux_ok_def registered_def no_empty_def ticker_ok_def sync_live_def split: option.splits if_splits)
next
  case (Step w w')
  then show ?case using disco_step_ok by blast
qed

lemma dispatch_loop_takes:
  "fst (dispatch_loop env now frm packet ss c) \<longleftrightarrow> (\<exists>s \<in> set ss. decodeDiscoBody env packet (ds_keys (store c s)) now \<noteq> Inl ErrDiscoAuth)"
proof (induction ss arbitrary: c)
  case (Cons s ss)
  then show ?case by (auto split: sum.split prod.split bool.split)
qed simp


section \<open>The guarantees\<close>

text \<open>
  C36. The demultiplexer takes a datagram from QUIC exactly when it is a probe for one of its sessions. In every state that any interleaving of admissions,
  removals, path moves, epoch turns, sends, receptions and closing reaches, a datagram is taken if and only if it has a probe's length, comes from an
  internet address, carries a tag that some registered session expects in the previous, the current or the next epoch of the table, and authenticates under
  that session's key: no removed session keeps a tag, none that is registered loses one, and an old epoch's tags are gone.
\<close>

theorem demux_exact:
  assumes "disco_reachable env w"
  shows "fst (disco_dispatch env now packet addr (conn w)) \<longleftrightarrow>
    discoMinWire \<le> length packet \<and> length packet \<le> discoMaxWire \<and> addrToAddrPort addr \<noteq> None
    \<and> (\<exists>(i, s) \<in> set (sessions (conn w)). take discoTagLen packet \<in> set (tags_of env (dc_epoch (conn w)) (ds_keys (store (conn w) s)))
         \<and> decodeDiscoBody env packet (ds_keys (store (conn w) s)) now \<noteq> Inl ErrDiscoAuth)"
proof -
  let ?c = "conn w" and ?t = "take discoTagLen packet"
  have "demux_ok env ?c" using disco_reachable_ok [OF assms] by simp
  then have b: "s \<in> set (bucket (byTag ?c) ?t) \<longleftrightarrow> s \<in> snd ` set (sessions ?c) \<and> ?t \<in> set (tags_of env (dc_epoch ?c) (ds_keys (store ?c s)))" for s
    by (auto simp: demux_ok_def registered_def)
  show ?thesis
  proof (cases "bucket (byTag ?c) ?t = []")
    case True
    then show ?thesis using b by (force simp: disco_dispatch_def)
  next
    case False
    then show ?thesis using b by (force simp: disco_dispatch_def dispatch_loop_takes split: option.split)
  qed
qed

text \<open>A connection with one session, for a cipher that opens everything.\<close>

definition demux_env :: disco_env where "demux_env = example_env\<lparr>Unseal := (\<lambda>k n c ad. Some c)\<rparr>"

definition demux_keys :: DiscoKeys where
  "demux_keys = \<lparr>tagSend = make_bytes 32, tagRecv = make_bytes 32, seal_key = make_bytes 32, open_key = make_bytes 32, probe_key = make_bytes 32\<rparr>"

definition demux_conn :: DiscoPacketConn where
  "demux_conn = (case NewDiscoPacketConn (Some (Some ''salamander-v2'')) 0 of
     Inr c \<Rightarrow> snd (AddDiscoSession demux_env (\<lambda>ss. ss) (600 * Second) ''a'' (Some demux_keys) (IPv4 16843009, 443) c))"

lemma demux_start: "disco_reachable env \<lparr>conn = (case NewDiscoPacketConn (Some (Some ''salamander-v2'')) 0 of Inr c \<Rightarrow> c), pending = 0, reader = None\<rparr>"
  by (rule disco_reachable.Start [of "Some (Some ''salamander-v2'')" 0]) (simp add: NewDiscoPacketConn_def discoObfuscatorName_def)

lemma demux_added: "disco_reachable demux_env \<lparr>conn = demux_conn, pending = 1, reader = None\<rparr>"
proof -
  let ?c = "case NewDiscoPacketConn (Some (Some ''salamander-v2'')) 0 of Inr c \<Rightarrow> c"
  have "fst (AddDiscoSession demux_env (\<lambda>ss. ss) (600 * Second) ''a'' (Some demux_keys) (IPv4 16843009, 443) ?c) = Inr 0" by code_simp
  then have "AddDiscoSession demux_env (\<lambda>ss. ss) (600 * Second) ''a'' (Some demux_keys) (IPv4 16843009, 443) ?c = (Inr 0, demux_conn)"
    by (simp add: demux_conn_def NewDiscoPacketConn_def discoObfuscatorName_def prod_eq_iff)
  from disco_reachable.Step [OF demux_start disco_step.Add, of "\<lambda>ss. ss", simplified, OF this] show ?thesis by simp
qed

theorem demux_exact_witness:
  "disco_reachable demux_env \<lparr>conn = demux_conn, pending = 1, reader = None\<rparr>
   \<and> fst (disco_dispatch demux_env (600 * Second) (fill 8 (bytes_of (CtxDiscoEpoch @ ''/1'')) @ make_bytes 60) (Some (IPv4 1, 5)) demux_conn)"
proof -
  have "\<exists>(i, s) \<in> set (sessions demux_conn). take discoTagLen (fill 8 (bytes_of (CtxDiscoEpoch @ ''/1'')) @ make_bytes 60) \<in> set (tags_of demux_env (dc_epoch demux_conn) (ds_keys (store demux_conn s)))
         \<and> decodeDiscoBody demux_env (fill 8 (bytes_of (CtxDiscoEpoch @ ''/1'')) @ make_bytes 60) (ds_keys (store demux_conn s)) (600 * Second) \<noteq> Inl ErrDiscoAuth"
    by code_simp
  then show ?thesis
    using demux_added demux_exact [OF demux_added, of "600 * Second" "fill 8 (bytes_of (CtxDiscoEpoch @ ''/1'')) @ make_bytes 60" "Some (IPv4 1, 5)"]
    by (simp add: disco_consts discoMaxWire_def addrToAddrPort_def Addr_IsValid_def)
qed

text \<open>
  C37. The ticker that turns the epochs runs exactly while there is a session. Whatever calls admit, remove and close side by side, and although
  \<open>syncEpochTicker\<close> reads the table under one lock and acts on it under another, once no call of it is outstanding the ticker is running if and only if the
  connection is open and has a session; a closed connection has none, and its ticker has stopped for good.
\<close>

theorem ticker_matches_table:
  assumes "disco_reachable env w" and "pending w = 0" and "reader w = None"
  shows "dc_ticker (conn w) \<longleftrightarrow> \<not> dc_closed (conn w) \<and> sessions (conn w) \<noteq> []"
  using disco_reachable_ok [OF assms(1)] assms(2,3) by (simp add: ticker_ok_def sync_live_def)

theorem ticker_matches_table_witness:
  "disco_reachable demux_env \<lparr>conn = syncEpochTicker demux_conn, pending = 0, reader = None\<rparr> \<and> dc_ticker (syncEpochTicker demux_conn)"
proof -
  have "disco_reachable demux_env \<lparr>conn = demux_conn, pending = 0, reader = Some (sync_live demux_conn)\<rparr>"
    using disco_reachable.Step [OF demux_added disco_step.SyncRead [of _ 0]] by simp
  from disco_reachable.Step [OF this disco_step.SyncAct, of "sync_live demux_conn"]
  have r: "disco_reachable demux_env \<lparr>conn = syncEpochTicker demux_conn, pending = 0, reader = None\<rparr>" by (simp add: syncEpochTicker_def)
  moreover have "\<not> dc_closed (syncEpochTicker demux_conn) \<and> sessions (syncEpochTicker demux_conn) \<noteq> []" by code_simp
  ultimately show ?thesis using ticker_matches_table [OF r] by simp
qed


section \<open>A session that is moved while it is removed\<close>

text \<open>
  \<open>SetDiscoSessionPeer\<close> looks its session up before it takes the lock of the peer index. A removal that runs in between takes the session out of all
  tables, and the move then puts it back into the peer index, where nothing removes it again.
\<close>

lemma move_after_remove_leaks:
  assumes "demux_ok env c" and "map_of (sessions c) i = Some s" and "ds_peer (store c s) \<noteq> peer"
  shows "s \<notin> registered (set_peer_locked s peer (RemoveDiscoSession i c))" "s \<in> set (bucket (byPeer (set_peer_locked s peer (RemoveDiscoSession i c))) peer)"
proof -
  have "snd ` set (AList.delete i (sessions c)) = snd ` set (sessions c) - {s}"
    using registered_delete [of "sessions c" i s] assms by (simp add: demux_ok_def)
  moreover have "sessions (set_peer_locked s peer (RemoveDiscoSession i c)) = AList.delete i (sessions c)"
    using assms(2) by (simp add: set_peer_locked_def dropPeerLocked_def RemoveDiscoSession_def dropTagsLocked_def Let_def)
  ultimately show "s \<notin> registered (set_peer_locked s peer (RemoveDiscoSession i c))" by (simp add: registered_def)
  show "s \<in> set (bucket (byPeer (set_peer_locked s peer (RemoveDiscoSession i c))) peer)"
    using assms(2,3) by (simp add: set_peer_locked_def RemoveDiscoSession_def dropPeerLocked_def dropTagsLocked_def upd_def Let_def appendDiscoPeer_def)
qed

end
