(* ===== verification/Punch_Conn.thy ===== *)
theory Punch_Conn
  imports Punch_Engine
begin

text \<open>
  The socket hole punching shares with QUIC (\<open>extras/realm/punch_conn.go\<close>) and the punchers on top of it (\<open>extras/realm/puncher.go\<close>): punch packets
  are routed to the attempt they belong to, STUN responses to whoever discovers addresses, everything else to the reader above. An attempt is known by its
  identifier; its event channel is a list of at most \<open>eventBuffer\<close> events. The parser of STUN messages is third-party code, an argument.
\<close>

section \<open>Lengths\<close>

definition wireLenSamples :: nat where "wireLenSamples = 16"

record wireLenSampler =
  lens :: "u32 list"
  sample_count :: u64

definition newSampler :: wireLenSampler where "newSampler = \<lparr>lens = replicate wireLenSamples 0, sample_count = 0\<rparr>"

definition observe :: "nat \<Rightarrow> wireLenSampler \<Rightarrow> wireLenSampler" where
  "observe n s =
     (if n < punchMinWireLen \<or> n > punchMaxWireLen then s
      else let i = sample_count s in s\<lparr>sample_count := i + 1, lens := (lens s)[unat (i mod of_nat wireLenSamples) := of_nat n]\<rparr>)"

definition sample :: "bytes option \<Rightarrow> wireLenSampler \<Rightarrow> nat option" where
  "sample r s =
     (let filled = min (sample_count s) (of_nat wireLenSamples)
      in if filled = 0 then None
         else case randomUint r (unat filled) of
                Inl e \<Rightarrow> None
              | Inr i \<Rightarrow> let n = lens s ! i in if n = 0 then None else Some (unat n))"


section \<open>The connection\<close>

definition defaultPunchEventBuffer :: nat where "defaultPunchEventBuffer = 16"
definition pumpQueueSize :: nat where "pumpQueueSize = 32"

type_synonym net_addr = "(Addr \<times> int) option"

record punchAttempt =
  a_key :: punchKey
  a_events :: "PunchPacketEvent list"

record PunchPacketConn =
  eventBuffer :: nat
  c_mask :: PunchMask
  lengths :: wireLenSampler
  attempts :: "(string \<times> punchAttempt) list"
  byNonce :: "bytes \<rightharpoonup> string list"
  stun_events :: "AddrPort list"
  pump :: bool
  queue :: "(bytes \<times> net_addr) list"
  queued :: bool

definition NewPunchPacketConn :: "PunchMask \<Rightarrow> int \<Rightarrow> punch_error + PunchPacketConn" where
  "NewPunchPacketConn m buffer =
     (if \<not> mask_valid m then Inl ErrPunchMaskRequired
      else Inr \<lparr>eventBuffer = (if buffer \<le> 0 then defaultPunchEventBuffer else nat buffer), c_mask = m, lengths = newSampler, attempts = [],
                byNonce = (\<lambda>_. None), stun_events = [], pump = False, queue = [], queued = False\<rparr>)"

datatype attempt_error = ErrIdRequired | ErrDuplicateId | ErrAttemptKey punch_error

definition AddPunchAttempt :: "string \<Rightarrow> PunchMetadata \<Rightarrow> PunchPacketConn \<Rightarrow> attempt_error + PunchPacketConn" where
  "AddPunchAttempt i meta c =
     (if i = [] then Inl ErrIdRequired
      else case newPunchKey meta (c_mask c) of
             Inl e \<Rightarrow> Inl (ErrAttemptKey e)
           | Inr key \<Rightarrow>
               if map_of (attempts c) i \<noteq> None then Inl ErrDuplicateId
               else
                 let bucket = (case byNonce c (key_nonce key) of Some b \<Rightarrow> b | None \<Rightarrow> [])
                 in Inr (c\<lparr>attempts := attempts c @ [(i, \<lparr>a_key = key, a_events = []\<rparr>)], byNonce := (byNonce c)(key_nonce key \<mapsto> bucket @ [i])\<rparr>))"

definition RemovePunchAttempt :: "string \<Rightarrow> PunchPacketConn \<Rightarrow> PunchPacketConn" where
  "RemovePunchAttempt i c =
     (case map_of (attempts c) i of
        None \<Rightarrow> c
      | Some attempt \<Rightarrow>
          let n = key_nonce (a_key attempt);
              bucket = remove1 i (case byNonce c n of Some b \<Rightarrow> b | None \<Rightarrow> [])
          in c\<lparr>attempts := AList.delete i (attempts c), byNonce := (if bucket = [] then (byNonce c)(n := None) else (byNonce c)(n \<mapsto> bucket))\<rparr>)"

definition conn_WriteTo :: "bytes \<Rightarrow> PunchPacketConn \<Rightarrow> PunchPacketConn" where
  "conn_WriteTo p c = c\<lparr>lengths := observe (length p) (lengths c)\<rparr>"

text \<open>\<open>r\<close> and \<open>r'\<close> are the random bytes for a sample and for the fallback band.\<close>

definition sampleWireLen :: "bytes option \<Rightarrow> bytes option \<Rightarrow> int \<Rightarrow> PunchPacketConn \<Rightarrow> punch_error + nat" where
  "sampleWireLen r r' padTo c =
     (case sample r (lengths c) of
        Some n \<Rightarrow> Inr n
      | None \<Rightarrow> if validPunchWireLen padTo then Inr (nat padTo) else fallbackPunchWireLen r')"

text \<open>\<open>sendPunchPacket\<close>: the bytes put on the wire, on a shared socket (\<open>Some c\<close>) or an exclusive one.\<close>

definition sendPunchPacket :: "(bytes \<Rightarrow> bytes) \<Rightarrow> bytes option \<Rightarrow> bytes option \<Rightarrow> (nat \<Rightarrow> bytes option) \<Rightarrow> PunchPacketConn option \<Rightarrow> punchKey \<Rightarrow> PunchPacketType
    \<Rightarrow> int \<Rightarrow> bytes option" where
  "sendPunchPacket sha r r' rand demux key t padTo =
     (let wireLen = (case demux of
            Some c \<Rightarrow> sampleWireLen r r' padTo c
          | None \<Rightarrow> if validPunchWireLen padTo then Inr (nat padTo) else fallbackPunchWireLen r')
      in case wireLen of
           Inl e \<Rightarrow> None
         | Inr n \<Rightarrow> (case encodePunchPacket sha rand t key (int n) of Inl e \<Rightarrow> None | Inr packet \<Rightarrow> Some packet))"


section \<open>Routing\<close>

definition decodePunch :: "(bytes \<Rightarrow> bytes) \<Rightarrow> bytes \<Rightarrow> net_addr \<Rightarrow> PunchPacketConn \<Rightarrow> (string \<times> PunchPacketEvent) option" where
  "decodePunch sha packet from c =
     (if attempts c = [] then None
      else case unmaskPunchHeader sha packet (c_mask c) of
             Inl e \<Rightarrow> None
           | Inr header \<Rightarrow>
          (case addrToAddrPort from of
             None \<Rightarrow> None
           | Some fromAddr \<Rightarrow>
          (case byNonce c (ph_nonce header) of
             None \<Rightarrow> None
           | Some [] \<Rightarrow> None
           | Some (i # _) \<Rightarrow>
               Some (i, \<lparr>AttemptID = i, From = fromAddr, Packet = \<lparr>Type = packetType header, PaddingLength = length packet - punchMinWireLen\<rparr>\<rparr>))))"

definition emitPunch :: "string \<Rightarrow> PunchPacketEvent \<Rightarrow> PunchPacketConn \<Rightarrow> PunchPacketConn" where
  "emitPunch i ev c =
     c\<lparr>attempts := map (\<lambda>(j, a). (j, if j = i \<and> length (a_events a) < eventBuffer c then a\<lparr>a_events := a_events a @ [ev]\<rparr> else a)) (attempts c)\<rparr>"

definition emitSTUN :: "AddrPort \<Rightarrow> PunchPacketConn \<Rightarrow> PunchPacketConn" where
  "emitSTUN ev c = (if length (stun_events c) < eventBuffer c then c\<lparr>stun_events := stun_events c @ [ev]\<rparr> else c)"

text \<open>\<open>stun packet\<close> is the mapped address of a STUN binding success response.\<close>

definition dispatch :: "(bytes \<Rightarrow> bytes) \<Rightarrow> (bytes \<Rightarrow> AddrPort option) \<Rightarrow> bytes \<Rightarrow> net_addr \<Rightarrow> PunchPacketConn \<Rightarrow> PunchPacketConn \<times> bool" where
  "dispatch sha stun packet addr c =
     (case stun packet of
        Some ev \<Rightarrow> (emitSTUN ev c, True)
      | None \<Rightarrow> (case decodePunch sha packet addr c of Some (i, ev) \<Rightarrow> (emitPunch i ev c, True) | None \<Rightarrow> (c, False)))"

definition enqueue :: "bytes \<Rightarrow> net_addr \<Rightarrow> PunchPacketConn \<Rightarrow> PunchPacketConn" where
  "enqueue packet addr c = (if length (queue c) < pumpQueueSize then c\<lparr>queue := queue c @ [(packet, addr)], queued := True\<rparr> else c)"

definition StartPump :: "PunchPacketConn \<Rightarrow> PunchPacketConn" where "StartPump c = c\<lparr>pump := True\<rparr>"

definition StopPump :: "PunchPacketConn \<Rightarrow> PunchPacketConn" where
  "StopPump c = (if \<not> pump c then c else c\<lparr>queued := queue c \<noteq> [], pump := False\<rparr>)"

text \<open>One datagram read by the pump.\<close>

definition pump_read :: "(bytes \<Rightarrow> bytes) \<Rightarrow> (bytes \<Rightarrow> AddrPort option) \<Rightarrow> bytes \<Rightarrow> net_addr \<Rightarrow> PunchPacketConn \<Rightarrow> PunchPacketConn" where
  "pump_read sha stun packet addr c =
     (case dispatch sha stun packet addr c of (c, consumed) \<Rightarrow> if consumed then c else enqueue packet addr c)"

text \<open>
  A read by the layer above, given the datagrams the socket delivers: the packet handed up, or \<open>None\<close> where the reader still waits.
  While the pump runs it owns the socket, and the reader is served from the queue only.
\<close>

fun read_socket :: "(bytes \<Rightarrow> bytes) \<Rightarrow> (bytes \<Rightarrow> AddrPort option) \<Rightarrow> (bytes \<times> net_addr) list \<Rightarrow> PunchPacketConn
    \<Rightarrow> PunchPacketConn \<times> (bytes \<times> net_addr) option \<times> (bytes \<times> net_addr) list" where
  "read_socket sha stun [] c = (c, None, [])"
| "read_socket sha stun ((packet, addr) # rest) c =
     (case dispatch sha stun packet addr c of (c, consumed) \<Rightarrow> if consumed then read_socket sha stun rest c else (c, Some (packet, addr), rest))"

definition conn_ReadFrom :: "(bytes \<Rightarrow> bytes) \<Rightarrow> (bytes \<Rightarrow> AddrPort option) \<Rightarrow> nat \<Rightarrow> (bytes \<times> net_addr) list \<Rightarrow> PunchPacketConn
    \<Rightarrow> PunchPacketConn \<times> (bytes \<times> net_addr) option \<times> (bytes \<times> net_addr) list" where
  "conn_ReadFrom sha stun n arriving c =
     (case queue c of
        (packet, addr) # rest \<Rightarrow>
          if queued c \<or> pump c then (c\<lparr>queue := rest\<rparr>, Some (take n packet, addr), arriving)
          else (case read_socket sha stun arriving c of (c, got, left) \<Rightarrow> (c, map_option (map_prod (take n) id) got, left))
      | [] \<Rightarrow>
          let c = c\<lparr>queued := False\<rparr>
          in if pump c then (c, None, arriving)
             else (case read_socket sha stun arriving c of (c, got, left) \<Rightarrow> (c, map_option (map_prod (take n) id) got, left)))"


section \<open>Punchers\<close>

text \<open>
  \<open>Puncher.run\<close>: the outcome of an attempt with its registration on the socket around it. The loop's environment is the list of its turns, whose packets are
  the events the demux delivered; \<open>during\<close> is what else happens to the socket meanwhile.
\<close>

definition puncher_run :: "(nat \<Rightarrow> nat \<Rightarrow> nat) \<Rightarrow> string \<Rightarrow> AddrPort list \<Rightarrow> AddrPort list \<Rightarrow> PunchMetadata \<Rightarrow> PunchConfig \<Rightarrow> PunchSourcePolicy \<Rightarrow> Addr option
    \<Rightarrow> instant \<Rightarrow> turn list \<Rightarrow> (PunchPacketConn \<Rightarrow> PunchPacketConn) \<Rightarrow> PunchPacketConn \<Rightarrow> PunchPacketConn \<times> sent list \<times> (engine_error + attempt_error + PunchResult) option" where
  "puncher_run draws i localAddrs peerAddrs meta config fallback local now turns during c =
     (if i = [] then (c, [], Some (Inr (Inl ErrIdRequired)))
      else case newPunchPlan draws localAddrs peerAddrs meta (c_mask c) config fallback local of
             Inl e \<Rightarrow> (c, [], Some (Inl e))
           | Inr plan \<Rightarrow>
          (case AddPunchAttempt i meta c of
             Inl e \<Rightarrow> (c, [], Some (Inr (Inl e)))
           | Inr c' \<Rightarrow>
               (case runPunch plan now turns of (sent, out) \<Rightarrow>
                  (RemovePunchAttempt i (during c'), sent,
                   map_option (\<lambda>r. case r of Inl e \<Rightarrow> Inl e | Inr res \<Rightarrow> Inr (Inr res)) out))))"

definition Punch :: "(nat \<Rightarrow> nat \<Rightarrow> nat) \<Rightarrow> string \<Rightarrow> AddrPort list \<Rightarrow> AddrPort list \<Rightarrow> PunchMetadata \<Rightarrow> PunchConfig \<Rightarrow> Addr option
    \<Rightarrow> instant \<Rightarrow> turn list \<Rightarrow> (PunchPacketConn \<Rightarrow> PunchPacketConn) \<Rightarrow> PunchPacketConn \<Rightarrow> PunchPacketConn \<times> sent list \<times> (engine_error + attempt_error + PunchResult) option" where
  "Punch draws i localAddrs peerAddrs meta config local now turns during c =
     puncher_run draws i localAddrs peerAddrs meta config PunchSourceCandidates local now turns during c"

definition Respond :: "(nat \<Rightarrow> nat \<Rightarrow> nat) \<Rightarrow> string \<Rightarrow> AddrPort list \<Rightarrow> AddrPort list \<Rightarrow> PunchMetadata \<Rightarrow> PunchConfig \<Rightarrow> Addr option
    \<Rightarrow> instant \<Rightarrow> turn list \<Rightarrow> (PunchPacketConn \<Rightarrow> PunchPacketConn) \<Rightarrow> PunchPacketConn \<Rightarrow> PunchPacketConn \<times> sent list \<times> (engine_error + attempt_error + PunchResult) option" where
  "Respond draws i localAddrs peerAddrs meta config local now turns during c =
     puncher_run draws i localAddrs peerAddrs meta config PunchSourceAny local now turns during c"


section \<open>The state of the socket\<close>

text \<open>What can happen to the socket, in any order. An event that fails leaves it as it is.\<close>

datatype conn_event =
    Ev_add string PunchMetadata
  | Ev_remove string
  | Ev_take string
  | Ev_write bytes
  | Ev_start
  | Ev_stop
  | Ev_pump bytes net_addr
  | Ev_read nat "(bytes \<times> net_addr) list"

fun conn_step :: "(bytes \<Rightarrow> bytes) \<Rightarrow> (bytes \<Rightarrow> AddrPort option) \<Rightarrow> conn_event \<Rightarrow> PunchPacketConn \<Rightarrow> PunchPacketConn" where
  "conn_step sha stun (Ev_add i meta) c = (case AddPunchAttempt i meta c of Inl e \<Rightarrow> c | Inr c' \<Rightarrow> c')"
| "conn_step sha stun (Ev_remove i) c = RemovePunchAttempt i c"
| "conn_step sha stun (Ev_take i) c = c\<lparr>attempts := map (\<lambda>(j, a). (j, if j = i then a\<lparr>a_events := tl (a_events a)\<rparr> else a)) (attempts c)\<rparr>"
| "conn_step sha stun (Ev_write p) c = conn_WriteTo p c"
| "conn_step sha stun Ev_start c = StartPump c"
| "conn_step sha stun Ev_stop c = StopPump c"
| "conn_step sha stun (Ev_pump p a) c = pump_read sha stun p a c"
| "conn_step sha stun (Ev_read n ps) c = fst (conn_ReadFrom sha stun n ps c)"

definition with_nonce :: "bytes \<Rightarrow> (string \<times> punchAttempt) list \<Rightarrow> string list" where
  "with_nonce n as = map fst (filter (\<lambda>(i, a). key_nonce (a_key a) = n) as)"

definition bucket_of :: "string list \<Rightarrow> string list option" where
  "bucket_of ids = (if ids = [] then None else Some ids)"

definition conn_ok :: "PunchPacketConn \<Rightarrow> bool" where
  "conn_ok c \<longleftrightarrow> mask_valid (c_mask c) \<and> distinct (map fst (attempts c)) \<and> (\<forall>n. byNonce c n = bucket_of (with_nonce n (attempts c)))
     \<and> (\<forall>(i, a) \<in> set (attempts c). key_mask (a_key a) = c_mask c \<and> length (key_nonce (a_key a)) = 16 \<and> length (a_events a) \<le> eventBuffer c)
     \<and> length (stun_events c) \<le> eventBuffer c \<and> length (queue c) \<le> 32
     \<and> length (lens (lengths c)) = 16 \<and> (\<forall>n \<in> set (lens (lengths c)). n = 0 \<or> 33 \<le> unat n \<and> unat n \<le> 1484)"

lemma conn_okD:
  assumes "conn_ok c"
  shows "mask_valid (c_mask c)" "distinct (map fst (attempts c))" "\<And>n. byNonce c n = bucket_of (with_nonce n (attempts c))"
    "\<And>i a. (i, a) \<in> set (attempts c) \<Longrightarrow> key_mask (a_key a) = c_mask c \<and> length (key_nonce (a_key a)) = 16 \<and> length (a_events a) \<le> eventBuffer c"
    "length (stun_events c) \<le> eventBuffer c" "length (queue c) \<le> 32" "length (lens (lengths c)) = 16"
    "\<And>n. n \<in> set (lens (lengths c)) \<Longrightarrow> n = 0 \<or> 33 \<le> unat n \<and> unat n \<le> 1484"
  using assms by (auto simp: conn_ok_def)

lemma conn_okI:
  assumes "mask_valid (c_mask c)" and "distinct (map fst (attempts c))" and "\<And>n. byNonce c n = bucket_of (with_nonce n (attempts c))"
    and "\<And>i a. (i, a) \<in> set (attempts c) \<Longrightarrow> key_mask (a_key a) = c_mask c \<and> length (key_nonce (a_key a)) = 16 \<and> length (a_events a) \<le> eventBuffer c"
    and "length (stun_events c) \<le> eventBuffer c" and "length (queue c) \<le> 32" and "length (lens (lengths c)) = 16"
    and "\<And>n. n \<in> set (lens (lengths c)) \<Longrightarrow> n = 0 \<or> 33 \<le> unat n \<and> unat n \<le> 1484"
  shows "conn_ok c"
  using assms by (auto simp: conn_ok_def)

lemma new_conn_ok: "NewPunchPacketConn m buffer = Inr c \<Longrightarrow> conn_ok c"
  by (auto simp: NewPunchPacketConn_def conn_ok_def newSampler_def wireLenSamples_def with_nonce_def bucket_of_def split: if_splits)

lemma with_nonce_append: "with_nonce n (as @ bs) = with_nonce n as @ with_nonce n bs"
  by (simp add: with_nonce_def)

lemma with_nonce_events:
  assumes "\<And>j a. a_key (f j a) = a_key a"
  shows "with_nonce n (map (\<lambda>(j, a). (j, f j a)) as) = with_nonce n as"
proof (induction as)
  case (Cons x as)
  then show ?case by (cases x) (simp add: with_nonce_def assms)
qed (simp add: with_nonce_def)

lemma with_nonce_in: "i \<in> set (with_nonce n as) \<Longrightarrow> \<exists>a. (i, a) \<in> set as \<and> key_nonce (a_key a) = n"
  by (auto simp: with_nonce_def)

lemma with_nonce_delete:
  assumes "distinct (map fst as)" and "(i, a) \<in> set as"
  shows "with_nonce n (AList.delete i as) = (if key_nonce (a_key a) = n then remove1 i (with_nonce n as) else with_nonce n as)"
  using assms
proof (induction as)
  case (Cons x as)
  obtain j b where x: "x = (j, b)" by (cases x)
  have r: "i \<notin> set (with_nonce n as)" if "j = i" using Cons.prems(1) that with_nonce_in [of i n as] by (force simp: x)
  show ?case
  proof (cases "j = i")
    case True
    have "i \<notin> fst ` set as" using Cons.prems(1) True by (simp add: x)
    then have "b = a" "AList.delete i as = as" using Cons.prems(2) True by (force simp: x, simp add: delete_idem)
    then show ?thesis using True r by (simp add: x with_nonce_def remove1_idem)
  next
    case False
    then show ?thesis using Cons by (auto simp: x with_nonce_def)
  qed
qed simp

lemma add_attempt_ok:
  assumes ok: "conn_ok c" and add: "AddPunchAttempt i meta c = Inr c'"
  shows "conn_ok c'"
proof -
  from add obtain key where key: "newPunchKey meta (c_mask c) = Inr key" and new: "map_of (attempts c) i = None"
    and c': "c' = c\<lparr>attempts := attempts c @ [(i, \<lparr>a_key = key, a_events = []\<rparr>)],
      byNonce := (byNonce c)(key_nonce key \<mapsto> (case byNonce c (key_nonce key) of Some b \<Rightarrow> b | None \<Rightarrow> []) @ [i])\<rparr>"
    by (auto simp: AddPunchAttempt_def Let_def split: if_splits sum.splits)
  note k = newPunchKey_Inr [OF key] and o = conn_okD [OF ok]
  have fresh: "i \<notin> fst ` set (attempts c)" using new by (simp add: map_of_eq_None_iff)
  show ?thesis
  proof (rule conn_okI)
    show "distinct (map fst (attempts c'))" using o(2) fresh by (simp add: c')
    show "byNonce c' n = bucket_of (with_nonce n (attempts c'))" for n
      using o(3) by (simp add: c' with_nonce_append bucket_of_def) (simp add: with_nonce_def)
    show "key_mask (a_key a) = c_mask c' \<and> length (key_nonce (a_key a)) = 16 \<and> length (a_events a) \<le> eventBuffer c'"
      if "(j, a) \<in> set (attempts c')" for j a using that o(4) [of j a] k by (auto simp: c')
  qed (use o in \<open>simp_all add: c'\<close>)
qed

lemma remove_frame [simp]:
  "c_mask (RemovePunchAttempt i c) = c_mask c" "eventBuffer (RemovePunchAttempt i c) = eventBuffer c" "stun_events (RemovePunchAttempt i c) = stun_events c"
  "queue (RemovePunchAttempt i c) = queue c" "lengths (RemovePunchAttempt i c) = lengths c"
  "attempts (RemovePunchAttempt i c) = AList.delete i (attempts c)"
  by (simp_all add: RemovePunchAttempt_def Let_def map_of_eq_None_iff delete_idem split: option.split)

lemma remove_attempt_ok:
  assumes ok: "conn_ok c"
  shows "conn_ok (RemovePunchAttempt i c)"
proof (cases "map_of (attempts c) i")
  case (Some a)
  let ?c = "RemovePunchAttempt i c"
  note o = conn_okD [OF ok] and mem = map_of_SomeD [OF Some]
  show ?thesis
  proof (rule conn_okI)
    show "byNonce ?c n = bucket_of (with_nonce n (attempts ?c))" for n
      using with_nonce_delete [OF o(2) mem, of n] o(3) by (auto simp: RemovePunchAttempt_def Some bucket_of_def Let_def)
  qed (use o in auto)
qed (use ok in \<open>simp add: RemovePunchAttempt_def\<close>)


text \<open>Changing what is in the channels leaves the index right.\<close>

lemma events_ok:
  assumes ok: "conn_ok c" and key: "\<And>j a. a_key (f j a) = a_key a" and len: "\<And>j a. length (a_events a) \<le> eventBuffer c \<Longrightarrow> length (a_events (f j a)) \<le> eventBuffer c"
  shows "conn_ok (c\<lparr>attempts := map (\<lambda>(j, a). (j, f j a)) (attempts c)\<rparr>)" (is "conn_ok ?c")
proof (rule conn_okI)
  note o = conn_okD [OF ok]
  show "distinct (map fst (attempts ?c))" using o(2) by (simp add: o_def case_prod_beta)
  show "byNonce ?c n = bucket_of (with_nonce n (attempts ?c))" for n using o(3) with_nonce_events [of f, OF key] by simp
  show "key_mask (a_key b) = c_mask ?c \<and> length (key_nonce (a_key b)) = 16 \<and> length (a_events b) \<le> eventBuffer ?c" if "(j, b) \<in> set (attempts ?c)" for j b
  proof -
    from that obtain a where "(j, a) \<in> set (attempts c)" "b = f j a" by auto
    then show ?thesis using o(4) [of j a] key len by simp
  qed
qed (use conn_okD [OF ok] in simp_all)

lemma emit_ok: "conn_ok c \<Longrightarrow> conn_ok (emitPunch i ev c)"
  unfolding emitPunch_def by (rule events_ok) simp_all

lemma take_ok: "conn_ok c \<Longrightarrow> conn_ok (conn_step sha stun (Ev_take i) c)"
  unfolding conn_step.simps by (rule events_ok) auto

text \<open>The fields outside the attempts.\<close>

lemma other_ok:
  assumes "conn_ok c" and "length st \<le> eventBuffer c" and "length q \<le> 32" and "length (lens ls) = 16"
    and "\<And>n. n \<in> set (lens ls) \<Longrightarrow> n = 0 \<or> 33 \<le> unat n \<and> unat n \<le> 1484"
  shows "conn_ok (c\<lparr>stun_events := st, queue := q, lengths := ls, queued := qd, pump := pm\<rparr>)"
  by (rule conn_okI) (use conn_okD [OF assms(1)] assms(2-) in simp_all)

lemma dispatch_ok: "conn_ok c \<Longrightarrow> conn_ok (fst (dispatch sha stun packet addr c))"
  using other_ok [of c "stun_events c @ [ev]" "queue c" "lengths c" "pump c" "queued c" for ev] emit_ok conn_okD [of c]
  by (auto simp: dispatch_def emitSTUN_def split: option.splits)

lemma enqueue_ok: "conn_ok c \<Longrightarrow> conn_ok (enqueue packet addr c)"
  using other_ok [of c "stun_events c" "queue c @ [(packet, addr)]" "lengths c" "pump c" True] conn_okD [of c]
  by (auto simp: enqueue_def pumpQueueSize_def)

lemma read_socket_ok: "conn_ok c \<Longrightarrow> conn_ok (fst (read_socket sha stun ps c))"
proof (induction sha stun ps c rule: read_socket.induct)
  case (2 sha stun packet addr rest c)
  then show ?case using dispatch_ok [of c sha stun packet addr] by (auto split: prod.splits)
qed simp

lemma observe_ok:
  assumes "conn_ok c"
  shows "conn_ok (conn_WriteTo p c)"
proof -
  let ?s = "observe (length p) (lengths c)"
  have "length (lens ?s) = 16" "\<And>n. n \<in> set (lens ?s) \<Longrightarrow> n = 0 \<or> 33 \<le> unat n \<and> unat n \<le> 1484"
    using conn_okD(7,8) [OF assms] by (auto simp: observe_def punch_consts Let_def unat_of_nat take_bit_eq_mod dest!: subsetD [OF set_update_subset_insert] split: if_splits)
  then show ?thesis
    using other_ok [OF assms conn_okD(5,6) [OF assms], of ?s "pump c" "queued c"] by (simp add: conn_WriteTo_def)
qed

lemma conn_step_ok:
  assumes ok: "conn_ok c"
  shows "conn_ok (conn_step sha stun e c)"
proof (cases e)
  case (Ev_add i meta)
  then show ?thesis using add_attempt_ok [OF ok] ok by (auto split: sum.split)
next
  case (Ev_pump p a)
  then show ?thesis using dispatch_ok [OF ok, of sha stun p a] enqueue_ok by (auto simp: pump_read_def split: prod.splits)
next
  case (Ev_read n ps)
  have q: "conn_ok (c\<lparr>queue := q\<rparr>)" if "length q \<le> 32" for q
    using other_ok [OF ok conn_okD(5) [OF ok] that conn_okD(7,8) [OF ok], of "pump c" "queued c"] by simp
  have f: "conn_ok (c\<lparr>queued := False\<rparr>)"
    using other_ok [OF ok conn_okD(5,6) [OF ok] conn_okD(7,8) [OF ok], of "pump c" False] by simp
  have "conn_ok (fst (conn_ReadFrom sha stun n ps c))"
  proof (cases "queue c")
    case Nil
    then show ?thesis using f read_socket_ok [OF f, of sha stun ps] by (auto simp: conn_ReadFrom_def Let_def split: prod.splits)
  next
    case (Cons x xs)
    then have "length xs \<le> 32" using conn_okD(6) [OF ok] by simp
    then show ?thesis using q [of xs] Cons read_socket_ok [OF ok, of sha stun ps] by (auto simp: conn_ReadFrom_def split: prod.splits)
  qed
  then show ?thesis by (simp add: Ev_read)
next
  case Ev_start
  then show ?thesis using other_ok [OF ok conn_okD(5,6) [OF ok] conn_okD(7,8) [OF ok], of True "queued c"] by (simp add: StartPump_def)
next
  case Ev_stop
  then show ?thesis using other_ok [OF ok conn_okD(5,6) [OF ok] conn_okD(7,8) [OF ok], of False "queue c \<noteq> []"] ok by (simp add: StopPump_def)
qed (use remove_attempt_ok [OF ok] take_ok [OF ok] observe_ok [OF ok] in simp_all)


section \<open>The index is a search through the attempts\<close>

text \<open>
  The reference: try the packet on every attempt in the order they were registered, each with its own key, and take the first that accepts it.
\<close>

definition trial_decode :: "(bytes \<Rightarrow> bytes) \<Rightarrow> bytes \<Rightarrow> net_addr \<Rightarrow> PunchPacketConn \<Rightarrow> (string \<times> PunchPacketEvent) option" where
  "trial_decode sha packet from c =
     (case addrToAddrPort from of
        None \<Rightarrow> None
      | Some f \<Rightarrow>
          (case find (\<lambda>(i, a). \<exists>p. decodePunchPacket sha packet (a_key a) = Inr p) (attempts c) of
             None \<Rightarrow> None
           | Some (i, a) \<Rightarrow> (case decodePunchPacket sha packet (a_key a) of Inl e \<Rightarrow> None | Inr p \<Rightarrow> Some (i, \<lparr>AttemptID = i, From = f, Packet = p\<rparr>))))"

lemma find_with_nonce:
  "find (\<lambda>(i, a). key_nonce (a_key a) = n) as = None \<Longrightarrow> with_nonce n as = []"
  "find (\<lambda>(i, a). key_nonce (a_key a) = n) as = Some (i, a) \<Longrightarrow> \<exists>ids. with_nonce n as = i # ids"
proof (induction as)
  case (Cons x as)
  obtain j b where x: "x = (j, b)" by (cases x)
  {
    case 1
    then show ?case using Cons by (simp add: x with_nonce_def split: if_splits)
  next
    case 2
    then show ?case using Cons by (simp add: x with_nonce_def split: if_splits)
  }
qed (simp_all add: with_nonce_def)

lemma decodePunch_is_trial:
  assumes ok: "conn_ok c"
  shows "decodePunch sha packet src c = trial_decode sha packet src c"
proof (cases "unmaskPunchHeader sha packet (c_mask c)")
  case (Inl e)
  have "decodePunchPacket sha packet (a_key a) = Inl e" if "(i, a) \<in> set (attempts c)" for i a
    using conn_okD(4) [OF ok that] Inl by (simp add: decodePunchPacket_def)
  then have "find (\<lambda>(i, a). \<exists>p. decodePunchPacket sha packet (a_key a) = Inr p) (attempts c) = None"
    by (auto simp: find_None_iff)
  then show ?thesis using Inl by (simp add: decodePunch_def trial_decode_def split: option.split)
next
  case (Inr h)
  let ?p = "\<lparr>Type = packetType h, PaddingLength = length packet - punchMinWireLen\<rparr>"
  have d: "decodePunchPacket sha packet (a_key a) = (if ph_nonce h \<noteq> key_nonce (a_key a) then Inl errPunchNonceMismatch else Inr ?p)"
    if "(i, a) \<in> set (attempts c)" for i a using conn_okD(4) [OF ok that] Inr by (simp add: decodePunchPacket_def)
  have f: "find (\<lambda>(i, a). \<exists>p. decodePunchPacket sha packet (a_key a) = Inr p) (attempts c) = find (\<lambda>(i, a). key_nonce (a_key a) = ph_nonce h) (attempts c)"
    by (rule find_cong) (use d in \<open>auto split: if_splits\<close>)
  note b = conn_okD(3) [OF ok, of "ph_nonce h"]
  show ?thesis
  proof (cases "find (\<lambda>(i, a). key_nonce (a_key a) = ph_nonce h) (attempts c)")
    case None
    then have "byNonce c (ph_nonce h) = None" using find_with_nonce(1) [OF None] b by (simp add: bucket_of_def)
    then show ?thesis using Inr None f by (simp add: decodePunch_def trial_decode_def split: option.split)
  next
    case (Some x)
    obtain i a where x: "x = (i, a)" by (cases x)
    have mem: "(i, a) \<in> set (attempts c)" "key_nonce (a_key a) = ph_nonce h" using Some x by (auto simp: find_Some_iff in_set_conv_nth)
    obtain ids where "byNonce c (ph_nonce h) = Some (i # ids)" using find_with_nonce(2) [of "ph_nonce h" "attempts c" i a] b Some x by (auto simp: bucket_of_def)
    moreover have "attempts c \<noteq> []" using mem by auto
    ultimately show ?thesis using Inr Some x f d [OF mem(1)] mem(2) by (simp add: decodePunch_def trial_decode_def split: option.split)
  qed
qed

definition conn_run :: "(bytes \<Rightarrow> bytes) \<Rightarrow> (bytes \<Rightarrow> AddrPort option) \<Rightarrow> conn_event list \<Rightarrow> PunchPacketConn \<Rightarrow> PunchPacketConn" where
  "conn_run sha stun es c = fold (conn_step sha stun) es c"

lemma conn_run_ok: "conn_ok c \<Longrightarrow> conn_ok (conn_run sha stun es c)"
  unfolding conn_run_def by (induction es arbitrary: c) (simp_all add: conn_step_ok)


text \<open>An attempt, and a packet encoded for it by the other end.\<close>

lemma encoded_is_routed:
  assumes ok: "conn_ok c" and sha: "\<And>x. length (sha x) = 32" and a: "(i, a) \<in> set (attempts c)" and first: "hd (with_nonce (key_nonce (a_key a)) (attempts c)) = i"
    and enc: "encodePunchPacket sha rand t (a_key a) n = Inr packet" and src: "addrToAddrPort src = Some f"
  shows "trial_decode sha packet src c = Some (i, \<lparr>AttemptID = i, From = f, Packet = \<lparr>Type = t, PaddingLength = length packet - 33\<rparr>\<rparr>)"
proof -
  have k: "key_mask (a_key a) = c_mask c" "length (key_nonce (a_key a)) = 16" using conn_okD(4) [OF ok a] by simp_all
  note u = unmask_encoded [OF sha k(2) enc, unfolded k(1)]
  have "with_nonce (key_nonce (a_key a)) (attempts c) \<noteq> []" using a by (force simp: with_nonce_def filter_empty_conv)
  then obtain ids where "byNonce c (key_nonce (a_key a)) = Some (i # ids)"
    using conn_okD(3) [OF ok] first by (cases "with_nonce (key_nonce (a_key a)) (attempts c)") (auto simp: bucket_of_def)
  moreover have "attempts c \<noteq> []" using a by auto
  ultimately have "decodePunch sha packet src c = Some (i, \<lparr>AttemptID = i, From = f, Packet = \<lparr>Type = t, PaddingLength = length packet - 33\<rparr>\<rparr>)"
    using u(1) src by (simp add: decodePunch_def punch_consts)
  then show ?thesis using decodePunch_is_trial [OF ok] by simp
qed


end
