(* ===== verification/Pacer.thy ===== *)
theory Pacer
  imports Prelude
begin

text \<open>
  The token bucket that paces packets (\<open>core/internal/congestion/common/pacer.go\<close>). Byte counts, times and durations are signed 64-bit integers; the
  products that can overflow are wrapped as in the source by \<open>wrap64\<close>. The initial packet size and the minimal pacing delay are constants of the
  QUIC library, and \<open>getBandwidth\<close> is called anew by every operation: both are arguments. A division by zero is \<open>None\<close>.
\<close>

section \<open>Definitions\<close>

definition maxBurstPackets :: int where "maxBurstPackets = 10"
definition maxBurstPacingDelayMultiplier :: int where "maxBurstPacingDelayMultiplier = 2"

record Pacer =
  budgetAtLastSent :: int
  p_maxDatagramSize :: int
  lastSentTime :: instant

definition NewPacer :: "int \<Rightarrow> Pacer" where
  "NewPacer initialPacketSize = \<lparr>budgetAtLastSent = maxBurstPackets * initialPacketSize, p_maxDatagramSize = initialPacketSize, lastSentTime = 0\<rparr>"

definition maxBurstSize :: "duration \<Rightarrow> int \<Rightarrow> Pacer \<Rightarrow> int" where
  "maxBurstSize minDelay bw p =
     max (go_div (wrap64 (maxBurstPacingDelayMultiplier * minDelay * bw)) Second) (maxBurstPackets * p_maxDatagramSize p)"

definition Budget :: "duration \<Rightarrow> int \<Rightarrow> instant \<Rightarrow> Pacer \<Rightarrow> int" where
  "Budget minDelay bw now p =
     (if lastSentTime p = 0 then maxBurstSize minDelay bw p
      else
        let budget = wrap64 (budgetAtLastSent p + go_div (wrap64 (bw * (now - lastSentTime p))) Second);
            budget = (if budget < 0 then 2 ^ 62 - 1 else budget)
        in min (maxBurstSize minDelay bw p) budget)"

definition SentPacket :: "duration \<Rightarrow> int \<Rightarrow> instant \<Rightarrow> int \<Rightarrow> Pacer \<Rightarrow> Pacer" where
  "SentPacket minDelay bw sendTime n p =
     (let budget = Budget minDelay bw sendTime p
      in p\<lparr>budgetAtLastSent := (if n > budget then 0 else budget - n), lastSentTime := sendTime\<rparr>)"

definition TimeUntilSend :: "duration \<Rightarrow> int \<Rightarrow> Pacer \<Rightarrow> instant option" where
  "TimeUntilSend minDelay bw p =
     (if budgetAtLastSent p \<ge> p_maxDatagramSize p then Some 0
      else
        let diff = (1000000000 * word_of_int (p_maxDatagramSize p - budgetAtLastSent p)) :: u64;
            bw = (word_of_int bw :: u64)
        in if bw = 0 then None
           else let d = diff div bw; d = (if diff mod bw > 0 then d + 1 else d)
                in Some (lastSentTime p + max minDelay (sint d)))"

definition p_SetMaxDatagramSize :: "int \<Rightarrow> Pacer \<Rightarrow> Pacer" where "p_SetMaxDatagramSize s p = p\<lparr>p_maxDatagramSize := s\<rparr>"

definition p_Reset :: "Pacer \<Rightarrow> Pacer" where "p_Reset p = p\<lparr>budgetAtLastSent := 0\<rparr>"


section \<open>What a budget can be\<close>

lemma go_div_neg: "a < 0 \<Longrightarrow> 0 < n \<Longrightarrow> go_div a n = - (- a div n)"
  by (simp add: go_div_def)

text \<open>Where the arithmetic of the burst size does not overflow; at a minimal delay of 1 ms this allows 4.6 TB/s.\<close>

definition pacer_fits :: "duration \<Rightarrow> int \<Rightarrow> Pacer \<Rightarrow> bool" where
  "pacer_fits minDelay bw p \<longleftrightarrow> 0 \<le> minDelay \<and> 0 \<le> bw \<and> 2 * minDelay * bw < 2 ^ 63 \<and> 0 \<le> p_maxDatagramSize p \<and> p_maxDatagramSize p \<le> 65536
     \<and> 0 \<le> budgetAtLastSent p \<and> budgetAtLastSent p \<le> 9223372036"

lemma maxBurst_bounds:
  assumes "pacer_fits minDelay bw p"
  shows "0 \<le> maxBurstSize minDelay bw p" "maxBurstSize minDelay bw p \<le> 9223372036"
    "maxBurstSize minDelay bw p = max (2 * minDelay * bw div Second) (10 * p_maxDatagramSize p)"
proof -
  have r: "0 \<le> 2 * minDelay * bw" "2 * minDelay * bw < 2 ^ 63" using assms by (simp_all add: pacer_fits_def)
  then have "wrap64 (2 * minDelay * bw) = 2 * minDelay * bw" by (simp add: wrap64_id)
  then show e: "maxBurstSize minDelay bw p = max (2 * minDelay * bw div Second) (10 * p_maxDatagramSize p)"
    using r by (simp add: maxBurstSize_def maxBurstPacingDelayMultiplier_def maxBurstPackets_def)
  have "z div Second \<le> (2 ^ 63 - 1) div Second" if "z < 2 ^ 63" for z using that by (intro zdiv_mono1) simp_all
  note this [OF r(2)]
  then have "2 * minDelay * bw div Second \<le> 9223372036" by simp
  moreover have "0 \<le> 2 * minDelay * bw div Second" using r by (simp add: pos_imp_zdiv_nonneg_iff)
  ultimately show "0 \<le> maxBurstSize minDelay bw p" "maxBurstSize minDelay bw p \<le> 9223372036"
    using assms by (simp_all add: e pacer_fits_def)
qed

lemma Budget_bounds:
  assumes fits: "pacer_fits minDelay bw p" and t: "lastSentTime p \<le> now"
  shows "0 \<le> Budget minDelay bw now p" "Budget minDelay bw now p \<le> maxBurstSize minDelay bw p"
    "lastSentTime p \<noteq> 0 \<Longrightarrow> Budget minDelay bw now p \<le> budgetAtLastSent p + bw * (now - lastSentTime p) div Second"
proof -
  define x where "x = bw * (now - lastSentTime p)"
  define y where "y = go_div (wrap64 x) Second"
  have x0: "0 \<le> x" using fits t by (simp add: x_def pacer_fits_def)
  have y: "\<bar>y\<bar> \<le> 9223372036"
  proof (cases "wrap64 x < 0")
    case True
    then have "y = - (- wrap64 x div Second)" by (simp add: y_def go_div_neg)
    moreover have "- wrap64 x div Second \<le> 2 ^ 63 div Second" using wrap64_range(1) [of x] by (intro zdiv_mono1) simp_all
    moreover have "0 \<le> - wrap64 x div Second" using True by (simp add: pos_imp_zdiv_nonneg_iff)
    ultimately show ?thesis by simp
  next
    case False
    then have "y = wrap64 x div Second" by (simp add: y_def)
    moreover have "wrap64 x div Second \<le> 2 ^ 63 div Second" using wrap64_range(2) [of x] by (intro zdiv_mono1) simp_all
    moreover have "0 \<le> wrap64 x div Second" using False by (simp add: pos_imp_zdiv_nonneg_iff)
    ultimately show ?thesis by simp
  qed
  have b: "0 \<le> budgetAtLastSent p" "budgetAtLastSent p \<le> 9223372036" using fits by (simp_all add: pacer_fits_def)
  have w: "wrap64 (budgetAtLastSent p + y) = budgetAtLastSent p + y" using y b by (intro wrap64_id; simp; linarith)
  have e: "Budget minDelay bw now p = (if lastSentTime p = 0 then maxBurstSize minDelay bw p
      else min (maxBurstSize minDelay bw p) (if budgetAtLastSent p + y < 0 then 2 ^ 62 - 1 else budgetAtLastSent p + y))"
    unfolding Budget_def x_def [symmetric] y_def [symmetric] w Let_def by (rule refl)
  note m = maxBurst_bounds [OF fits]
  show "0 \<le> Budget minDelay bw now p" "Budget minDelay bw now p \<le> maxBurstSize minDelay bw p"
    using m(1) by (auto simp: e)
  show "Budget minDelay bw now p \<le> budgetAtLastSent p + bw * (now - lastSentTime p) div Second" if "lastSentTime p \<noteq> 0"
  proof (cases "budgetAtLastSent p + y < 0")
    case True
    then have "y < 0" using b by simp
    then have "wrap64 x < 0" by (cases "wrap64 x < 0") (auto simp: y_def pos_imp_zdiv_neg_iff)
    then have "2 ^ 63 \<le> x" using wrap64_id [of x] x0 by (cases "x < 2 ^ 63") auto
    then have "2 ^ 63 div Second \<le> x div Second" by (intro zdiv_mono1) simp_all
    then have "9223372036 \<le> x div Second" by simp
    moreover have "Budget minDelay bw now p \<le> 9223372036" using m(2) by (auto simp: e)
    ultimately show ?thesis using b x_def by simp
  next
    case False
    have "y \<le> x div Second"
    proof (cases "wrap64 x < 0")
      case True
      then have "y \<le> 0" by (simp add: y_def go_div_neg pos_imp_zdiv_nonneg_iff)
      then show ?thesis using x0 by (simp add: order_trans [of _ 0] pos_imp_zdiv_nonneg_iff)
    next
      case False
      then show ?thesis using wrap64_le [OF x0] by (simp add: y_def zdiv_mono1)
    qed
    then show ?thesis using that False by (simp add: e x_def)
  qed
qed

lemma SentPacket_fits:
  assumes "pacer_fits minDelay bw p" and "lastSentTime p \<le> now" and "0 \<le> n"
  shows "pacer_fits minDelay bw (SentPacket minDelay bw now n p)"
  using assms Budget_bounds(1,2) [OF assms(1,2)] maxBurst_bounds(2) [OF assms(1)]
  by (auto simp: SentPacket_def pacer_fits_def Let_def)


section \<open>Conformance\<close>

text \<open>
  A sequence of packets, each with its time, its size and the bandwidth in force, that were sent when the budget allowed it.
\<close>

fun admitted :: "duration \<Rightarrow> (instant \<times> int \<times> int) list \<Rightarrow> Pacer \<Rightarrow> bool" where
  "admitted d [] p \<longleftrightarrow> True"
| "admitted d ((t, n, bw) # xs) p \<longleftrightarrow>
     0 < t \<and> lastSentTime p \<le> t \<and> 0 \<le> n \<and> n \<le> Budget d bw t p \<and> admitted d xs (SentPacket d bw t n p)"

definition sent_bytes :: "(instant \<times> int \<times> int) list \<Rightarrow> int" where
  "sent_bytes xs = sum_list (map (\<lambda>(_, n, _). n) xs)"

lemma fits_less:
  assumes "pacer_fits d B p" and "0 \<le> bw" and "bw \<le> B"
  shows "pacer_fits d bw p"
proof -
  have "2 * d * bw \<le> 2 * d * B" using assms by (intro mult_left_mono) (simp_all add: pacer_fits_def)
  then show ?thesis using assms unfolding pacer_fits_def by linarith
qed

lemma maxBurst_mono:
  assumes "pacer_fits d B p" and "0 \<le> bw" and "bw \<le> B"
  shows "maxBurstSize d bw p \<le> maxBurstSize d B p"
proof -
  have "2 * d * bw \<le> 2 * d * B" using assms by (intro mult_left_mono) (simp_all add: pacer_fits_def)
  then have "2 * d * bw div Second \<le> 2 * d * B div Second" by (intro zdiv_mono1) simp_all
  then show ?thesis using maxBurst_bounds(3) [OF assms(1)] maxBurst_bounds(3) [OF fits_less [OF assms]] by simp
qed

text \<open>One admitted packet costs what the time since the last one has earned.\<close>

lemma admitted_step:
  assumes fits: "pacer_fits d B p" and bw: "0 \<le> bw" "bw \<le> B" and t: "0 < t" "lastSentTime p \<le> t" and n: "0 \<le> n" "n \<le> Budget d bw t p"
  shows "pacer_fits d B (SentPacket d bw t n p)" "lastSentTime (SentPacket d bw t n p) = t"
    "n + budgetAtLastSent (SentPacket d bw t n p) \<le> maxBurstSize d B p"
    "lastSentTime p \<noteq> 0 \<Longrightarrow>
      Second * (n + budgetAtLastSent (SentPacket d bw t n p)) \<le> Second * budgetAtLastSent p + B * (t - lastSentTime p)"
proof -
  note fb = fits_less [OF fits bw]
  note b = Budget_bounds [OF fb t(2)]
  have s: "budgetAtLastSent (SentPacket d bw t n p) = Budget d bw t p - n" "p_maxDatagramSize (SentPacket d bw t n p) = p_maxDatagramSize p"
    using n by (simp_all add: SentPacket_def Let_def)
  show "pacer_fits d B (SentPacket d bw t n p)"
    using fits SentPacket_fits [OF fb t(2) n(1)] by (simp add: pacer_fits_def s(2))
  show "lastSentTime (SentPacket d bw t n p) = t" by (simp add: SentPacket_def Let_def)
  show "n + budgetAtLastSent (SentPacket d bw t n p) \<le> maxBurstSize d B p" using b(2) maxBurst_mono [OF fits bw] by (simp add: s)
  show "Second * (n + budgetAtLastSent (SentPacket d bw t n p)) \<le> Second * budgetAtLastSent p + B * (t - lastSentTime p)" if "lastSentTime p \<noteq> 0"
  proof -
    have "Second * (bw * (t - lastSentTime p) div Second) \<le> bw * (t - lastSentTime p)"
      using pos_mod_sign [of Second "bw * (t - lastSentTime p)"] mult_div_mod_eq [of Second "bw * (t - lastSentTime p)"] by simp
    moreover have "bw * (t - lastSentTime p) \<le> B * (t - lastSentTime p)" using bw t by (intro mult_right_mono) simp_all
    ultimately show ?thesis using b(3) [OF that] s(1) by simp
  qed
qed

lemma admitted_bound:
  assumes "pacer_fits d B p" and "admitted d xs p" and "list_all (\<lambda>(_, _, bw). 0 \<le> bw \<and> bw \<le> B) xs" and "lastSentTime p \<noteq> 0" and "xs \<noteq> []"
  shows "Second * sent_bytes xs \<le> Second * budgetAtLastSent p + B * (fst (last xs) - lastSentTime p)"
  using assms
proof (induction xs arbitrary: p)
  case (Cons x xs)
  obtain t n bw where x: "x = (t, n, bw)" by (cases x)
  let ?p = "SentPacket d bw t n p"
  have "0 \<le> bw" "bw \<le> B" "0 < t" "lastSentTime p \<le> t" "0 \<le> n" "n \<le> Budget d bw t p" and rest: "admitted d xs ?p"
    using Cons.prems(2,3) by (simp_all add: x)
  note st = admitted_step [OF Cons.prems(1) this(1-6)]
  have s: "Second * (n + budgetAtLastSent ?p) \<le> Second * budgetAtLastSent p + B * (t - lastSentTime p)" using st(4) Cons.prems(4) .
  show ?case
  proof (cases "xs = []")
    case True
    then show ?thesis using s st(1) by (simp add: x sent_bytes_def pacer_fits_def)
  next
    case False
    have "Second * sent_bytes xs \<le> Second * budgetAtLastSent ?p + B * (fst (last xs) - t)"
      using Cons.IH [OF st(1) rest] Cons.prems(3) False st(2) \<open>0 < t\<close> by simp
    then show ?thesis using s False by (simp add: x sent_bytes_def algebra_simps)
  qed
qed simp

text \<open>The bytes admitted from any moment on: one burst, and what the bandwidth earns in the time they take.\<close>

lemma pacer_conformance:
  assumes fits: "pacer_fits d B p" and adm: "admitted d xs p" and bw: "list_all (\<lambda>(_, _, bw). 0 \<le> bw \<and> bw \<le> B) xs" and ne: "xs \<noteq> []"
  shows "Second * sent_bytes xs \<le> Second * maxBurstSize d B p + B * (fst (last xs) - fst (hd xs))"
proof -
  obtain t n bw ys where xs: "xs = (t, n, bw) # ys" using ne by (cases xs) auto
  let ?p = "SentPacket d bw t n p"
  have "0 \<le> bw" "bw \<le> B" "0 < t" "lastSentTime p \<le> t" "0 \<le> n" "n \<le> Budget d bw t p" and rest: "admitted d ys ?p"
    using adm bw by (simp_all add: xs)
  note st = admitted_step [OF fits this(1-6)]
  show ?thesis
  proof (cases "ys = []")
    case True
    then show ?thesis using st(1,3) by (simp add: xs sent_bytes_def pacer_fits_def)
  next
    case False
    have "Second * sent_bytes ys \<le> Second * budgetAtLastSent ?p + B * (fst (last ys) - t)"
      using admitted_bound [OF st(1) rest _ _ False] bw st(2) \<open>0 < t\<close> by (simp add: xs)
    then show ?thesis using st(3) False by (simp add: xs sent_bytes_def algebra_simps)
  qed
qed


section \<open>Waking up\<close>

lemma Budget_no_overflow:
  assumes fits: "pacer_fits d bw p" and t: "lastSentTime p \<le> now" and o: "bw * (now - lastSentTime p) < 2 ^ 63" and l: "lastSentTime p \<noteq> 0"
  shows "Budget d bw now p = min (maxBurstSize d bw p) (budgetAtLastSent p + bw * (now - lastSentTime p) div Second)"
proof -
  have x0: "0 \<le> bw * (now - lastSentTime p)" using fits t by (simp add: pacer_fits_def)
  then have w: "wrap64 (bw * (now - lastSentTime p)) = bw * (now - lastSentTime p)" using o by (simp add: wrap64_id)
  have y: "0 \<le> bw * (now - lastSentTime p) div Second" using x0 by (simp add: pos_imp_zdiv_nonneg_iff)
  have "bw * (now - lastSentTime p) div Second \<le> 2 ^ 63 div Second" using o by (intro zdiv_mono1) simp_all
  then have "budgetAtLastSent p + bw * (now - lastSentTime p) div Second < 2 ^ 63" "0 \<le> budgetAtLastSent p + bw * (now - lastSentTime p) div Second"
    using fits y unfolding pacer_fits_def by simp_all
  then show ?thesis using l w x0 by (simp add: Budget_def wrap64_id Let_def)
qed


definition ceil_div :: "int \<Rightarrow> int \<Rightarrow> int" where
  "ceil_div a b = a div b + (if a mod b > 0 then 1 else 0)"

lemma ceil_div_mult:
  assumes "0 < b"
  shows "a \<le> b * ceil_div a b"
proof -
  have "a mod b \<le> (if a mod b > 0 then b else 0)" using pos_mod_bound [OF assms, of a] by (simp add: less_imp_le)
  moreover have "b * (a div b) + a mod b = a" by simp
  moreover have "b * ceil_div a b = b * (a div b) + (if a mod b > 0 then b else 0)" by (simp add: ceil_div_def distrib_left)
  ultimately show ?thesis by linarith
qed

lemma TimeUntilSend_value:
  assumes fits: "pacer_fits d bw p" and bw: "0 < bw" "bw < 2 ^ 63"
  shows "TimeUntilSend d bw p = (if budgetAtLastSent p \<ge> p_maxDatagramSize p then Some 0
    else Some (lastSentTime p + max d (ceil_div (Second * (p_maxDatagramSize p - budgetAtLastSent p)) bw)))"
proof (cases "budgetAtLastSent p \<ge> p_maxDatagramSize p")
  case False
  define k where "k = p_maxDatagramSize p - budgetAtLastSent p"
  have k: "0 < k" "k \<le> 65536" using False fits unfolding k_def pacer_fits_def by linarith+
  have uk: "uint (1000000000 * word_of_int k :: u64) = Second * k"
    using k by (simp add: uint_word_ariths uint_word_of_int take_bit_eq_mod)
  have ub: "uint (word_of_int bw :: u64) = bw" using bw by (simp add: uint_word_of_int take_bit_eq_mod)
  let ?diff = "1000000000 * word_of_int k :: u64" and ?bw = "word_of_int bw :: u64"
  have nz: "?bw \<noteq> 0" using ub bw by (metis less_irrefl uint_0_iff)
  have ud: "uint (?diff div ?bw) = Second * k div bw" "uint (?diff mod ?bw) = Second * k mod bw" by (simp_all only: uint_div uint_mod uk ub)
  have le: "Second * k div bw \<le> 65536000000000"
  proof -
    have "Second * k div bw \<le> Second * k" using k bw div_le_dividend [of "nat (Second * k)" "nat bw"] by (simp add: nat_div_distrib [symmetric] nat_le_eq_zle)
    then show ?thesis using k by simp
  qed
  have ge: "0 \<le> Second * k div bw" using k bw by (simp add: pos_imp_zdiv_nonneg_iff)
  define q where "q = (if ?diff mod ?bw > 0 then ?diff div ?bw + 1 else ?diff div ?bw)"
  have "uint q = ceil_div (Second * k) bw"
    using le ge by (auto simp: q_def ceil_div_def word_less_def ud uint_word_ariths ud(1) mod_pos_pos_trivial)
  moreover have "sint q = uint q" if "uint q < 2 ^ 63"
    unfolding sint_uint using that by (intro signed_take_bit_int_eq_self) (simp_all add: order_trans [of _ 0])
  moreover have "ceil_div (Second * k) bw < 2 ^ 63" using le by (auto simp: ceil_div_def)
  ultimately have "sint q = ceil_div (Second * k) bw" by simp
  then show ?thesis using False nz by (simp add: TimeUntilSend_def k_def [symmetric] q_def [symmetric] Let_def del: time_units)
qed (simp add: TimeUntilSend_def)

text \<open>
  C28. The pacer wakes up in time: with a positive bandwidth it always names a time for the next packet, and from that time on the budget covers a full
  datagram, as long as the product of bandwidth and idle time fits 64 bits.
\<close>

theorem pacer_wakes:
  assumes "pacer_fits d bw p" and "0 < bw" and "bw < 2 ^ 63"
  shows "\<exists>t. TimeUntilSend d bw p = Some t
    \<and> (\<forall>now. t \<le> now \<and> lastSentTime p \<le> now \<and> bw * (now - lastSentTime p) < 2 ^ 63 \<longrightarrow> p_maxDatagramSize p \<le> Budget d bw now p)"
proof -
  let ?t = "if budgetAtLastSent p \<ge> p_maxDatagramSize p then 0
    else lastSentTime p + max d (ceil_div (Second * (p_maxDatagramSize p - budgetAtLastSent p)) bw)"
  have burst: "p_maxDatagramSize p \<le> maxBurstSize d bw p" using maxBurst_bounds(3) [OF assms(1)] assms(1) unfolding pacer_fits_def by linarith
  have "p_maxDatagramSize p \<le> Budget d bw now p" if now: "?t \<le> now" "lastSentTime p \<le> now" "bw * (now - lastSentTime p) < 2 ^ 63" for now
  proof (cases "lastSentTime p = 0")
    case True
    then show ?thesis using burst by (simp add: Budget_def)
  next
    case False
    have e: "Budget d bw now p = min (maxBurstSize d bw p) (budgetAtLastSent p + bw * (now - lastSentTime p) div Second)"
      by (rule Budget_no_overflow [OF assms(1) now(2,3) False])
    have y: "0 \<le> bw * (now - lastSentTime p) div Second" using assms(2) now(2) by (simp add: pos_imp_zdiv_nonneg_iff)
    show ?thesis
    proof (cases "budgetAtLastSent p \<ge> p_maxDatagramSize p")
      case True
      then show ?thesis using e burst y by simp
    next
      case False
      let ?k = "Second * (p_maxDatagramSize p - budgetAtLastSent p)"
      have "ceil_div ?k bw \<le> now - lastSentTime p" using now(1) False by simp
      then have "bw * ceil_div ?k bw \<le> bw * (now - lastSentTime p)" using assms(2) by (simp only: mult_le_cancel_left_pos)
      then have "?k \<le> bw * (now - lastSentTime p)" using ceil_div_mult [OF assms(2), of ?k] by linarith
      then have "?k div Second \<le> bw * (now - lastSentTime p) div Second" by (intro zdiv_mono1) simp_all
      then show ?thesis using e burst by simp
    qed
  qed
  then show ?thesis using TimeUntilSend_value [OF assms] by (intro exI [of _ ?t]) auto
qed

theorem pacer_wakes_witness:
  "let p = SentPacket 1000000 2000 5 12800 (NewPacer 1280)
   in \<exists>t. TimeUntilSend 1000000 2000 p = Some t \<and> p_maxDatagramSize p \<le> Budget 1000000 2000 (max t 640000005) p"
proof -
  define p where "p = SentPacket 1000000 2000 5 12800 (NewPacer 1280)"
  have p: "p = \<lparr>budgetAtLastSent = 0, p_maxDatagramSize = 1280, lastSentTime = 5\<rparr>"
    by (simp add: p_def SentPacket_def NewPacer_def Budget_def maxBurstSize_def maxBurstPackets_def maxBurstPacingDelayMultiplier_def wrap64_def)
  have "pacer_fits 1000000 2000 p" by (simp add: p pacer_fits_def)
  then obtain t where t: "TimeUntilSend 1000000 2000 p = Some t" "\<And>now. t \<le> now \<Longrightarrow> 5 \<le> now \<Longrightarrow> 2000 * (now - 5) < 2 ^ 63 \<Longrightarrow>
      p_maxDatagramSize p \<le> Budget 1000000 2000 now p"
    using pacer_wakes [of 1000000 2000 p] by (auto simp: p)
  have "t = 640000005" using t(1) TimeUntilSend_value [OF \<open>pacer_fits 1000000 2000 p\<close>] by (simp add: p ceil_div_def)
  then show ?thesis unfolding Let_def p_def [symmetric] using t by simp
qed

end
