(* ===== verification/Float64.thy ===== *)
theory Float64
  imports Prelude Complex_Main
begin

text \<open>
  Floating point arithmetic, as far as the program relies on it. The operations of Go's \<open>float64\<close> are exact operations on real numbers followed by a
  rounding; the rounding is an argument of the definitions that compute with floats, and the locale \<open>rounding\<close> states what the proofs need of it:
  it is monotone, and exact on numbers with a 53-bit significand. The interpretation \<open>f64\<close> is rounding to the nearest such number, ties to the
  even significand, with an unbounded exponent: rates, delays and ratios stay far from overflow and from the subnormal numbers.
\<close>

locale rounding =
  fixes rnd :: "real \<Rightarrow> real"
  assumes mono: "x \<le> y \<Longrightarrow> rnd x \<le> rnd y"
    and exact: "\<bar>m\<bar> \<le> 2 ^ 53 \<Longrightarrow> rnd (of_int m * 2 powr of_int e) = of_int m * 2 powr of_int e"
begin

lemma exact_int: "\<bar>m\<bar> \<le> 2 ^ 53 \<Longrightarrow> rnd (of_int m) = of_int m"
  using exact [of m 0] by simp

lemma rnd_0 [simp]: "rnd 0 = 0" using exact_int [of 0] by simp
lemma rnd_1 [simp]: "rnd 1 = 1" using exact_int [of 1] by simp

lemma nonneg: "0 \<le> x \<Longrightarrow> 0 \<le> rnd x" using mono [of 0 x] by simp
lemma le_1: "x \<le> 1 \<Longrightarrow> rnd x \<le> 1" using mono [of x 1] by simp
lemma ge_1: "1 \<le> x \<Longrightarrow> 1 \<le> rnd x" using mono [of 1 x] by simp

lemma half: "1 / 2 \<le> x \<Longrightarrow> 1 / 2 \<le> rnd x"
  using mono [of "1 / 2" x] exact [of 1 "- 1"] by (simp add: powr_minus)

end


section \<open>Rounding to nearest, ties to even\<close>

definition round_even :: "real \<Rightarrow> int" where
  "round_even y =
     (let f = \<lfloor>y\<rfloor>; d = y - of_int f
      in if d < 1 / 2 then f else if d > 1 / 2 then f + 1 else if even f then f else f + 1)"

definition f64_exp :: "real \<Rightarrow> int" where "f64_exp x = \<lfloor>log 2 x\<rfloor> - 52"

definition f64_pos :: "real \<Rightarrow> real" where
  "f64_pos x = of_int (round_even (x / 2 powr of_int (f64_exp x))) * 2 powr of_int (f64_exp x)"

definition f64 :: "real \<Rightarrow> real" where
  "f64 x = (if x = 0 then 0 else if x < 0 then - f64_pos (- x) else f64_pos x)"

lemma round_even_floor: "\<lfloor>y\<rfloor> \<le> round_even y" "round_even y \<le> \<lfloor>y\<rfloor> + 1"
  by (simp_all add: round_even_def Let_def)

lemma round_even_int [simp]: "round_even (of_int n) = n"
  by (simp add: round_even_def)

lemma round_even_mono:
  assumes "x \<le> y"
  shows "round_even x \<le> round_even y"
proof (cases "\<lfloor>x\<rfloor> = \<lfloor>y\<rfloor>")
  case True
  then show ?thesis using assms by (auto simp: round_even_def Let_def)
next
  case False
  then have "\<lfloor>x\<rfloor> + 1 \<le> \<lfloor>y\<rfloor>" using floor_mono [OF assms] by simp
  then show ?thesis using round_even_floor(2) [of x] round_even_floor(1) [of y] by simp
qed

lemma round_even_between: "of_int a \<le> y \<Longrightarrow> y \<le> of_int b \<Longrightarrow> a \<le> round_even y \<and> round_even y \<le> b"
  using round_even_mono [of "of_int a" y] round_even_mono [of y "of_int b"] by simp

lemma two_powr_shift: "(2 :: real) powr (of_int e + of_nat n) = 2 powr of_int e * 2 ^ n"
  by (simp add: powr_add powr_realpow)

lemma binade_step: "x \<le> a * 2 ^ 53 \<Longrightarrow> 2 * a \<le> b \<Longrightarrow> x \<le> b * 2 ^ 52" for x a b :: real
  by simp

lemma two_powr_double:
  assumes "e < f"
  shows "2 * (2 :: real) powr of_int e \<le> 2 powr of_int f"
proof -
  have "(2 :: real) powr (of_int e + 1) \<le> 2 powr of_int f" using assms by (intro powr_mono) simp_all
  then show ?thesis using two_powr_shift [of e 1] by (simp del: powr_le_cancel_iff)
qed

lemma binade:
  assumes "0 < x"
  shows "2 powr of_int (f64_exp x) * 2 ^ 52 \<le> x" "x < 2 powr of_int (f64_exp x) * 2 ^ 53"
proof -
  have "(2 :: real) powr of_int (f64_exp x) * 2 ^ 52 = 2 powr of_int \<lfloor>log 2 x\<rfloor>"
    using two_powr_shift [of "f64_exp x" 52] by (simp add: f64_exp_def)
  then show "2 powr of_int (f64_exp x) * 2 ^ 52 \<le> x" using assms by (simp add: powr_le_iff)
  have "(2 :: real) powr of_int (f64_exp x) * 2 ^ 53 = 2 powr (of_int \<lfloor>log 2 x\<rfloor> + 1)"
    using two_powr_shift [of "f64_exp x" 53] by (simp add: f64_exp_def add.commute)
  then show "x < 2 powr of_int (f64_exp x) * 2 ^ 53" using assms by (simp add: less_powr_iff)
qed

lemma f64_exp_unique:
  assumes "2 powr of_int e * 2 ^ 52 \<le> x" and "x < 2 powr of_int e * 2 ^ 53"
  shows "f64_exp x = e"
proof -
  have "0 < x" using assms(1) by (rule less_le_trans [rotated]) simp
  have "2 powr (of_int e + 52) \<le> x" "x < 2 powr (of_int e + 53)"
    using assms two_powr_shift [of e 52] two_powr_shift [of e 53] by simp_all
  then have "of_int e + 52 \<le> log 2 x" "log 2 x < of_int e + 53" using \<open>0 < x\<close> by (simp_all add: powr_le_iff less_powr_iff)
  then have "\<lfloor>log 2 x\<rfloor> = e + 52" by (simp add: floor_eq_iff)
  then show ?thesis by (simp add: f64_exp_def)
qed

lemma f64_pos_binade:
  assumes "0 < x"
  shows "2 powr of_int (f64_exp x) * 2 ^ 52 \<le> f64_pos x" "f64_pos x \<le> 2 powr of_int (f64_exp x) * 2 ^ 53"
proof -
  define u where "u = (2 powr of_int (f64_exp x) :: real)"
  have u: "0 < u" by (simp add: u_def)
  have "of_int (2 ^ 52) \<le> x / u" "x / u \<le> of_int (2 ^ 53)"
    using binade [OF assms, folded u_def] u by (simp_all add: pos_le_divide_eq pos_divide_le_eq mult.commute less_imp_le)
  then have "2 ^ 52 \<le> round_even (x / u)" "round_even (x / u) \<le> 2 ^ 53" using round_even_between by blast+
  then have "of_int (2 ^ 52) \<le> (of_int (round_even (x / u)) :: real)" "(of_int (round_even (x / u)) :: real) \<le> of_int (2 ^ 53)"
    by (simp_all only: of_int_le_iff)
  then have "u * 2 ^ 52 \<le> u * of_int (round_even (x / u))" "u * of_int (round_even (x / u)) \<le> u * 2 ^ 53"
    using u by (simp_all only: mult_le_cancel_left_pos of_int_power of_int_numeral)
  then show "2 powr of_int (f64_exp x) * 2 ^ 52 \<le> f64_pos x" "f64_pos x \<le> 2 powr of_int (f64_exp x) * 2 ^ 53"
    by (simp_all only: f64_pos_def u_def mult.commute)
qed

lemma f64_exp_mono: "0 < x \<Longrightarrow> x \<le> y \<Longrightarrow> f64_exp x \<le> f64_exp y"
  by (simp add: f64_exp_def floor_mono)

lemma f64_pos_mono:
  assumes "0 < x" and "x \<le> y"
  shows "f64_pos x \<le> f64_pos y"
proof (cases "f64_exp x = f64_exp y")
  case True
  have "round_even (x / 2 powr of_int (f64_exp y)) \<le> round_even (y / 2 powr of_int (f64_exp y))"
    using assms(2) by (intro round_even_mono divide_right_mono) simp_all
  then show ?thesis by (simp add: f64_pos_def True)
next
  case False
  then have "f64_exp x < f64_exp y" using f64_exp_mono [OF assms] by simp
  then have "f64_pos x \<le> 2 powr of_int (f64_exp y) * 2 ^ 52"
    using f64_pos_binade(2) [OF assms(1)] two_powr_double binade_step by blast
  also have "\<dots> \<le> f64_pos y" using f64_pos_binade(1) assms by simp
  finally show ?thesis .
qed

lemma f64_pos_nonneg: "0 < x \<Longrightarrow> 0 \<le> f64_pos x"
  using f64_pos_binade(1) [of x] by (rule order_trans [rotated]) simp_all

lemma f64_mono: "x \<le> y \<Longrightarrow> f64 x \<le> f64 y"
  using f64_pos_mono [of x y] f64_pos_mono [of "- y" "- x"] f64_pos_nonneg [of y] f64_pos_nonneg [of "- x"]
  by (auto simp: f64_def)

text \<open>A number with a significand of at most 53 bits is its own rounding: its significand is an integer at its own exponent.\<close>

lemma f64_pos_exact:
  assumes "0 < m" and "m \<le> 2 ^ 53"
  shows "f64_pos (of_int m * 2 powr of_int e) = of_int m * 2 powr of_int e"
proof -
  define x where "x = (of_int m * 2 powr of_int e :: real)"
  define d where "d = e - f64_exp x"
  have x: "0 < x" using assms(1) by (simp add: x_def)
  have "\<exists>k :: int. x / 2 powr of_int (f64_exp x) = of_int k"
  proof (cases "0 \<le> d")
    case True
    then have "x / 2 powr of_int (f64_exp x) = of_int m * 2 powr of_nat (nat d)"
      by (simp add: x_def d_def powr_diff)
    then show ?thesis by (intro exI [of _ "m * 2 ^ nat d"]) (simp add: powr_realpow)
  next
    case False
    have "x \<le> 2 powr of_int e * 2 ^ 53"
    proof -
      have "(of_int m :: real) \<le> of_int (2 ^ 53)" using assms(2) by (simp only: of_int_le_iff)
      then show ?thesis by (simp add: x_def)
    qed
    moreover have "2 * (2 :: real) powr of_int e \<le> 2 powr of_int (f64_exp x)" using False by (intro two_powr_double) (simp add: d_def)
    ultimately have "x \<le> 2 powr of_int (f64_exp x) * 2 ^ 52" by (rule binade_step)
    then have eq: "x = 2 powr of_int (f64_exp x) * 2 ^ 52" using binade(1) [OF x] by (rule antisym)
    have "x / 2 powr of_int (f64_exp x) = of_int (2 ^ 52)" by (subst eq) simp
    then show ?thesis by blast
  qed
  then obtain k :: int where k: "x / 2 powr of_int (f64_exp x) = of_int k" by blast
  then have "f64_pos x = x / 2 powr of_int (f64_exp x) * 2 powr of_int (f64_exp x)" by (simp add: f64_pos_def)
  then show ?thesis by (simp add: x_def)
qed

lemma f64_exact: "\<bar>m\<bar> \<le> 2 ^ 53 \<Longrightarrow> f64 (of_int m * 2 powr of_int e) = of_int m * 2 powr of_int e"
  using f64_pos_exact [of m e] f64_pos_exact [of "- m" e]
  by (cases "m = 0"; cases "m < 0") (auto simp: f64_def mult_less_0_iff zero_less_mult_iff)

interpretation f64: rounding f64
  using f64_mono f64_exact by unfold_locales

section \<open>Conversions to integers\<close>

text \<open>
  A float becomes an integer by dropping the fraction. Out of range, where the language leaves the result open, the amd64 instructions deliver the least
  signed integer.
\<close>

definition ByteCount_of :: "real \<Rightarrow> int" where
  "ByteCount_of r =
     (let n = (if 0 \<le> r then \<lfloor>r\<rfloor> else \<lceil>r\<rceil>) in if - (2 ^ 63) \<le> n \<and> n < 2 ^ 63 then n else - (2 ^ 63))"

definition uint64_of :: "real \<Rightarrow> u64" where
  "uint64_of r =
     (let n = (if 0 \<le> r then \<lfloor>r\<rfloor> else \<lceil>r\<rceil>) in if - (2 ^ 63) \<le> n \<and> n < 2 ^ 64 then word_of_int n else 2 ^ 63)"

lemma ByteCount_of_between:
  assumes "of_int a \<le> r" and "r \<le> of_int b" and "0 \<le> a" and "b < 2 ^ 63"
  shows "a \<le> ByteCount_of r" "ByteCount_of r \<le> b"
proof -
  have "0 \<le> r" using assms(1,3) by (meson of_int_0_le_iff order_trans)
  moreover have "a \<le> \<lfloor>r\<rfloor>" "\<lfloor>r\<rfloor> \<le> b" using assms(1,2) by (simp_all add: le_floor_iff floor_le_iff)
  ultimately have "ByteCount_of r = \<lfloor>r\<rfloor>" using assms(3,4) unfolding ByteCount_of_def Let_def by presburger
  then show "a \<le> ByteCount_of r" "ByteCount_of r \<le> b" using \<open>a \<le> \<lfloor>r\<rfloor>\<close> \<open>\<lfloor>r\<rfloor> \<le> b\<close> by simp_all
qed

end
