(* ===== verification/Brutal.thy ===== *)
theory Brutal
  imports Pacer Float64
begin

text \<open>
  The fixed-rate congestion controller (\<open>core/internal/congestion/brutal/brutal.go\<close>): it sends at the declared rate, adds up to a quarter of it to make up
  for random loss, and bounds the bytes in flight by a window that follows the round trip time.

  The sender is a record; the requests other goroutines post are the fields \<open>pacerReset\<close> and \<open>pathReset\<close>, drained by the run loop's operations. The
  round trip statistics are the QUIC library's and change between calls: an argument of the operations that read them. The arithmetic on floats is that
  of the reals with every result rounded by \<open>rnd\<close>; the theorems are about \<open>f64\<close>. The debug output is left out. The library's constants
  \<open>InitialPacketSize\<close>, \<open>MinPacingDelay\<close> and \<open>MaxCongestionWindowPackets\<close> are arguments.
\<close>

section \<open>State\<close>

definition pktInfoSlotCount :: int where "pktInfoSlotCount = 5"
definition minSampleCount :: u64 where "minSampleCount = 50"
definition minSampleCountExit :: u64 where "minSampleCountExit = 40"
definition minAckRate :: "(real \<Rightarrow> real) \<Rightarrow> real" where "minAckRate rnd = rnd (8 / 10)"
definition congestionWindowMultiplier :: real where "congestionWindowMultiplier = 2"
definition cwndRTTClampK :: int where "cwndRTTClampK = 2"
definition cwndFloorPackets :: int where "cwndFloorPackets = 32"
definition rebaselineWindow :: duration where "rebaselineWindow = 500 * Millisecond"
definition rebaselineMinSamples :: nat where "rebaselineMinSamples = 8"
definition congestionRTTRatio :: real where "congestionRTTRatio = 3 / 2"
definition relievedRTTRatio :: real where "relievedRTTRatio = 5 / 4"
definition spuriousLossTrackLimit :: nat where "spuriousLossTrackLimit = 8192"

lemmas brutal_consts = pktInfoSlotCount_def minSampleCount_def minSampleCountExit_def congestionWindowMultiplier_def
  cwndRTTClampK_def cwndFloorPackets_def rebaselineWindow_def rebaselineMinSamples_def congestionRTTRatio_def relievedRTTRatio_def spuriousLossTrackLimit_def

record pktInfo =
  Timestamp :: int
  AckCount :: u64
  LossCount :: u64
  ECNCount :: u64

record RTTStats =
  LatestRTT :: duration
  SmoothedRTT :: duration
  MinRTT :: duration

record BrutalSender =
  bps :: u64
  pacerReset :: bool
  pathReset :: bool
  b_maxDatagramSize :: int
  pacer :: Pacer
  pktInfoSlots :: "pktInfo list"
  ackRate :: real
  compensating :: bool
  congested :: bool
  pendingECNCE :: u64
  lostPNs :: "(int \<times> int) list"
  minRTTFloor :: duration
  rebaselineMin :: duration
  rebaselineSamples :: nat
  rebaselineStart :: instant
  pathHasChanged :: bool
  disableLossCompensation :: bool

record Stats =
  S_BPS :: u64
  S_AckRate :: real
  S_CongestionWindow :: int
  S_SmoothedRTT :: duration
  S_MinRTT :: duration
  S_Congested :: bool

definition empty_slot :: "int \<Rightarrow> pktInfo" where
  "empty_slot ts = \<lparr>Timestamp = ts, AckCount = 0, LossCount = 0, ECNCount = 0\<rparr>"

definition NewBrutalSender :: "int \<Rightarrow> u64 \<Rightarrow> bool \<Rightarrow> BrutalSender" where
  "NewBrutalSender initialPacketSize rate disable =
     \<lparr>bps = rate, pacerReset = False, pathReset = False, b_maxDatagramSize = initialPacketSize, pacer = NewPacer initialPacketSize,
      pktInfoSlots = replicate (nat pktInfoSlotCount) (empty_slot 0), ackRate = 1, compensating = False, congested = False, pendingECNCE = 0,
      lostPNs = [], minRTTFloor = 0, rebaselineMin = 0, rebaselineSamples = 0, rebaselineStart = 0, pathHasChanged = False,
      disableLossCompensation = disable\<rparr>"

text \<open>The closure the pacer calls for its bandwidth.\<close>

definition getBandwidth :: "(real \<Rightarrow> real) \<Rightarrow> BrutalSender \<Rightarrow> int" where
  "getBandwidth rnd b = ByteCount_of (rnd (rnd (real (unat (bps b))) / ackRate b))"


section \<open>Requests from other goroutines\<close>

definition SetBPS :: "u64 \<Rightarrow> BrutalSender \<Rightarrow> BrutalSender" where
  "SetBPS rate b = (if rate = 0 then b else b\<lparr>bps := rate, pacerReset := True\<rparr>)"

definition OnPathChange :: "BrutalSender \<Rightarrow> BrutalSender" where
  "OnPathChange b = b\<lparr>pathReset := True\<rparr>"

definition drainPending :: "BrutalSender \<Rightarrow> BrutalSender" where
  "drainPending b =
     (let b = (if pacerReset b then b\<lparr>pacerReset := False, pacer := p_Reset (pacer b)\<rparr> else b)
      in if pathReset b
         then b\<lparr>pathReset := False, pathHasChanged := True, minRTTFloor := 0, rebaselineMin := 0, rebaselineSamples := 0\<rparr>
         else b)"


section \<open>The congestion window\<close>

definition minRTT :: "RTTStats \<Rightarrow> BrutalSender \<Rightarrow> duration" where
  "minRTT rtt b = (if minRTTFloor b > 0 then minRTTFloor b else MinRTT rtt)"

definition windowRTT :: "duration \<Rightarrow> RTTStats \<Rightarrow> BrutalSender \<Rightarrow> duration" where
  "windowRTT minDelay rtt b =
     (let r = SmoothedRTT rtt;
          r = (if minRTT rtt b > 0 then min (max r (minRTT rtt b)) (cwndRTTClampK * minRTT rtt b) else r)
      in max r minDelay)"

text \<open>\<open>time.Duration.Seconds\<close>.\<close>

definition Seconds :: "(real \<Rightarrow> real) \<Rightarrow> duration \<Rightarrow> real" where
  "Seconds rnd d = rnd (rnd (of_int (go_div d Second)) + rnd (rnd (of_int (go_mod d Second)) / 1000000000))"

definition GetCongestionWindow :: "(real \<Rightarrow> real) \<Rightarrow> duration \<Rightarrow> int \<Rightarrow> RTTStats \<Rightarrow> BrutalSender \<Rightarrow> int" where
  "GetCongestionWindow rnd minDelay maxPackets rtt b =
     (let r = windowRTT minDelay rtt b;
          cwnd = ByteCount_of (rnd (rnd (rnd (real (unat (bps b))) * Seconds rnd r) * congestionWindowMultiplier));
          floor = cwndFloorPackets * b_maxDatagramSize b;
          cwnd = (if cwnd < floor then floor else cwnd);
          ceiling = maxPackets * b_maxDatagramSize b
      in if cwnd > ceiling then ceiling else cwnd)"

definition CanSend :: "(real \<Rightarrow> real) \<Rightarrow> duration \<Rightarrow> int \<Rightarrow> RTTStats \<Rightarrow> int \<Rightarrow> BrutalSender \<Rightarrow> bool" where
  "CanSend rnd minDelay maxPackets rtt bytesInFlight b \<longleftrightarrow> bytesInFlight \<le> GetCongestionWindow rnd minDelay maxPackets rtt b"


section \<open>Pacing\<close>

definition b_TimeUntilSend :: "(real \<Rightarrow> real) \<Rightarrow> duration \<Rightarrow> BrutalSender \<Rightarrow> BrutalSender \<times> instant option" where
  "b_TimeUntilSend rnd minDelay b = (let b = drainPending b in (b, TimeUntilSend minDelay (getBandwidth rnd b) (pacer b)))"

definition HasPacingBudget :: "(real \<Rightarrow> real) \<Rightarrow> duration \<Rightarrow> instant \<Rightarrow> BrutalSender \<Rightarrow> BrutalSender \<times> bool" where
  "HasPacingBudget rnd minDelay now b =
     (let b = drainPending b in (b, Budget minDelay (getBandwidth rnd b) now (pacer b) \<ge> b_maxDatagramSize b))"

definition OnPacketSent :: "(real \<Rightarrow> real) \<Rightarrow> duration \<Rightarrow> instant \<Rightarrow> int \<Rightarrow> BrutalSender \<Rightarrow> BrutalSender" where
  "OnPacketSent rnd minDelay sentTime n b =
     (let b = drainPending b in b\<lparr>pacer := SentPacket minDelay (getBandwidth rnd b) sentTime n (pacer b)\<rparr>)"

definition b_SetMaxDatagramSize :: "int \<Rightarrow> BrutalSender \<Rightarrow> BrutalSender" where
  "b_SetMaxDatagramSize s b = b\<lparr>b_maxDatagramSize := s, pacer := p_SetMaxDatagramSize s (pacer b)\<rparr>"


section \<open>Acknowledgements and losses\<close>

definition rebaseline :: "RTTStats \<Rightarrow> instant \<Rightarrow> BrutalSender \<Rightarrow> BrutalSender" where
  "rebaseline rtt eventTime b =
     (let latest = LatestRTT rtt
      in if latest \<le> 0 then b
         else
           let b = (if rebaselineSamples b = 0 then b\<lparr>rebaselineStart := eventTime\<rparr> else b);
               b = b\<lparr>rebaselineSamples := rebaselineSamples b + 1\<rparr>;
               b = (if rebaselineMin b = 0 \<or> latest < rebaselineMin b then b\<lparr>rebaselineMin := latest\<rparr> else b)
           in if minRTTFloor b > 0 \<or> (rebaselineSamples b \<ge> rebaselineMinSamples \<and> eventTime - rebaselineStart b \<ge> rebaselineWindow)
              then b\<lparr>minRTTFloor := rebaselineMin b\<rparr> else b)"

definition OnCongestionEvent :: "int \<Rightarrow> BrutalSender \<Rightarrow> BrutalSender" where
  "OnCongestionEvent lostBytes b = (if lostBytes = 0 then b\<lparr>pendingECNCE := pendingECNCE b + 1\<rparr> else b)"

definition pruneLostPNs :: "int \<Rightarrow> BrutalSender \<Rightarrow> BrutalSender" where
  "pruneLostPNs currentTimestamp b = b\<lparr>lostPNs := filter (\<lambda>(pn, ts). \<not> ts \<le> currentTimestamp - pktInfoSlotCount) (lostPNs b)\<rparr>"

definition updateCongestionGate :: "(real \<Rightarrow> real) \<Rightarrow> RTTStats \<Rightarrow> u64 \<Rightarrow> BrutalSender \<Rightarrow> BrutalSender" where
  "updateCongestionGate rnd rtt ecnCount b =
     (if ecnCount > 0 then b\<lparr>congested := True\<rparr>
      else if minRTT rtt b \<le> 0 \<or> SmoothedRTT rtt \<le> 0 then b\<lparr>congested := False\<rparr>
      else
        let ratio = rnd (rnd (of_int (SmoothedRTT rtt)) / rnd (of_int (minRTT rtt b)))
        in if congested b then (if ratio < relievedRTTRatio then b\<lparr>congested := False\<rparr> else b)
           else if ratio > congestionRTTRatio then b\<lparr>congested := True\<rparr> else b)"

definition updateAckRate :: "(real \<Rightarrow> real) \<Rightarrow> RTTStats \<Rightarrow> int \<Rightarrow> BrutalSender \<Rightarrow> BrutalSender" where
  "updateAckRate rnd rtt currentTimestamp b =
     (let minTimestamp = currentTimestamp - pktInfoSlotCount;
          infos = filter (\<lambda>info. \<not> Timestamp info < minTimestamp) (pktInfoSlots b);
          ackCount = sum_list (map AckCount infos); lossCount = sum_list (map LossCount infos); ecnCount = sum_list (map ECNCount infos);
          b = updateCongestionGate rnd rtt ecnCount b
      in if disableLossCompensation b then b\<lparr>ackRate := 1\<rparr>
         else
           let sum = ackCount + lossCount;
               b = b\<lparr>compensating := (if compensating b then sum \<ge> minSampleCountExit else sum \<ge> minSampleCount)\<rparr>
           in if \<not> compensating b then b\<lparr>ackRate := 1\<rparr>
              else if ackCount = 0 then b\<lparr>ackRate := 1\<rparr>
              else if congested b then b\<lparr>ackRate := 1\<rparr>
              else
                let rate = rnd (rnd (real (unat ackCount)) / rnd (real (unat sum)))
                in if rate < minAckRate rnd then b\<lparr>ackRate := minAckRate rnd\<rparr> else b\<lparr>ackRate := rate\<rparr>)"

text \<open>
  Taking back a loss that turned out to be a reordering. The timestamps in \<open>lostPNs\<close> are those of earlier events, which are not negative.
\<close>

definition takeBack :: "int \<Rightarrow> BrutalSender \<Rightarrow> BrutalSender" where
  "takeBack pn b =
     (case map_of (lostPNs b) pn of
        None \<Rightarrow> b
      | Some ts \<Rightarrow>
          let b = b\<lparr>lostPNs := AList.delete pn (lostPNs b)\<rparr>; s = nat (go_mod ts pktInfoSlotCount); info = pktInfoSlots b ! s
          in if Timestamp info = ts \<and> LossCount info > 0
             then b\<lparr>pktInfoSlots := (pktInfoSlots b)[s := info\<lparr>LossCount := LossCount info - 1\<rparr>]\<rparr> else b)"

text \<open>A negative event time indexes below the slots: a panic.\<close>

definition OnCongestionEventEx :: "(real \<Rightarrow> real) \<Rightarrow> RTTStats \<Rightarrow> instant \<Rightarrow> int list \<Rightarrow> int list \<Rightarrow> BrutalSender \<Rightarrow> BrutalSender option" where
  "OnCongestionEventEx rnd rtt eventTime ackedPackets lostPackets b =
     (let b = drainPending b;
          b = (if pathHasChanged b \<and> ackedPackets \<noteq> [] then rebaseline rtt eventTime b else b);
          currentTimestamp = go_div eventTime Second;
          slot = go_mod currentTimestamp pktInfoSlotCount
      in if slot < 0 then None
         else
           let s = nat slot;
               b = (if Timestamp (pktInfoSlots b ! s) \<noteq> currentTimestamp
                    then pruneLostPNs currentTimestamp (b\<lparr>pktInfoSlots := (pktInfoSlots b)[s := empty_slot currentTimestamp]\<rparr>) else b);
               info = pktInfoSlots b ! s;
               info = info\<lparr>AckCount := AckCount info + of_nat (length ackedPackets), LossCount := LossCount info + of_nat (length lostPackets),
                           ECNCount := ECNCount info + pendingECNCE b\<rparr>;
               b = b\<lparr>pktInfoSlots := (pktInfoSlots b)[s := info], pendingECNCE := 0\<rparr>;
               b = fold takeBack ackedPackets b;
               b = (if length (lostPNs b) < spuriousLossTrackLimit
                    then b\<lparr>lostPNs := fold (\<lambda>pn. AList.update pn currentTimestamp) lostPackets (lostPNs b)\<rparr> else b)
           in Some (updateAckRate rnd rtt currentTimestamp b))"

definition b_Stats :: "(real \<Rightarrow> real) \<Rightarrow> duration \<Rightarrow> int \<Rightarrow> RTTStats \<Rightarrow> BrutalSender \<Rightarrow> Stats" where
  "b_Stats rnd minDelay maxPackets rtt b =
     \<lparr>S_BPS = bps b, S_AckRate = ackRate b, S_CongestionWindow = GetCongestionWindow rnd minDelay maxPackets rtt b,
      S_SmoothedRTT = SmoothedRTT rtt, S_MinRTT = minRTT rtt b, S_Congested = congested b\<rparr>"



section \<open>The acknowledgement rate and the bandwidth\<close>

context rounding
begin

lemma minAckRate_bounds: "7205759403792793 / 9007199254740992 \<le> minAckRate rnd" "minAckRate rnd \<le> 1"
proof -
  have "(2 :: real) powr of_int (- 53) = 1 / 9007199254740992" by (simp add: powr_minus_divide)
  then have "rnd (7205759403792793 / 9007199254740992) = 7205759403792793 / 9007199254740992"
    using exact [of 7205759403792793 "- 53", unfolded \<open>2 powr of_int (- 53) = 1 / 9007199254740992\<close>] by simp
  moreover have "rnd (7205759403792793 / 9007199254740992) \<le> rnd (8 / 10)" by (rule mono) simp
  ultimately show "7205759403792793 / 9007199254740992 \<le> minAckRate rnd" by (simp add: minAckRate_def)
  show "minAckRate rnd \<le> 1" unfolding minAckRate_def by (rule le_1) simp
qed

text \<open>The ratio of two counters, computed in floats, does not exceed one.\<close>

lemma ratio_le_1:
  assumes "a \<le> t" and "0 < t"
  shows "rnd (rnd (real a) / rnd (real t)) \<le> 1"
proof -
  have "rnd (real a) \<le> rnd (real t)" using assms(1) by (intro mono) simp
  moreover have "1 \<le> rnd (real t)" using assms(2) by (intro ge_1) simp
  ultimately have "rnd (real a) / rnd (real t) \<le> 1" by simp
  then show ?thesis by (rule le_1)
qed

lemma bandwidth_bounds:
  assumes n: "unat (bps b) = n" "int n \<le> 2 ^ 52" and a: "minAckRate rnd \<le> ackRate b" "ackRate b \<le> 1"
  shows "int n \<le> getBandwidth rnd b" "getBandwidth rnd b \<le> 5 * int n div 4 + 2"
proof -
  let ?q = "real n / ackRate b"
  have l: "7205759403792793 / 9007199254740992 \<le> ackRate b" using minAckRate_bounds(1) a(1) by (rule order_trans)
  then have pos: "0 < ackRate b" by (rule less_le_trans [rotated]) simp
  have "int n \<le> 2 ^ 53" using n(2) by simp
  then have rn: "rnd (real n) = real n" using exact_int [of "int n"] by simp
  have "real n \<le> ?q" using a(2) pos by (simp add: pos_le_divide_eq mult_left_le)
  then have lo: "of_int (int n) \<le> rnd ?q" using mono [of "real n" ?q] rn by simp
  have "real_of_int (int n) \<le> of_int (2 ^ 52)" using n(2) by (simp only: of_int_le_iff)
  then have rl: "real n \<le> 2 ^ 52" by simp
  have "?q \<le> real n / (7205759403792793 / 9007199254740992)" using l by (intro divide_left_mono) (simp_all add: pos)
  also have "\<dots> \<le> 5 * real n / 4 + 1" using rl by simp
  also have "\<dots> \<le> of_int (5 * int n div 4 + 2)"
  proof -
    have "5 * int n \<le> 4 * (5 * int n div 4) + 4" by linarith
    then have "of_int (5 * int n) \<le> (of_int (4 * (5 * int n div 4) + 4) :: real)" by (simp only: of_int_le_iff)
    then show ?thesis by simp
  qed
  finally have "rnd ?q \<le> rnd (of_int (5 * int n div 4 + 2))" by (rule mono)
  also have "\<dots> = of_int (5 * int n div 4 + 2)" using n(2) by (intro exact_int) simp
  finally have hi: "rnd ?q \<le> of_int (5 * int n div 4 + 2)" .
  have "5 * int n div 4 + 2 < 2 ^ 63" using n(2) by simp
  with ByteCount_of_between [OF lo hi] show "int n \<le> getBandwidth rnd b" "getBandwidth rnd b \<le> 5 * int n div 4 + 2"
    by (simp_all add: getBandwidth_def n(1) rn)
qed

end


section \<open>What the sender keeps\<close>

text \<open>The fields a step of the sampling leaves alone.\<close>

definition same_rate :: "BrutalSender \<Rightarrow> BrutalSender \<Rightarrow> bool" where
  "same_rate b b' \<longleftrightarrow> bps b' = bps b \<and> pacer b' = pacer b \<and> b_maxDatagramSize b' = b_maxDatagramSize b \<and> pacerReset b' = pacerReset b"

lemma same_rateI [intro]:
  "bps b' = bps b \<Longrightarrow> pacer b' = pacer b \<Longrightarrow> b_maxDatagramSize b' = b_maxDatagramSize b \<Longrightarrow> pacerReset b' = pacerReset b \<Longrightarrow> same_rate b b'"
  by (simp add: same_rate_def)

lemma same_rate_trans: "same_rate a b \<Longrightarrow> same_rate b c \<Longrightarrow> same_rate a c"
  by (simp add: same_rate_def)

lemma gate_frame: "same_rate b (updateCongestionGate rnd rtt e b)" "pktInfoSlots (updateCongestionGate rnd rtt e b) = pktInfoSlots b"
  by (auto simp: updateCongestionGate_def Let_def)

lemma rebaseline_frame: "same_rate b (rebaseline rtt t b)" "pktInfoSlots (rebaseline rtt t b) = pktInfoSlots b" "ackRate (rebaseline rtt t b) = ackRate b"
  by (auto simp: rebaseline_def Let_def)

lemma updateAckRate_frame: "same_rate b (updateAckRate rnd rtt t b)" "pktInfoSlots (updateAckRate rnd rtt t b) = pktInfoSlots b"
  using gate_frame [where rnd = rnd and rtt = rtt and b = b and e = "sum_list (map ECNCount (filter (\<lambda>info. \<not> Timestamp info < t - pktInfoSlotCount) (pktInfoSlots b)))"]
  by (auto simp: updateAckRate_def Let_def same_rate_def)

lemma takeBack_frame: "same_rate b (takeBack pn b)" "length (pktInfoSlots (takeBack pn b)) = length (pktInfoSlots b)" "ackRate (takeBack pn b) = ackRate b"
  by (auto simp: takeBack_def Let_def split: option.splits)

lemma takeBacks_frame:
  "same_rate b (fold takeBack pns b)" "length (pktInfoSlots (fold takeBack pns b)) = length (pktInfoSlots b)"
proof (induction pns arbitrary: b)
  case (Cons pn pns)
  case 1
  show ?case using same_rate_trans [OF takeBack_frame(1) Cons(1)] by simp
  case 2
  show ?case using Cons(2) takeBack_frame(2) by simp
qed (auto)


section \<open>Counting samples\<close>

definition slot_count :: "pktInfo \<Rightarrow> nat" where "slot_count i = unat (AckCount i) + unat (LossCount i)"

definition slots_total :: "pktInfo list \<Rightarrow> nat" where "slots_total xs = sum_list (map slot_count xs)"

lemma unat_plus_le: "unat (x + y :: 'a::len word) \<le> unat x + unat y"
  by (simp add: unat_word_ariths)

lemma unat_of_nat_le: "unat (of_nat n :: 'a::len word) \<le> n"
  by (simp add: unat_of_nat take_bit_eq_mod)

lemma unat_sum_list_le: "unat (sum_list xs :: 'a::len word) \<le> sum_list (map unat xs)"
proof (induction xs)
  case (Cons x xs)
  then show ?case using unat_plus_le [of x "sum_list xs"] by simp
qed simp

lemma slots_total_update:
  assumes "i < length xs" and "slot_count v \<le> slot_count (xs ! i) + k"
  shows "slots_total (xs[i := v]) \<le> slots_total xs + k"
proof -
  have "slots_total xs = slots_total (take i xs) + slot_count (xs ! i) + slots_total (drop (Suc i) xs)"
    using assms(1) by (subst id_take_nth_drop [OF assms(1)]) (simp add: slots_total_def)
  moreover have "slots_total (xs[i := v]) = slots_total (take i xs) + slot_count v + slots_total (drop (Suc i) xs)"
    using assms(1) by (simp add: upd_conv_take_nth_drop slots_total_def)
  ultimately show ?thesis using assms(2) by simp
qed

lemma slots_total_split: "slots_total xs = sum_list (map (\<lambda>i. unat (AckCount i)) xs) + sum_list (map (\<lambda>i. unat (LossCount i)) xs)"
  by (induction xs) (simp_all add: slots_total_def slot_count_def)

lemma slots_total_filter: "slots_total (filter P xs) \<le> slots_total xs"
  by (induction xs) (auto simp: slots_total_def)

lemma takeBack_total: "slots_total (pktInfoSlots (takeBack pn b)) \<le> slots_total (pktInfoSlots b)" if "length (pktInfoSlots b) = 5"
proof (cases "map_of (lostPNs b) pn")
  case (Some ts)
  let ?s = "nat (go_mod ts pktInfoSlotCount)" let ?info = "pktInfoSlots b ! ?s"
  show ?thesis
  proof (cases "Timestamp ?info = ts \<and> LossCount ?info > 0")
    case True
    have "slots_total ((pktInfoSlots b)[?s := ?info\<lparr>LossCount := LossCount ?info - 1\<rparr>]) \<le> slots_total (pktInfoSlots b) + 0"
    proof (cases "?s < length (pktInfoSlots b)")
      case t: True
      have "unat (LossCount ?info - 1) \<le> unat (LossCount ?info)" using True by (simp add: unat_minus_one word_gt_0)
      then show ?thesis using t by (intro slots_total_update) (simp_all add: slot_count_def)
    next
      case False
      then show ?thesis by (simp add: list_update_beyond)
    qed
    then show ?thesis using Some True by (simp add: takeBack_def Let_def)
  next
    case False
    then show ?thesis using Some by (auto simp: takeBack_def Let_def)
  qed
qed (simp add: takeBack_def)

lemma takeBacks_total:
  "length (pktInfoSlots b) = 5 \<Longrightarrow> slots_total (pktInfoSlots (fold takeBack pns b)) \<le> slots_total (pktInfoSlots b)"
proof (induction pns arbitrary: b)
  case (Cons pn pns)
  have "length (pktInfoSlots (takeBack pn b)) = 5" using takeBack_frame(2) Cons.prems by simp
  then show ?case using takeBack_total [OF Cons.prems] Cons.IH by (fastforce intro: order_trans)
qed simp

context rounding
begin

lemma updateAckRate_rate:
  assumes "slots_total (pktInfoSlots b) < 2 ^ 64"
  shows "minAckRate rnd \<le> ackRate (updateAckRate rnd rtt t b)" "ackRate (updateAckRate rnd rtt t b) \<le> 1"
proof -
  define infos where "infos = filter (\<lambda>info. \<not> Timestamp info < t - pktInfoSlotCount) (pktInfoSlots b)"
  define a where "a = sum_list (map AckCount infos)"
  define l where "l = sum_list (map LossCount infos)"
  define e where "e = sum_list (map ECNCount infos)"
  have "unat a + unat l \<le> slots_total infos"
    using unat_sum_list_le [of "map AckCount infos"] unat_sum_list_le [of "map LossCount infos"]
    by (simp add: a_def l_def slots_total_split o_def)
  also have "\<dots> < 2 ^ 64" using slots_total_filter assms unfolding infos_def by (rule le_less_trans)
  finally have "unat (a + l) = unat a + unat l" by (simp add: unat_word_ariths)
  then have r: "rnd (rnd (real (unat a)) / rnd (real (unat (a + l)))) \<le> 1" if "0 < unat (a + l)" using that by (intro ratio_le_1) simp_all
  have nz: "0 < unat (a + l)" if "a \<noteq> 0" using that \<open>unat (a + l) = unat a + unat l\<close> by (simp add: unat_gt_0)
  note m = minAckRate_bounds
  show "minAckRate rnd \<le> ackRate (updateAckRate rnd rtt t b)"
    unfolding updateAckRate_def infos_def [symmetric] a_def [symmetric] l_def [symmetric] e_def [symmetric] Let_def
    using m(2) by (simp add: not_less)
  show "ackRate (updateAckRate rnd rtt t b) \<le> 1"
    unfolding updateAckRate_def infos_def [symmetric] a_def [symmetric] l_def [symmetric] e_def [symmetric] Let_def
    using m(2) r nz by simp
qed

end


section \<open>One event\<close>

lemma drain_frame [simp]:
  "pktInfoSlots (drainPending b) = pktInfoSlots b" "bps (drainPending b) = bps b" "ackRate (drainPending b) = ackRate b"
  "b_maxDatagramSize (drainPending b) = b_maxDatagramSize b"
  "pacer (drainPending b) = (if pacerReset b then p_Reset (pacer b) else pacer b)" "\<not> pacerReset (drainPending b)"
  by (simp_all add: drainPending_def Let_def)

lemma getBandwidth_drain [simp]: "getBandwidth rnd (drainPending b) = getBandwidth rnd b"
  by (simp add: getBandwidth_def)

lemma slot_in_range: "0 \<le> ts \<Longrightarrow> go_mod ts pktInfoSlotCount = ts mod 5" "nat (ts mod 5) < 5"
  by (simp_all add: brutal_consts nat_less_iff)

text \<open>The first half of the handler, up to the losses it takes back.\<close>

definition sampled :: "RTTStats \<Rightarrow> instant \<Rightarrow> int list \<Rightarrow> int list \<Rightarrow> BrutalSender \<Rightarrow> BrutalSender" where
  "sampled rtt eventTime ackedPackets lostPackets b =
     (let b = drainPending b;
          b = (if pathHasChanged b \<and> ackedPackets \<noteq> [] then rebaseline rtt eventTime b else b);
          ts = eventTime div Second;
          s = nat (ts mod 5);
          b = (if Timestamp (pktInfoSlots b ! s) \<noteq> ts
               then pruneLostPNs ts (b\<lparr>pktInfoSlots := (pktInfoSlots b)[s := empty_slot ts]\<rparr>) else b);
          info = pktInfoSlots b ! s;
          info = info\<lparr>AckCount := AckCount info + of_nat (length ackedPackets), LossCount := LossCount info + of_nat (length lostPackets),
                      ECNCount := ECNCount info + pendingECNCE b\<rparr>
      in b\<lparr>pktInfoSlots := (pktInfoSlots b)[s := info], pendingECNCE := 0\<rparr>)"

definition tracked :: "int \<Rightarrow> int list \<Rightarrow> BrutalSender \<Rightarrow> BrutalSender" where
  "tracked ts lostPackets b = (if length (lostPNs b) < spuriousLossTrackLimit
     then b\<lparr>lostPNs := fold (\<lambda>pn. AList.update pn ts) lostPackets (lostPNs b)\<rparr> else b)"

lemma OnCongestionEventEx_stages:
  assumes "0 \<le> t"
  shows "OnCongestionEventEx rnd rtt t acked lost b =
    Some (updateAckRate rnd rtt (t div Second) (tracked (t div Second) lost (fold takeBack acked (sampled rtt t acked lost b))))"
proof -
  have ts: "go_div t Second = t div Second" "0 \<le> t div Second" using assms by (simp_all add: pos_imp_zdiv_nonneg_iff)
  show ?thesis
    unfolding OnCongestionEventEx_def sampled_def tracked_def ts(1) slot_in_range(1) [OF ts(2)] Let_def by simp
qed

lemma sampled_frame:
  assumes len: "length (pktInfoSlots b) = 5"
  shows "same_rate (drainPending b) (sampled rtt t acked lost b)" "length (pktInfoSlots (sampled rtt t acked lost b)) = 5"
    "slots_total (pktInfoSlots (sampled rtt t acked lost b)) \<le> slots_total (pktInfoSlots b) + (length acked + length lost)"
proof -
  define b1 where "b1 = (let b = drainPending b in if pathHasChanged b \<and> acked \<noteq> [] then rebaseline rtt t b else b)"
  define ts where "ts = t div Second"
  define s where "s = nat (ts mod 5)"
  define b2 where "b2 = (if Timestamp (pktInfoSlots b1 ! s) \<noteq> ts
      then pruneLostPNs ts (b1\<lparr>pktInfoSlots := (pktInfoSlots b1)[s := empty_slot ts]\<rparr>) else b1)"
  define i where "i = pktInfoSlots b2 ! s"
  define i' where "i' = i\<lparr>AckCount := AckCount i + of_nat (length acked), LossCount := LossCount i + of_nat (length lost),
      ECNCount := ECNCount i + pendingECNCE b2\<rparr>"
  have e: "sampled rtt t acked lost b = b2\<lparr>pktInfoSlots := (pktInfoSlots b2)[s := i'], pendingECNCE := 0\<rparr>"
    unfolding sampled_def b1_def ts_def s_def b2_def i_def i'_def Let_def by (rule refl)
  have s: "s < 5" by (simp add: s_def nat_less_iff)
  have 1: "same_rate (drainPending b) b1" "pktInfoSlots b1 = pktInfoSlots b"
    using rebaseline_frame by (auto simp: b1_def Let_def)
  have 2: "same_rate b1 b2" "length (pktInfoSlots b2) = 5" by (auto simp: b2_def pruneLostPNs_def 1 len)
  have 3: "slots_total (pktInfoSlots b2) \<le> slots_total (pktInfoSlots b) + 0"
    using slots_total_update [of s "pktInfoSlots b" "empty_slot ts" 0] s len
    by (auto simp: b2_def pruneLostPNs_def 1 slot_count_def empty_slot_def)
  show "same_rate (drainPending b) (sampled rtt t acked lost b)"
    using same_rate_trans [OF 1(1) 2(1)] by (auto simp: e same_rate_def)
  show "length (pktInfoSlots (sampled rtt t acked lost b)) = 5" using 2(2) by (simp add: e)
  have "slot_count i' \<le> slot_count i + (length acked + length lost)"
    using unat_plus_le [of "AckCount i" "of_nat (length acked)"] unat_of_nat_le [of "length acked", where 'a = 64]
      unat_plus_le [of "LossCount i" "of_nat (length lost)"] unat_of_nat_le [of "length lost", where 'a = 64]
    by (simp add: i'_def slot_count_def)
  then have "slots_total ((pktInfoSlots b2)[s := i']) \<le> slots_total (pktInfoSlots b2) + (length acked + length lost)"
    using s 2(2) by (intro slots_total_update) (simp_all add: i_def)
  then show "slots_total (pktInfoSlots (sampled rtt t acked lost b)) \<le> slots_total (pktInfoSlots b) + (length acked + length lost)"
    using 3 by (simp add: e)
qed

lemma event_frame:
  assumes "OnCongestionEventEx rnd rtt t acked lost b = Some b'" and "0 \<le> t" and len: "length (pktInfoSlots b) = 5"
  shows "same_rate (drainPending b) b'" "length (pktInfoSlots b') = 5"
    "slots_total (pktInfoSlots b') \<le> slots_total (pktInfoSlots b) + (length acked + length lost)"
proof -
  let ?s = "sampled rtt t acked lost b"
  let ?u = "tracked (t div Second) lost (fold takeBack acked ?s)"
  have e: "b' = updateAckRate rnd rtt (t div Second) ?u" using assms(1) OnCongestionEventEx_stages [OF assms(2)] by simp
  have u: "same_rate (fold takeBack acked ?s) ?u" "pktInfoSlots ?u = pktInfoSlots (fold takeBack acked ?s)" by (auto simp: tracked_def)
  note s = sampled_frame [OF len, of rtt t acked lost]
  show "same_rate (drainPending b) b'"
    unfolding e using s(1) takeBacks_frame(1) u(1) updateAckRate_frame(1) by (blast intro: same_rate_trans)
  show "length (pktInfoSlots b') = 5" by (simp only: e updateAckRate_frame(2) u(2) takeBacks_frame(2) s(2))
  show "slots_total (pktInfoSlots b') \<le> slots_total (pktInfoSlots b) + (length acked + length lost)"
    using order_trans [OF takeBacks_total [OF s(2), of acked] s(3)] by (simp only: e updateAckRate_frame(2) u(2))
qed


section \<open>Runs of the sender\<close>

text \<open>
  What happens to a sender, in any order: the run loop asks for the budget, sends packets, reports acknowledgements, losses and congestion marks, and
  changes the datagram size; the path manager posts rates and path changes. The QUIC library sends a packet only when it was told that there is budget
  for a full datagram.
\<close>

datatype brutal_event =
    Asked instant
  | Sent instant int
  | Reported RTTStats instant "int list" "int list"
  | Marked int
  | Rate u64
  | Path_changed
  | Datagram_size int

fun brutal_step :: "(real \<Rightarrow> real) \<Rightarrow> duration \<Rightarrow> brutal_event \<Rightarrow> BrutalSender \<Rightarrow> BrutalSender option" where
  "brutal_step rnd d (Asked t) b = Some (fst (HasPacingBudget rnd d t b))"
| "brutal_step rnd d (Sent t n) b = Some (OnPacketSent rnd d t n b)"
| "brutal_step rnd d (Reported rtt t acked lost) b = OnCongestionEventEx rnd rtt t acked lost b"
| "brutal_step rnd d (Marked n) b = Some (OnCongestionEvent n b)"
| "brutal_step rnd d (Rate r) b = Some (SetBPS r b)"
| "brutal_step rnd d Path_changed b = Some (OnPathChange b)"
| "brutal_step rnd d (Datagram_size s) b = Some (b_SetMaxDatagramSize s b)"

fun allowed :: "(real \<Rightarrow> real) \<Rightarrow> duration \<Rightarrow> brutal_event \<Rightarrow> BrutalSender \<Rightarrow> bool" where
  "allowed rnd d (Sent t n) b \<longleftrightarrow>
     0 < t \<and> lastSentTime (pacer b) \<le> t \<and> 0 \<le> n \<and> n \<le> b_maxDatagramSize b \<and> snd (HasPacingBudget rnd d t b)"
| "allowed rnd d (Reported rtt t acked lost) b \<longleftrightarrow> 0 \<le> t"
| "allowed rnd d e b \<longleftrightarrow> True"

fun brutal_run :: "(real \<Rightarrow> real) \<Rightarrow> duration \<Rightarrow> brutal_event list \<Rightarrow> BrutalSender \<Rightarrow> BrutalSender option" where
  "brutal_run rnd d [] b = Some b"
| "brutal_run rnd d (e # es) b = (if allowed rnd d e b then Option.bind (brutal_step rnd d e b) (brutal_run rnd d es) else None)"

text \<open>The limits the environment keeps to: declared rates, datagram sizes, and the number of packets reported on.\<close>

fun within_limits :: "nat \<Rightarrow> int \<Rightarrow> brutal_event \<Rightarrow> bool" where
  "within_limits B S (Rate r) \<longleftrightarrow> unat r \<le> B"
| "within_limits B S (Datagram_size s) \<longleftrightarrow> 0 \<le> s \<and> s \<le> S"
| "within_limits B S e \<longleftrightarrow> True"

fun reports :: "brutal_event list \<Rightarrow> nat" where
  "reports [] = 0"
| "reports (Reported rtt t acked lost # es) = length acked + length lost + reports es"
| "reports (e # es) = reports es"

fun sends :: "brutal_event list \<Rightarrow> (instant \<times> int) list" where
  "sends [] = []"
| "sends (Sent t n # es) = (t, n) # sends es"
| "sends (e # es) = sends es"

definition bytes_sent :: "brutal_event list \<Rightarrow> int" where
  "bytes_sent es = sum_list (map snd (sends es))"

definition most :: "nat \<Rightarrow> int" where "most B = 5 * int B div 4 + 2"

definition brutal_ok :: "(real \<Rightarrow> real) \<Rightarrow> duration \<Rightarrow> nat \<Rightarrow> int \<Rightarrow> nat \<Rightarrow> BrutalSender \<Rightarrow> bool" where
  "brutal_ok rnd d B S N b \<longleftrightarrow> length (pktInfoSlots b) = 5 \<and> slots_total (pktInfoSlots b) \<le> N \<and> minAckRate rnd \<le> ackRate b \<and> ackRate b \<le> 1
     \<and> unat (bps b) \<le> B \<and> pacer_fits d (most B) (pacer b) \<and> p_maxDatagramSize (pacer b) = b_maxDatagramSize b \<and> b_maxDatagramSize b \<le> S"

lemma brutal_okD:
  assumes "brutal_ok rnd d B S N b"
  shows "length (pktInfoSlots b) = 5" "slots_total (pktInfoSlots b) \<le> N" "minAckRate rnd \<le> ackRate b" "ackRate b \<le> 1" "unat (bps b) \<le> B"
    "pacer_fits d (most B) (pacer b)" "p_maxDatagramSize (pacer b) = b_maxDatagramSize b" "b_maxDatagramSize b \<le> S"
  using assms by (simp_all add: brutal_ok_def)

lemma fits_reset: "pacer_fits d bw p \<Longrightarrow> pacer_fits d bw (p_Reset p)"
  by (simp add: pacer_fits_def p_Reset_def)

lemma brutal_drain_ok: "brutal_ok rnd d B S N b \<Longrightarrow> brutal_ok rnd d B S N (drainPending b)"
  using fits_reset by (auto simp: brutal_ok_def p_Reset_def)

lemma same_rate_ok:
  assumes "brutal_ok rnd d B S N b" and "same_rate (drainPending b) b'" and "length (pktInfoSlots b') = 5"
    and "slots_total (pktInfoSlots b') \<le> N'" and "minAckRate rnd \<le> ackRate b'" and "ackRate b' \<le> 1"
  shows "brutal_ok rnd d B S N' b'"
  using brutal_drain_ok [OF assms(1)] assms(2-) by (simp add: brutal_ok_def same_rate_def)

context rounding
begin

lemma ok_bandwidth:
  assumes "brutal_ok rnd d B S N b" and "int B \<le> 2 ^ 52"
  shows "0 \<le> getBandwidth rnd b" "getBandwidth rnd b \<le> most B"
proof -
  note ok = brutal_okD [OF assms(1)]
  have "int (unat (bps b)) \<le> 2 ^ 52" using ok(5) assms(2) by linarith
  note g = bandwidth_bounds [OF refl this ok(3,4)]
  show "0 \<le> getBandwidth rnd b" using of_nat_0_le_iff g(1) by (rule order_trans)
  have "int (unat (bps b)) \<le> int B" using ok(5) by (simp only: of_nat_le_iff)
  then have "5 * int (unat (bps b)) div 4 \<le> 5 * int B div 4" by linarith
  then show "getBandwidth rnd b \<le> most B" using g(2) by (simp add: most_def)
qed

text \<open>A packet that was allowed is one the pacer admitted.\<close>

lemma sent_step:
  assumes ok: "brutal_ok rnd d B S N b" and B: "int B \<le> 2 ^ 52" and a: "allowed rnd d (Sent t n) b"
  defines "p \<equiv> pacer (drainPending b)" and "p' \<equiv> pacer (OnPacketSent rnd d t n b)"
  shows "brutal_ok rnd d B S N (OnPacketSent rnd d t n b)" "lastSentTime p' = t" "n + budgetAtLastSent p' \<le> maxBurstSize d (most B) p"
    "lastSentTime p \<noteq> 0 \<Longrightarrow> Second * (n + budgetAtLastSent p') \<le> Second * budgetAtLastSent p + most B * (t - lastSentTime p)"
proof -
  note dr = brutal_okD [OF brutal_drain_ok [OF ok]]
  note bw = ok_bandwidth [OF ok B]
  have t: "0 < t" "lastSentTime p \<le> t" using a by (simp_all add: p_def p_Reset_def)
  have n: "0 \<le> n" "n \<le> Budget d (getBandwidth rnd b) t p"
    using a by (simp_all add: HasPacingBudget_def Let_def p_def del: drain_frame(5))
  note st = admitted_step [OF dr(6) bw, folded p_def, OF t n]
  have p': "p' = SentPacket d (getBandwidth rnd b) t n p" by (simp add: p'_def p_def OnPacketSent_def Let_def)
  show "lastSentTime p' = t" "n + budgetAtLastSent p' \<le> maxBurstSize d (most B) p"
    "lastSentTime p \<noteq> 0 \<Longrightarrow> Second * (n + budgetAtLastSent p') \<le> Second * budgetAtLastSent p + most B * (t - lastSentTime p)"
    using st(2-4) by (simp_all add: p' del: time_units)
  have "OnPacketSent rnd d t n b = (drainPending b)\<lparr>pacer := p'\<rparr>" by (simp add: p' p_def OnPacketSent_def Let_def)
  moreover have "pacer_fits d (most B) p'" unfolding p' by (rule st(1))
  moreover have "p_maxDatagramSize p' = b_maxDatagramSize b" using dr(7) by (simp add: p' SentPacket_def p_def Let_def)
  ultimately show "brutal_ok rnd d B S N (OnPacketSent rnd d t n b)" using dr by (simp add: brutal_ok_def)
qed

lemma reported_step:
  assumes ok: "brutal_ok rnd d B S N b" and st: "OnCongestionEventEx rnd rtt t acked lost b = Some b'" and t: "0 \<le> t"
    and N: "N + (length acked + length lost) < 2 ^ 64"
  shows "brutal_ok rnd d B S (N + (length acked + length lost)) b'"
proof -
  let ?u = "tracked (t div Second) lost (fold takeBack acked (sampled rtt t acked lost b))"
  note fr = event_frame [OF st t brutal_okD(1) [OF ok]]
  have e: "b' = updateAckRate rnd rtt (t div Second) ?u" using st OnCongestionEventEx_stages [OF t] by simp
  have total: "slots_total (pktInfoSlots b') \<le> N + (length acked + length lost)" using fr(3) brutal_okD(2) [OF ok] by simp
  then have "slots_total (pktInfoSlots ?u) < 2 ^ 64" using N updateAckRate_frame(2) unfolding e by (metis le_less_trans)
  note updateAckRate_rate [OF this, of rtt "t div Second", folded e]
  then show ?thesis using same_rate_ok [OF ok fr(1,2) total] by blast
qed

lemma step_ok:
  assumes ok: "brutal_ok rnd d B S N b" and B: "int B \<le> 2 ^ 52" and S: "S \<le> 65536" and a: "allowed rnd d e b" and w: "within_limits B S e"
    and N: "N + reports [e] < 2 ^ 64" and st: "brutal_step rnd d e b = Some b'"
  shows "brutal_ok rnd d B S (N + reports [e]) b'"
proof (cases e)
  case (Asked t)
  then show ?thesis using brutal_drain_ok [OF ok] st by (auto simp: HasPacingBudget_def Let_def)
next
  case (Sent t n)
  then show ?thesis using sent_step(1) [OF ok B, of t n] a st by auto
next
  case (Reported rtt t acked lost)
  then show ?thesis using reported_step [OF ok, of rtt t acked lost b'] st a N by simp
next
  case (Marked n)
  then show ?thesis using ok st by (auto simp: OnCongestionEvent_def brutal_ok_def)
next
  case (Rate r)
  then show ?thesis using ok st w by (auto simp: SetBPS_def brutal_ok_def)
next
  case Path_changed
  then show ?thesis using ok st by (auto simp: OnPathChange_def brutal_ok_def)
next
  case (Datagram_size s)
  then show ?thesis using ok st w S by (auto simp: b_SetMaxDatagramSize_def p_SetMaxDatagramSize_def brutal_ok_def pacer_fits_def)
qed

text \<open>Between two packets the budget never grows.\<close>

lemma other_step:
  assumes "brutal_ok rnd d B S N b" and "allowed rnd d e b" and "brutal_step rnd d e b = Some b'" and "\<nexists>t n. e = Sent t n"
  shows "lastSentTime (pacer b') = lastSentTime (pacer b)" "budgetAtLastSent (pacer b') \<le> budgetAtLastSent (pacer b)"
proof -
  have b: "0 \<le> budgetAtLastSent (pacer b)" using brutal_okD(6) [OF assms(1)] by (simp add: pacer_fits_def)
  have "pacer b' = pacer b \<or> pacer b' = p_Reset (pacer b) \<or> (\<exists>s. pacer b' = p_SetMaxDatagramSize s (pacer b))"
  proof (cases e)
    case (Reported rtt t acked lost)
    then have "same_rate (drainPending b) b'" using event_frame(1) [OF _ _ brutal_okD(1) [OF assms(1)]] assms(2,3) by simp
    then show ?thesis by (simp add: same_rate_def)
  qed (use assms(3,4) in \<open>auto simp: HasPacingBudget_def OnCongestionEvent_def SetBPS_def OnPathChange_def b_SetMaxDatagramSize_def Let_def\<close>)
  then show "lastSentTime (pacer b') = lastSentTime (pacer b)" "budgetAtLastSent (pacer b') \<le> budgetAtLastSent (pacer b)"
    using b by (auto simp: p_Reset_def p_SetMaxDatagramSize_def)
qed

lemma drain_budget:
  "brutal_ok rnd d B S N b \<Longrightarrow> budgetAtLastSent (pacer (drainPending b)) \<le> budgetAtLastSent (pacer b)"
  "lastSentTime (pacer (drainPending b)) = lastSentTime (pacer b)"
  using brutal_okD(6) by (auto simp: p_Reset_def pacer_fits_def)


text \<open>From a packet on, the bytes of a run are what was left of the budget and what the time since has earned.\<close>

lemma reports_Cons: "reports (e # es) = reports [e] + reports es"
  by (cases e) simp_all

lemma run_Cons:
  assumes "brutal_ok rnd d B S N b" and "int B \<le> 2 ^ 52" and "S \<le> 65536" and "list_all (within_limits B S) (e # es)"
    and "N + reports (e # es) < 2 ^ 64" and "brutal_run rnd d (e # es) b = Some b'"
  obtains b1 where "allowed rnd d e b" "brutal_step rnd d e b = Some b1" "brutal_run rnd d es b1 = Some b'"
    "brutal_ok rnd d B S (N + reports [e]) b1" "list_all (within_limits B S) es" "N + reports [e] + reports es < 2 ^ 64"
proof -
  from assms(6) obtain b1 where b1: "allowed rnd d e b" "brutal_step rnd d e b = Some b1" "brutal_run rnd d es b1 = Some b'"
    by (auto split: if_splits Option.bind_splits)
  have N: "N + reports [e] < 2 ^ 64" "N + reports [e] + reports es < 2 ^ 64" using assms(5) by (simp_all add: reports_Cons [of e es] del: reports.simps)
  have w: "within_limits B S e" "list_all (within_limits B S) es" using assms(4) by simp_all
  show thesis by (rule that [OF b1 step_ok [OF assms(1-3) b1(1) w(1) N(1) b1(2)] w(2) N(2)])
qed

lemma run_ok:
  assumes "brutal_ok rnd d B S N b" and "int B \<le> 2 ^ 52" and "S \<le> 65536" and "list_all (within_limits B S) es" and "N + reports es < 2 ^ 64"
    and "brutal_run rnd d es b = Some b'"
  shows "brutal_ok rnd d B S (N + reports es) b'"
  using assms
proof (induction es arbitrary: N b)
  case (Cons e es)
  obtain b1 where "brutal_run rnd d es b1 = Some b'" "brutal_ok rnd d B S (N + reports [e]) b1" "list_all (within_limits B S) es"
      "N + reports [e] + reports es < 2 ^ 64"
    by (rule run_Cons [OF Cons.prems])
  then have "brutal_ok rnd d B S (N + reports [e] + reports es) b'" using Cons.IH Cons.prems(2,3) by blast
  then show ?case by (simp only: reports_Cons [of e es] add.assoc)
qed simp

lemma run_bound:
  assumes "brutal_ok rnd d B S N b" and "int B \<le> 2 ^ 52" and "S \<le> 65536" and "list_all (within_limits B S) es" and "N + reports es < 2 ^ 64"
    and "brutal_run rnd d es b = Some b'" and "lastSentTime (pacer b) \<noteq> 0" and "sends es \<noteq> []"
  shows "Second * bytes_sent es \<le> Second * budgetAtLastSent (pacer b) + most B * (fst (last (sends es)) - lastSentTime (pacer b))"
  using assms
proof (induction es arbitrary: N b)
  case (Cons e es)
  obtain b1 where b1: "allowed rnd d e b" "brutal_step rnd d e b = Some b1" "brutal_run rnd d es b1 = Some b'"
    and ok: "brutal_ok rnd d B S (N + reports [e]) b1" and w: "list_all (within_limits B S) es" and N: "N + reports [e] + reports es < 2 ^ 64"
    by (rule run_Cons [OF Cons.prems(1-6)])
  note IH = Cons.IH [OF ok Cons.prems(2,3) w N b1(3)]
  show ?case
  proof (cases "\<exists>t n. e = Sent t n")
    case True
    then obtain t n where e: "e = Sent t n" by blast
    note st = sent_step [OF Cons.prems(1,2) b1(1) [unfolded e]]
    have b1e: "b1 = OnPacketSent rnd d t n b" "0 < t" using b1(1,2) e by simp_all
    have le: "Second * (n + budgetAtLastSent (pacer b1)) \<le> Second * budgetAtLastSent (pacer b) + most B * (t - lastSentTime (pacer b))"
      using st(4) drain_budget(1) [OF Cons.prems(1)] drain_budget(2) [of b] Cons.prems(7) by (simp add: b1e)
    have l: "lastSentTime (pacer b1) = t" using st(2) b1e by simp
    show ?thesis
    proof (cases "sends es = []")
      case True
      have "0 \<le> budgetAtLastSent (pacer b1)" using brutal_okD(6) [OF ok] by (simp add: pacer_fits_def)
      then show ?thesis using le True by (simp add: e bytes_sent_def)
    next
      case False
      then show ?thesis using IH le l b1e(2) by (simp add: e bytes_sent_def algebra_simps)
    qed
  next
    case False
    note o = other_step [OF Cons.prems(1) b1(1,2) False]
    have "sends (e # es) = sends es" using False by (cases e) simp_all
    then show ?thesis using IH o Cons.prems(7,8) by (simp add: bytes_sent_def)
  qed
qed simp

lemma run_conforms:
  assumes "brutal_ok rnd d B S N b" and "int B \<le> 2 ^ 52" and "S \<le> 65536" and "list_all (within_limits B S) es" and "N + reports es < 2 ^ 64"
    and "brutal_run rnd d es b = Some b'" and "sends es \<noteq> []"
  shows "Second * bytes_sent es \<le> Second * max (2 * d * most B div Second) (10 * S) + most B * (fst (last (sends es)) - fst (hd (sends es)))"
  using assms
proof (induction es arbitrary: N b)
  case (Cons e es)
  obtain b1 where b1: "allowed rnd d e b" "brutal_step rnd d e b = Some b1" "brutal_run rnd d es b1 = Some b'"
    and ok: "brutal_ok rnd d B S (N + reports [e]) b1" and w: "list_all (within_limits B S) es" and N: "N + reports [e] + reports es < 2 ^ 64"
    by (rule run_Cons [OF Cons.prems(1-6)])
  show ?case
  proof (cases "\<exists>t n. e = Sent t n")
    case True
    then obtain t n where e: "e = Sent t n" by blast
    note st = sent_step [OF Cons.prems(1,2) b1(1) [unfolded e]]
    have b1e: "b1 = OnPacketSent rnd d t n b" "0 < t" using b1(1,2) e by simp_all
    note dr = brutal_okD [OF brutal_drain_ok [OF Cons.prems(1)]]
    have "maxBurstSize d (most B) (pacer (drainPending b)) \<le> max (2 * d * most B div Second) (10 * S)"
      using maxBurst_bounds(3) [OF dr(6)] dr(7,8) by simp
    then have le: "n + budgetAtLastSent (pacer b1) \<le> max (2 * d * most B div Second) (10 * S)" using st(3) b1e by simp
    show ?thesis
    proof (cases "sends es = []")
      case True
      have "0 \<le> budgetAtLastSent (pacer b1)" using brutal_okD(6) [OF ok] by (simp add: pacer_fits_def)
      then show ?thesis using le True by (simp add: e bytes_sent_def)
    next
      case False
      then show ?thesis
        using run_bound [OF ok Cons.prems(2,3) w N b1(3)] le st(2) b1e by (simp add: e bytes_sent_def algebra_simps)
    qed
  next
    case False
    have "sends (e # es) = sends es" using False by (cases e) simp_all
    then show ?thesis using Cons.IH [OF ok Cons.prems(2,3) w N b1(3)] Cons.prems(7) by (simp add: bytes_sent_def)
  qed
qed simp

end

lemma new_ok:
  assumes "0 \<le> initial" and "initial \<le> S" and "S \<le> 65536" and "unat rate \<le> B" and "0 \<le> d" and "2 * d * most B < 2 ^ 63"
  shows "brutal_ok f64 d B S 0 (NewBrutalSender initial rate disable)"
proof -
  have "slots_total (replicate 5 (empty_slot 0)) = 0" by (simp add: slots_total_def slot_count_def empty_slot_def eval_nat_numeral)
  moreover have "0 \<le> most B" by (simp add: most_def)
  ultimately show ?thesis
    using assms f64.minAckRate_bounds(2) by (simp add: brutal_ok_def NewBrutalSender_def NewPacer_def pacer_fits_def brutal_consts maxBurstPackets_def)
qed

lemma f64_int: "n \<le> 2 ^ 53 \<Longrightarrow> f64 (of_nat n) = of_nat n"
proof -
  assume "n \<le> 2 ^ 53"
  then have "\<bar>int n\<bar> \<le> 2 ^ 53" by (simp add: nat_le_iff [symmetric])
  then show ?thesis using f64.exact_int [of "int n"] by simp
qed

text \<open>
  C29. The sender keeps to its rate, whatever is reported to it. In every state of a run the acknowledgement rate lies between 0.8 and 1 and the pacing
  bandwidth between the declared rate and five quarters of it (plus two bytes for rounding); and the bytes sent in any later part of the run are at most
  one burst and what five quarters of the largest declared rate earn between its first and its last packet, across losses, congestion marks, path
  changes, rate changes and changes of the datagram size.
\<close>

theorem brutal_rate_bound:
  assumes "0 \<le> initial" and "initial \<le> S" and "S \<le> 65536" and "unat rate \<le> B" and "int B \<le> 2 ^ 52" and "0 \<le> d" and "2 * d * most B < 2 ^ 63"
    and "brutal_run f64 d pre (NewBrutalSender initial rate disable) = Some b" and "brutal_run f64 d post b = Some b'"
    and "list_all (within_limits B S) (pre @ post)" and "reports pre + reports post < 2 ^ 64"
  shows "f64 0.8 \<le> ackRate b \<and> ackRate b \<le> 1
    \<and> int (unat (bps b)) \<le> getBandwidth f64 b \<and> getBandwidth f64 b \<le> 5 * int (unat (bps b)) div 4 + 2
    \<and> (sends post \<noteq> [] \<longrightarrow> Second * bytes_sent post \<le>
      Second * max (2 * d * most B div Second) (10 * S) + most B * (fst (last (sends post)) - fst (hd (sends post))))"
proof -
  have w: "list_all (within_limits B S) pre" "list_all (within_limits B S) post" using assms(10) by simp_all
  have "0 + reports pre < 2 ^ 64" "0 + reports pre + reports post < 2 ^ 64" using assms(11) by simp_all
  note N = this
  have ok: "brutal_ok f64 d B S (0 + reports pre) b"
    by (rule f64.run_ok [OF new_ok [OF assms(1-4,6,7)] assms(5,3) w(1) N(1) assms(8)])
  note k = brutal_okD [OF ok]
  have "f64 0.8 \<le> ackRate b" using k(3) by (simp add: minAckRate_def)
  have "int (unat (bps b)) \<le> 2 ^ 52" using k(5) assms(5) by linarith
  note f64.bandwidth_bounds [OF refl this k(3,4)]
  moreover note f64.run_conforms [OF ok assms(5,3) w(2) N(2) assms(9)]
  ultimately show ?thesis using k(4) \<open>f64 0.8 \<le> ackRate b\<close> by blast
qed

lemma ByteCount_of_nat:
  assumes "n \<le> 2 ^ 52"
  shows "ByteCount_of (real n) = int n"
proof -
  have "int n < 2 ^ 63" using assms by simp
  with ByteCount_of_between [of "int n" "real n" "int n"] show ?thesis by simp
qed

lemma bandwidth_start:
  assumes "unat (bps b) = n" and "n \<le> 2 ^ 52" and "ackRate b = 1"
  shows "getBandwidth f64 b = int n"
  using assms ByteCount_of_nat [OF assms(2)] f64_int [of n] by (simp add: getBandwidth_def)

theorem brutal_rate_bound_witness:
  "\<exists>b b'. brutal_run f64 1000000 [Rate 2000] (NewBrutalSender 1280 1000 False) = Some b \<and> brutal_run f64 1000000 [Sent 5 1200] b = Some b'
    \<and> Second * bytes_sent [Sent 5 1200] \<le> Second * max (2 * 1000000 * most 2000 div Second) (10 * 1280) + most 2000 * 0"
proof -
  define b where "b = SetBPS 2000 (NewBrutalSender 1280 1000 False)"
  have "getBandwidth f64 b = 2000" by (subst bandwidth_start [of _ 2000]) (simp_all add: b_def SetBPS_def NewBrutalSender_def)
  then have "allowed f64 1000000 (Sent 5 1200) b"
    by (simp add: HasPacingBudget_def Let_def) (simp add: b_def SetBPS_def NewBrutalSender_def NewPacer_def Budget_def maxBurstSize_def
        maxBurstPackets_def maxBurstPacingDelayMultiplier_def wrap64_def p_Reset_def)
  then have r: "brutal_run f64 1000000 [Rate 2000] (NewBrutalSender 1280 1000 False) = Some b"
    "brutal_run f64 1000000 [Sent 5 1200] b = Some (OnPacketSent f64 1000000 5 1200 b)"
    by (simp_all add: b_def)
  show ?thesis
    using brutal_rate_bound [of 1280 1280 1000 2000 1000000 "[Rate 2000]" False b "[Sent 5 1200]", OF _ _ _ _ _ _ _ r] r by (simp add: most_def)
qed


section \<open>Measuring a new path\<close>

text \<open>
  The samples a run takes, and the floor that follows from them: nothing before eight samples have come in over half a second, then their minimum.
\<close>

fun rtt_samples :: "brutal_event list \<Rightarrow> (instant \<times> duration) list" where
  "rtt_samples [] = []"
| "rtt_samples (Reported rtt t acked lost # es) = (if acked \<noteq> [] \<and> LatestRTT rtt > 0 then [(t, LatestRTT rtt)] else []) @ rtt_samples es"
| "rtt_samples (e # es) = rtt_samples es"

definition path_floor :: "(instant \<times> duration) list \<Rightarrow> duration" where
  "path_floor ss = (if 8 \<le> length ss \<and> 500 * Millisecond \<le> fst (last ss) - fst (hd ss) then Min (snd ` set ss) else 0)"

lemma rtt_samples_append: "rtt_samples (xs @ ys) = rtt_samples xs @ rtt_samples ys"
  by (induction xs rule: rtt_samples.induct) auto

definition measured :: "(instant \<times> duration) list \<Rightarrow> BrutalSender \<Rightarrow> bool" where
  "measured ss b \<longleftrightarrow> pathHasChanged b \<and> \<not> pathReset b \<and> rebaselineSamples b = length ss \<and> minRTTFloor b = path_floor ss
     \<and> rebaselineMin b = (if ss = [] then 0 else Min (snd ` set ss)) \<and> (ss \<noteq> [] \<longrightarrow> rebaselineStart b = fst (hd ss))"

text \<open>The fields a measurement lives in.\<close>

definition same_path :: "BrutalSender \<Rightarrow> BrutalSender \<Rightarrow> bool" where
  "same_path b b' \<longleftrightarrow> pathHasChanged b' = pathHasChanged b \<and> pathReset b' = pathReset b \<and> rebaselineSamples b' = rebaselineSamples b
     \<and> minRTTFloor b' = minRTTFloor b \<and> rebaselineMin b' = rebaselineMin b \<and> rebaselineStart b' = rebaselineStart b"

lemma same_pathI [intro]:
  "pathHasChanged b' = pathHasChanged b \<Longrightarrow> pathReset b' = pathReset b \<Longrightarrow> rebaselineSamples b' = rebaselineSamples b \<Longrightarrow> minRTTFloor b' = minRTTFloor b
   \<Longrightarrow> rebaselineMin b' = rebaselineMin b \<Longrightarrow> rebaselineStart b' = rebaselineStart b \<Longrightarrow> same_path b b'"
  by (simp add: same_path_def)

lemma same_path_trans: "same_path a b \<Longrightarrow> same_path b c \<Longrightarrow> same_path a c"
  by (simp add: same_path_def)

lemma same_path_drain: "same_path b b' \<Longrightarrow> same_path (drainPending b) (drainPending b')"
  by (simp add: same_path_def drainPending_def Let_def)

lemma drain_drain: "same_path (drainPending b) (drainPending (drainPending b))"
  by (auto simp: drainPending_def Let_def)

lemma measured_same_path: "same_path b b' \<Longrightarrow> measured ss b \<Longrightarrow> measured ss b'"
  by (simp add: same_path_def measured_def)

lemma measured_no_reset: "measured ss b \<Longrightarrow> measured ss (drainPending b)"
  by (auto simp: measured_def drainPending_def Let_def)

lemma takeBacks_path: "same_path b (fold takeBack pns b)"
proof (induction pns arbitrary: b)
  case (Cons pn pns)
  have "same_path b (takeBack pn b)" by (auto simp: takeBack_def Let_def split: option.splits)
  then show ?case using Cons.IH same_path_trans by fastforce
qed auto

lemma updateAckRate_path: "same_path b (updateAckRate rnd rtt t b)"
proof -
  have "same_path b (updateCongestionGate rnd rtt e b)" for e by (auto simp: updateCongestionGate_def Let_def)
  then show ?thesis by (auto simp: updateAckRate_def Let_def same_path_def)
qed

lemma event_path:
  assumes "OnCongestionEventEx rnd rtt t acked lost b = Some b'"  and "0 \<le> t"
  shows "same_path (let b = drainPending b in if pathHasChanged b \<and> acked \<noteq> [] then rebaseline rtt t b else b) b'" (is "same_path ?b1 b'")
proof -
  let ?s = "sampled rtt t acked lost b"
  have e: "b' = updateAckRate rnd rtt (t div Second) (tracked (t div Second) lost (fold takeBack acked ?s))"
    using assms(1) OnCongestionEventEx_stages [OF assms(2)] by simp
  have "same_path ?b1 ?s"
  proof -
    define b1 where "b1 = ?b1"
    show ?thesis unfolding b1_def [symmetric] unfolding sampled_def Let_def b1_def [unfolded Let_def, symmetric]
      by (rule same_pathI) (simp_all add: pruneLostPNs_def)
  qed
  moreover have "same_path c (tracked (t div Second) lost c)" for c by (auto simp: tracked_def)
  note same_path_trans [OF takeBacks_path same_path_trans [OF this updateAckRate_path]]
  ultimately show ?thesis unfolding e by (rule same_path_trans)
qed

lemma path_floor_snoc:
  assumes "sorted (map fst (ss @ [(t, r)]))" and "0 < r" and "list_all (\<lambda>(_, r). 0 < r) ss"
  shows "path_floor (ss @ [(t, r)]) =
    (if 0 < path_floor ss \<or> (8 \<le> length ss + 1 \<and> 500 * Millisecond \<le> t - fst (hd (ss @ [(t, r)]))) then Min (snd ` set (ss @ [(t, r)])) else 0)"
proof (cases "ss = []")
  case False
  have "0 < Min (snd ` set ss)" using False assms(3) by (force simp: list_all_iff)
  moreover have "fst (last ss) \<le> t" using assms(1) False by (auto simp: sorted_append)
  moreover have "fst (hd (ss @ [(t, r)])) = fst (hd ss)" using False by simp
  ultimately show ?thesis using False unfolding path_floor_def by auto
qed (simp add: path_floor_def)

lemma Min_snoc: "Min (snd ` set (ss @ [(t, r)])) = (if ss = [] then r else min (Min (snd ` set ss)) r)" for r :: int
  by (simp add: min.commute)

lemma measured_rebaseline:
  assumes m: "measured ss b" and pos: "0 < LatestRTT rtt" "list_all (\<lambda>(_, r). 0 < r) ss" and s: "sorted (map fst (ss @ [(t, LatestRTT rtt)]))"
  shows "measured (ss @ [(t, LatestRTT rtt)]) (rebaseline rtt t b)"
proof -
  let ?r = "LatestRTT rtt" let ?ss = "ss @ [(t, LatestRTT rtt)]"
  have start: "(if rebaselineSamples b = 0 then t else rebaselineStart b) = fst (hd ?ss)" using m by (auto simp: measured_def)
  have "0 < Min (snd ` set ss)" if "ss \<noteq> []" using that pos(2) by (force simp: list_all_iff)
  then have mn: "(if rebaselineMin b = 0 \<or> ?r < rebaselineMin b then ?r else rebaselineMin b) = Min (snd ` set ?ss)"
  proof (cases "ss = []")
    case False
    then have "rebaselineMin b = Min (snd ` set ss)" "0 < rebaselineMin b" using m \<open>ss \<noteq> [] \<Longrightarrow> 0 < Min (snd ` set ss)\<close> by (simp_all add: measured_def)
    then show ?thesis unfolding Min_snoc \<open>rebaselineMin b = Min (snd ` set ss)\<close> [symmetric] using False by (auto simp: min_def)
  qed (use m in \<open>simp add: measured_def\<close>)
  have "rebaselineSamples (rebaseline rtt t b) = length ?ss" "pathHasChanged (rebaseline rtt t b)" "\<not> pathReset (rebaseline rtt t b)"
    "rebaselineMin (rebaseline rtt t b) = Min (snd ` set ?ss)" "rebaselineStart (rebaseline rtt t b) = fst (hd ?ss)"
    using m pos(1) unfolding mn [symmetric] start [symmetric] by (simp_all add: rebaseline_def Let_def measured_def)
  moreover have "minRTTFloor (rebaseline rtt t b) =
      (if 0 < minRTTFloor b \<or> (8 \<le> rebaselineSamples b + 1 \<and> 500 * Millisecond \<le> t - fst (hd ?ss)) then Min (snd ` set ?ss) else minRTTFloor b)"
    using pos(1) unfolding mn [symmetric] start [symmetric] by (simp add: rebaseline_def Let_def brutal_consts)
  moreover have "\<not> 0 < path_floor ss \<Longrightarrow> path_floor ss = 0"
    using pos(2) by (cases "ss = []") (force simp: path_floor_def list_all_iff)+
  ultimately show ?thesis using m path_floor_snoc [OF s pos] unfolding measured_def by auto
qed


lemma posted_path: "same_path b (OnCongestionEvent n b)" "same_path b (SetBPS r b)" "same_path b (b_SetMaxDatagramSize s b)"
  by (simp_all add: same_path_def OnCongestionEvent_def SetBPS_def b_SetMaxDatagramSize_def)

lemma measured_step:
  assumes m: "measured ss (drainPending b)" and st: "brutal_step rnd d e b = Some b'" and a: "allowed rnd d e b" and e: "e \<noteq> Path_changed"
    and pos: "list_all (\<lambda>(_, r). 0 < r) ss" and s: "sorted (map fst (ss @ rtt_samples [e]))"
  shows "measured (ss @ rtt_samples [e]) (drainPending b')"
proof (cases "\<exists>rtt t acked lost. e = Reported rtt t acked lost")
  case True
  then obtain rtt t acked lost where e: "e = Reported rtt t acked lost" by blast
  let ?b1 = "let b = drainPending b in if pathHasChanged b \<and> acked \<noteq> [] then rebaseline rtt t b else b"
  have "pathHasChanged (drainPending b)" using m by (simp add: measured_def)
  then have b1: "?b1 = (if acked \<noteq> [] then rebaseline rtt t (drainPending b) else drainPending b)" by simp
  have "measured (ss @ rtt_samples [e]) ?b1"
  proof (cases "acked \<noteq> [] \<and> 0 < LatestRTT rtt")
    case True
    then show ?thesis unfolding b1 using measured_rebaseline [OF m, of rtt t] pos s by (simp add: e)
  next
    case False
    then show ?thesis unfolding b1 using m by (auto simp: e rebaseline_def)
  qed
  then show ?thesis using measured_same_path [OF event_path] measured_no_reset st a by (simp add: e)
next
  case False
  then have n: "rtt_samples [e] = []" by (cases e) simp_all
  have "same_path (drainPending b) (drainPending b')"
  proof (cases e)
    case (Asked t)
    then show ?thesis using st drain_drain by (auto simp: HasPacingBudget_def Let_def)
  next
    case (Sent t n)
    have "same_path (drainPending b) b'" using st by (auto simp: Sent OnPacketSent_def Let_def)
    from same_path_trans [OF drain_drain same_path_drain [OF this]] show ?thesis .
  qed (use st False e in \<open>auto intro!: same_path_drain posted_path\<close>)
  then show ?thesis using m measured_same_path by (simp add: n)
qed

lemma measured_run:
  assumes "measured ss (drainPending b)" and "brutal_run rnd d es b = Some b'" and "Path_changed \<notin> set es"
    and "list_all (\<lambda>(_, r). 0 < r) ss" and "sorted (map fst (ss @ rtt_samples es))"
  shows "measured (ss @ rtt_samples es) (drainPending b')"
  using assms
proof (induction es arbitrary: ss b)
  case (Cons e es)
  from Cons.prems(2) obtain b1 where b1: "allowed rnd d e b" "brutal_step rnd d e b = Some b1" "brutal_run rnd d es b1 = Some b'"
    by (auto split: if_splits Option.bind_splits)
  have r: "rtt_samples (e # es) = rtt_samples [e] @ rtt_samples es" using rtt_samples_append [of "[e]" es] by simp
  have "list_all (\<lambda>(_, r). 0 < r) (ss @ rtt_samples [e])" using Cons.prems(4) by (cases e) auto
  moreover have "measured (ss @ rtt_samples [e]) (drainPending b1)"
    using measured_step [OF Cons.prems(1) b1(2,1) _ Cons.prems(4)] Cons.prems(3,5) by (auto simp: r sorted_append)
  ultimately show ?case using Cons.IH [OF _ b1(3), of "ss @ rtt_samples [e]"] Cons.prems(3,5) by (simp add: r)
qed simp

text \<open>
  C30. Measuring a new path: after a path change, and until the next one, the minimal round trip the sender works with is the library's lifetime minimum
  as long as fewer than eight acknowledged samples have come in or they span less than half a second, and from then on exactly the minimum of the
  samples taken since the change, so that it can fall but never rise. Packets, losses, congestion marks and changes of rate or datagram size in between
  make no difference.
\<close>

theorem brutal_path_floor:
  assumes "brutal_run rnd d (Path_changed # es) b = Some b'" and "Path_changed \<notin> set es" and "sorted (map fst (rtt_samples es))"
  shows "minRTT rtt (drainPending b') = (if path_floor (rtt_samples es) > 0 then path_floor (rtt_samples es) else MinRTT rtt)"
proof -
  have "measured [] (drainPending (OnPathChange b))"
    by (simp add: measured_def drainPending_def OnPathChange_def path_floor_def Let_def)
  from measured_run [OF this _ assms(2), of rnd d b'] have "measured (rtt_samples es) (drainPending b')" using assms(1,3) by simp
  then show ?thesis by (simp add: minRTT_def measured_def)
qed

text \<open>Eight samples over 700 ms, the lowest of them in the middle of a queue that drains.\<close>

definition floor_witness_run :: "brutal_event list" where
  "floor_witness_run = map (\<lambda>(t, r). Reported \<lparr>LatestRTT = r, SmoothedRTT = r, MinRTT = 10\<rparr> (t * Millisecond) [t] [])
     [(0, 90), (100, 80), (200, 70), (300, 60), (400, 50), (500, 60), (600, 70), (700, 80)]"

lemma run_reports:
  assumes "list_all (\<lambda>e. \<exists>rtt t acked lost. e = Reported rtt t acked lost \<and> 0 \<le> t) es"
  shows "\<exists>b'. brutal_run rnd d es b = Some b'"
  using assms
proof (induction es arbitrary: b)
  case (Cons e es)
  then obtain rtt t acked lost where e: "e = Reported rtt t acked lost" "0 \<le> t" by auto
  then show ?case using Cons OnCongestionEventEx_stages [OF e(2)] by simp
qed simp

theorem brutal_path_floor_witness:
  "\<exists>b'. brutal_run f64 1000000 (Path_changed # floor_witness_run) (NewBrutalSender 1280 1000 False) = Some b'
    \<and> minRTT \<lparr>LatestRTT = 80, SmoothedRTT = 70, MinRTT = 10\<rparr> (drainPending b') = 50"
proof -
  have s: "rtt_samples floor_witness_run = map (\<lambda>(t, r). (t * Millisecond, r)) [(0, 90), (100, 80), (200, 70), (300, 60), (400, 50), (500, 60), (600, 70), (700, 80)]"
    by (simp add: floor_witness_run_def)
  have "\<exists>b'. brutal_run f64 1000000 floor_witness_run (OnPathChange (NewBrutalSender 1280 1000 False)) = Some b'"
    by (rule run_reports) (simp add: floor_witness_run_def)
  then obtain b' where "brutal_run f64 1000000 (Path_changed # floor_witness_run) (NewBrutalSender 1280 1000 False) = Some b'" by auto
  moreover from brutal_path_floor [OF this] have "minRTT \<lparr>LatestRTT = 80, SmoothedRTT = 70, MinRTT = 10\<rparr> (drainPending b') = 50"
    by (simp add: s path_floor_def) (simp add: floor_witness_run_def)
  ultimately show ?thesis by blast
qed


section \<open>The window\<close>

text \<open>
  The congestion window: at least 32 datagrams, or the library's ceiling where that is less, and never above the ceiling; and the round trip it is
  sized from lies between the minimum of the path and twice that minimum (or the pacing granularity, where that is larger), however long the queue has
  made the smoothed round trip.
\<close>

theorem brutal_window:
  assumes "0 \<le> b_maxDatagramSize b" and "0 < minRTT rtt b"
  shows "min (32 * b_maxDatagramSize b) (maxPackets * b_maxDatagramSize b) \<le> GetCongestionWindow rnd d maxPackets rtt b
    \<and> GetCongestionWindow rnd d maxPackets rtt b \<le> maxPackets * b_maxDatagramSize b
    \<and> max (minRTT rtt b) d \<le> windowRTT d rtt b \<and> windowRTT d rtt b \<le> max (2 * minRTT rtt b) d"
  using assms by (auto simp: GetCongestionWindow_def windowRTT_def brutal_consts Let_def)

theorem brutal_window_witness:
  "let b = NewBrutalSender 1280 1000 False; rtt = \<lparr>LatestRTT = 80, SmoothedRTT = 70, MinRTT = 10\<rparr>
   in 40960 \<le> GetCongestionWindow f64 1 10000 rtt b \<and> windowRTT 1 rtt b \<le> 20"
  using brutal_window [of "NewBrutalSender 1280 1000 False" "\<lparr>LatestRTT = 80, SmoothedRTT = 70, MinRTT = 10\<rparr>" 10000 f64 1]
  by (simp add: NewBrutalSender_def minRTT_def Let_def)

end
