(* ===== verification/Ring_Buffer.thy ===== *)
theory Ring_Buffer
  imports Prelude
begin

text \<open>
  The growing ring buffer of the BBR controller (\<open>core/internal/congestion/bbr/ringbuffer.go\<close>), refined to a list. A panic is \<open>None\<close>; a
  returned pointer is the position in the ring it points to; \<open>zero\<close> is the zero value of the element type.
\<close>

section \<open>The interface: a sequence with a back and a front\<close>

locale sequence =
  fixes invar :: "'q \<Rightarrow> bool" and items :: "'q \<Rightarrow> 'a list"
    and push :: "'a \<Rightarrow> 'q \<Rightarrow> 'q" and pop :: "'q \<Rightarrow> ('a \<times> 'q) option"
    and at :: "'q \<Rightarrow> nat \<Rightarrow> 'a option" and modify :: "('a \<Rightarrow> 'a) \<Rightarrow> nat \<Rightarrow> 'q \<Rightarrow> 'q"
  assumes push: "invar q \<Longrightarrow> invar (push x q) \<and> items (push x q) = items q @ [x]"
    and pop_empty: "invar q \<Longrightarrow> items q = [] \<Longrightarrow> pop q = None"
    and pop_cons: "invar q \<Longrightarrow> items q = x # xs \<Longrightarrow> \<exists>q'. pop q = Some (x, q') \<and> invar q' \<and> items q' = xs"
    and at: "invar q \<Longrightarrow> at q i = (if i < length (items q) then Some (items q ! i) else None)"
    and modify: "invar q \<Longrightarrow> i < length (items q) \<Longrightarrow> invar (modify f i q) \<and> items (modify f i q) = (items q)[i := f (items q ! i)]"
begin

text \<open>Pushing and popping repeatedly.\<close>

lemma push_replicate: "invar q \<Longrightarrow> invar ((push x ^^ n) q) \<and> items ((push x ^^ n) q) = items q @ replicate n x"
  by (induction n) (auto simp: push replicate_append_same)

fun pops :: "nat \<Rightarrow> 'q \<Rightarrow> 'q option" where
  "pops 0 q = Some q"
| "pops (Suc n) q = (case pop q of None \<Rightarrow> None | Some (_, q') \<Rightarrow> pops n q')"

lemma pops_drop: "invar q \<Longrightarrow> n \<le> length (items q) \<Longrightarrow> \<exists>q'. pops n q = Some q' \<and> invar q' \<and> items q' = drop n (items q)"
proof (induction n arbitrary: q)
  case (Suc n)
  then obtain x xs where xs: "items q = x # xs" by (cases "items q") auto
  then obtain q1 where "pop q = Some (x, q1)" "invar q1" "items q1 = xs" using pop_cons Suc.prems(1) by blast
  then show ?case using Suc xs by auto
qed auto

lemma pop_iff: "invar q \<Longrightarrow> pop q = None \<longleftrightarrow> items q = []"
  using pop_empty pop_cons by (cases "items q") fastforce+

end


section \<open>The ring\<close>

record 'a RingBuffer =
  ring :: "'a list"
  headPos :: nat
  tailPos :: nat
  rb_full :: bool

definition zero_RingBuffer :: "'a RingBuffer" where
  "zero_RingBuffer = \<lparr>ring = [], headPos = 0, tailPos = 0, rb_full = False\<rparr>"

definition rb_Init :: "'a \<Rightarrow> nat \<Rightarrow> 'a RingBuffer \<Rightarrow> 'a RingBuffer" where
  "rb_Init zero n r = r\<lparr>ring := replicate n zero\<rparr>"

definition rb_Len :: "'a RingBuffer \<Rightarrow> nat" where
  "rb_Len r =
     (if rb_full r then length (ring r)
      else if tailPos r \<ge> headPos r then tailPos r - headPos r
      else tailPos r + length (ring r) - headPos r)"

definition rb_Empty :: "'a RingBuffer \<Rightarrow> bool" where
  "rb_Empty r = (\<not> rb_full r \<and> headPos r = tailPos r)"

text \<open>The two copies of \<open>grow\<close>: the part from the head on, then the part before it, into a zeroed ring of twice the size.\<close>

definition rb_grow :: "'a \<Rightarrow> 'a RingBuffer \<Rightarrow> 'a RingBuffer" where
  "rb_grow zero r =
     (let oldRing = ring r;
          newSize = (if length oldRing * 2 = 0 then 1 else length oldRing * 2);
          copied = drop (headPos r) oldRing @ take (headPos r) oldRing
      in r\<lparr>ring := copied @ replicate (newSize - length copied) zero, headPos := 0, tailPos := length oldRing, rb_full := False\<rparr>)"

definition rb_PushBack :: "'a \<Rightarrow> 'a \<Rightarrow> 'a RingBuffer \<Rightarrow> 'a RingBuffer" where
  "rb_PushBack zero t r =
     (let r = (if rb_full r \<or> length (ring r) = 0 then rb_grow zero r else r);
          r = r\<lparr>ring := (ring r)[tailPos r := t], tailPos := tailPos r + 1\<rparr>;
          r = (if tailPos r = length (ring r) then r\<lparr>tailPos := 0\<rparr> else r)
      in if tailPos r = headPos r then r\<lparr>rb_full := True\<rparr> else r)"

definition rb_PopFront :: "'a \<Rightarrow> 'a RingBuffer \<Rightarrow> ('a \<times> 'a RingBuffer) option" where
  "rb_PopFront zero r =
     (if rb_Empty r then None
      else let r = r\<lparr>rb_full := False\<rparr>;
               t = ring r ! headPos r;
               r = r\<lparr>ring := (ring r)[headPos r := zero], headPos := headPos r + 1\<rparr>
           in Some (t, if headPos r = length (ring r) then r\<lparr>headPos := 0\<rparr> else r))"

definition rb_Offset :: "'a RingBuffer \<Rightarrow> nat \<Rightarrow> nat option" where
  "rb_Offset r index =
     (if rb_Empty r \<or> index \<ge> rb_Len r then None else Some ((headPos r + index) mod length (ring r)))"

definition rb_Front :: "'a RingBuffer \<Rightarrow> nat option" where
  "rb_Front r = (if rb_Empty r then None else Some (headPos r))"

definition rb_Back :: "'a RingBuffer \<Rightarrow> nat option" where
  "rb_Back r = (if rb_Empty r then None else rb_Offset r (rb_Len r - 1))"

definition rb_Clear :: "'a \<Rightarrow> 'a RingBuffer \<Rightarrow> 'a RingBuffer" where
  "rb_Clear zero r = r\<lparr>ring := map (\<lambda>_. zero) (ring r), headPos := 0, tailPos := 0, rb_full := False\<rparr>"

text \<open>Reading and writing through a pointer into the ring.\<close>

definition rb_at :: "'a RingBuffer \<Rightarrow> nat \<Rightarrow> 'a option" where
  "rb_at r i = map_option (\<lambda>p. ring r ! p) (rb_Offset r i)"

definition rb_modify :: "('a \<Rightarrow> 'a) \<Rightarrow> nat \<Rightarrow> 'a RingBuffer \<Rightarrow> 'a RingBuffer" where
  "rb_modify f i r =
     (case rb_Offset r i of None \<Rightarrow> r | Some p \<Rightarrow> r\<lparr>ring := (ring r)[p := f (ring r ! p)]\<rparr>)"


section \<open>The refinement\<close>

definition rb_ok :: "'a RingBuffer \<Rightarrow> bool" where
  "rb_ok r \<longleftrightarrow>
     (if ring r = [] then headPos r = 0 \<and> tailPos r = 0 \<and> \<not> rb_full r
      else headPos r < length (ring r) \<and> tailPos r < length (ring r) \<and> (rb_full r \<longrightarrow> headPos r = tailPos r))"

definition rb_items :: "'a RingBuffer \<Rightarrow> 'a list" where
  "rb_items r = take (rb_Len r) (drop (headPos r) (ring r) @ take (headPos r) (ring r))"

lemma rb_Len_le: "rb_ok r \<Longrightarrow> rb_Len r \<le> length (ring r)"
  by (auto simp: rb_ok_def rb_Len_def split: if_splits)

lemma length_rb_items [simp]: "rb_ok r \<Longrightarrow> length (rb_items r) = rb_Len r"
  using rb_Len_le [of r] by (auto simp: rb_items_def rb_ok_def split: if_splits)

lemma rb_Empty_Len: "rb_ok r \<Longrightarrow> rb_Empty r \<longleftrightarrow> rb_Len r = 0"
  by (auto simp: rb_Empty_def rb_Len_def rb_ok_def split: if_splits)

lemma rb_Empty_items: "rb_ok r \<Longrightarrow> rb_Empty r \<longleftrightarrow> rb_items r = []"
  by (metis length_0_conv length_rb_items rb_Empty_Len)

lemma ring_pos: "h < n \<Longrightarrow> i < n \<Longrightarrow> (h + i) mod n = (if h + i < n then h + i else h + i - n)" for h i n :: nat
  by (auto simp: mod_if)

lemma ring_pos_inj: "h < n \<Longrightarrow> i < n \<Longrightarrow> j < n \<Longrightarrow> (h + i) mod n = (h + j) mod n \<longleftrightarrow> i = j" for h i j n :: nat
  by (auto simp: ring_pos split: if_splits)

lemma rb_items_nth:
  assumes "rb_ok r" and "i < rb_Len r"
  shows "rb_items r ! i = ring r ! ((headPos r + i) mod length (ring r))"
proof -
  have h: "headPos r < length (ring r)" "rb_Len r \<le> length (ring r)"
    using assms rb_Len_le [of r] by (auto simp: rb_ok_def rb_Len_def split: if_splits)
  then show ?thesis using assms(2) by (auto simp: ring_pos rb_items_def nth_append add.commute)
qed

lemma rb_at_items: "rb_ok r \<Longrightarrow> rb_at r i = (if i < length (rb_items r) then Some (rb_items r ! i) else None)"
  using rb_Empty_Len [of r] by (auto simp: rb_at_def rb_Offset_def rb_items_nth)

lemma rb_items_eqI:
  assumes "rb_ok r" and "rb_Len r = length xs"
    and "\<And>i. i < length xs \<Longrightarrow> ring r ! ((headPos r + i) mod length (ring r)) = xs ! i"
  shows "rb_items r = xs"
  using assms by (intro nth_equalityI) (simp_all add: rb_items_nth)

lemma rb_modify_items:
  assumes ok: "rb_ok r" and i: "i < length (rb_items r)"
  shows "rb_ok (rb_modify f i r) \<and> rb_items (rb_modify f i r) = (rb_items r)[i := f (rb_items r ! i)]"
proof -
  let ?n = "length (ring r)"
  let ?p = "(headPos r + i) mod ?n"
  have h: "headPos r < ?n" "rb_Len r \<le> ?n" "i < rb_Len r" "\<not> rb_Empty r"
    using ok i rb_Len_le [of r] rb_Empty_Len [of r] by (auto simp: rb_ok_def rb_Len_def split: if_splits)
  have m: "rb_modify f i r = r\<lparr>ring := (ring r)[?p := f (ring r ! ?p)]\<rparr>"
    using h by (simp add: rb_modify_def rb_Offset_def)
  have ok': "rb_ok (rb_modify f i r)" using ok by (auto simp: m rb_ok_def)
  have pos: "(headPos r + j) mod ?n = ?p \<longleftrightarrow> j = i" if "j < rb_Len r" for j
    using that h by (simp add: ring_pos_inj)
  have "rb_items (rb_modify f i r) = (rb_items r)[i := f (rb_items r ! i)]"
  proof (rule rb_items_eqI [OF ok'])
    show "rb_Len (rb_modify f i r) = length ((rb_items r)[i := f (rb_items r ! i)])" using ok by (simp add: m rb_Len_def)
    fix j assume "j < length ((rb_items r)[i := f (rb_items r ! i)])"
    then have j: "j < rb_Len r" using ok by simp
    have "?n > 0" using h by auto
    then show "ring (rb_modify f i r) ! ((headPos (rb_modify f i r) + j) mod length (ring (rb_modify f i r)))
        = (rb_items r)[i := f (rb_items r ! i)] ! j"
      using ok j pos [OF j] h by (auto simp: m nth_list_update rb_items_nth)
  qed
  with ok' show ?thesis by blast
qed

lemma rb_grow_items:
  assumes ok: "rb_ok r" and f: "rb_full r \<or> ring r = []"
  shows "rb_ok (rb_grow zero r) \<and> rb_items (rb_grow zero r) = rb_items r \<and> \<not> rb_full (rb_grow zero r) \<and> ring (rb_grow zero r) \<noteq> []"
proof -
  let ?c = "drop (headPos r) (ring r) @ take (headPos r) (ring r)"
  have l: "length ?c = length (ring r)" using ok by (auto simp: rb_ok_def split: if_splits)
  have "rb_Len r = length ?c" using f ok l by (auto simp: rb_Len_def rb_ok_def)
  then have "rb_items r = ?c" by (simp only: rb_items_def take_all order_refl)
  moreover have "rb_items (rb_grow zero r) = take (length ?c) ?c" using l by (simp add: rb_items_def rb_Len_def rb_grow_def Let_def)
  moreover have "rb_ok (rb_grow zero r)" "\<not> rb_full (rb_grow zero r)" "ring (rb_grow zero r) \<noteq> []"
    using l by (auto simp: rb_ok_def rb_grow_def Let_def)
  ultimately show ?thesis by (simp only: take_all order_refl simp_thms)
qed

text \<open>Pushing into a ring with room.\<close>

lemma rb_push_room:
  assumes ok: "rb_ok r" and nf: "\<not> rb_full r" "ring r \<noteq> []"
  shows "rb_ok (rb_PushBack zero t r) \<and> rb_items (rb_PushBack zero t r) = rb_items r @ [t]"
proof -
  let ?n = "length (ring r)" and ?r = "rb_PushBack zero t r"
  let ?tail = "if tailPos r + 1 = ?n then 0 else tailPos r + 1"
  have h: "headPos r < ?n" "tailPos r < ?n" using ok nf by (auto simp: rb_ok_def)
  have r: "ring ?r = (ring r)[tailPos r := t]" "headPos ?r = headPos r" "tailPos ?r = ?tail" "rb_full ?r \<longleftrightarrow> ?tail = headPos r"
    using nf by (auto simp: rb_PushBack_def Let_def)
  have ok': "rb_ok ?r" using h nf by (auto simp: rb_ok_def r)
  have len: "rb_Len ?r = Suc (rb_Len r)" using h nf by (auto simp: rb_Len_def r)
  have lt: "rb_Len r < ?n" using h nf by (auto simp: rb_Len_def)
  have tl: "tailPos r = (headPos r + rb_Len r) mod ?n"
    using h nf lt ring_pos [OF h(1) lt] by (auto simp: rb_Len_def)
  have pos: "(headPos r + i) mod ?n = tailPos r \<longleftrightarrow> i = rb_Len r" if "i < Suc (rb_Len r)" for i
  proof -
    have "i < ?n" using that lt by simp
    then show ?thesis unfolding tl by (rule ring_pos_inj [OF h(1) _ lt])
  qed
  have "rb_items ?r = rb_items r @ [t]"
  proof (rule rb_items_eqI [OF ok'])
    show "rb_Len ?r = length (rb_items r @ [t])" using ok len by simp
    fix i assume "i < length (rb_items r @ [t])"
    then have i: "i < Suc (rb_Len r)" using ok by simp
    show "ring ?r ! ((headPos ?r + i) mod length (ring ?r)) = (rb_items r @ [t]) ! i"
    proof (cases "i = rb_Len r")
      case True
      then have "(headPos r + i) mod ?n = tailPos r" using pos [OF i] by simp
      then show ?thesis using True ok h(2) by (simp add: r nth_append)
    next
      case False
      then have "tailPos r \<noteq> (headPos r + i) mod ?n" "i < rb_Len r" using pos [OF i] i by auto
      then show ?thesis using ok by (simp add: r nth_append rb_items_nth)
    qed
  qed
  with ok' show ?thesis by blast
qed

lemma rb_PushBack_items:
  assumes ok: "rb_ok r"
  shows "rb_ok (rb_PushBack zero t r) \<and> rb_items (rb_PushBack zero t r) = rb_items r @ [t]"
proof (cases "rb_full r \<or> ring r = []")
  case True
  note g = rb_grow_items [OF ok True, of zero]
  have "rb_PushBack zero t r = rb_PushBack zero t (rb_grow zero r)"
    using True g by (simp add: rb_PushBack_def)
  then show ?thesis using rb_push_room [of "rb_grow zero r" zero t] g by simp
next
  case False
  then show ?thesis using rb_push_room [OF ok] by simp
qed

lemma rb_PopFront_cons:
  assumes ok: "rb_ok r" and xs: "rb_items r = x # xs"
  shows "\<exists>r'. rb_PopFront zero r = Some (x, r') \<and> rb_ok r' \<and> rb_items r' = xs"
proof -
  let ?n = "length (ring r)"
  let ?head = "if headPos r + 1 = ?n then 0 else headPos r + 1"
  let ?r = "r\<lparr>ring := (ring r)[headPos r := zero], headPos := ?head, rb_full := False\<rparr>"
  have len: "rb_Len r = Suc (length xs)" using length_rb_items [OF ok] xs by simp
  have ne: "\<not> rb_Empty r" using rb_Empty_items [OF ok] xs by simp
  have h: "headPos r < ?n" "tailPos r < ?n" "rb_full r \<longrightarrow> headPos r = tailPos r"
    using ok len by (auto simp: rb_ok_def rb_Len_def split: if_splits)
  have x: "x = ring r ! headPos r" using rb_items_nth [OF ok, of 0] xs len h by simp
  have p: "rb_PopFront zero r = Some (x, ?r)" using ne x by (auto simp: rb_PopFront_def Let_def)
  have ok': "rb_ok ?r" using h by (auto simp: rb_ok_def)
  have "rb_items ?r = xs"
  proof (rule rb_items_eqI [OF ok'])
    show "rb_Len ?r = length xs" using len h ne by (auto simp: rb_Len_def rb_Empty_def split: if_splits)
    fix i assume i: "i < length xs"
    have le: "Suc (length xs) \<le> ?n" using rb_Len_le [OF ok] len by simp
    have "(?head + i) mod ?n = (headPos r + Suc i) mod ?n" "(headPos r + Suc i) mod ?n \<noteq> headPos r"
      using i h le ring_pos [of "headPos r" ?n "Suc i"] ring_pos [of ?head ?n i] by (auto split: if_splits)
    then show "ring ?r ! ((headPos ?r + i) mod length (ring ?r)) = xs ! i"
      using rb_items_nth [OF ok, of "Suc i"] len i xs by simp
  qed
  then show ?thesis using p ok' by blast
qed

lemma rb_PopFront_nil: "rb_ok r \<Longrightarrow> rb_items r = [] \<Longrightarrow> rb_PopFront zero r = None"
  by (simp add: rb_PopFront_def rb_Empty_items)

interpretation rb: sequence rb_ok rb_items "rb_PushBack zero" "rb_PopFront zero" rb_at rb_modify
  by unfold_locales (simp_all add: rb_PushBack_items rb_PopFront_nil rb_PopFront_cons rb_at_items rb_modify_items)

lemma rb_Clear_items: "rb_ok (rb_Clear zero r) \<and> rb_items (rb_Clear zero r) = []"
  by (auto simp: rb_Clear_def rb_ok_def rb_items_def rb_Len_def)

lemma rb_Init_items: "rb_ok (rb_Init zero n zero_RingBuffer) \<and> rb_items (rb_Init zero n zero_RingBuffer) = []"
  by (simp add: rb_Init_def zero_RingBuffer_def rb_ok_def rb_items_def rb_Len_def)

lemma rb_Front_at: "rb_ok r \<Longrightarrow> map_option (\<lambda>p. ring r ! p) (rb_Front r) = rb_at r 0"
  using rb_Empty_Len [of r]
  by (auto simp: rb_at_def rb_Front_def rb_Offset_def rb_ok_def rb_Len_def split: if_splits)

lemma rb_Back_at: "rb_ok r \<Longrightarrow> map_option (\<lambda>p. ring r ! p) (rb_Back r) = rb_at r (rb_Len r - 1)"
  by (auto simp: rb_at_def rb_Back_def rb_Offset_def)


section \<open>Property\<close>

text \<open>Sequences of calls, as the ring executes them and as a list would; a panic ends the sequence.\<close>

datatype 'a rb_call = PushBack 'a | PopFront | OffsetOf nat | FrontOf | BackOf | ClearAll | LenOf

fun rb_run :: "'a \<Rightarrow> 'a RingBuffer \<Rightarrow> 'a rb_call list \<Rightarrow> ('a option + nat) list" where
  "rb_run zero r [] = []"
| "rb_run zero r (PushBack x # cs) = rb_run zero (rb_PushBack zero x r) cs"
| "rb_run zero r (PopFront # cs) =
     (case rb_PopFront zero r of None \<Rightarrow> [Inl None] | Some (x, r) \<Rightarrow> Inl (Some x) # rb_run zero r cs)"
| "rb_run zero r (OffsetOf i # cs) =
     (case rb_Offset r i of None \<Rightarrow> [Inl None] | Some p \<Rightarrow> Inl (Some (ring r ! p)) # rb_run zero r cs)"
| "rb_run zero r (FrontOf # cs) =
     (case rb_Front r of None \<Rightarrow> [Inl None] | Some p \<Rightarrow> Inl (Some (ring r ! p)) # rb_run zero r cs)"
| "rb_run zero r (BackOf # cs) =
     (case rb_Back r of None \<Rightarrow> [Inl None] | Some p \<Rightarrow> Inl (Some (ring r ! p)) # rb_run zero r cs)"
| "rb_run zero r (ClearAll # cs) = rb_run zero (rb_Clear zero r) cs"
| "rb_run zero r (LenOf # cs) = Inr (rb_Len r) # rb_run zero r cs"

fun list_run :: "'a list \<Rightarrow> 'a rb_call list \<Rightarrow> ('a option + nat) list" where
  "list_run xs [] = []"
| "list_run xs (PushBack x # cs) = list_run (xs @ [x]) cs"
| "list_run xs (PopFront # cs) = (case xs of [] \<Rightarrow> [Inl None] | y # ys \<Rightarrow> Inl (Some y) # list_run ys cs)"
| "list_run xs (OffsetOf i # cs) = (if i < length xs then Inl (Some (xs ! i)) # list_run xs cs else [Inl None])"
| "list_run xs (FrontOf # cs) = (if xs = [] then [Inl None] else Inl (Some (hd xs)) # list_run xs cs)"
| "list_run xs (BackOf # cs) = (if xs = [] then [Inl None] else Inl (Some (last xs)) # list_run xs cs)"
| "list_run xs (ClearAll # cs) = list_run [] cs"
| "list_run xs (LenOf # cs) = Inr (length xs) # list_run xs cs"

lemma rb_run_list: "rb_ok r \<Longrightarrow> rb_run zero r cs = list_run (rb_items r) cs"
proof (induction zero r cs rule: rb_run.induct)
  case (3 zero r cs)
  show ?case
  proof (cases "rb_items r")
    case (Cons x xs)
    then obtain r' where "rb_PopFront zero r = Some (x, r')" "rb_ok r'" "rb_items r' = xs"
      using rb_PopFront_cons [OF "3.prems"] by blast
    then show ?thesis using "3.IH" Cons by simp
  qed (simp add: rb_PopFront_nil "3.prems")
next
  case (4 zero r i cs)
  have "map_option (\<lambda>p. ring r ! p) (rb_Offset r i) = (if i < length (rb_items r) then Some (rb_items r ! i) else None)"
    using rb_at_items [OF "4.prems"] by (simp add: rb_at_def)
  then show ?case using 4 by (auto split: option.splits if_splits)
next
  case (5 zero r cs)
  have "map_option (\<lambda>p. ring r ! p) (rb_Front r) = (if rb_items r = [] then None else Some (hd (rb_items r)))"
    using rb_Front_at [OF "5.prems"] rb_at_items [OF "5.prems", of 0] by (auto simp: hd_conv_nth)
  then show ?case using 5 by (auto split: option.splits if_splits)
next
  case (6 zero r cs)
  have "map_option (\<lambda>p. ring r ! p) (rb_Back r) = (if rb_items r = [] then None else Some (last (rb_items r)))"
    using rb_Back_at [OF "6.prems"] rb_at_items [OF "6.prems", of "rb_Len r - 1"] "6.prems"
    by (auto simp: last_conv_nth simp flip: length_rb_items)
  then show ?case using 6 by (auto split: option.splits if_splits)
qed (simp_all add: rb_PushBack_items rb_Clear_items)

text \<open>
  C15. The ring buffer is a queue: whatever is called on it after initialisation with any size, however often it wraps around, grows or is
  cleared, every call returns what a plain list would return, and panics exactly when an element is asked for that is not there.
\<close>

theorem ring_buffer_refines_list: "rb_run zero (rb_Init zero n zero_RingBuffer) cs = list_run [] cs"
  using rb_run_list rb_Init_items by metis

end
