(* ===== verification/Packet_Queue.thy ===== *)
theory Packet_Queue
  imports Ring_Buffer
begin

text \<open>
  The queue of packets in flight (\<open>core/internal/congestion/bbr/packet_number_indexed_queue.go\<close>) over the ring buffer, refined to a map from
  packet numbers to entries. Packet numbers are 62-bit in QUIC, so that 64-bit arithmetic on them is exact. A panic of the
  ring is \<open>None\<close>; \<open>zero\<close> is the zero entry.
\<close>

section \<open>Definitions\<close>

type_synonym PacketNumber = int

definition invalidPacketNumber :: PacketNumber where "invalidPacketNumber = - 1"

record 'a entryWrapper =
  present :: bool
  ew_entry :: 'a

record 'a packetNumberIndexedQueue =
  entries :: "'a entryWrapper RingBuffer"
  numberOfPresentEntries :: int
  firstPacket :: PacketNumber

definition zero_wrapper :: "'a \<Rightarrow> 'a entryWrapper" where
  "zero_wrapper zero = \<lparr>present = False, ew_entry = zero\<rparr>"

definition newPacketNumberIndexedQueue :: "'a \<Rightarrow> nat \<Rightarrow> 'a packetNumberIndexedQueue" where
  "newPacketNumberIndexedQueue zero n =
     \<lparr>entries = rb_Init (zero_wrapper zero) n zero_RingBuffer, numberOfPresentEntries = 0, firstPacket = invalidPacketNumber\<rparr>"

definition pq_IsEmpty :: "'a packetNumberIndexedQueue \<Rightarrow> bool" where
  "pq_IsEmpty p = (numberOfPresentEntries p = 0)"

definition pq_LastPacket :: "'a packetNumberIndexedQueue \<Rightarrow> PacketNumber" where
  "pq_LastPacket p = (if pq_IsEmpty p then invalidPacketNumber else firstPacket p + (int (rb_Len (entries p)) - 1))"

definition push_entry :: "'a \<Rightarrow> 'a entryWrapper \<Rightarrow> 'a packetNumberIndexedQueue \<Rightarrow> 'a packetNumberIndexedQueue" where
  "push_entry zero e p = p\<lparr>entries := rb_PushBack (zero_wrapper zero) e (entries p)\<rparr>"

definition pq_Emplace :: "'a \<Rightarrow> PacketNumber \<Rightarrow> 'a option \<Rightarrow> 'a packetNumberIndexedQueue \<Rightarrow> bool \<times> 'a packetNumberIndexedQueue" where
  "pq_Emplace zero packetNumber entry p =
     (case entry of
        None \<Rightarrow> (False, p)
      | Some e \<Rightarrow>
          if packetNumber = invalidPacketNumber then (False, p)
          else if pq_IsEmpty p then
            (True, (push_entry zero \<lparr>present = True, ew_entry = e\<rparr> p)\<lparr>numberOfPresentEntries := 1, firstPacket := packetNumber\<rparr>)
          else if packetNumber \<le> pq_LastPacket p then (False, p)
          else let gap = packetNumber - firstPacket p - int (rb_Len (entries p));
                   p = (if gap > 0 then (push_entry zero (zero_wrapper zero) ^^ nat gap) p else p);
                   p = push_entry zero \<lparr>present = True, ew_entry = e\<rparr> p
               in (True, p\<lparr>numberOfPresentEntries := numberOfPresentEntries p + 1\<rparr>))"

text \<open>The offset of the present entry for a packet; the pointer \<open>getEntryWraper\<close> returns.\<close>

definition getEntryWraper :: "PacketNumber \<Rightarrow> 'a packetNumberIndexedQueue \<Rightarrow> nat option" where
  "getEntryWraper packetNumber p =
     (if packetNumber = invalidPacketNumber \<or> pq_IsEmpty p \<or> packetNumber < firstPacket p then None
      else let offset = packetNumber - firstPacket p
           in if offset \<ge> int (rb_Len (entries p)) then None
              else case rb_at (entries p) (nat offset) of
                None \<Rightarrow> None
              | Some ew \<Rightarrow> if present ew then Some (nat offset) else None)"

definition pq_GetEntry :: "PacketNumber \<Rightarrow> 'a packetNumberIndexedQueue \<Rightarrow> 'a option" where
  "pq_GetEntry packetNumber p =
     (case getEntryWraper packetNumber p of
        None \<Rightarrow> None
      | Some i \<Rightarrow> map_option ew_entry (rb_at (entries p) i))"

text \<open>The loops that pop from the front; the number of entries bounds them.\<close>

fun clear_loop :: "nat \<Rightarrow> 'a \<Rightarrow> 'a packetNumberIndexedQueue \<Rightarrow> 'a packetNumberIndexedQueue option" where
  "clear_loop 0 zero p = Some p"
| "clear_loop (Suc n) zero p =
     (if \<not> rb_Empty (entries p) \<and> \<not> pred_option present (rb_at (entries p) 0)
      then case rb_PopFront (zero_wrapper zero) (entries p) of
             None \<Rightarrow> None
           | Some (_, es) \<Rightarrow> clear_loop n zero (p\<lparr>entries := es, firstPacket := firstPacket p + 1\<rparr>)
      else Some p)"

definition clearup :: "'a \<Rightarrow> 'a packetNumberIndexedQueue \<Rightarrow> 'a packetNumberIndexedQueue option" where
  "clearup zero p =
     (case clear_loop (rb_Len (entries p)) zero p of
        None \<Rightarrow> None
      | Some p \<Rightarrow> Some (if rb_Empty (entries p) then p\<lparr>firstPacket := invalidPacketNumber\<rparr> else p))"

text \<open>\<open>Remove\<close> calls \<open>f\<close> on the entry: the entry removed is the second result.\<close>

definition pq_Remove :: "'a \<Rightarrow> PacketNumber \<Rightarrow> 'a packetNumberIndexedQueue \<Rightarrow> ('a option \<times> 'a packetNumberIndexedQueue) option" where
  "pq_Remove zero packetNumber p =
     (case getEntryWraper packetNumber p of
        None \<Rightarrow> Some (None, p)
      | Some i \<Rightarrow>
          let e = map_option ew_entry (rb_at (entries p) i);
              p = p\<lparr>entries := rb_modify (\<lambda>ew. ew\<lparr>present := False\<rparr>) i (entries p),
                    numberOfPresentEntries := numberOfPresentEntries p - 1\<rparr>
          in if packetNumber = firstPacket p then map_option (\<lambda>p. (e, p)) (clearup zero p) else Some (e, p))"

fun remove_loop :: "nat \<Rightarrow> 'a \<Rightarrow> PacketNumber \<Rightarrow> 'a packetNumberIndexedQueue \<Rightarrow> 'a packetNumberIndexedQueue option" where
  "remove_loop 0 zero packetNumber p = Some p"
| "remove_loop (Suc n) zero packetNumber p =
     (if \<not> rb_Empty (entries p) \<and> firstPacket p \<noteq> invalidPacketNumber \<and> firstPacket p < packetNumber
      then let p = (if pred_option present (rb_at (entries p) 0) then p\<lparr>numberOfPresentEntries := numberOfPresentEntries p - 1\<rparr> else p)
           in case rb_PopFront (zero_wrapper zero) (entries p) of
                None \<Rightarrow> None
              | Some (_, es) \<Rightarrow> remove_loop n zero packetNumber (p\<lparr>entries := es, firstPacket := firstPacket p + 1\<rparr>)
      else Some p)"

definition pq_RemoveUpTo :: "'a \<Rightarrow> PacketNumber \<Rightarrow> 'a packetNumberIndexedQueue \<Rightarrow> 'a packetNumberIndexedQueue option" where
  "pq_RemoveUpTo zero packetNumber p =
     (case remove_loop (rb_Len (entries p)) zero packetNumber p of None \<Rightarrow> None | Some p \<Rightarrow> clearup zero p)"

definition EntrySlotsUsed :: "'a packetNumberIndexedQueue \<Rightarrow> nat" where
  "EntrySlotsUsed p = rb_Len (entries p)"


section \<open>The refinement\<close>

text \<open>The entries of the deque as options, and the map they stand for.\<close>

definition slots :: "'a packetNumberIndexedQueue \<Rightarrow> 'a option list" where
  "slots p = map (\<lambda>ew. if present ew then Some (ew_entry ew) else None) (rb_items (entries p))"

definition slot_map :: "PacketNumber \<Rightarrow> 'a option list \<Rightarrow> PacketNumber \<Rightarrow> 'a option" where
  "slot_map first xs n = (if first \<le> n \<and> n < first + int (length xs) then xs ! nat (n - first) else None)"

definition pq_map :: "'a packetNumberIndexedQueue \<Rightarrow> PacketNumber \<Rightarrow> 'a option" where
  "pq_map p = slot_map (firstPacket p) (slots p)"

definition pq_count :: "'a option list \<Rightarrow> nat" where
  "pq_count xs = length (filter (\<lambda>x. x \<noteq> None) xs)"

definition pq_pre :: "'a packetNumberIndexedQueue \<Rightarrow> bool" where
  "pq_pre p \<longleftrightarrow> rb_ok (entries p) \<and> numberOfPresentEntries p = int (pq_count (slots p)) \<and> (slots p \<noteq> [] \<longrightarrow> firstPacket p \<ge> 0)"

definition pq_ok :: "'a packetNumberIndexedQueue \<Rightarrow> bool" where
  "pq_ok p \<longleftrightarrow> pq_pre p \<and> (if slots p = [] then firstPacket p = invalidPacketNumber else hd (slots p) \<noteq> None)"

lemma pq_preD: "pq_pre p \<Longrightarrow> rb_ok (entries p) \<and> length (slots p) = rb_Len (entries p) \<and> (rb_Empty (entries p) \<longleftrightarrow> slots p = [])"
  by (auto simp: pq_pre_def slots_def rb_Empty_items)

lemma slot_map_Cons: "slot_map first (x # xs) = (slot_map (first + 1) xs)(first := x)"
  by (rule ext) (auto simp: slot_map_def nth_Cons' nat_diff_distrib' intro!: arg_cong [where f = "(!) xs"])

lemma slot_map_Nil: "slot_map first [] = Map.empty"
  by (rule ext) (auto simp: slot_map_def)

lemma slot_map_snoc: "slot_map first (xs @ [x]) = (slot_map first xs)(first + int (length xs) := x)"
  by (rule ext) (auto simp: slot_map_def nth_append)

lemma slot_map_None: "slot_map first (xs @ replicate n None) = slot_map first xs"
  by (rule ext) (auto simp: slot_map_def nth_append)

lemma pq_count_simps [simp]:
  "pq_count [] = 0" "pq_count (x # xs) = (if x = None then pq_count xs else Suc (pq_count xs))"
  "pq_count (xs @ ys) = pq_count xs + pq_count ys" "pq_count (replicate n None) = 0"
  by (simp_all add: pq_count_def filter_replicate)

lemma slot_map_before [simp]: "n < first \<Longrightarrow> slot_map first xs n = None"
  by (simp add: slot_map_def)

lemma finite_slot_map: "finite (dom (slot_map first xs))"
  by (rule finite_subset [of _ "{first..first + int (length xs)}"]) (auto simp: slot_map_def split: if_splits)

lemma card_slot_map: "card (dom (slot_map first xs)) = pq_count xs"
proof (induction xs arbitrary: first)
  case (Cons x xs)
  have "first \<notin> dom (slot_map (first + 1) xs)" by (simp add: domIff)
  then show ?case using Cons unfolding slot_map_Cons dom_fun_upd by (cases x) (simp_all add: card_insert_if finite_slot_map)
qed (simp add: slot_map_Nil)

lemma slot_map_empty: "slot_map first xs = Map.empty \<longleftrightarrow> pq_count xs = 0"
  using card_slot_map [of first xs] finite_slot_map [of first xs] by (metis card_0_eq dom_eq_empty_conv)

lemma slot_map_upd: "i < length xs \<Longrightarrow> slot_map first (xs[i := x]) = (slot_map first xs)(first + int i := x)"
  by (rule ext) (auto simp: slot_map_def nth_list_update)

lemma pq_count_upd: "i < length xs \<Longrightarrow> xs ! i \<noteq> None \<Longrightarrow> Suc (pq_count (xs[i := None])) = pq_count xs"
proof -
  assume i: "i < length xs" "xs ! i \<noteq> None"
  have "pq_count xs = pq_count (take i xs @ xs ! i # drop (Suc i) xs)" using i(1) by (simp only: id_take_nth_drop [symmetric])
  then show ?thesis using i by (simp add: upd_conv_take_nth_drop)
qed

lemma push_entry_slots:
  assumes "rb_ok (entries p)"
  shows "rb_ok (entries (push_entry zero e p)) \<and> slots (push_entry zero e p) = slots p @ [if present e then Some (ew_entry e) else None]"
  using rb_PushBack_items [OF assms] by (simp add: push_entry_def slots_def)

lemma push_entry_keeps [simp]:
  "firstPacket (push_entry zero e p) = firstPacket p" "numberOfPresentEntries (push_entry zero e p) = numberOfPresentEntries p"
  by (simp_all add: push_entry_def)

lemma push_gap_slots:
  assumes "rb_ok (entries p)"
  shows "rb_ok (entries ((push_entry zero (zero_wrapper zero) ^^ n) p)) \<and> slots ((push_entry zero (zero_wrapper zero) ^^ n) p) = slots p @ replicate n None
    \<and> firstPacket ((push_entry zero (zero_wrapper zero) ^^ n) p) = firstPacket p
    \<and> numberOfPresentEntries ((push_entry zero (zero_wrapper zero) ^^ n) p) = numberOfPresentEntries p"
  using assms by (induction n) (auto simp: push_entry_slots zero_wrapper_def replicate_append_same)

text \<open>What one step of the popping loops does.\<close>

lemma pop_slots:
  assumes "pq_pre p" and "slots p = x # xs"
  shows "\<exists>es ew. rb_PopFront (zero_wrapper zero) (entries p) = Some (ew, es) \<and> rb_ok es
     \<and> slots (p\<lparr>entries := es, firstPacket := f\<rparr>) = xs \<and> (pred_option present (rb_at (entries p) 0) \<longleftrightarrow> x \<noteq> None)"
proof -
  have ok: "rb_ok (entries p)" using assms(1) by (simp add: pq_pre_def)
  obtain e items where e: "rb_items (entries p) = e # items" "x = (if present e then Some (ew_entry e) else None)"
    "xs = map (\<lambda>ew. if present ew then Some (ew_entry ew) else None) items" using assms(2) by (auto simp: slots_def)
  obtain es where "rb_PopFront (zero_wrapper zero) (entries p) = Some (e, es)" "rb_ok es" "rb_items es = items"
    using rb_PopFront_cons [OF ok e(1)] by blast
  moreover have "rb_at (entries p) 0 = Some e" using rb_at_items [OF ok] e(1) by simp
  ultimately show ?thesis using e by (auto simp: slots_def)
qed

lemma clear_loop_ok:
  "pq_pre p \<Longrightarrow> length (slots p) \<le> n \<Longrightarrow>
     \<exists>p'. clear_loop n zero p = Some p' \<and> pq_pre p' \<and> pq_map p' = pq_map p \<and> (slots p' = [] \<or> hd (slots p') \<noteq> None)
       \<and> (slots p' \<noteq> [] \<longrightarrow> firstPacket p' + int (length (slots p')) = firstPacket p + int (length (slots p)))"
proof (induction n arbitrary: p)
  case 0
  then show ?case by auto
next
  case (Suc n)
  note e = pq_preD [OF Suc.prems(1)]
  show ?case
  proof (cases "slots p")
    case Nil
    then show ?thesis using e Suc.prems(1) by auto
  next
    case (Cons x xs)
    let ?p = "\<lambda>es. p\<lparr>entries := es, firstPacket := firstPacket p + 1\<rparr>"
    obtain es ew where pop: "rb_PopFront (zero_wrapper zero) (entries p) = Some (ew, es)" "rb_ok es" "slots (?p es) = xs"
      "pred_option present (rb_at (entries p) 0) \<longleftrightarrow> x \<noteq> None" using pop_slots [OF Suc.prems(1) Cons] by blast
    show ?thesis
    proof (cases "x = None")
      case True
      have "pq_pre (?p es)" using Suc.prems(1) pop Cons True by (auto simp: pq_pre_def)
      moreover have "pq_map (?p es) = pq_map p"
        using Cons True pop(3) by (simp add: pq_map_def slot_map_Cons fun_upd_idem)
      moreover have "clear_loop (Suc n) zero p = clear_loop n zero (?p es)" using pop True Cons e by simp
      ultimately show ?thesis using Suc.IH [of "?p es"] Suc.prems(2) Cons pop(3) by auto
    qed (use pop Cons Suc.prems(1) in auto)
  qed
qed

lemma clearup_ok:
  assumes "pq_pre p"
  shows "\<exists>p'. clearup zero p = Some p' \<and> pq_ok p' \<and> pq_map p' = pq_map p
    \<and> (pq_map p \<noteq> Map.empty \<longrightarrow> firstPacket p' + int (length (slots p')) = firstPacket p + int (length (slots p)))"
proof -
  obtain p1 where c: "clear_loop (rb_Len (entries p)) zero p = Some p1" and pre: "pq_pre p1" and m: "pq_map p1 = pq_map p"
    and h: "slots p1 = [] \<or> hd (slots p1) \<noteq> None"
    and l: "slots p1 \<noteq> [] \<longrightarrow> firstPacket p1 + int (length (slots p1)) = firstPacket p + int (length (slots p))"
    using clear_loop_ok [OF assms] pq_preD [OF assms] by fastforce
  let ?p = "p1\<lparr>firstPacket := invalidPacketNumber\<rparr>"
  have s: "slots ?p = slots p1" by (simp add: slots_def)
  show ?thesis
  proof (cases "slots p1 = []")
    case True
    then have "pq_map p1 = Map.empty" "pq_map ?p = Map.empty" by (simp_all add: pq_map_def slot_map_Nil s)
    moreover have "pq_ok ?p" using pre True s by (simp add: pq_ok_def pq_pre_def)
    moreover have "clearup zero p = Some ?p" using c pq_preD [OF pre] True by (simp add: clearup_def)
    ultimately show ?thesis using m by auto
  next
    case False
    then have "clearup zero p = Some p1" using c pq_preD [OF pre] by (simp add: clearup_def)
    moreover have "pq_ok p1" using pre False h by (simp add: pq_ok_def)
    ultimately show ?thesis using m l False by blast
  qed
qed

lemma remove_loop_ok:
  "pq_pre p \<Longrightarrow> length (slots p) \<le> n \<Longrightarrow>
     \<exists>p'. remove_loop n zero N p = Some p' \<and> pq_pre p' \<and> pq_map p' = (pq_map p) |` {N..}
       \<and> (slots p' \<noteq> [] \<longrightarrow> firstPacket p' + int (length (slots p')) = firstPacket p + int (length (slots p)))"
proof (induction n arbitrary: p)
  case 0
  then show ?case by (auto simp: pq_map_def slot_map_Nil)
next
  case (Suc n)
  note e = pq_preD [OF Suc.prems(1)]
  show ?case
  proof (cases "slots p")
    case Nil
    then show ?thesis using e Suc.prems(1) by (auto simp: pq_map_def slot_map_Nil)
  next
    case (Cons x xs)
    have first: "firstPacket p \<ge> 0" using Suc.prems(1) Cons by (simp add: pq_pre_def)
    show ?thesis
    proof (cases "firstPacket p < N")
      case True
      let ?p = "\<lambda>es. p\<lparr>entries := es, firstPacket := firstPacket p + 1, numberOfPresentEntries := int (pq_count xs)\<rparr>"
      obtain es ew where pop: "rb_PopFront (zero_wrapper zero) (entries p) = Some (ew, es)" "rb_ok es"
        "slots (p\<lparr>entries := es, firstPacket := firstPacket p + 1\<rparr>) = xs" "pred_option present (rb_at (entries p) 0) \<longleftrightarrow> x \<noteq> None"
        using pop_slots [OF Suc.prems(1) Cons] by blast
      then have sl: "slots (?p es) = xs" by (simp add: slots_def)
      have pre: "pq_pre (?p es)" using sl pop(2) first by (simp add: pq_pre_def)
      have "remove_loop (Suc n) zero N p = remove_loop n zero N (?p es)"
      proof -
        have "numberOfPresentEntries p = int (pq_count (x # xs))" using Suc.prems(1) Cons by (simp add: pq_pre_def)
        then have "(if x \<noteq> None then p\<lparr>numberOfPresentEntries := numberOfPresentEntries p - 1\<rparr> else p)\<lparr>entries := es, firstPacket := firstPacket p + 1\<rparr> = ?p es"
          by (cases p) auto
        then show ?thesis using pop True Cons e first by (auto simp: invalidPacketNumber_def Let_def split: if_splits)
      qed
      moreover have "(pq_map (?p es)) |` {N..} = (pq_map p) |` {N..}"
        using Cons True sl by (auto simp: pq_map_def slot_map_Cons restrict_map_def)
      ultimately show ?thesis using Suc.IH [OF pre] Suc.prems(2) Cons sl by auto
    next
      case False
      then have "(pq_map p) |` {N..} = pq_map p" by (auto simp: pq_map_def slot_map_def restrict_map_def)
      then show ?thesis using False Suc.prems(1) by auto
    qed
  qed
qed

text \<open>The operations on the abstraction.\<close>

lemma pq_IsEmpty_map: "pq_ok p \<Longrightarrow> pq_IsEmpty p \<longleftrightarrow> pq_map p = Map.empty"
  by (auto simp: pq_ok_def pq_pre_def pq_IsEmpty_def pq_map_def slot_map_empty)

lemma pq_empty_slots: "pq_ok p \<Longrightarrow> pq_map p = Map.empty \<longleftrightarrow> slots p = []"
proof
  assume p: "pq_ok p" "pq_map p = Map.empty"
  show "slots p = []"
  proof (rule ccontr)
    assume "slots p \<noteq> []"
    then obtain x xs where "slots p = x # xs" "x \<noteq> None" using p(1) by (cases "slots p") (auto simp: pq_ok_def)
    then show False using p(2) by (auto simp: pq_map_def slot_map_empty)
  qed
qed (simp add: pq_map_def slot_map_Nil)

lemma pq_LastPacket_slots:
  "pq_ok p \<Longrightarrow> pq_LastPacket p = (if pq_map p = Map.empty then invalidPacketNumber else firstPacket p + int (length (slots p)) - 1)"
  using pq_preD [of p] by (simp add: pq_LastPacket_def pq_IsEmpty_map pq_ok_def)

lemma getEntryWraper_map:
  assumes "pq_ok p"
  shows "getEntryWraper n p = (if pq_map p n = None then None else Some (nat (n - firstPacket p)))"
proof -
  have d: "rb_ok (entries p)" "length (slots p) = rb_Len (entries p)" using assms pq_preD [of p] by (auto simp: pq_ok_def)
  have at: "rb_at (entries p) i = Some (rb_items (entries p) ! i)" if "i < rb_Len (entries p)" for i
    using rb_at_items [OF d(1)] that d(1) by simp
  have sl: "slots p ! i = (if present (rb_items (entries p) ! i) then Some (ew_entry (rb_items (entries p) ! i)) else None)"
    if "i < rb_Len (entries p)" for i using that d(1) by (simp add: slots_def)
  show ?thesis
  proof (cases "slots p = []")
    case True
    then have "pq_IsEmpty p" "pq_map p = Map.empty" using assms pq_IsEmpty_map pq_empty_slots by blast+
    then show ?thesis by (simp add: getEntryWraper_def)
  next
    case False
    then have f: "firstPacket p \<ge> 0" "\<not> pq_IsEmpty p"
      using assms pq_IsEmpty_map [OF assms] pq_empty_slots [OF assms] by (auto simp: pq_ok_def pq_pre_def)
    show ?thesis
    proof (cases "firstPacket p \<le> n \<and> n < firstPacket p + int (rb_Len (entries p))")
      case True
      then have "nat (n - firstPacket p) < rb_Len (entries p)" by auto
      then show ?thesis using True f at sl d(2) by (simp add: getEntryWraper_def pq_map_def slot_map_def invalidPacketNumber_def Let_def)
    next
      case False
      then show ?thesis using d(2) by (auto simp: getEntryWraper_def pq_map_def slot_map_def Let_def)
    qed
  qed
qed

lemma entry_at:
  assumes "pq_ok p" and "pq_map p n = Some x"
  shows "map_option ew_entry (rb_at (entries p) (nat (n - firstPacket p))) = Some x \<and> nat (n - firstPacket p) < length (rb_items (entries p))
    \<and> slots p ! nat (n - firstPacket p) = Some x"
proof -
  have d: "rb_ok (entries p)" "length (slots p) = rb_Len (entries p)" using assms pq_preD [of p] by (auto simp: pq_ok_def)
  let ?i = "nat (n - firstPacket p)"
  have i: "?i < rb_Len (entries p)" "slots p ! ?i = Some x" using assms(2) d(2) by (auto simp: pq_map_def slot_map_def split: if_splits)
  then show ?thesis using rb_at_items [OF d(1)] d(1) by (auto simp: slots_def split: if_splits)
qed

lemma pq_GetEntry_map: "pq_ok p \<Longrightarrow> pq_GetEntry n p = pq_map p n"
  using entry_at [of p n] by (cases "pq_map p n") (simp_all add: pq_GetEntry_def getEntryWraper_map)

definition norm_last :: "(PacketNumber \<Rightarrow> 'a option) \<times> PacketNumber \<Rightarrow> (PacketNumber \<Rightarrow> 'a option) \<times> PacketNumber" where
  "norm_last s = (if fst s = Map.empty then (Map.empty, invalidPacketNumber) else s)"

definition pq_abs :: "'a packetNumberIndexedQueue \<Rightarrow> (PacketNumber \<Rightarrow> 'a option) \<times> PacketNumber" where
  "pq_abs p = (pq_map p, pq_LastPacket p)"

lemma pq_Remove_ok:
  assumes ok: "pq_ok p"
  shows "\<exists>p'. pq_Remove zero n p = Some (pq_map p n, p') \<and> pq_ok p' \<and> pq_abs p' = norm_last ((pq_map p)(n := None), pq_LastPacket p)"
proof (cases "pq_map p n")
  case None
  then have "(pq_map p)(n := None) = pq_map p" by auto
  then have "norm_last ((pq_map p)(n := None), pq_LastPacket p) = pq_abs p"
    using pq_LastPacket_slots [OF ok] by (simp add: norm_last_def pq_abs_def)
  then show ?thesis using None ok by (simp add: pq_Remove_def getEntryWraper_map)
next
  case (Some x)
  let ?i = "nat (n - firstPacket p)"
  let ?p = "p\<lparr>entries := rb_modify (\<lambda>ew. ew\<lparr>present := False\<rparr>) ?i (entries p), numberOfPresentEntries := numberOfPresentEntries p - 1\<rparr>"
  have d: "rb_ok (entries p)" "length (slots p) = rb_Len (entries p)" using ok pq_preD [of p] by (auto simp: pq_ok_def)
  note e = entry_at [OF ok Some]
  have n: "n = firstPacket p + int ?i" using Some by (auto simp: pq_map_def slot_map_def split: if_splits)
  have m: "rb_ok (entries ?p)" "rb_items (entries ?p) = (rb_items (entries p))[?i := (rb_items (entries p) ! ?i)\<lparr>present := False\<rparr>]"
    using rb_modify_items [OF d(1)] e by simp_all
  have sl: "slots ?p = (slots p)[?i := None]" unfolding slots_def m(2) by (simp add: map_update)
  have i: "?i < length (slots p)" using e by (simp add: slots_def)
  have pre: "pq_pre ?p" using ok m(1) sl pq_count_upd [OF i] e by (auto simp: pq_ok_def pq_pre_def)
  have pm: "pq_map ?p = (pq_map p)(n := None)" using i n sl by (simp add: pq_map_def slot_map_upd)
  have ne: "pq_map p \<noteq> Map.empty" using Some by auto
  have lst: "pq_LastPacket p = firstPacket p + int (length (slots p)) - 1" using pq_LastPacket_slots [OF ok] ne by simp
  show ?thesis
  proof (cases "n = firstPacket p")
    case True
    obtain p' where c: "clearup zero ?p = Some p'" "pq_ok p'" "pq_map p' = pq_map ?p"
      "pq_map ?p \<noteq> Map.empty \<longrightarrow> firstPacket p' + int (length (slots p')) = firstPacket ?p + int (length (slots ?p))"
      using clearup_ok [OF pre] by blast
    have "pq_abs p' = norm_last (pq_map ?p, pq_LastPacket p)"
      using pq_LastPacket_slots [OF c(2)] c(3,4) lst sl by (simp add: pq_abs_def norm_last_def)
    then show ?thesis using True c Some e pm by (simp add: pq_Remove_def getEntryWraper_map [OF ok] Let_def)
  next
    case False
    then have "?i \<noteq> 0" using n by auto
    then have h: "slots ?p \<noteq> []" "hd (slots ?p) = hd (slots p)" unfolding sl using i by (cases "slots p"; auto split: nat.splits)+
    moreover have "slots p \<noteq> []" using i by auto
    ultimately have ok': "pq_ok ?p" using ok pre by (simp add: pq_ok_def)
    have "pq_map ?p \<noteq> Map.empty" using pq_empty_slots [OF ok'] h by simp
    then have "pq_abs ?p = norm_last (pq_map ?p, pq_LastPacket p)"
      using pq_LastPacket_slots [OF ok'] lst sl by (simp add: pq_abs_def norm_last_def)
    then show ?thesis using False ok' Some e pm by (simp add: pq_Remove_def getEntryWraper_map [OF ok] Let_def)
  qed
qed

lemma pq_RemoveUpTo_ok:
  assumes ok: "pq_ok p"
  shows "\<exists>p'. pq_RemoveUpTo zero n p = Some p' \<and> pq_ok p' \<and> pq_abs p' = norm_last ((pq_map p) |` {n..}, pq_LastPacket p)"
proof -
  have pre: "pq_pre p" and len: "length (slots p) \<le> rb_Len (entries p)" using ok pq_preD [of p] by (auto simp: pq_ok_def)
  obtain p1 where r: "remove_loop (rb_Len (entries p)) zero n p = Some p1" "pq_pre p1" "pq_map p1 = (pq_map p) |` {n..}"
    "slots p1 \<noteq> [] \<longrightarrow> firstPacket p1 + int (length (slots p1)) = firstPacket p + int (length (slots p))"
    using remove_loop_ok [OF pre len] by blast
  obtain p2 where c: "clearup zero p1 = Some p2" "pq_ok p2" "pq_map p2 = pq_map p1"
    "pq_map p1 \<noteq> Map.empty \<longrightarrow> firstPacket p2 + int (length (slots p2)) = firstPacket p1 + int (length (slots p1))"
    using clearup_ok [OF r(2)] by blast
  have "slots p1 \<noteq> []" "pq_map p \<noteq> Map.empty" if "pq_map p1 \<noteq> Map.empty"
    using that r(3) by (auto simp: pq_map_def slot_map_Nil)
  then have "pq_abs p2 = norm_last (pq_map p1, pq_LastPacket p)"
    using pq_LastPacket_slots [OF c(2)] pq_LastPacket_slots [OF ok] c(3,4) r(4) by (auto simp: pq_abs_def norm_last_def)
  then show ?thesis using c r(1,3) by (simp add: pq_RemoveUpTo_def)
qed

lemma pq_Emplace_ok:
  assumes ok: "pq_ok p" and n: "n \<ge> - 1"
  shows "pq_ok (snd (pq_Emplace zero n e p))
    \<and> (fst (pq_Emplace zero n e p) \<longleftrightarrow> e \<noteq> None \<and> n \<noteq> invalidPacketNumber \<and> (pq_map p = Map.empty \<or> n > pq_LastPacket p))
    \<and> pq_abs (snd (pq_Emplace zero n e p)) = (if fst (pq_Emplace zero n e p) then ((pq_map p)(n := e), n) else pq_abs p)"
proof -
  have d: "rb_ok (entries p)" "length (slots p) = rb_Len (entries p)" using ok pq_preD [of p] by (auto simp: pq_ok_def)
  note emp = pq_IsEmpty_map [OF ok] and es = pq_empty_slots [OF ok] and lst = pq_LastPacket_slots [OF ok]
  consider (no) "e = None \<or> n = invalidPacketNumber \<or> pq_map p \<noteq> Map.empty \<and> n \<le> pq_LastPacket p"
    | (first) x where "e = Some x" "n \<ge> 0" "pq_map p = Map.empty"
    | (more) x where "e = Some x" "n \<ge> 0" "pq_map p \<noteq> Map.empty" "n > pq_LastPacket p"
    using n by (cases e) (fastforce simp: invalidPacketNumber_def)+
  then show ?thesis
  proof cases
    case no
    then show ?thesis using ok emp by (auto simp: pq_Emplace_def split: option.splits)
  next
    case first
    let ?p = "(push_entry zero \<lparr>present = True, ew_entry = x\<rparr> p)\<lparr>numberOfPresentEntries := 1, firstPacket := n\<rparr>"
    have p: "pq_Emplace zero n e p = (True, ?p)" using first emp by (simp add: pq_Emplace_def invalidPacketNumber_def)
    have sl: "rb_ok (entries ?p)" "slots ?p = [Some x]"
      using push_entry_slots [OF d(1)] first es by (simp_all add: slots_def)
    have ok': "pq_ok ?p" using sl first by (simp add: pq_ok_def pq_pre_def)
    have m: "pq_map ?p = (pq_map p)(n := e)" using sl first by (simp add: pq_map_def slot_map_Cons slot_map_Nil)
    then show ?thesis using p ok' first pq_LastPacket_slots [OF ok'] sl by (simp add: pq_abs_def invalidPacketNumber_def)
  next
    case more
    let ?gap = "n - firstPacket p - int (rb_Len (entries p))"
    let ?g = "(push_entry zero (zero_wrapper zero) ^^ nat ?gap) p"
    let ?p = "(push_entry zero \<lparr>present = True, ew_entry = x\<rparr> ?g)\<lparr>numberOfPresentEntries := numberOfPresentEntries ?g + 1\<rparr>"
    note g = push_gap_slots [OF d(1), where zero = zero and n = "nat ?gap"]
    have ge: "?gap \<ge> 0" using more lst d(2) by simp
    have p: "pq_Emplace zero n e p = (True, ?p)"
      using more emp ge by (auto simp: pq_Emplace_def invalidPacketNumber_def Let_def)
    have sl: "rb_ok (entries ?p)" "slots ?p = slots p @ replicate (nat ?gap) None @ [Some x]" "firstPacket ?p = firstPacket p"
      using push_entry_slots [of ?g] g by (simp_all add: slots_def)
    have ok': "pq_ok ?p" using ok sl g es more by (auto simp: pq_ok_def pq_pre_def)
    have "pq_map ?p = (slot_map (firstPacket p) (slots p @ replicate (nat ?gap) None))(n := Some x)"
      using slot_map_snoc [of "firstPacket p" "slots p @ replicate (nat ?gap) None" "Some x"] sl ge d(2) by (simp add: pq_map_def)
    then have m: "pq_map ?p = (pq_map p)(n := e)" using more by (simp add: slot_map_None pq_map_def)
    have "pq_map ?p \<noteq> Map.empty" using m more(1) by (metis fun_upd_same option.distinct(1))
    then show ?thesis using p ok' more m pq_LastPacket_slots [OF ok'] sl ge d(2) by (simp add: pq_abs_def invalidPacketNumber_def)
  qed
qed

lemma pq_new_ok: "pq_ok (newPacketNumberIndexedQueue zero n) \<and> pq_abs (newPacketNumberIndexedQueue zero n) = (Map.empty, invalidPacketNumber)"
proof -
  let ?p = "newPacketNumberIndexedQueue zero n"
  have sl: "slots ?p = []" "rb_ok (entries ?p)"
    using rb_Init_items [of "zero_wrapper zero" n] by (simp_all add: newPacketNumberIndexedQueue_def slots_def)
  then have ok: "pq_ok ?p" by (simp add: pq_ok_def pq_pre_def newPacketNumberIndexedQueue_def)
  then show ?thesis using sl pq_LastPacket_slots [OF ok] by (simp add: pq_abs_def pq_map_def slot_map_Nil)
qed

lemma pq_present_count: "pq_ok p \<Longrightarrow> numberOfPresentEntries p = int (card (dom (pq_map p)))"
  by (simp add: pq_ok_def pq_pre_def pq_map_def card_slot_map)


section \<open>Property\<close>

text \<open>The specification: a map with the highest packet number inserted since it was last empty.\<close>

datatype 'a pq_call = Emplace PacketNumber 'a | GetEntry PacketNumber | Remove PacketNumber | RemoveUpTo PacketNumber | Present

datatype 'a pq_result = Inserted bool | Found "'a option" | Removed "'a option" | Count int | Panic

fun pq_run :: "'a \<Rightarrow> 'a packetNumberIndexedQueue \<Rightarrow> 'a pq_call list \<Rightarrow> 'a pq_result list" where
  "pq_run zero p [] = []"
| "pq_run zero p (Emplace n x # cs) = (let (b, p) = pq_Emplace zero n (Some x) p in Inserted b # pq_run zero p cs)"
| "pq_run zero p (GetEntry n # cs) = Found (pq_GetEntry n p) # pq_run zero p cs"
| "pq_run zero p (Remove n # cs) = (case pq_Remove zero n p of None \<Rightarrow> [Panic] | Some (e, p) \<Rightarrow> Removed e # pq_run zero p cs)"
| "pq_run zero p (RemoveUpTo n # cs) = (case pq_RemoveUpTo zero n p of None \<Rightarrow> [Panic] | Some p \<Rightarrow> pq_run zero p cs)"
| "pq_run zero p (Present # cs) = Count (numberOfPresentEntries p) # pq_run zero p cs"

fun map_run :: "(PacketNumber \<Rightarrow> 'a option) \<times> PacketNumber \<Rightarrow> 'a pq_call list \<Rightarrow> 'a pq_result list" where
  "map_run s [] = []"
| "map_run (m, l) (Emplace n x # cs) =
     (if n \<noteq> - 1 \<and> (m = Map.empty \<or> n > l) then Inserted True # map_run (m(n \<mapsto> x), n) cs else Inserted False # map_run (m, l) cs)"
| "map_run (m, l) (GetEntry n # cs) = Found (m n) # map_run (m, l) cs"
| "map_run (m, l) (Remove n # cs) = Removed (m n) # map_run (norm_last (m(n := None), l)) cs"
| "map_run (m, l) (RemoveUpTo n # cs) = map_run (norm_last (m |` {n..}, l)) cs"
| "map_run (m, l) (Present # cs) = Count (int (card (dom m))) # map_run (m, l) cs"

definition call_ok :: "'a pq_call \<Rightarrow> bool" where
  "call_ok c = (case c of Emplace n _ \<Rightarrow> n \<ge> - 1 | _ \<Rightarrow> True)"

lemma pq_run_map: "pq_ok p \<Longrightarrow> list_all call_ok cs \<Longrightarrow> pq_run zero p cs = map_run (pq_abs p) cs"
proof (induction zero p cs rule: pq_run.induct)
  case (2 zero p n x cs)
  then have n: "n \<ge> - 1" by (simp add: call_ok_def)
  obtain b p' where e: "pq_Emplace zero n (Some x) p = (b, p')" by (cases "pq_Emplace zero n (Some x) p")
  note k = pq_Emplace_ok [OF "2.prems"(1) n, of zero "Some x", unfolded e fst_conv snd_conv]
  have "pq_run zero p' cs = map_run (pq_abs p') cs" using "2.IH" [OF e [symmetric] refl] k "2.prems" by simp
  then show ?case using k e by (auto simp: pq_abs_def invalidPacketNumber_def)
next
  case (4 zero p n cs)
  obtain p' where "pq_Remove zero n p = Some (pq_map p n, p')" "pq_ok p'" "pq_abs p' = norm_last ((pq_map p)(n := None), pq_LastPacket p)"
    using pq_Remove_ok [OF "4.prems"(1)] by blast
  then show ?case using 4 by (simp add: pq_abs_def)
next
  case (5 zero p n cs)
  obtain p' where "pq_RemoveUpTo zero n p = Some p'" "pq_ok p'" "pq_abs p' = norm_last ((pq_map p) |` {n..}, pq_LastPacket p)"
    using pq_RemoveUpTo_ok [OF "5.prems"(1)] by blast
  then show ?case using 5 by (simp add: pq_abs_def)
qed (simp_all add: pq_abs_def pq_GetEntry_map pq_present_count)

text \<open>
  C14. The packet queue is a map from packet numbers to entries that accepts only increasing numbers: for every sequence of insertions, lookups and
  removals, in any order, each call returns what the map would return, the counter is the number of entries, and the
  underlying ring never panics.
\<close>

theorem packet_queue_refines_map:
  assumes "list_all call_ok cs"
  shows "pq_run zero (newPacketNumberIndexedQueue zero n) cs = map_run (Map.empty, - 1) cs"
  using pq_run_map [OF _ assms] pq_new_ok by (metis invalidPacketNumber_def)

theorem packet_queue_refines_map_witness:
  "pq_run (0 :: nat) (newPacketNumberIndexedQueue 0 2) [Emplace 5 50, Emplace 8 80, Emplace 7 70, Remove 5, GetEntry 8, RemoveUpTo 9, Emplace 1 10, Present]
   = [Inserted True, Inserted True, Inserted False, Removed (Some 50), Found (Some 80), Inserted True, Count 1]"
proof -
  have "list_all call_ok [Emplace 5 50, Emplace 8 80, Emplace 7 70, Remove 5, GetEntry 8, RemoveUpTo 9, Emplace 1 (10 :: nat), Present]"
    by (simp add: call_ok_def)
  then show ?thesis by (subst packet_queue_refines_map) (auto simp: norm_last_def restrict_map_def fun_eq_iff)
qed

end
