(* ===== verification/Windowed_Filter.thy ===== *)
theory Windowed_Filter
  imports Prelude
begin

text \<open>
  The windowed maximum of Kathleen Nichols (\<open>core/internal/congestion/bbr/windowed_filter.go\<close>). The comparator is an argument, as in the source;
  what the lemmas need of it is the locale \<open>comparator\<close>, which both comparators of the source satisfy. Times are
  64-bit words, as the \<open>roundTripCount\<close> at which the program instantiates the filter, and their differences wrap around.
\<close>

section \<open>Definitions\<close>

record 'v wf_entry =
  sample :: 'v
  wf_time :: u64

record 'v WindowedFilter =
  windowLength :: u64
  est0 :: "'v wf_entry"
  est1 :: "'v wf_entry"
  est2 :: "'v wf_entry"

definition MaxFilter :: "'o::linorder \<Rightarrow> 'o \<Rightarrow> int" where
  "MaxFilter a b = (if a > b then 1 else if a < b then - 1 else 0)"

definition MinFilter :: "'o::linorder \<Rightarrow> 'o \<Rightarrow> int" where
  "MinFilter a b = (if a < b then 1 else if a > b then - 1 else 0)"

definition mk_entry :: "'v \<Rightarrow> u64 \<Rightarrow> 'v wf_entry" where
  "mk_entry v t = \<lparr>sample = v, wf_time = t\<rparr>"

definition NewWindowedFilter :: "'v \<Rightarrow> u64 \<Rightarrow> 'v WindowedFilter" where
  "NewWindowedFilter zero w = \<lparr>windowLength = w, est0 = mk_entry zero 0, est1 = mk_entry zero 0, est2 = mk_entry zero 0\<rparr>"

definition SetWindowLength :: "u64 \<Rightarrow> 'v WindowedFilter \<Rightarrow> 'v WindowedFilter" where
  "SetWindowLength w f = f\<lparr>windowLength := w\<rparr>"

definition GetBest :: "'v WindowedFilter \<Rightarrow> 'v" where "GetBest f = sample (est0 f)"
definition GetSecondBest :: "'v WindowedFilter \<Rightarrow> 'v" where "GetSecondBest f = sample (est1 f)"
definition GetThirdBest :: "'v WindowedFilter \<Rightarrow> 'v" where "GetThirdBest f = sample (est2 f)"

definition wf_Reset :: "'v \<Rightarrow> u64 \<Rightarrow> 'v WindowedFilter \<Rightarrow> 'v WindowedFilter" where
  "wf_Reset v t f = f\<lparr>est0 := mk_entry v t, est1 := mk_entry v t, est2 := mk_entry v t\<rparr>"

definition wf_Clear :: "'v \<Rightarrow> 'v WindowedFilter \<Rightarrow> 'v WindowedFilter" where
  "wf_Clear zero f = f\<lparr>est0 := mk_entry zero 0, est1 := mk_entry zero 0, est2 := mk_entry zero 0\<rparr>"

definition wf_Update :: "'v \<Rightarrow> ('v \<Rightarrow> 'v \<Rightarrow> int) \<Rightarrow> 'v \<Rightarrow> u64 \<Rightarrow> 'v WindowedFilter \<Rightarrow> 'v WindowedFilter" where
  "wf_Update zero cmp v t f =
     (if cmp (sample (est0 f)) zero = 0 \<or> cmp v (sample (est0 f)) \<ge> 0 \<or> t - wf_time (est2 f) > windowLength f
      then wf_Reset v t f
      else
        let f = (if cmp v (sample (est1 f)) \<ge> 0 then f\<lparr>est1 := mk_entry v t, est2 := mk_entry v t\<rparr>
                 else if cmp v (sample (est2 f)) \<ge> 0 then f\<lparr>est2 := mk_entry v t\<rparr>
                 else f)
        in if t - wf_time (est0 f) > windowLength f then
             let f = f\<lparr>est0 := est1 f, est1 := est2 f, est2 := mk_entry v t\<rparr>
             in if t - wf_time (est0 f) > windowLength f then f\<lparr>est0 := est1 f, est1 := est2 f\<rparr> else f
           else if cmp (sample (est1 f)) (sample (est0 f)) = 0 \<and> t - wf_time (est1 f) > windowLength f div 4 then
             f\<lparr>est1 := mk_entry v t, est2 := mk_entry v t\<rparr>
           else if cmp (sample (est2 f)) (sample (est1 f)) = 0 \<and> t - wf_time (est2 f) > windowLength f div 2 then
             f\<lparr>est2 := mk_entry v t\<rparr>
           else f)"


section \<open>Comparators\<close>

lemma word_diff_antimono: "a \<le> b \<Longrightarrow> b \<le> t \<Longrightarrow> t - b \<le> t - a" for a b t :: u64
  by (simp add: word_le_nat_alt unat_sub)

locale comparator =
  fixes cmp :: "'v \<Rightarrow> 'v \<Rightarrow> int"
  assumes cmp_refl: "cmp a a = 0" and total: "cmp a b < 0 \<Longrightarrow> cmp b a \<ge> 0" and trans: "cmp a b \<ge> 0 \<Longrightarrow> cmp b c \<ge> 0 \<Longrightarrow> cmp a c \<ge> 0"
begin

text \<open>
  An estimate is justified by a history of samples, oldest first, when it is one of them and no later sample is better. The
  estimates of a filter are, in this order, justified by shorter and shorter parts of the history.
\<close>

definition justified :: "('v \<times> u64) list \<Rightarrow> 'v wf_entry \<Rightarrow> bool" where
  "justified h e \<longleftrightarrow> (\<exists>k < length h. h ! k = (sample e, wf_time e) \<and> (\<forall>j. k \<le> j \<and> j < length h \<longrightarrow> cmp (sample e) (fst (h ! j)) \<ge> 0))"

lemma justified_new: "justified (h @ [(v, t)]) (mk_entry v t)"
  unfolding justified_def by (rule exI [of _ "length h"]) (auto simp: mk_entry_def cmp_refl nth_append less_Suc_eq)

lemma justified_more: "justified h e \<Longrightarrow> cmp (sample e) v \<ge> 0 \<Longrightarrow> justified (h @ [(v, t)]) e"
  unfolding justified_def by (fastforce simp: nth_append less_Suc_eq)

lemma justified_time: "justified h e \<Longrightarrow> \<forall>x \<in> set h. snd x \<le> t \<Longrightarrow> wf_time e \<le> t"
  unfolding justified_def by (metis nth_mem snd_conv)

definition filter_ok :: "('v \<times> u64) list \<Rightarrow> 'v WindowedFilter \<Rightarrow> bool" where
  "filter_ok h f \<longleftrightarrow> justified h (est0 f) \<and> justified h (est1 f) \<and> justified h (est2 f)
     \<and> wf_time (est0 f) \<le> wf_time (est1 f) \<and> wf_time (est1 f) \<le> wf_time (est2 f)"

lemma filter_okI:
  "justified h (est0 f) \<Longrightarrow> justified h (est1 f) \<Longrightarrow> justified h (est2 f) \<Longrightarrow> wf_time (est0 f) \<le> wf_time (est1 f)
   \<Longrightarrow> wf_time (est1 f) \<le> wf_time (est2 f) \<Longrightarrow> filter_ok h f"
  by (simp add: filter_ok_def)

lemma filter_ok_Reset: "filter_ok (h @ [(v, t)]) (wf_Reset v t f)"
  by (rule filter_okI) (simp_all add: wf_Reset_def justified_new)

text \<open>The first step of an update: a sample better than the second or third estimate replaces it and those after it.\<close>

lemma filter_ok_insert:
  assumes ok: "filter_ok h f" and worse: "cmp v (sample (est0 f)) < 0" and past: "\<forall>x \<in> set h. snd x \<le> t"
    and g: "g = (if cmp v (sample (est1 f)) \<ge> 0 then f\<lparr>est1 := mk_entry v t, est2 := mk_entry v t\<rparr>
                 else if cmp v (sample (est2 f)) \<ge> 0 then f\<lparr>est2 := mk_entry v t\<rparr> else f)"
  shows "filter_ok (h @ [(v, t)]) g \<and> est0 g = est0 f \<and> windowLength g = windowLength f \<and> wf_time (est2 f) \<le> wf_time (est2 g)
    \<and> wf_time (est2 g) \<le> t"
proof -
  have j: "justified h (est0 f)" "justified h (est1 f)" "justified h (est2 f)" using ok by (simp_all add: filter_ok_def)
  note le = justified_time [OF _ past]
  have j0: "justified (h @ [(v, t)]) (est0 f)" using justified_more [OF j(1)] total [OF worse] by simp
  have j1: "justified (h @ [(v, t)]) (est1 f)" if "cmp v (sample (est1 f)) < 0" using justified_more [OF j(2)] total [OF that] by simp
  have j2: "justified (h @ [(v, t)]) (est2 f)" if "cmp v (sample (est2 f)) < 0" using justified_more [OF j(3)] total [OF that] by simp
  show ?thesis
    unfolding g using ok j0 j1 j2 le [OF j(1)] le [OF j(2)] le [OF j(3)] justified_new [of h v t]
    by (auto simp: filter_ok_def mk_entry_def)
qed

text \<open>The second step: expired estimates are replaced by the next ones, stale copies by the sample.\<close>

lemma filter_ok_Update:
  assumes ok: "filter_ok h f" and past: "\<forall>x \<in> set h. snd x \<le> t" and f': "f' = wf_Update zero cmp v t f"
  shows "filter_ok (h @ [(v, t)]) f' \<and> t - wf_time (est0 f') \<le> windowLength f \<and> windowLength f' = windowLength f"
proof (cases "cmp (sample (est0 f)) zero = 0 \<or> cmp v (sample (est0 f)) \<ge> 0 \<or> t - wf_time (est2 f) > windowLength f")
  case True
  then have "f' = wf_Reset v t f" by (simp only: f' wf_Update_def if_True)
  then show ?thesis using filter_ok_Reset by (simp add: wf_Reset_def mk_entry_def)
next
  case False
  define g where "g = (if cmp v (sample (est1 f)) \<ge> 0 then f\<lparr>est1 := mk_entry v t, est2 := mk_entry v t\<rparr>
                 else if cmp v (sample (est2 f)) \<ge> 0 then f\<lparr>est2 := mk_entry v t\<rparr> else f)"
  have worse: "cmp v (sample (est0 f)) < 0" using False by simp
  note i = filter_ok_insert [OF ok worse past g_def]
  have in2: "t - wf_time (est2 g) \<le> windowLength g"
    using False i word_diff_antimono [of "wf_time (est2 f)" "wf_time (est2 g)" t] by auto
  have j: "justified (h @ [(v, t)]) (est0 g)" "justified (h @ [(v, t)]) (est1 g)" "justified (h @ [(v, t)]) (est2 g)"
    and o: "wf_time (est0 g) \<le> wf_time (est1 g)" "wf_time (est1 g) \<le> wf_time (est2 g)"
    using i unfolding filter_ok_def by blast+
  have fd: "f' = (if t - wf_time (est0 g) > windowLength g then
             let g = g\<lparr>est0 := est1 g, est1 := est2 g, est2 := mk_entry v t\<rparr>
             in if t - wf_time (est0 g) > windowLength g then g\<lparr>est0 := est1 g, est1 := est2 g\<rparr> else g
           else if cmp (sample (est1 g)) (sample (est0 g)) = 0 \<and> t - wf_time (est1 g) > windowLength g div 4 then
             g\<lparr>est1 := mk_entry v t, est2 := mk_entry v t\<rparr>
           else if cmp (sample (est2 g)) (sample (est1 g)) = 0 \<and> t - wf_time (est2 g) > windowLength g div 2 then
             g\<lparr>est2 := mk_entry v t\<rparr>
           else g)"
    unfolding f' wf_Update_def using False by (simp only: if_False Let_def g_def)
  show ?thesis
    unfolding fd using i j o in2 justified_new [of h v t] by (auto simp: filter_ok_def mk_entry_def Let_def)
qed

lemma filter_ok_run:
  assumes "sorted (map snd h)" and "h \<noteq> []"
  shows "filter_ok h (foldl (\<lambda>f (v, t). wf_Update zero cmp v t f) (NewWindowedFilter zero w) h)
    \<and> snd (last h) - wf_time (est0 (foldl (\<lambda>f (v, t). wf_Update zero cmp v t f) (NewWindowedFilter zero w) h)) \<le> w
    \<and> windowLength (foldl (\<lambda>f (v, t). wf_Update zero cmp v t f) (NewWindowedFilter zero w) h) = w"
  using assms(1,2)
proof (induction h rule: rev_induct)
  case (snoc x h)
  obtain v t where x: "x = (v, t)" by (cases x)
  let ?f = "foldl (\<lambda>f (v, t). wf_Update zero cmp v t f) (NewWindowedFilter zero w) h"
  show ?case
  proof (cases "h = []")
    case True
    then have "foldl (\<lambda>f (v, t). wf_Update zero cmp v t f) (NewWindowedFilter zero w) (h @ [x]) = wf_Reset v t (NewWindowedFilter zero w)"
      by (simp add: x wf_Update_def NewWindowedFilter_def mk_entry_def cmp_refl)
    then show ?thesis using filter_ok_Reset [of h v t "NewWindowedFilter zero w"] True
      by (simp add: x wf_Reset_def mk_entry_def NewWindowedFilter_def)
  next
    case False
    have "sorted (map snd h)" "\<forall>y \<in> set h. snd y \<le> t" using snoc.prems(1) by (auto simp: x sorted_append)
    then show ?thesis using snoc.IH False filter_ok_Update [of h ?f t _ zero v, OF _ _ refl] by (simp add: x)
  qed
qed simp

end

text \<open>The two comparators of the source.\<close>

interpretation max: comparator MaxFilter
  by unfold_locales (auto simp: MaxFilter_def split: if_splits)

interpretation min: comparator MinFilter
  by unfold_locales (auto simp: MinFilter_def split: if_splits)


section \<open>Property\<close>

text \<open>
  The windowed maximum is sound: after any history of samples with times that do not run backwards, the best estimate is one of the samples, it
  is not older than the window, and no sample received after it is larger.
\<close>

theorem windowed_max_sound:
  assumes "sorted (map snd h)" and "h \<noteq> []"
    and "f = foldl (\<lambda>f (v, t). wf_Update zero MaxFilter v t f) (NewWindowedFilter zero w) h"
  shows "\<exists>k < length h. fst (h ! k) = GetBest f \<and> snd (last h) - snd (h ! k) \<le> w \<and> (\<forall>j. k \<le> j \<and> j < length h \<longrightarrow> fst (h ! j) \<le> GetBest f)"
proof -
  have cmp: "MaxFilter a b \<ge> 0 \<longleftrightarrow> b \<le> a" for a b :: 'a by (auto simp: MaxFilter_def)
  have "max.filter_ok h f" "snd (last h) - wf_time (est0 f) \<le> w" using max.filter_ok_run [OF assms(1,2), of zero] by (simp_all add: assms(3))
  then show ?thesis by (auto simp: max.filter_ok_def max.justified_def cmp GetBest_def)
qed

theorem windowed_max_sound_witness:
  "let h = [(7, 1), (9, 2), (3, 5)] :: (nat \<times> u64) list;
       f = foldl (\<lambda>f (v, t). wf_Update 0 MaxFilter v t f) (NewWindowedFilter 0 10) h
   in GetBest f = 9 \<and> (\<exists>k < length h. fst (h ! k) = GetBest f \<and> snd (last h) - snd (h ! k) \<le> 10
        \<and> (\<forall>j. k \<le> j \<and> j < length h \<longrightarrow> fst (h ! j) \<le> GetBest f))"
  unfolding Let_def
  by (rule conjI [OF _ windowed_max_sound [OF _ _ refl]])
    (simp_all add: wf_Update_def MaxFilter_def NewWindowedFilter_def mk_entry_def wf_Reset_def GetBest_def Let_def)

end
