(* ===== verification/Bandwidth_Sampler.thy ===== *)
theory Bandwidth_Sampler
  imports Packet_Queue Windowed_Filter Complex_Main
begin

text \<open>
  The bandwidth sampler of the BBR controller (\<open>core/internal/congestion/bbr/bandwidth_sampler.go\<close>, \<open>core/internal/congestion/bbr/bandwidth.go\<close>).
  Byte counts and times are integers, as their 64 bits are never exhausted; bandwidths and round trip counts are 64-bit words, and the products of a
  bandwidth and a duration wrap around as in the source. The zero time is 0. The product of a floating point threshold and a byte count is the
  argument \<open>fmul\<close>. A panic - of a ring, or a division by zero - is \<open>None\<close>. Getters of single fields are left out.
\<close>

section \<open>Bandwidths\<close>

type_synonym ByteCount = int
type_synonym Bandwidth = u64

definition infBandwidth :: Bandwidth where "infBandwidth = - 1"
definition infRTT :: duration where "infRTT = 9223372036854775807"

definition BandwidthFromDelta :: "ByteCount \<Rightarrow> duration \<Rightarrow> Bandwidth option" where
  "BandwidthFromDelta n delta =
     (if (word_of_int delta :: u64) = 0 then None
      else Some (word_of_int n * word_of_int Second div word_of_int delta * 8))"

text \<open>The product is one of signed 64-bit integers.\<close>

definition bytesFromBandwidthAndTimeDelta :: "Bandwidth \<Rightarrow> duration \<Rightarrow> ByteCount" where
  "bytesFromBandwidthAndTimeDelta bw delta = go_div (sint (bw * word_of_int delta)) (Second * 8)"


section \<open>Data\<close>

record sendTimeState =
  isValid :: bool
  st_isAppLimited :: bool
  st_totalBytesSent :: ByteCount
  st_totalBytesAcked :: ByteCount
  st_totalBytesLost :: ByteCount
  st_bytesInFlight :: ByteCount

definition no_state :: sendTimeState where
  "no_state = \<lparr>isValid = False, st_isAppLimited = False, st_totalBytesSent = 0, st_totalBytesAcked = 0, st_totalBytesLost = 0, st_bytesInFlight = 0\<rparr>"

definition newSendTimeState :: "bool \<Rightarrow> ByteCount \<Rightarrow> ByteCount \<Rightarrow> ByteCount \<Rightarrow> ByteCount \<Rightarrow> sendTimeState" where
  "newSendTimeState appLimited sent acked lost inFlight =
     \<lparr>isValid = True, st_isAppLimited = appLimited, st_totalBytesSent = sent, st_totalBytesAcked = acked, st_totalBytesLost = lost,
      st_bytesInFlight = inFlight\<rparr>"

record extraAckedEvent =
  ev_extraAcked :: ByteCount
  ev_bytesAcked :: ByteCount
  ev_timeDelta :: duration
  ev_round :: u64

definition no_event :: extraAckedEvent where
  "no_event = \<lparr>ev_extraAcked = 0, ev_bytesAcked = 0, ev_timeDelta = 0, ev_round = 0\<rparr>"

definition maxExtraAckedEventFunc :: "extraAckedEvent \<Rightarrow> extraAckedEvent \<Rightarrow> int" where
  "maxExtraAckedEventFunc a b =
     (if ev_extraAcked a > ev_extraAcked b then 1 else if ev_extraAcked a < ev_extraAcked b then - 1 else 0)"

record bandwidthSample =
  bs_bandwidth :: Bandwidth
  bs_rtt :: duration
  bs_sendRate :: Bandwidth
  bs_stateAtSend :: sendTimeState

definition newBandwidthSample :: bandwidthSample where
  "newBandwidthSample = \<lparr>bs_bandwidth = 0, bs_rtt = 0, bs_sendRate = infBandwidth, bs_stateAtSend = no_state\<rparr>"


section \<open>Ack aggregation\<close>

record maxAckHeightTracker =
  maxAckHeightFilter :: "extraAckedEvent WindowedFilter"
  aggregationEpochStartTime :: instant
  aggregationEpochBytes :: ByteCount
  lastSentPacketNumberBeforeEpoch :: PacketNumber
  numAckAggregationEpochs :: u64
  ackAggregationBandwidthThreshold :: real
  startNewAggregationEpochAfterFullRound :: bool
  reduceExtraAckedOnBandwidthIncrease :: bool

definition newMaxAckHeightTracker :: "u64 \<Rightarrow> maxAckHeightTracker" where
  "newMaxAckHeightTracker w =
     \<lparr>maxAckHeightFilter = NewWindowedFilter no_event w, aggregationEpochStartTime = 0, aggregationEpochBytes = 0,
      lastSentPacketNumberBeforeEpoch = invalidPacketNumber, numAckAggregationEpochs = 0, ackAggregationBandwidthThreshold = 1,
      startNewAggregationEpochAfterFullRound = False, reduceExtraAckedOnBandwidthIncrease = False\<rparr>"

definition tracker_Get :: "maxAckHeightTracker \<Rightarrow> ByteCount" where
  "tracker_Get m = ev_extraAcked (GetBest (maxAckHeightFilter m))"

abbreviation ev_Update :: "extraAckedEvent \<Rightarrow> u64 \<Rightarrow> extraAckedEvent WindowedFilter \<Rightarrow> extraAckedEvent WindowedFilter" where
  "ev_Update \<equiv> wf_Update no_event maxExtraAckedEventFunc"

text \<open>One of the three heights that are recalculated and inserted again.\<close>

definition reinsert :: "Bandwidth \<Rightarrow> extraAckedEvent \<Rightarrow> extraAckedEvent WindowedFilter \<Rightarrow> extraAckedEvent WindowedFilter" where
  "reinsert bw e f =
     (let expectedBytesAcked = bytesFromBandwidthAndTimeDelta bw (ev_timeDelta e)
      in if expectedBytesAcked < ev_bytesAcked e
         then let e = e\<lparr>ev_extraAcked := ev_bytesAcked e - expectedBytesAcked\<rparr> in ev_Update e (ev_round e) f
         else f)"

definition new_epoch :: "PacketNumber \<Rightarrow> instant \<Rightarrow> ByteCount \<Rightarrow> maxAckHeightTracker \<Rightarrow> maxAckHeightTracker" where
  "new_epoch lastSent ackTime bytesAcked m =
     m\<lparr>aggregationEpochBytes := bytesAcked, aggregationEpochStartTime := ackTime, lastSentPacketNumberBeforeEpoch := lastSent,
       numAckAggregationEpochs := numAckAggregationEpochs m + 1\<rparr>"

definition tracker_Update ::
  "(real \<Rightarrow> ByteCount \<Rightarrow> ByteCount) \<Rightarrow> Bandwidth \<Rightarrow> bool \<Rightarrow> u64 \<Rightarrow> PacketNumber \<Rightarrow> PacketNumber \<Rightarrow> instant \<Rightarrow> ByteCount
   \<Rightarrow> maxAckHeightTracker \<Rightarrow> ByteCount \<times> maxAckHeightTracker" where
  "tracker_Update fmul bandwidthEstimate isNewMaxBandwidth rtc lastSent lastAcked ackTime bytesAcked m =
     (let m = (if reduceExtraAckedOnBandwidthIncrease m \<and> isNewMaxBandwidth
               then let f = maxAckHeightFilter m;
                        best = GetBest f; secondBest = GetSecondBest f; thirdBest = GetThirdBest f
                    in m\<lparr>maxAckHeightFilter :=
                           reinsert bandwidthEstimate thirdBest
                             (reinsert bandwidthEstimate secondBest (reinsert bandwidthEstimate best (wf_Clear no_event f)))\<rparr>
               else m);
          forceNewEpoch = (startNewAggregationEpochAfterFullRound m \<and> lastSentPacketNumberBeforeEpoch m \<noteq> invalidPacketNumber
                           \<and> lastAcked \<noteq> invalidPacketNumber \<and> lastAcked > lastSentPacketNumberBeforeEpoch m)
      in if aggregationEpochStartTime m = 0 \<or> forceNewEpoch then (0, new_epoch lastSent ackTime bytesAcked m)
         else
           let aggregationDelta = ackTime - aggregationEpochStartTime m;
               expectedBytesAcked = bytesFromBandwidthAndTimeDelta bandwidthEstimate aggregationDelta
           in if aggregationEpochBytes m \<le> fmul (ackAggregationBandwidthThreshold m) expectedBytesAcked
              then (0, new_epoch lastSent ackTime bytesAcked m)
              else let m = m\<lparr>aggregationEpochBytes := aggregationEpochBytes m + bytesAcked\<rparr>;
                       extraBytesAcked = aggregationEpochBytes m - expectedBytesAcked;
                       newEvent = \<lparr>ev_extraAcked = extraBytesAcked, ev_bytesAcked = aggregationEpochBytes m,
                                   ev_timeDelta = aggregationDelta, ev_round = 0\<rparr>
                   in (extraBytesAcked, m\<lparr>maxAckHeightFilter := ev_Update newEvent rtc (maxAckHeightFilter m)\<rparr>))"

definition tracker_Reset :: "ByteCount \<Rightarrow> u64 \<Rightarrow> maxAckHeightTracker \<Rightarrow> maxAckHeightTracker" where
  "tracker_Reset newHeight newTime m =
     m\<lparr>maxAckHeightFilter := wf_Reset \<lparr>ev_extraAcked = newHeight, ev_bytesAcked = 0, ev_timeDelta = 0, ev_round = newTime\<rparr> newTime (maxAckHeightFilter m)\<rparr>"


section \<open>Ack points\<close>

record ackPoint =
  ap_ackTime :: instant
  ap_totalBytesAcked :: ByteCount

definition no_point :: ackPoint where "no_point = \<lparr>ap_ackTime = 0, ap_totalBytesAcked = 0\<rparr>"

type_synonym recentAckPoints = "ackPoint \<times> ackPoint"

definition points_Update :: "instant \<Rightarrow> ByteCount \<Rightarrow> recentAckPoints \<Rightarrow> recentAckPoints" where
  "points_Update ackTime acked_total r =
     (let r = (if ackTime < ap_ackTime (snd r) then (fst r, (snd r)\<lparr>ap_ackTime := ackTime\<rparr>)
               else if ackTime > ap_ackTime (snd r) then (snd r, (snd r)\<lparr>ap_ackTime := ackTime\<rparr>)
               else r)
      in (fst r, (snd r)\<lparr>ap_totalBytesAcked := acked_total\<rparr>))"

definition points_Clear :: "recentAckPoints \<Rightarrow> recentAckPoints" where "points_Clear r = (no_point, no_point)"
definition MostRecentPoint :: "recentAckPoints \<Rightarrow> ackPoint" where "MostRecentPoint r = snd r"
definition LessRecentPoint :: "recentAckPoints \<Rightarrow> ackPoint" where
  "LessRecentPoint r = (if ap_totalBytesAcked (fst r) \<noteq> 0 then fst r else snd r)"


section \<open>The sampler\<close>

record connectionStateOnSentPacket =
  cs_sentTime :: instant
  cs_size :: ByteCount
  cs_totalBytesSentAtLastAckedPacket :: ByteCount
  cs_lastAckedPacketSentTime :: instant
  cs_lastAckedPacketAckTime :: instant
  cs_sendTimeState :: sendTimeState

definition no_conn_state :: connectionStateOnSentPacket where
  "no_conn_state = \<lparr>cs_sentTime = 0, cs_size = 0, cs_totalBytesSentAtLastAckedPacket = 0, cs_lastAckedPacketSentTime = 0,
     cs_lastAckedPacketAckTime = 0, cs_sendTimeState = no_state\<rparr>"

record congestionEventSample =
  sampleMaxBandwidth :: Bandwidth
  sampleIsAppLimited :: bool
  sampleRtt :: duration
  sampleMaxInflight :: ByteCount
  lastPacketSendState :: sendTimeState
  ces_extraAcked :: ByteCount

definition newCongestionEventSample :: congestionEventSample where
  "newCongestionEventSample = \<lparr>sampleMaxBandwidth = 0, sampleIsAppLimited = False, sampleRtt = infRTT, sampleMaxInflight = 0,
     lastPacketSendState = no_state, ces_extraAcked = 0\<rparr>"

record bandwidthSampler =
  totalBytesSent :: ByteCount
  totalBytesAcked :: ByteCount
  totalBytesLost :: ByteCount
  totalBytesNeutered :: ByteCount
  totalBytesSentAtLastAckedPacket :: ByteCount
  lastAckedPacketSentTime :: instant
  lastAckedPacketAckTime :: instant
  lastSentPacket :: PacketNumber
  lastAckedPacket :: PacketNumber
  isAppLimited :: bool
  endOfAppLimitedPhase :: PacketNumber
  connectionStateMap :: "connectionStateOnSentPacket packetNumberIndexedQueue"
  recentPoints :: recentAckPoints
  a0Candidates :: "ackPoint RingBuffer"
  tracker :: maxAckHeightTracker
  totalBytesAckedAfterLastAckEvent :: ByteCount
  overestimateAvoidance :: bool
  limitMaxAckHeightTrackerBySendRate :: bool

definition newBandwidthSampler :: "u64 \<Rightarrow> bandwidthSampler" where
  "newBandwidthSampler w =
     \<lparr>totalBytesSent = 0, totalBytesAcked = 0, totalBytesLost = 0, totalBytesNeutered = 0, totalBytesSentAtLastAckedPacket = 0,
      lastAckedPacketSentTime = 0, lastAckedPacketAckTime = 0, lastSentPacket = invalidPacketNumber, lastAckedPacket = invalidPacketNumber,
      isAppLimited = False, endOfAppLimitedPhase = invalidPacketNumber,
      connectionStateMap = newPacketNumberIndexedQueue no_conn_state 256, recentPoints = (no_point, no_point),
      a0Candidates = rb_Init no_point 256 zero_RingBuffer, tracker = newMaxAckHeightTracker w, totalBytesAckedAfterLastAckEvent = 0,
      overestimateAvoidance = False, limitMaxAckHeightTrackerBySendRate = False\<rparr>"

definition newConnectionStateOnSentPacket ::
  "instant \<Rightarrow> ByteCount \<Rightarrow> ByteCount \<Rightarrow> bandwidthSampler \<Rightarrow> connectionStateOnSentPacket" where
  "newConnectionStateOnSentPacket sentTime n inFlight b =
     \<lparr>cs_sentTime = sentTime, cs_size = n, cs_totalBytesSentAtLastAckedPacket = totalBytesSentAtLastAckedPacket b,
      cs_lastAckedPacketSentTime = lastAckedPacketSentTime b, cs_lastAckedPacketAckTime = lastAckedPacketAckTime b,
      cs_sendTimeState = newSendTimeState (isAppLimited b) (totalBytesSent b) (totalBytesAcked b) (totalBytesLost b) inFlight\<rparr>"

definition EnableOverestimateAvoidance :: "bandwidthSampler \<Rightarrow> bandwidthSampler" where
  "EnableOverestimateAvoidance b =
     (if overestimateAvoidance b then b
      else b\<lparr>overestimateAvoidance := True, tracker := (tracker b)\<lparr>ackAggregationBandwidthThreshold := 2\<rparr>\<rparr>)"

definition OnPacketSent :: "instant \<Rightarrow> PacketNumber \<Rightarrow> ByteCount \<Rightarrow> ByteCount \<Rightarrow> bool \<Rightarrow> bandwidthSampler \<Rightarrow> bandwidthSampler" where
  "OnPacketSent sentTime packetNumber n bytesInFlight isRetransmittable b =
     (let b = b\<lparr>lastSentPacket := packetNumber\<rparr>
      in if \<not> isRetransmittable then b
         else
           let b = b\<lparr>totalBytesSent := totalBytesSent b + n\<rparr>;
               b = (if bytesInFlight = 0
                    then let b = b\<lparr>lastAckedPacketAckTime := sentTime\<rparr>;
                             b = (if overestimateAvoidance b
                                  then let r = points_Update sentTime (totalBytesAcked b) (points_Clear (recentPoints b))
                                       in b\<lparr>recentPoints := r,
                                            a0Candidates := rb_PushBack no_point (MostRecentPoint r) (rb_Clear no_point (a0Candidates b))\<rparr>
                                  else b)
                         in b\<lparr>totalBytesSentAtLastAckedPacket := totalBytesSent b, lastAckedPacketSentTime := sentTime\<rparr>
                    else b)
           in b\<lparr>connectionStateMap :=
                  snd (pq_Emplace no_conn_state packetNumber
                    (Some (newConnectionStateOnSentPacket sentTime n (bytesInFlight + n) b)) (connectionStateMap b))\<rparr>)"

definition sentPacketToSendTimeState :: "connectionStateOnSentPacket \<Rightarrow> sendTimeState" where
  "sentPacketToSendTimeState p = (cs_sendTimeState p)\<lparr>isValid := True\<rparr>"

definition OnPacketLost :: "PacketNumber \<Rightarrow> ByteCount \<Rightarrow> bandwidthSampler \<Rightarrow> sendTimeState \<times> bandwidthSampler" where
  "OnPacketLost packetNumber bytesLost b =
     (let b = b\<lparr>totalBytesLost := totalBytesLost b + bytesLost\<rparr>
      in (case pq_GetEntry packetNumber (connectionStateMap b) of
            None \<Rightarrow> no_state
          | Some p \<Rightarrow> sentPacketToSendTimeState p, b))"

definition OnPacketNeutered :: "PacketNumber \<Rightarrow> bandwidthSampler \<Rightarrow> bandwidthSampler option" where
  "OnPacketNeutered packetNumber b =
     (case pq_Remove no_conn_state packetNumber (connectionStateMap b) of
        None \<Rightarrow> None
      | Some (e, q) \<Rightarrow>
          Some (b\<lparr>connectionStateMap := q,
                 totalBytesNeutered := totalBytesNeutered b + (case e of None \<Rightarrow> 0 | Some p \<Rightarrow> cs_size p)\<rparr>))"

definition OnAppLimited :: "bandwidthSampler \<Rightarrow> bandwidthSampler" where
  "OnAppLimited b = b\<lparr>isAppLimited := True, endOfAppLimitedPhase := lastSentPacket b\<rparr>"

definition RemoveObsoletePackets :: "PacketNumber \<Rightarrow> bandwidthSampler \<Rightarrow> bandwidthSampler option" where
  "RemoveObsoletePackets leastUnacked b =
     map_option (\<lambda>q. b\<lparr>connectionStateMap := q\<rparr>) (pq_RemoveUpTo no_conn_state leastUnacked (connectionStateMap b))"

fun pop_n :: "nat \<Rightarrow> ackPoint RingBuffer \<Rightarrow> ackPoint RingBuffer option" where
  "pop_n 0 c = Some c"
| "pop_n (Suc n) c = (case rb_PopFront no_point c of None \<Rightarrow> None | Some (_, c) \<Rightarrow> pop_n n c)"

text \<open>The loop \<open>for k := 0; k < Len()-1; k++\<close>, whose bound shrinks with every pop; its fuel is the length at the start.\<close>

fun pop_rest :: "nat \<Rightarrow> nat \<Rightarrow> ackPoint RingBuffer \<Rightarrow> ackPoint RingBuffer option" where
  "pop_rest 0 k c = Some c"
| "pop_rest (Suc fuel) k c =
     (if int k < int (rb_Len c) - 1
      then case rb_PopFront no_point c of None \<Rightarrow> None | Some (_, c) \<Rightarrow> pop_rest fuel (Suc k) c
      else Some c)"

text \<open>The point chosen, if any, and the remaining candidates.\<close>

definition chooseA0Point :: "ByteCount \<Rightarrow> ackPoint RingBuffer \<Rightarrow> (ackPoint option \<times> ackPoint RingBuffer) option" where
  "chooseA0Point acked_total c =
     (if rb_Empty c then Some (None, c)
      else if rb_Len c = 1 then map_option (\<lambda>p. (Some (ring c ! p), c)) (rb_Front c)
      else case find (\<lambda>i. case rb_at c i of None \<Rightarrow> False | Some pt \<Rightarrow> ap_totalBytesAcked pt > acked_total) [1..<rb_Len c] of
             Some i \<Rightarrow>
               (case rb_at c (i - 1) of
                  None \<Rightarrow> None
                | Some a0 \<Rightarrow> map_option (\<lambda>c. (Some a0, c)) (if i > 1 then pop_n (i - 1) c else Some c))
           | None \<Rightarrow>
               (case rb_Back c of
                  None \<Rightarrow> None
                | Some p \<Rightarrow> map_option (\<lambda>c'. (Some (ring c ! p), c')) (pop_rest (rb_Len c) 0 c)))"

text \<open>\<open>onPacketAcknowledged\<close> in three parts: the bookkeeping, the rate of sending, and the sample.\<close>

definition acked_state :: "instant \<Rightarrow> PacketNumber \<Rightarrow> connectionStateOnSentPacket \<Rightarrow> bandwidthSampler \<Rightarrow> bandwidthSampler" where
  "acked_state ackTime packetNumber p b =
     (let b = b\<lparr>totalBytesAcked := totalBytesAcked b + cs_size p,
                totalBytesSentAtLastAckedPacket := st_totalBytesSent (cs_sendTimeState p),
                lastAckedPacketSentTime := cs_sentTime p, lastAckedPacketAckTime := ackTime\<rparr>;
          b = (if overestimateAvoidance b then b\<lparr>recentPoints := points_Update ackTime (totalBytesAcked b) (recentPoints b)\<rparr> else b)
      in if isAppLimited b \<and> (endOfAppLimitedPhase b = invalidPacketNumber \<or> packetNumber > endOfAppLimitedPhase b)
         then b\<lparr>isAppLimited := False\<rparr> else b)"

definition send_rate :: "connectionStateOnSentPacket \<Rightarrow> Bandwidth option" where
  "send_rate p =
     (if cs_sentTime p > cs_lastAckedPacketSentTime p
      then BandwidthFromDelta (st_totalBytesSent (cs_sendTimeState p) - cs_totalBytesSentAtLastAckedPacket p)
             (cs_sentTime p - cs_lastAckedPacketSentTime p)
      else Some infBandwidth)"

definition ack_sample :: "instant \<Rightarrow> connectionStateOnSentPacket \<Rightarrow> bandwidthSampler \<Rightarrow> (bandwidthSample \<times> bandwidthSampler) option" where
  "ack_sample ackTime p b =
     (if cs_lastAckedPacketSentTime p = 0 then Some (newBandwidthSample, b)
      else case send_rate p of
        None \<Rightarrow> None
      | Some sendRate \<Rightarrow>
          (case (if overestimateAvoidance b then chooseA0Point (st_totalBytesAcked (cs_sendTimeState p)) (a0Candidates b)
                 else Some (None, a0Candidates b)) of
             None \<Rightarrow> None
           | Some (chosen, c) \<Rightarrow>
               let b = b\<lparr>a0Candidates := c\<rparr>;
                   a0 = (case chosen of
                           Some a0 \<Rightarrow> a0
                         | None \<Rightarrow> \<lparr>ap_ackTime = cs_lastAckedPacketAckTime p, ap_totalBytesAcked = st_totalBytesAcked (cs_sendTimeState p)\<rparr>)
               in if ackTime - ap_ackTime a0 \<le> 0 then Some (newBandwidthSample, b)
                  else case BandwidthFromDelta (totalBytesAcked b - ap_totalBytesAcked a0) (ackTime - ap_ackTime a0) of
                         None \<Rightarrow> None
                       | Some ackRate \<Rightarrow>
                           Some (\<lparr>bs_bandwidth = min sendRate ackRate, bs_rtt = ackTime - cs_sentTime p, bs_sendRate = sendRate,
                                  bs_stateAtSend = sentPacketToSendTimeState p\<rparr>, b)))"

definition onPacketAcknowledged :: "instant \<Rightarrow> PacketNumber \<Rightarrow> bandwidthSampler \<Rightarrow> (bandwidthSample \<times> bandwidthSampler) option" where
  "onPacketAcknowledged ackTime packetNumber b =
     (let b = b\<lparr>lastAckedPacket := packetNumber\<rparr>
      in case pq_GetEntry packetNumber (connectionStateMap b) of
           None \<Rightarrow> Some (newBandwidthSample, b)
         | Some p \<Rightarrow> ack_sample ackTime p (acked_state ackTime packetNumber p b))"

definition onAckEventEnd ::
  "(real \<Rightarrow> ByteCount \<Rightarrow> ByteCount) \<Rightarrow> Bandwidth \<Rightarrow> bool \<Rightarrow> u64 \<Rightarrow> bandwidthSampler \<Rightarrow> ByteCount \<times> bandwidthSampler" where
  "onAckEventEnd fmul bandwidthEstimate isNewMaxBandwidth rtc b =
     (let newlyAckedBytes = totalBytesAcked b - totalBytesAckedAfterLastAckEvent b
      in if newlyAckedBytes = 0 then (0, b)
         else
           let b = b\<lparr>totalBytesAckedAfterLastAckEvent := totalBytesAcked b\<rparr>;
               (extraAcked, m) = tracker_Update fmul bandwidthEstimate isNewMaxBandwidth rtc (lastSentPacket b) (lastAckedPacket b)
                                   (lastAckedPacketAckTime b) newlyAckedBytes (tracker b);
               b = b\<lparr>tracker := m\<rparr>;
               b = (if overestimateAvoidance b \<and> extraAcked = 0
                    then b\<lparr>a0Candidates := rb_PushBack no_point (LessRecentPoint (recentPoints b)) (a0Candidates b)\<rparr> else b)
           in (extraAcked, b))"

fun lose_all :: "(PacketNumber \<times> ByteCount) list \<Rightarrow> sendTimeState \<Rightarrow> bandwidthSampler \<Rightarrow> sendTimeState \<times> bandwidthSampler" where
  "lose_all [] s b = (s, b)"
| "lose_all ((p, n) # ps) s b =
     (let (sendState, b) = OnPacketLost p n b in lose_all ps (if isValid sendState then sendState else s) b)"

text \<open>What the acknowledgements of one event accumulate.\<close>

record ack_acc =
  acc_sample :: congestionEventSample
  acc_state :: sendTimeState
  acc_maxSendRate :: Bandwidth

definition ack_one :: "bandwidthSample \<Rightarrow> ByteCount \<Rightarrow> ack_acc \<Rightarrow> ack_acc" where
  "ack_one s totalAcked a =
     (if \<not> isValid (bs_stateAtSend s) then a
      else
        let es = acc_sample a;
            es = (if bs_rtt s \<noteq> 0 then es\<lparr>sampleRtt := min (sampleRtt es) (bs_rtt s)\<rparr> else es);
            es = (if bs_bandwidth s > sampleMaxBandwidth es
                  then es\<lparr>sampleMaxBandwidth := bs_bandwidth s, sampleIsAppLimited := st_isAppLimited (bs_stateAtSend s)\<rparr> else es);
            rate = (if bs_sendRate s \<noteq> infBandwidth then max (acc_maxSendRate a) (bs_sendRate s) else acc_maxSendRate a);
            inflightSample = totalAcked - st_totalBytesAcked (bs_stateAtSend s);
            es = (if inflightSample > sampleMaxInflight es then es\<lparr>sampleMaxInflight := inflightSample\<rparr> else es)
        in \<lparr>acc_sample = es, acc_state = bs_stateAtSend s, acc_maxSendRate = rate\<rparr>)"

fun ack_all :: "instant \<Rightarrow> PacketNumber list \<Rightarrow> ack_acc \<Rightarrow> bandwidthSampler \<Rightarrow> (ack_acc \<times> bandwidthSampler) option" where
  "ack_all ackTime [] a b = Some (a, b)"
| "ack_all ackTime (p # ps) a b =
     (case onPacketAcknowledged ackTime p b of
        None \<Rightarrow> None
      | Some (s, b) \<Rightarrow> ack_all ackTime ps (ack_one s (totalBytesAcked b) a) b)"

definition OnCongestionEvent ::
  "(real \<Rightarrow> ByteCount \<Rightarrow> ByteCount) \<Rightarrow> instant \<Rightarrow> PacketNumber list \<Rightarrow> (PacketNumber \<times> ByteCount) list \<Rightarrow> Bandwidth \<Rightarrow> Bandwidth \<Rightarrow> u64
   \<Rightarrow> bandwidthSampler \<Rightarrow> (congestionEventSample \<times> bandwidthSampler) option" where
  "OnCongestionEvent fmul ackTime acked lost maxBandwidth estBandwidthUpperBound rtc b =
     (let (lostState, b) = lose_all lost no_state b
      in if acked = [] then Some (newCongestionEventSample\<lparr>lastPacketSendState := lostState\<rparr>, b)
         else
           case ack_all ackTime acked \<lparr>acc_sample = newCongestionEventSample, acc_state = no_state, acc_maxSendRate = 0\<rparr> b of
             None \<Rightarrow> None
           | Some (a, b) \<Rightarrow>
               let es = acc_sample a;
                   state = (if \<not> isValid lostState then acc_state a
                            else if \<not> isValid (acc_state a) then lostState
                            else if fst (last lost) > last acked then lostState else acc_state a);
                   isNewMax = sampleMaxBandwidth es > maxBandwidth;
                   maxBw = max maxBandwidth (sampleMaxBandwidth es);
                   maxBw = (if limitMaxAckHeightTrackerBySendRate b then max maxBw (acc_maxSendRate a) else maxBw);
                   (extra, b) = onAckEventEnd fmul (min estBandwidthUpperBound maxBw) isNewMax rtc b
               in Some (es\<lparr>lastPacketSendState := state, ces_extraAcked := extra\<rparr>, b))"


text \<open>The configuration of the sampler, handed on to its tracker.\<close>

definition SetMaxAckHeightTrackerWindowLength :: "u64 \<Rightarrow> bandwidthSampler \<Rightarrow> bandwidthSampler" where
  "SetMaxAckHeightTrackerWindowLength l b = b\<lparr>tracker := (tracker b)\<lparr>maxAckHeightFilter := SetWindowLength l (maxAckHeightFilter (tracker b))\<rparr>\<rparr>"

definition ResetMaxAckHeightTracker :: "ByteCount \<Rightarrow> u64 \<Rightarrow> bandwidthSampler \<Rightarrow> bandwidthSampler" where
  "ResetMaxAckHeightTracker newHeight newTime b = b\<lparr>tracker := tracker_Reset newHeight newTime (tracker b)\<rparr>"

definition SetStartNewAggregationEpochAfterFullRound :: "bool \<Rightarrow> bandwidthSampler \<Rightarrow> bandwidthSampler" where
  "SetStartNewAggregationEpochAfterFullRound v b = b\<lparr>tracker := (tracker b)\<lparr>startNewAggregationEpochAfterFullRound := v\<rparr>\<rparr>"

definition SetLimitMaxAckHeightTrackerBySendRate :: "bool \<Rightarrow> bandwidthSampler \<Rightarrow> bandwidthSampler" where
  "SetLimitMaxAckHeightTrackerBySendRate v b = b\<lparr>limitMaxAckHeightTrackerBySendRate := v\<rparr>"

definition SetReduceExtraAckedOnBandwidthIncrease :: "bool \<Rightarrow> bandwidthSampler \<Rightarrow> bandwidthSampler" where
  "SetReduceExtraAckedOnBandwidthIncrease v b = b\<lparr>tracker := (tracker b)\<lparr>reduceExtraAckedOnBandwidthIncrease := v\<rparr>\<rparr>"

lemmas configure_defs = SetMaxAckHeightTrackerWindowLength_def ResetMaxAckHeightTracker_def SetStartNewAggregationEpochAfterFullRound_def
  SetLimitMaxAckHeightTrackerBySendRate_def SetReduceExtraAckedOnBandwidthIncrease_def


section \<open>The candidates\<close>

lemma pop_n_items:
  "rb_ok c \<Longrightarrow> n \<le> rb_Len c \<Longrightarrow> \<exists>c'. pop_n n c = Some c' \<and> rb_ok c' \<and> rb_items c' = drop n (rb_items c)"
proof (induction n arbitrary: c)
  case (Suc n)
  then obtain x xs where xs: "rb_items c = x # xs" using length_rb_items [of c] by (cases "rb_items c") auto
  then obtain c1 where "rb_PopFront no_point c = Some (x, c1)" "rb_ok c1" "rb_items c1 = xs" using rb_PopFront_cons [OF Suc.prems(1)] by blast
  then show ?case using Suc xs length_rb_items [of c] length_rb_items [of c1] by auto
qed auto

lemma pop_rest_items:
  "rb_ok c \<Longrightarrow> rb_Len c \<le> fuel \<Longrightarrow>
     \<exists>c'. pop_rest fuel k c = Some c' \<and> rb_ok c' \<and> rb_items c' = drop ((rb_Len c - k) div 2) (rb_items c)"
proof (induction fuel arbitrary: k c)
  case (Suc fuel)
  show ?case
  proof (cases "int k < int (rb_Len c) - 1")
    case True
    then have k: "k + 2 \<le> rb_Len c" by simp
    obtain x xs where xs: "rb_items c = x # xs" using length_rb_items [OF Suc.prems(1)] k by (cases "rb_items c") auto
    then obtain c1 where c1: "rb_PopFront no_point c = Some (x, c1)" "rb_ok c1" "rb_items c1 = xs"
      using rb_PopFront_cons [OF Suc.prems(1)] by blast
    have len: "rb_Len c = Suc (rb_Len c1)" using length_rb_items [OF Suc.prems(1)] length_rb_items [OF c1(2)] xs c1(3) by simp
    have d: "(rb_Len c - k) div 2 = Suc ((rb_Len c1 - Suc k) div 2)" using k len by presburger
    show ?thesis using Suc.IH [OF c1(2), of "Suc k"] Suc.prems(2) True c1 xs len d by auto
  next
    case False
    then have "(rb_Len c - k) div 2 = 0" by auto
    then show ?thesis using False Suc.prems(1) by auto
  qed
qed (auto simp: rb_Empty_Len)

lemma rb_Len_pos: "rb_ok c \<Longrightarrow> rb_items c \<noteq> [] \<Longrightarrow> rb_Len c > 0"
  by (metis length_greater_0_conv length_rb_items)

lemma rb_Back_items:
  assumes "rb_ok c" and "rb_items c \<noteq> []"
  shows "\<exists>p. rb_Back c = Some p \<and> ring c ! p = last (rb_items c)"
proof -
  have "map_option (\<lambda>p. ring c ! p) (rb_Back c) = Some (last (rb_items c))"
    using rb_Back_at [OF assms(1)] rb_at_items [OF assms(1), of "rb_Len c - 1"] rb_Len_pos [OF assms] assms by (simp add: last_conv_nth)
  then show ?thesis by auto
qed

lemma rb_Front_items:
  assumes "rb_ok c" and "rb_items c \<noteq> []"
  shows "\<exists>p. rb_Front c = Some p \<and> ring c ! p = hd (rb_items c)"
proof -
  have "map_option (\<lambda>p. ring c ! p) (rb_Front c) = Some (hd (rb_items c))"
    using rb_Front_at [OF assms(1)] rb_at_items [OF assms(1), of 0] rb_Len_pos [OF assms] assms by (simp add: hd_conv_nth)
  then show ?thesis by auto
qed

text \<open>The index chosen: before the first candidate beyond the given total, or the last one.\<close>

definition a0_index :: "ByteCount \<Rightarrow> ackPoint list \<Rightarrow> nat" where
  "a0_index t xs = (case find (\<lambda>i. ap_totalBytesAcked (xs ! i) > t) [1..<length xs] of Some i \<Rightarrow> i - 1 | None \<Rightarrow> length xs - 1)"

lemma find_upt: "find P [a..<b] = Some i \<Longrightarrow> a \<le> i \<and> i < b \<and> P i"
  by (auto simp: find_Some_iff)

lemma chooseA0Point_items:
  assumes ok: "rb_ok c"
  shows "if rb_items c = [] then chooseA0Point t c = Some (None, c)
    else \<exists>c'. chooseA0Point t c = Some (Some (rb_items c ! a0_index t (rb_items c)), c') \<and> rb_ok c'
      \<and> rb_items c' = drop (if find (\<lambda>i. ap_totalBytesAcked (rb_items c ! i) > t) [1..<rb_Len c] = None then rb_Len c div 2 else a0_index t (rb_items c))
           (rb_items c)"
proof (cases "rb_items c = []")
  case True
  then show ?thesis using rb_Empty_items [OF ok] by (simp add: chooseA0Point_def)
next
  case False
  have ne: "\<not> rb_Empty c" and len: "length (rb_items c) = rb_Len c" using rb_Empty_items [OF ok] False ok by simp_all
  have pos: "rb_Len c > 0" using len False by (metis length_greater_0_conv)
  let ?P = "\<lambda>i. ap_totalBytesAcked (rb_items c ! i) > t"
  have f: "find (\<lambda>i. case rb_at c i of None \<Rightarrow> False | Some pt \<Rightarrow> ap_totalBytesAcked pt > t) [1..<rb_Len c] = find ?P [1..<rb_Len c]"
    using rb_at_items [OF ok] len by (intro find_cong) auto
  show ?thesis
  proof (cases "find ?P [1..<rb_Len c]")
    case None
    then have a: "a0_index t (rb_items c) = rb_Len c - 1" using len by (simp add: a0_index_def)
    obtain p where p: "rb_Back c = Some p" "ring c ! p = last (rb_items c)" using rb_Back_items [OF ok False] by blast
    obtain c' where c': "pop_rest (rb_Len c) 0 c = Some c'" "rb_ok c'" "rb_items c' = drop (rb_Len c div 2) (rb_items c)"
      using pop_rest_items [OF ok order_refl, of 0] by auto
    obtain q where q: "rb_Front c = Some q" "ring c ! q = hd (rb_items c)" using rb_Front_items [OF ok False] by blast
    show ?thesis
    proof (cases "rb_Len c = 1")
      case True
      then obtain x where "rb_items c = [x]" using len by (auto simp: length_Suc_conv)
      then show ?thesis using True q ne None a ok by (simp add: chooseA0Point_def)
    next
      case l: False
      have "last (rb_items c) = rb_items c ! (rb_Len c - 1)" using False len by (simp add: last_conv_nth)
      then show ?thesis using l ne None a p c' f False by (simp add: chooseA0Point_def)
    qed
  next
    case (Some i)
    then have i: "1 \<le> i" "i < rb_Len c" using find_upt by blast+
    have a: "a0_index t (rb_items c) = i - 1" using Some len by (simp add: a0_index_def)
    have at: "rb_at c (i - 1) = Some (rb_items c ! (i - 1))" using rb_at_items [OF ok] i len by simp
    have "i - 1 \<le> rb_Len c" using i by simp
    then obtain c' where "pop_n (i - 1) c = Some c'" "rb_ok c'" "rb_items c' = drop (i - 1) (rb_items c)"
      using pop_n_items [OF ok] by blast
    then show ?thesis using i ne Some f a at False by (auto simp: chooseA0Point_def)
  qed
qed

lemma a0_index_less: "xs \<noteq> [] \<Longrightarrow> a0_index t xs < length xs"
  using find_upt [of "\<lambda>i. ap_totalBytesAcked (xs ! i) > t" 1 "length xs"]
  by (cases "find (\<lambda>i. ap_totalBytesAcked (xs ! i) > t) [1..<length xs]") (fastforce simp: a0_index_def)+

lemma chooseA0Point_sub:
  assumes "rb_ok c"
  shows "\<exists>ch c'. chooseA0Point t c = Some (ch, c') \<and> rb_ok c' \<and> set (rb_items c') \<subseteq> set (rb_items c) \<and> set_option ch \<subseteq> set (rb_items c)"
proof (cases "rb_items c = []")
  case True
  then show ?thesis using chooseA0Point_items [OF assms, of t] assms by simp
next
  case False
  then have "rb_items c ! a0_index t (rb_items c) \<in> set (rb_items c)" by (simp add: a0_index_less)
  then show ?thesis using chooseA0Point_items [OF assms, of t] False set_drop_subset by fastforce
qed


section \<open>The invariant\<close>

text \<open>Times of the monotonic clock are non-negative 64-bit integers.\<close>

definition clock_time :: "instant \<Rightarrow> bool" where "clock_time t \<longleftrightarrow> 0 \<le> t \<and> t < 2 ^ 63"

definition entry_times :: "connectionStateOnSentPacket \<Rightarrow> bool" where
  "entry_times e \<longleftrightarrow> clock_time (cs_sentTime e) \<and> clock_time (cs_lastAckedPacketSentTime e) \<and> clock_time (cs_lastAckedPacketAckTime e)"

definition sampler_ok :: "bandwidthSampler \<Rightarrow> bool" where
  "sampler_ok b \<longleftrightarrow> pq_ok (connectionStateMap b) \<and> rb_ok (a0Candidates b)
     \<and> (\<forall>n e. pq_map (connectionStateMap b) n = Some e \<longrightarrow> entry_times e)
     \<and> (\<forall>a \<in> set (rb_items (a0Candidates b)). clock_time (ap_ackTime a))
     \<and> clock_time (ap_ackTime (fst (recentPoints b))) \<and> clock_time (ap_ackTime (snd (recentPoints b)))
     \<and> clock_time (lastAckedPacketSentTime b) \<and> clock_time (lastAckedPacketAckTime b)"

lemma sampler_okI:
  "pq_ok (connectionStateMap b) \<Longrightarrow> rb_ok (a0Candidates b) \<Longrightarrow> (\<And>n e. pq_map (connectionStateMap b) n = Some e \<Longrightarrow> entry_times e)
   \<Longrightarrow> (\<And>a. a \<in> set (rb_items (a0Candidates b)) \<Longrightarrow> clock_time (ap_ackTime a)) \<Longrightarrow> clock_time (ap_ackTime (fst (recentPoints b)))
   \<Longrightarrow> clock_time (ap_ackTime (snd (recentPoints b))) \<Longrightarrow> clock_time (lastAckedPacketSentTime b) \<Longrightarrow> clock_time (lastAckedPacketAckTime b)
   \<Longrightarrow> sampler_ok b"
  by (simp add: sampler_ok_def)

lemma sampler_okD:
  assumes "sampler_ok b"
  shows "pq_ok (connectionStateMap b)" "rb_ok (a0Candidates b)" "\<And>n e. pq_map (connectionStateMap b) n = Some e \<Longrightarrow> entry_times e"
    "\<And>a. a \<in> set (rb_items (a0Candidates b)) \<Longrightarrow> clock_time (ap_ackTime a)" "clock_time (ap_ackTime (fst (recentPoints b)))"
    "clock_time (ap_ackTime (snd (recentPoints b)))" "clock_time (lastAckedPacketSentTime b)" "clock_time (lastAckedPacketAckTime b)"
  using assms by (simp_all add: sampler_ok_def)

lemma BandwidthFromDelta_Some: "0 < d \<Longrightarrow> d < 2 ^ 63 \<Longrightarrow> BandwidthFromDelta n d \<noteq> None"
proof -
  assume d: "0 < d" "d < 2 ^ 63"
  have "uint (word_of_int d :: u64) = d" using d by (simp add: uint_word_of_int)
  then have "(word_of_int d :: u64) \<noteq> 0" using d(1) by (metis less_irrefl unsigned_0)
  then show ?thesis by (simp add: BandwidthFromDelta_def)
qed

lemma clock_time_0 [simp]: "clock_time 0"
  by (simp add: clock_time_def)

lemma clock_diff: "clock_time t \<Longrightarrow> clock_time u \<Longrightarrow> t - u < 2 ^ 63"
  by (simp add: clock_time_def)

lemma points_Update_times:
  "clock_time t \<Longrightarrow> clock_time (ap_ackTime (fst r)) \<Longrightarrow> clock_time (ap_ackTime (snd r)) \<Longrightarrow>
     clock_time (ap_ackTime (fst (points_Update t n r))) \<and> clock_time (ap_ackTime (snd (points_Update t n r)))"
  by (simp add: points_Update_def Let_def)

lemma new_sampler_ok: "sampler_ok (newBandwidthSampler w)"
proof (rule sampler_okI)
  fix n e assume "pq_map (connectionStateMap (newBandwidthSampler w)) n = Some e"
  then show "entry_times e" using pq_new_ok [of no_conn_state 256] by (simp add: newBandwidthSampler_def pq_abs_def)
next
  fix a assume "a \<in> set (rb_items (a0Candidates (newBandwidthSampler w)))"
  then show "clock_time (ap_ackTime a)" using rb_Init_items [of no_point 256] by (simp add: newBandwidthSampler_def)
qed (use rb_Init_items [of no_point 256] pq_new_ok [of no_conn_state 256] in \<open>simp_all add: newBandwidthSampler_def no_point_def\<close>)

text \<open>The entry a sent packet gets is the only new one.\<close>

lemma Emplace_entries:
  assumes "pq_ok q" and "n \<ge> - 1" and "pq_map (snd (pq_Emplace zero n (Some e) q)) k = Some x"
  shows "x = e \<and> k = n \<or> pq_map q k = Some x"
  using pq_Emplace_ok [OF assms(1,2), of zero "Some e"] assms(3) by (auto simp: pq_abs_def split: if_splits)

lemma OnPacketSent_ok:
  assumes ok: "sampler_ok b" and t: "clock_time t" and n: "pn \<ge> - 1"
  shows "sampler_ok (OnPacketSent t pn k inflight retr b)"
proof (cases retr)
  case False
  then show ?thesis using ok by (simp add: OnPacketSent_def sampler_ok_def)
next
  case True
  note d = sampler_okD [OF ok]
  let ?r = "points_Update t (totalBytesAcked b) (points_Clear (recentPoints b))"
  define b1 where "b1 = (let b = b\<lparr>lastSentPacket := pn, totalBytesSent := totalBytesSent b + k\<rparr> in
     if inflight = 0
     then let b = b\<lparr>lastAckedPacketAckTime := t\<rparr>;
              b = (if overestimateAvoidance b
                   then b\<lparr>recentPoints := ?r, a0Candidates := rb_PushBack no_point (MostRecentPoint ?r) (rb_Clear no_point (a0Candidates b))\<rparr> else b)
          in b\<lparr>totalBytesSentAtLastAckedPacket := totalBytesSent b, lastAckedPacketSentTime := t\<rparr>
     else b)"
  have r: "clock_time (ap_ackTime (fst ?r))" "clock_time (ap_ackTime (snd ?r))"
    using t points_Update_times [of t "(no_point, no_point)"] by (simp_all add: points_Clear_def no_point_def)
  have pb: "rb_ok (rb_PushBack no_point x (rb_Clear no_point c))" "rb_items (rb_PushBack no_point x (rb_Clear no_point c)) = [x]" for x c
    using rb_PushBack_items [of "rb_Clear no_point c" no_point x] rb_Clear_items [of no_point c] by simp_all
  have b1: "sampler_ok b1" "connectionStateMap b1 = connectionStateMap b"
    using d t r by (auto simp: b1_def sampler_ok_def Let_def pb MostRecentPoint_def)
  have e: "OnPacketSent t pn k inflight retr b =
      b1\<lparr>connectionStateMap := snd (pq_Emplace no_conn_state pn (Some (newConnectionStateOnSentPacket t k (inflight + k) b1)) (connectionStateMap b1))\<rparr>"
    using True by (simp add: OnPacketSent_def b1_def Let_def)
  have "entry_times (newConnectionStateOnSentPacket t k (inflight + k) b1)"
    using t sampler_okD(7,8) [OF b1(1)] by (simp add: entry_times_def newConnectionStateOnSentPacket_def)
  then have "\<And>n x. pq_map (snd (pq_Emplace no_conn_state pn (Some (newConnectionStateOnSentPacket t k (inflight + k) b1)) (connectionStateMap b1))) n = Some x
      \<Longrightarrow> entry_times x"
    using Emplace_entries [OF sampler_okD(1) [OF b1(1)] n] sampler_okD(3) [OF b1(1)] by blast
  then show ?thesis using b1 pq_Emplace_ok [OF sampler_okD(1) [OF b1(1)] n] unfolding e by (simp add: sampler_ok_def)
qed

lemma acked_state_ok: "sampler_ok b \<Longrightarrow> clock_time t \<Longrightarrow> entry_times p \<Longrightarrow> sampler_ok (acked_state t pn p b)"
  using points_Update_times [of t "recentPoints b"] by (auto simp: acked_state_def sampler_ok_def entry_times_def Let_def)

lemma send_rate_Some: "entry_times p \<Longrightarrow> \<exists>rate. send_rate p = Some rate"
  using BandwidthFromDelta_Some [of "cs_sentTime p - cs_lastAckedPacketSentTime p"] clock_diff [of "cs_sentTime p" "cs_lastAckedPacketSentTime p"]
  by (auto simp: send_rate_def entry_times_def)

lemma ack_sample_ok:
  assumes ok: "sampler_ok b" and t: "clock_time t" and p: "entry_times p"
  shows "\<exists>s b'. ack_sample t p b = Some (s, b') \<and> sampler_ok b'"
proof -
  note d = sampler_okD [OF ok]
  obtain rate where rate: "send_rate p = Some rate" using send_rate_Some [OF p] by blast
  let ?choose = "if overestimateAvoidance b then chooseA0Point (st_totalBytesAcked (cs_sendTimeState p)) (a0Candidates b) else Some (None, a0Candidates b)"
  obtain ch c where ch: "?choose = Some (ch, c)" "rb_ok c" "set (rb_items c) \<subseteq> set (rb_items (a0Candidates b))"
    "set_option ch \<subseteq> set (rb_items (a0Candidates b))"
    using chooseA0Point_sub [OF d(2), of "st_totalBytesAcked (cs_sendTimeState p)"] d(2) by (cases "overestimateAvoidance b") auto
  define a0 where "a0 = (case ch of Some a0 \<Rightarrow> a0
    | None \<Rightarrow> \<lparr>ap_ackTime = cs_lastAckedPacketAckTime p, ap_totalBytesAcked = st_totalBytesAcked (cs_sendTimeState p)\<rparr>)"
  have b2: "sampler_ok (b\<lparr>a0Candidates := c\<rparr>)" using ok ch(2,3) by (auto simp: sampler_ok_def)
  have "clock_time (ap_ackTime a0)" using ch(4) d(4) p by (cases ch) (auto simp: entry_times_def a0_def)
  then have lt: "t - ap_ackTime a0 < 2 ^ 63" using t by (rule clock_diff [rotated])
  have e: "ack_sample t p b = (if cs_lastAckedPacketSentTime p = 0 then Some (newBandwidthSample, b)
      else if t - ap_ackTime a0 \<le> 0 then Some (newBandwidthSample, b\<lparr>a0Candidates := c\<rparr>)
      else case BandwidthFromDelta (totalBytesAcked b - ap_totalBytesAcked a0) (t - ap_ackTime a0) of
             None \<Rightarrow> None
           | Some ackRate \<Rightarrow> Some (\<lparr>bs_bandwidth = min rate ackRate, bs_rtt = t - cs_sentTime p, bs_sendRate = rate,
                                   bs_stateAtSend = sentPacketToSendTimeState p\<rparr>, b\<lparr>a0Candidates := c\<rparr>))"
    unfolding ack_sample_def rate ch(1) a0_def by (simp add: Let_def)
  show ?thesis
  proof (cases "t - ap_ackTime a0 \<le> 0")
    case False
    then obtain r where "BandwidthFromDelta (totalBytesAcked b - ap_totalBytesAcked a0) (t - ap_ackTime a0) = Some r"
      using BandwidthFromDelta_Some [OF _ lt] by fastforce
    then show ?thesis using ok b2 unfolding e by simp
  qed (use ok b2 in \<open>simp add: e\<close>)
qed

lemma onPacketAcknowledged_ok:
  assumes ok: "sampler_ok b" and t: "clock_time t"
  shows "\<exists>s b'. onPacketAcknowledged t pn b = Some (s, b') \<and> sampler_ok b'"
proof (cases "pq_GetEntry pn (connectionStateMap b)")
  case (Some p)
  have "entry_times p" using Some sampler_okD(1,3) [OF ok] by (simp add: pq_GetEntry_map)
  moreover have "sampler_ok (b\<lparr>lastAckedPacket := pn\<rparr>)" using ok by (simp add: sampler_ok_def)
  ultimately show ?thesis using Some ack_sample_ok acked_state_ok t by (simp add: onPacketAcknowledged_def)
qed (use ok in \<open>simp add: onPacketAcknowledged_def sampler_ok_def\<close>)

lemma ack_all_ok:
  "sampler_ok b \<Longrightarrow> clock_time t \<Longrightarrow> \<exists>a' b'. ack_all t ps a b = Some (a', b') \<and> sampler_ok b'"
proof (induction ps arbitrary: a b)
  case (Cons p ps)
  obtain s b1 where "onPacketAcknowledged t p b = Some (s, b1)" "sampler_ok b1"
    using onPacketAcknowledged_ok [OF Cons.prems] by blast
  then show ?case using Cons by simp
qed simp

lemma lose_all_ok: "sampler_ok b \<Longrightarrow> sampler_ok (snd (lose_all ps s b))"
proof (induction ps arbitrary: s b)
  case (Cons x ps)
  obtain p n where x: "x = (p, n)" by (cases x)
  obtain st b1 where l: "OnPacketLost p n b = (st, b1)" by (cases "OnPacketLost p n b")
  then have "sampler_ok b1" using Cons.prems by (auto simp: OnPacketLost_def sampler_ok_def Let_def)
  then show ?case using Cons.IH by (simp add: x l)
qed simp

lemma onAckEventEnd_ok: "sampler_ok b \<Longrightarrow> sampler_ok (snd (onAckEventEnd fmul bw new rtc b))"
  using rb_PushBack_items [of "a0Candidates b" no_point "LessRecentPoint (recentPoints b)"]
  by (auto simp: onAckEventEnd_def sampler_ok_def Let_def LessRecentPoint_def split: prod.splits)

lemma OnCongestionEvent_ok:
  assumes "sampler_ok b" and "clock_time t"
  shows "\<exists>es b'. OnCongestionEvent fmul t acked lost mx ub rtc b = Some (es, b') \<and> sampler_ok b'"
proof -
  obtain ls b1 where l: "lose_all lost no_state b = (ls, b1)" "sampler_ok b1"
    using lose_all_ok [OF assms(1), of lost no_state] by (cases "lose_all lost no_state b") auto
  obtain a b2 where a: "ack_all t acked \<lparr>acc_sample = newCongestionEventSample, acc_state = no_state, acc_maxSendRate = 0\<rparr> b1 = Some (a, b2)" "sampler_ok b2"
    using ack_all_ok [OF l(2) assms(2)] by blast
  show ?thesis
    using l a onAckEventEnd_ok [OF a(2), of fmul] by (auto simp: OnCongestionEvent_def Let_def split: prod.splits) (metis snd_conv)+
qed


section \<open>Properties\<close>

datatype sampler_call =
    Sent instant PacketNumber ByteCount ByteCount bool
  | Event instant "PacketNumber list" "(PacketNumber \<times> ByteCount) list" Bandwidth Bandwidth u64
  | Neutered PacketNumber
  | AppLimited
  | Obsolete PacketNumber
  | AvoidOverestimates
  | ResetAckHeight ByteCount u64
  | AckHeightWindow u64
  | EpochAfterRound bool
  | LimitBySendRate bool
  | ReduceOnIncrease bool

definition sampler_do :: "(real \<Rightarrow> ByteCount \<Rightarrow> ByteCount) \<Rightarrow> sampler_call \<Rightarrow> bandwidthSampler \<Rightarrow> bandwidthSampler option" where
  "sampler_do fmul c b =
     (case c of
        Sent t n k inflight retr \<Rightarrow> Some (OnPacketSent t n k inflight retr b)
      | Event t acked lost mx ub rtc \<Rightarrow> map_option snd (OnCongestionEvent fmul t acked lost mx ub rtc b)
      | Neutered n \<Rightarrow> OnPacketNeutered n b
      | AppLimited \<Rightarrow> Some (OnAppLimited b)
      | Obsolete n \<Rightarrow> RemoveObsoletePackets n b
      | AvoidOverestimates \<Rightarrow> Some (EnableOverestimateAvoidance b)
      | ResetAckHeight h t \<Rightarrow> Some (ResetMaxAckHeightTracker h t b)
      | AckHeightWindow l \<Rightarrow> Some (SetMaxAckHeightTrackerWindowLength l b)
      | EpochAfterRound v \<Rightarrow> Some (SetStartNewAggregationEpochAfterFullRound v b)
      | LimitBySendRate v \<Rightarrow> Some (SetLimitMaxAckHeightTrackerBySendRate v b)
      | ReduceOnIncrease v \<Rightarrow> Some (SetReduceExtraAckedOnBandwidthIncrease v b))"

fun sampler_run :: "(real \<Rightarrow> ByteCount \<Rightarrow> ByteCount) \<Rightarrow> sampler_call list \<Rightarrow> bandwidthSampler \<Rightarrow> bandwidthSampler option" where
  "sampler_run fmul [] b = Some b"
| "sampler_run fmul (c # cs) b = (case sampler_do fmul c b of None \<Rightarrow> None | Some b \<Rightarrow> sampler_run fmul cs b)"

definition call_fits :: "sampler_call \<Rightarrow> bool" where
  "call_fits c = (case c of Sent t n _ _ _ \<Rightarrow> clock_time t \<and> n \<ge> - 1 | Event t _ _ _ _ _ \<Rightarrow> clock_time t | _ \<Rightarrow> True)"

lemma sampler_do_ok:
  assumes ok: "sampler_ok b" and fits: "call_fits c"
  shows "\<exists>b'. sampler_do fmul c b = Some b' \<and> sampler_ok b'"
proof (cases c)
  case (Event t acked lost mx ub rtc)
  then show ?thesis using OnCongestionEvent_ok [OF ok, of t fmul acked lost mx ub rtc] fits by (auto simp: sampler_do_def call_fits_def)
next
  case (Neutered n)
  obtain q where q: "pq_Remove no_conn_state n (connectionStateMap b) = Some (pq_map (connectionStateMap b) n, q)" "pq_ok q"
    "pq_abs q = norm_last ((pq_map (connectionStateMap b))(n := None), pq_LastPacket (connectionStateMap b))"
    using pq_Remove_ok [OF sampler_okD(1) [OF ok]] by blast
  then have "pq_map q k = Some e \<Longrightarrow> pq_map (connectionStateMap b) k = Some e" for k e
    by (auto simp: pq_abs_def norm_last_def split: if_splits)
  then show ?thesis using Neutered q(1,2) ok by (auto simp: sampler_do_def OnPacketNeutered_def sampler_ok_def)
next
  case (Obsolete n)
  obtain q where q: "pq_RemoveUpTo no_conn_state n (connectionStateMap b) = Some q" "pq_ok q"
    "pq_abs q = norm_last ((pq_map (connectionStateMap b)) |` {n..}, pq_LastPacket (connectionStateMap b))"
    using pq_RemoveUpTo_ok [OF sampler_okD(1) [OF ok]] by blast
  then have "pq_map q k = Some e \<Longrightarrow> pq_map (connectionStateMap b) k = Some e" for k e
    by (auto simp: pq_abs_def norm_last_def restrict_map_def split: if_splits)
  then show ?thesis using Obsolete q(1,2) ok by (auto simp: sampler_do_def RemoveObsoletePackets_def sampler_ok_def)
qed (use ok fits OnPacketSent_ok [OF ok] in \<open>auto simp: sampler_do_def call_fits_def OnAppLimited_def EnableOverestimateAvoidance_def configure_defs sampler_ok_def\<close>)

lemma sampler_run_ok: "sampler_ok b \<Longrightarrow> list_all call_fits cs \<Longrightarrow> \<exists>b'. sampler_run fmul cs b = Some b' \<and> sampler_ok b'"
proof (induction cs arbitrary: b)
  case (Cons c cs)
  then obtain b1 where "sampler_do fmul c b = Some b1" "sampler_ok b1" using sampler_do_ok [of b c fmul] by auto
  then show ?case using Cons by simp
qed simp

text \<open>
  The sampler survives every trace: whatever packets are sent, acknowledged (also twice, or never sent), lost, neutered or forgotten, however the sampler is configured on the way, in whatever
  order and with whatever clock readings, no division by zero and no access beyond a ring occurs, and afterwards every further
  acknowledgement still yields a sample.
\<close>

theorem sampler_never_panics:
  assumes "list_all call_fits cs" and "clock_time t"
  shows "\<exists>b s b'. sampler_run fmul cs (newBandwidthSampler w) = Some b \<and> onPacketAcknowledged t n b = Some (s, b')"
  using sampler_run_ok [OF new_sampler_ok assms(1)] onPacketAcknowledged_ok [OF _ assms(2)] by blast

theorem sampler_never_panics_witness:
  "\<exists>b s b'. sampler_run (\<lambda>_ x. x) [AvoidOverestimates, ReduceOnIncrease True, Sent 10 1 1200 0 True, Sent 20 2 1200 1200 True, Event 50 [1] [] 0 0 1, Neutered 2]
     (newBandwidthSampler 10) = Some b \<and> onPacketAcknowledged 90 2 b = Some (s, b')"
  by (rule sampler_never_panics) (simp_all add: call_fits_def clock_time_def)

text \<open>
  C26. The starting point of the ack rate: among the candidates the code takes the one before the first that lies beyond the bytes acknowledged when
  the packet was sent, or the last one when none does, and forgets candidates before it; in the second case, however, it forgets
  only half of the candidates, as the bound of the loop shrinks with the queue.
\<close>

theorem chooseA0Point_correct:
  assumes "rb_ok c" and "rb_items c \<noteq> []"
  shows "\<exists>c'. chooseA0Point t c = Some (Some (rb_items c ! a0_index t (rb_items c)), c') \<and> rb_ok c'
      \<and> (if list_all (\<lambda>a. ap_totalBytesAcked a \<le> t) (tl (rb_items c))
         then rb_items c' = drop (length (rb_items c) div 2) (rb_items c)
         else rb_items c' = drop (a0_index t (rb_items c)) (rb_items c))"
proof -
  have len: "length (rb_items c) = rb_Len c" using assms(1) by simp
  have "list_all (\<lambda>a. ap_totalBytesAcked a \<le> t) (tl (rb_items c)) \<longleftrightarrow> (\<forall>i \<in> {1..<rb_Len c}. ap_totalBytesAcked (rb_items c ! i) \<le> t)"
  proof -
    have "list_all (\<lambda>a. ap_totalBytesAcked a \<le> t) (tl (rb_items c)) \<longleftrightarrow> (\<forall>j < rb_Len c - 1. ap_totalBytesAcked (rb_items c ! Suc j) \<le> t)"
      using len by (auto simp: list_all_length nth_tl)
    also have "\<dots> \<longleftrightarrow> (\<forall>i \<in> {1..<rb_Len c}. ap_totalBytesAcked (rb_items c ! i) \<le> t)"
    proof (intro iffI ballI allI impI)
      fix i assume h: "\<forall>j < rb_Len c - 1. ap_totalBytesAcked (rb_items c ! Suc j) \<le> t" and "i \<in> {1..<rb_Len c}"
      then show "ap_totalBytesAcked (rb_items c ! i) \<le> t" using h [rule_format, of "i - 1"] by auto
    qed auto
    finally show ?thesis .
  qed
  also have "\<dots> \<longleftrightarrow> find (\<lambda>i. ap_totalBytesAcked (rb_items c ! i) > t) [1..<rb_Len c] = None"
    by (auto simp: find_None_iff not_less)
  finally have iff: "list_all (\<lambda>a. ap_totalBytesAcked a \<le> t) (tl (rb_items c)) \<longleftrightarrow>
    find (\<lambda>i. ap_totalBytesAcked (rb_items c ! i) > t) [1..<rb_Len c] = None" .
  show ?thesis
    using chooseA0Point_items [OF assms(1), of t] assms(2) unfolding iff len
    by (cases "find (\<lambda>i. ap_totalBytesAcked (rb_items c ! i) > t) [1..<rb_Len c]") simp_all
qed

theorem chooseA0Point_correct_witness:
  "let c = \<lparr>ring = map (\<lambda>k. \<lparr>ap_ackTime = k, ap_totalBytesAcked = 100 * k\<rparr>) [1, 2, 3, 4], headPos = 0, tailPos = 0, rb_full = True\<rparr>
   in \<exists>c'. chooseA0Point 1000 c = Some (Some \<lparr>ap_ackTime = 4, ap_totalBytesAcked = 400\<rparr>, c') \<and> length (rb_items c') = 2"
proof -
  define c where "c = \<lparr>ring = map (\<lambda>k. \<lparr>ap_ackTime = k, ap_totalBytesAcked = 100 * k\<rparr>) [1, 2, 3, 4], headPos = 0, tailPos = 0, rb_full = True\<rparr>"
  have items: "rb_items c = map (\<lambda>k. \<lparr>ap_ackTime = k, ap_totalBytesAcked = 100 * k\<rparr>) [1, 2, 3, 4]" by (simp add: c_def rb_items_def rb_Len_def)
  have ok: "rb_ok c" by (simp add: c_def rb_ok_def)
  have idx: "a0_index 1000 (rb_items c) = 3" unfolding items by (simp add: a0_index_def upt_rec)
  obtain c' where "chooseA0Point 1000 c = Some (Some (rb_items c ! 3), c')" "rb_items c' = drop (length (rb_items c) div 2) (rb_items c)"
    using chooseA0Point_correct [OF ok, of 1000] idx by (auto simp: items)
  then show ?thesis unfolding Let_def c_def [symmetric] by (simp add: items)
qed

end
