(* ===== verification/Bbr_Profile.thy ===== *)
theory Bbr_Profile
  imports Go_Strings
begin

text \<open>
  The profiles of the BBR controller and how a configured name selects one (\<open>core/internal/congestion/bbr/bbr_sender.go\<close>); the configurations and the
  controller both refer to them.
\<close>

definition ProfileConservative :: string where "ProfileConservative = ''conservative''"
definition ProfileStandard :: string where "ProfileStandard = ''standard''"
definition ProfileAggressive :: string where "ProfileAggressive = ''aggressive''"

definition ParseProfile :: "string \<Rightarrow> string + string" where
  "ParseProfile profile =
     (let normalized = ToLower profile
      in if normalized = [] \<or> normalized = ProfileStandard then Inr ProfileStandard
         else if normalized = ProfileConservative then Inr ProfileConservative
         else if normalized = ProfileAggressive then Inr ProfileAggressive
         else Inl (''unsupported BBR profile '' @ profile))"

end
