(* ===== verification/Bbr_Sender.thy ===== *)
theory Bbr_Sender
  imports Bandwidth_Sampler Pacer Float64 Bbr_Profile
begin

text \<open>
  The BBR congestion controller (\<open>core/internal/congestion/bbr/bbr_sender.go\<close>): it estimates the bandwidth and the round trip time of the path, and paces
  and windows the connection by them, in four modes.

  The sender is a record holding its sampler, its filter and its pacer. The minimal round trip time of the QUIC library's statistics is the
  argument \<open>rtt\<close> of the operations that read it; every float is rounded by \<open>rnd\<close>; the random number of the gain cycle is an argument (an event enters
  \<open>PROBE_BW\<close> at most once), and so are the library's constants. Byte counts and times are integers, except for the bandwidth-delay product, which wraps
  around at 64 bits as in the source. A panic is \<open>None\<close>. Tracing output and the fields the source marks as unused are left out.
\<close>

section \<open>State\<close>

definition minBps :: int where "minBps = 65536"
definition initialCongestionWindowPackets :: int where "initialCongestionWindowPackets = 32"
definition minCongestionWindowPackets :: int where "minCongestionWindowPackets = 4"
definition defaultHighGain :: "(real \<Rightarrow> real) \<Rightarrow> real" where "defaultHighGain rnd = rnd (2885 / 1000)"
definition derivedHighCWNDGain :: real where "derivedHighCWNDGain = 2"

definition pacingGain :: "real list" where "pacingGain = [5 / 4, 3 / 4, 1, 1, 1, 1, 1, 1]"

definition gainCycleLength :: nat where "gainCycleLength = length pacingGain"
definition bandwidthWindowSize :: u64 where "bandwidthWindowSize = of_nat (gainCycleLength + 2)"
definition minRttExpiry :: duration where "minRttExpiry = 10 * Second"
definition probeRttTime :: duration where "probeRttTime = 200 * Millisecond"
definition startupGrowthTarget :: real where "startupGrowthTarget = 5 / 4"
definition roundTripsWithoutGrowthBeforeExitingStartup :: int where "roundTripsWithoutGrowthBeforeExitingStartup = 3"
definition defaultStartupFullLossCount :: u64 where "defaultStartupFullLossCount = 8"
definition quicBbr2DefaultLossThreshold :: "(real \<Rightarrow> real) \<Rightarrow> real" where "quicBbr2DefaultLossThreshold rnd = rnd (2 / 100)"

lemmas bbr_consts = minBps_def initialCongestionWindowPackets_def minCongestionWindowPackets_def derivedHighCWNDGain_def minRttExpiry_def
  probeRttTime_def startupGrowthTarget_def roundTripsWithoutGrowthBeforeExitingStartup_def defaultStartupFullLossCount_def

datatype bbrMode = bbrModeStartup | bbrModeDrain | bbrModeProbeBw | bbrModeProbeRtt

datatype bbrRecoveryState = bbrRecoveryStateNotInRecovery | bbrRecoveryStateConservation | bbrRecoveryStateGrowth

record profileConfig =
  cfg_highGain :: real
  cfg_highCwndGain :: real
  cfg_congestionWindowGainConstant :: real
  cfg_numStartupRtts :: int
  cfg_drainToTarget :: bool
  cfg_detectOvershooting :: bool
  cfg_bytesLostMultiplier :: int
  cfg_enableAckAggregationStartup :: bool
  cfg_expireAckAggregationStartup :: bool
  cfg_enableOverestimateAvoidance :: bool
  cfg_reduceExtraAckedOnBandwidthIncrease :: bool

definition configForProfile :: "(real \<Rightarrow> real) \<Rightarrow> string \<Rightarrow> profileConfig" where
  "configForProfile rnd p =
     (if p = ProfileConservative then
        \<lparr>cfg_highGain = 9 / 4, cfg_highCwndGain = 7 / 4, cfg_congestionWindowGainConstant = 7 / 4, cfg_numStartupRtts = 2,
         cfg_drainToTarget = True, cfg_detectOvershooting = True, cfg_bytesLostMultiplier = 1, cfg_enableAckAggregationStartup = False,
         cfg_expireAckAggregationStartup = False, cfg_enableOverestimateAvoidance = True, cfg_reduceExtraAckedOnBandwidthIncrease = True\<rparr>
      else if p = ProfileAggressive then
        \<lparr>cfg_highGain = 3, cfg_highCwndGain = 9 / 4, cfg_congestionWindowGainConstant = 5 / 2, cfg_numStartupRtts = 4,
         cfg_drainToTarget = False, cfg_detectOvershooting = False, cfg_bytesLostMultiplier = 2, cfg_enableAckAggregationStartup = True,
         cfg_expireAckAggregationStartup = True, cfg_enableOverestimateAvoidance = False, cfg_reduceExtraAckedOnBandwidthIncrease = False\<rparr>
      else
        \<lparr>cfg_highGain = defaultHighGain rnd, cfg_highCwndGain = derivedHighCWNDGain, cfg_congestionWindowGainConstant = 2,
         cfg_numStartupRtts = roundTripsWithoutGrowthBeforeExitingStartup,
         cfg_drainToTarget = False, cfg_detectOvershooting = False, cfg_bytesLostMultiplier = 2, cfg_enableAckAggregationStartup = False,
         cfg_expireAckAggregationStartup = False, cfg_enableOverestimateAvoidance = False, cfg_reduceExtraAckedOnBandwidthIncrease = False\<rparr>)"

record bbrSender =
  bb_pacer :: Pacer
  bb_mode :: bbrMode
  sampler :: bandwidthSampler
  roundTripCount :: u64
  bb_lastSentPacket :: PacketNumber
  currentRoundTripEnd :: PacketNumber
  numLossEventsInRound :: u64
  bytesLostInRound :: ByteCount
  maxBandwidth :: "Bandwidth WindowedFilter"
  minRtt :: duration
  minRttTimestamp :: instant
  congestionWindow :: ByteCount
  initialCongestionWindow :: ByteCount
  maxCongestionWindow :: ByteCount
  minCongestionWindow :: ByteCount
  bb_profile :: string
  highGain :: real
  highCwndGain :: real
  drainGain :: real
  pacingRate :: Bandwidth
  bb_pacingGain :: real
  congestionWindowGain :: real
  congestionWindowGainConstant :: real
  numStartupRtts :: int
  cycleCurrentOffset :: nat
  lastCycleStart :: instant
  isAtFullBandwidth :: bool
  roundsWithoutBandwidthGain :: int
  bandwidthAtLastRound :: Bandwidth
  exitingQuiescence :: bool
  exitProbeRttAt :: instant
  probeRttRoundPassed :: bool
  lastSampleIsAppLimited :: bool
  hasNoAppLimitedSample :: bool
  recoveryState :: bbrRecoveryState
  endRecoveryAt :: PacketNumber
  recoveryWindow :: ByteCount
  enableAckAggregationDuringStartup :: bool
  expireAckAggregationInStartup :: bool
  drainToTarget :: bool
  detectOvershooting :: bool
  bytesLostWhileDetectingOvershooting :: ByteCount
  bytesLostMultiplierWhileDetectingOvershooting :: int
  cwndToCalculateMinPacingRate :: ByteCount
  bb_maxDatagramSize :: ByteCount
  bb_bytesInFlight :: ByteCount


section \<open>Estimates\<close>

definition bdpFromRttAndBandwidth :: "duration \<Rightarrow> Bandwidth \<Rightarrow> ByteCount" where
  "bdpFromRttAndBandwidth rtt bandwidth = go_div (go_div (wrap64 (rtt * sint bandwidth)) 8) Second"

definition bandwidthEstimate :: "bbrSender \<Rightarrow> Bandwidth" where "bandwidthEstimate b = GetBest (maxBandwidth b)"

definition getMinRtt :: "duration \<Rightarrow> bbrSender \<Rightarrow> duration" where
  "getMinRtt rtt b = (if minRtt b \<noteq> 0 then minRtt b else if rtt = 0 then 100 * Millisecond else rtt)"

definition getTargetCongestionWindow :: "(real \<Rightarrow> real) \<Rightarrow> duration \<Rightarrow> real \<Rightarrow> bbrSender \<Rightarrow> ByteCount" where
  "getTargetCongestionWindow rnd rtt gain b =
     (let bdp = bdpFromRttAndBandwidth (getMinRtt rtt b) (bandwidthEstimate b);
          w = ByteCount_of (rnd (gain * rnd (of_int bdp)));
          w = (if w = 0 then ByteCount_of (rnd (gain * rnd (of_int (initialCongestionWindow b)))) else w)
      in max w (minCongestionWindow b))"

definition probeRttCongestionWindow :: "bbrSender \<Rightarrow> ByteCount" where "probeRttCongestionWindow b = minCongestionWindow b"

definition PacingRate :: "(real \<Rightarrow> real) \<Rightarrow> duration \<Rightarrow> bbrSender \<Rightarrow> Bandwidth option" where
  "PacingRate rnd rtt b =
     (if pacingRate b = 0
      then map_option (\<lambda>r. uint64_of (rnd (highGain b * rnd (real (unat r))))) (BandwidthFromDelta (initialCongestionWindow b) (getMinRtt rtt b))
      else Some (pacingRate b))"

definition bandwidthForPacer :: "(real \<Rightarrow> real) \<Rightarrow> duration \<Rightarrow> bbrSender \<Rightarrow> int option" where
  "bandwidthForPacer rnd rtt b =
     map_option (\<lambda>r. let bps = ByteCount_of (rnd (rnd (real (unat r)) / 8)) in if bps < minBps then minBps else bps) (PacingRate rnd rtt b)"


section \<open>Entering modes\<close>

definition enterStartupMode :: "bbrSender \<Rightarrow> bbrSender" where
  "enterStartupMode b = b\<lparr>bb_mode := bbrModeStartup, bb_pacingGain := highGain b, congestionWindowGain := highCwndGain b\<rparr>"

definition enterProbeBandwidthMode :: "nat \<Rightarrow> instant \<Rightarrow> bbrSender \<Rightarrow> bbrSender" where
  "enterProbeBandwidthMode r now b =
     (let offset = r mod (gainCycleLength - 1); offset = (if offset \<ge> 1 then offset + 1 else offset)
      in b\<lparr>bb_mode := bbrModeProbeBw, congestionWindowGain := congestionWindowGainConstant b, cycleCurrentOffset := offset,
           lastCycleStart := now, bb_pacingGain := pacingGain ! offset\<rparr>)"

definition applyProfile :: "(real \<Rightarrow> real) \<Rightarrow> string \<Rightarrow> bbrSender \<Rightarrow> bbrSender" where
  "applyProfile rnd p b =
     (let p = (if p = [] then ProfileStandard else p);
          cfg = configForProfile rnd p;
          b = b\<lparr>bb_profile := p, highGain := cfg_highGain cfg, highCwndGain := cfg_highCwndGain cfg, drainGain := rnd (1 / cfg_highGain cfg),
                congestionWindowGainConstant := cfg_congestionWindowGainConstant cfg, numStartupRtts := cfg_numStartupRtts cfg,
                drainToTarget := cfg_drainToTarget cfg, detectOvershooting := cfg_detectOvershooting cfg,
                bytesLostMultiplierWhileDetectingOvershooting := cfg_bytesLostMultiplier cfg,
                enableAckAggregationDuringStartup := cfg_enableAckAggregationStartup cfg,
                expireAckAggregationInStartup := cfg_expireAckAggregationStartup cfg\<rparr>;
          b = (if cfg_enableOverestimateAvoidance cfg then b\<lparr>sampler := EnableOverestimateAvoidance (sampler b)\<rparr> else b)
      in b\<lparr>sampler := SetReduceExtraAckedOnBandwidthIncrease (cfg_reduceExtraAckedOnBandwidthIncrease cfg) (sampler b)\<rparr>)"

definition minCongestionWindowForMaxDatagramSize :: "ByteCount \<Rightarrow> ByteCount" where
  "minCongestionWindowForMaxDatagramSize s = minCongestionWindowPackets * s"

text \<open>\<open>packetSize\<close> is the library's initial packet size, with which the pacer starts.\<close>

definition newBbrSender :: "(real \<Rightarrow> real) \<Rightarrow> int \<Rightarrow> ByteCount \<Rightarrow> ByteCount \<Rightarrow> ByteCount \<Rightarrow> string \<Rightarrow> bbrSender" where
  "newBbrSender rnd packetSize s initialWindow maxWindow p =
     enterStartupMode (applyProfile rnd p
       \<lparr>bb_pacer = NewPacer packetSize, bb_mode = bbrModeStartup, sampler = newBandwidthSampler bandwidthWindowSize, roundTripCount = 0,
        bb_lastSentPacket = invalidPacketNumber, currentRoundTripEnd = invalidPacketNumber, numLossEventsInRound = 0, bytesLostInRound = 0,
        maxBandwidth = NewWindowedFilter 0 bandwidthWindowSize, minRtt = 0, minRttTimestamp = 0, congestionWindow = initialWindow,
        initialCongestionWindow = initialWindow, maxCongestionWindow = maxWindow, minCongestionWindow = minCongestionWindowForMaxDatagramSize s,
        bb_profile = ProfileStandard, highGain = defaultHighGain rnd, highCwndGain = derivedHighCWNDGain, drainGain = rnd (1000 / 2885),
        pacingRate = 0, bb_pacingGain = 1, congestionWindowGain = 1, congestionWindowGainConstant = 2,
        numStartupRtts = roundTripsWithoutGrowthBeforeExitingStartup, cycleCurrentOffset = 0, lastCycleStart = 0, isAtFullBandwidth = False,
        roundsWithoutBandwidthGain = 0, bandwidthAtLastRound = 0, exitingQuiescence = False, exitProbeRttAt = 0, probeRttRoundPassed = False,
        lastSampleIsAppLimited = False, hasNoAppLimitedSample = False, recoveryState = bbrRecoveryStateNotInRecovery,
        endRecoveryAt = invalidPacketNumber, recoveryWindow = maxWindow, enableAckAggregationDuringStartup = False,
        expireAckAggregationInStartup = False, drainToTarget = False, detectOvershooting = False, bytesLostWhileDetectingOvershooting = 0,
        bytesLostMultiplierWhileDetectingOvershooting = 2, cwndToCalculateMinPacingRate = initialWindow, bb_maxDatagramSize = s,
        bb_bytesInFlight = 0\<rparr>)"

definition NewBbrSender :: "(real \<Rightarrow> real) \<Rightarrow> int \<Rightarrow> int \<Rightarrow> ByteCount \<Rightarrow> string \<Rightarrow> bbrSender" where
  "NewBbrSender rnd packetSize maxPackets s p = newBbrSender rnd packetSize s (initialCongestionWindowPackets * s) (maxPackets * s) p"


section \<open>Datagram sizes\<close>

text \<open>The products and quotients are those of unsigned 64-bit integers.\<close>

definition scaleByteWindowForDatagramSize :: "ByteCount \<Rightarrow> ByteCount \<Rightarrow> ByteCount \<Rightarrow> ByteCount option" where
  "scaleByteWindowForDatagramSize window old new =
     (if old = new then Some window
      else if (word_of_int old :: u64) = 0 then None
      else Some (sint ((word_of_int window * word_of_int new) div word_of_int old :: u64)))"

definition rescalePacketSizedWindows :: "ByteCount \<Rightarrow> bbrSender \<Rightarrow> bbrSender option" where
  "rescalePacketSizedWindows s b =
     (let old = bb_maxDatagramSize b
      in do {
        iw \<leftarrow> scaleByteWindowForDatagramSize (initialCongestionWindow b) old s;
        mw \<leftarrow> scaleByteWindowForDatagramSize (maxCongestionWindow b) old s;
        pw \<leftarrow> scaleByteWindowForDatagramSize (cwndToCalculateMinPacingRate b) old s;
        Some (b\<lparr>bb_maxDatagramSize := s, initialCongestionWindow := iw, maxCongestionWindow := mw,
                minCongestionWindow := minCongestionWindowForMaxDatagramSize s, cwndToCalculateMinPacingRate := pw\<rparr>)
      })"

definition bbr_SetMaxDatagramSize :: "ByteCount \<Rightarrow> bbrSender \<Rightarrow> bbrSender option" where
  "bbr_SetMaxDatagramSize s b0 =
     (if s < bb_maxDatagramSize b0 then None
      else do {
        b \<leftarrow> rescalePacketSizedWindows s b0;
        let w = (if congestionWindow b = minCongestionWindow b0 then minCongestionWindow b
                 else if congestionWindow b = initialCongestionWindow b0 then initialCongestionWindow b
                 else min (maxCongestionWindow b) (max (congestionWindow b) (minCongestionWindow b)));
        Some (b\<lparr>congestionWindow := w, recoveryWindow := min (maxCongestionWindow b) (max (recoveryWindow b) (minCongestionWindow b)),
                bb_pacer := p_SetMaxDatagramSize s (bb_pacer b)\<rparr>)
      })"


section \<open>Sending\<close>

definition bbr_TimeUntilSend :: "(real \<Rightarrow> real) \<Rightarrow> duration \<Rightarrow> duration \<Rightarrow> bbrSender \<Rightarrow> instant option" where
  "bbr_TimeUntilSend rnd minDelay rtt b =
     (if budgetAtLastSent (bb_pacer b) \<ge> p_maxDatagramSize (bb_pacer b) then Some 0
      else do { bw \<leftarrow> bandwidthForPacer rnd rtt b; TimeUntilSend minDelay bw (bb_pacer b) })"

definition bbr_HasPacingBudget :: "(real \<Rightarrow> real) \<Rightarrow> duration \<Rightarrow> duration \<Rightarrow> instant \<Rightarrow> bbrSender \<Rightarrow> bool option" where
  "bbr_HasPacingBudget rnd minDelay rtt now b =
     map_option (\<lambda>bw. Budget minDelay bw now (bb_pacer b) \<ge> bb_maxDatagramSize b) (bandwidthForPacer rnd rtt b)"

definition bbr_OnPacketSent :: "(real \<Rightarrow> real) \<Rightarrow> duration \<Rightarrow> duration \<Rightarrow> instant \<Rightarrow> ByteCount \<Rightarrow> PacketNumber \<Rightarrow> ByteCount \<Rightarrow> bool
    \<Rightarrow> bbrSender \<Rightarrow> bbrSender option" where
  "bbr_OnPacketSent rnd minDelay rtt sentTime bytesInFlight packetNumber n isRetransmittable b =
     map_option (\<lambda>bw.
       let b = b\<lparr>bb_pacer := SentPacket minDelay bw sentTime n (bb_pacer b), bb_lastSentPacket := packetNumber, bb_bytesInFlight := bytesInFlight\<rparr>;
           b = (if bytesInFlight = 0 then b\<lparr>exitingQuiescence := True\<rparr> else b)
       in b\<lparr>sampler := OnPacketSent sentTime packetNumber n bytesInFlight isRetransmittable (sampler b)\<rparr>)
     (bandwidthForPacer rnd rtt b)"

definition InSlowStart :: "bbrSender \<Rightarrow> bool" where "InSlowStart b \<longleftrightarrow> bb_mode b = bbrModeStartup"
definition InRecovery :: "bbrSender \<Rightarrow> bool" where "InRecovery b \<longleftrightarrow> recoveryState b \<noteq> bbrRecoveryStateNotInRecovery"

definition bbr_GetCongestionWindow :: "bbrSender \<Rightarrow> ByteCount" where
  "bbr_GetCongestionWindow b =
     (if bb_mode b = bbrModeProbeRtt then probeRttCongestionWindow b
      else if InRecovery b then min (congestionWindow b) (recoveryWindow b)
      else congestionWindow b)"

definition bbr_CanSend :: "ByteCount \<Rightarrow> bbrSender \<Rightarrow> bool" where
  "bbr_CanSend bytesInFlight b \<longleftrightarrow> bytesInFlight < bbr_GetCongestionWindow b"

definition setHighCwndGain :: "real \<Rightarrow> bbrSender \<Rightarrow> bbrSender" where
  "setHighCwndGain g b =
     (let b = b\<lparr>highCwndGain := g\<rparr> in if bb_mode b = bbrModeStartup then b\<lparr>congestionWindowGain := g\<rparr> else b)"


section \<open>Updating the model\<close>

definition maybeAppLimited :: "(real \<Rightarrow> real) \<Rightarrow> duration \<Rightarrow> ByteCount \<Rightarrow> bbrSender \<Rightarrow> bbrSender" where
  "maybeAppLimited rnd rtt bytesInFlight b =
     (if bytesInFlight < getTargetCongestionWindow rnd rtt 1 b then b\<lparr>sampler := OnAppLimited (sampler b)\<rparr> else b)"

definition updateRoundTripCounter :: "PacketNumber \<Rightarrow> bbrSender \<Rightarrow> bool \<times> bbrSender" where
  "updateRoundTripCounter acked b =
     (if currentRoundTripEnd b = invalidPacketNumber \<or> acked > currentRoundTripEnd b
      then (True, b\<lparr>roundTripCount := roundTripCount b + 1, currentRoundTripEnd := bb_lastSentPacket b\<rparr>)
      else (False, b))"

definition updateRecoveryState :: "PacketNumber \<Rightarrow> bool \<Rightarrow> bool \<Rightarrow> bbrSender \<Rightarrow> bbrSender" where
  "updateRecoveryState acked hasLosses isRoundStart b =
     (if \<not> isAtFullBandwidth b then b
      else
        let b = (if hasLosses then b\<lparr>endRecoveryAt := bb_lastSentPacket b\<rparr> else b);
            exit = (\<lambda>b. if \<not> hasLosses \<and> acked > endRecoveryAt b then b\<lparr>recoveryState := bbrRecoveryStateNotInRecovery\<rparr> else b)
        in case recoveryState b of
             bbrRecoveryStateNotInRecovery \<Rightarrow>
               (if hasLosses
                then b\<lparr>recoveryState := bbrRecoveryStateConservation, recoveryWindow := 0, currentRoundTripEnd := bb_lastSentPacket b\<rparr> else b)
           | bbrRecoveryStateConservation \<Rightarrow> exit (if isRoundStart then b\<lparr>recoveryState := bbrRecoveryStateGrowth\<rparr> else b)
           | bbrRecoveryStateGrowth \<Rightarrow> exit b)"

definition maybeUpdateMinRtt :: "instant \<Rightarrow> duration \<Rightarrow> bbrSender \<Rightarrow> bool \<times> bbrSender" where
  "maybeUpdateMinRtt now sampleMinRtt b =
     (let minRttExpired = (minRtt b \<noteq> 0 \<and> now > minRttTimestamp b + minRttExpiry)
      in (minRttExpired,
          if minRttExpired \<or> sampleMinRtt < minRtt b \<or> minRtt b = 0 then b\<lparr>minRtt := sampleMinRtt, minRttTimestamp := now\<rparr> else b))"

definition updateGainCyclePhase :: "(real \<Rightarrow> real) \<Rightarrow> duration \<Rightarrow> instant \<Rightarrow> ByteCount \<Rightarrow> bool \<Rightarrow> bbrSender \<Rightarrow> bbrSender" where
  "updateGainCyclePhase rnd rtt now priorInFlight hasLosses b =
     (let advance = (now > lastCycleStart b + getMinRtt rtt b);
          advance = (if bb_pacingGain b > 1 \<and> \<not> hasLosses \<and> priorInFlight < getTargetCongestionWindow rnd rtt (bb_pacingGain b) b
                     then False else advance);
          advance = (if bb_pacingGain b < 1 \<and> bb_bytesInFlight b \<le> getTargetCongestionWindow rnd rtt 1 b then True else advance)
      in if advance
         then let b = b\<lparr>cycleCurrentOffset := (cycleCurrentOffset b + 1) mod gainCycleLength, lastCycleStart := now\<rparr>
              in if drainToTarget b \<and> bb_pacingGain b < 1 \<and> pacingGain ! cycleCurrentOffset b = 1
                    \<and> bb_bytesInFlight b > getTargetCongestionWindow rnd rtt 1 b
                 then b
                 else b\<lparr>bb_pacingGain := pacingGain ! cycleCurrentOffset b\<rparr>
         else b)"

definition shouldExitStartupDueToLoss :: "(real \<Rightarrow> real) \<Rightarrow> sendTimeState \<Rightarrow> bbrSender \<Rightarrow> bool" where
  "shouldExitStartupDueToLoss rnd state b =
     (if numLossEventsInRound b < defaultStartupFullLossCount \<or> \<not> isValid state then False
      else st_bytesInFlight state > 0 \<and> bytesLostInRound b > 0
           \<and> bytesLostInRound b > ByteCount_of (rnd (rnd (of_int (st_bytesInFlight state)) * quicBbr2DefaultLossThreshold rnd)))"

definition checkIfFullBandwidthReached :: "(real \<Rightarrow> real) \<Rightarrow> sendTimeState \<Rightarrow> bbrSender \<Rightarrow> bbrSender" where
  "checkIfFullBandwidthReached rnd state b =
     (if lastSampleIsAppLimited b then b
      else
        let target = uint64_of (rnd (rnd (real (unat (bandwidthAtLastRound b))) * startupGrowthTarget))
        in if bandwidthEstimate b \<ge> target
           then let b = b\<lparr>bandwidthAtLastRound := bandwidthEstimate b, roundsWithoutBandwidthGain := 0\<rparr>
                in if expireAckAggregationInStartup b then b\<lparr>sampler := ResetMaxAckHeightTracker 0 (roundTripCount b) (sampler b)\<rparr> else b
           else let b = b\<lparr>roundsWithoutBandwidthGain := roundsWithoutBandwidthGain b + 1\<rparr>
                in if roundsWithoutBandwidthGain b \<ge> numStartupRtts b \<or> shouldExitStartupDueToLoss rnd state b
                   then b\<lparr>isAtFullBandwidth := True\<rparr> else b)"

definition maybeExitStartupOrDrain :: "(real \<Rightarrow> real) \<Rightarrow> duration \<Rightarrow> nat \<Rightarrow> instant \<Rightarrow> bbrSender \<Rightarrow> bbrSender" where
  "maybeExitStartupOrDrain rnd rtt r now b =
     (let b = (if bb_mode b = bbrModeStartup \<and> isAtFullBandwidth b
               then b\<lparr>bb_mode := bbrModeDrain, bb_pacingGain := drainGain b, congestionWindowGain := highCwndGain b\<rparr> else b)
      in if bb_mode b = bbrModeDrain \<and> bb_bytesInFlight b \<le> getTargetCongestionWindow rnd rtt 1 b
         then enterProbeBandwidthMode r now b else b)"

definition maybeEnterOrExitProbeRtt :: "int \<Rightarrow> nat \<Rightarrow> instant \<Rightarrow> bool \<Rightarrow> bool \<Rightarrow> bbrSender \<Rightarrow> bbrSender" where
  "maybeEnterOrExitProbeRtt maxPacketBufferSize r now isRoundStart minRttExpired b =
     (let b = (if minRttExpired \<and> \<not> exitingQuiescence b \<and> bb_mode b \<noteq> bbrModeProbeRtt
               then b\<lparr>bb_mode := bbrModeProbeRtt, bb_pacingGain := 1, exitProbeRttAt := 0\<rparr> else b);
          b = (if bb_mode b = bbrModeProbeRtt
               then let b = b\<lparr>sampler := OnAppLimited (sampler b)\<rparr>
                    in if exitProbeRttAt b = 0
                       then (if bb_bytesInFlight b < probeRttCongestionWindow b + maxPacketBufferSize
                             then b\<lparr>exitProbeRttAt := now + probeRttTime, probeRttRoundPassed := False\<rparr> else b)
                       else let b = (if isRoundStart then b\<lparr>probeRttRoundPassed := True\<rparr> else b)
                            in if now - exitProbeRttAt b \<ge> 0 \<and> probeRttRoundPassed b
                               then let b = b\<lparr>minRttTimestamp := now\<rparr>
                                    in if \<not> isAtFullBandwidth b then enterStartupMode b else enterProbeBandwidthMode r now b
                               else b
               else b)
      in b\<lparr>exitingQuiescence := False\<rparr>)"


section \<open>Rates and windows\<close>

definition calculatePacingRate :: "(real \<Rightarrow> real) \<Rightarrow> duration \<Rightarrow> ByteCount \<Rightarrow> bbrSender \<Rightarrow> bbrSender option" where
  "calculatePacingRate rnd rtt bytesLost b =
     (if bandwidthEstimate b = 0 then Some b
      else
        let targetRate = uint64_of (rnd (bb_pacingGain b * rnd (real (unat (bandwidthEstimate b)))))
        in if isAtFullBandwidth b then Some (b\<lparr>pacingRate := targetRate\<rparr>)
           else if pacingRate b = 0 \<and> rtt \<noteq> 0
             then map_option (\<lambda>r. b\<lparr>pacingRate := r\<rparr>) (BandwidthFromDelta (initialCongestionWindow b) rtt)
           else do {
             b \<leftarrow> (if detectOvershooting b
                   then let b = b\<lparr>bytesLostWhileDetectingOvershooting := bytesLostWhileDetectingOvershooting b + bytesLost\<rparr>
                        in if pacingRate b > targetRate \<and> bytesLostWhileDetectingOvershooting b > 0
                              \<and> (hasNoAppLimitedSample b
                                 \<or> bytesLostWhileDetectingOvershooting b * bytesLostMultiplierWhileDetectingOvershooting b > initialCongestionWindow b)
                           then map_option (\<lambda>r. b\<lparr>pacingRate := max targetRate r, bytesLostWhileDetectingOvershooting := 0, detectOvershooting := False\<rparr>)
                                  (BandwidthFromDelta (cwndToCalculateMinPacingRate b) rtt)
                           else Some b
                   else Some b);
             Some (b\<lparr>pacingRate := max (pacingRate b) targetRate\<rparr>)
           })"

definition calculateCongestionWindow :: "(real \<Rightarrow> real) \<Rightarrow> duration \<Rightarrow> ByteCount \<Rightarrow> ByteCount \<Rightarrow> bbrSender \<Rightarrow> bbrSender" where
  "calculateCongestionWindow rnd rtt bytesAcked excessAcked b =
     (if bb_mode b = bbrModeProbeRtt then b
      else
        let target = getTargetCongestionWindow rnd rtt (congestionWindowGain b) b;
            target = (if isAtFullBandwidth b then target + tracker_Get (tracker (sampler b))
                      else if enableAckAggregationDuringStartup b then target + excessAcked else target);
            w = congestionWindow b;
            w = (if isAtFullBandwidth b then min target (w + bytesAcked)
                 else if w < target \<or> totalBytesAcked (sampler b) < initialCongestionWindow b then w + bytesAcked
                 else w);
            w = max w (minCongestionWindow b);
            w = min w (maxCongestionWindow b)
        in b\<lparr>congestionWindow := w\<rparr>)"

definition calculateRecoveryWindow :: "ByteCount \<Rightarrow> ByteCount \<Rightarrow> bbrSender \<Rightarrow> bbrSender" where
  "calculateRecoveryWindow bytesAcked bytesLost b =
     (if recoveryState b = bbrRecoveryStateNotInRecovery then b
      else if recoveryWindow b = 0 then b\<lparr>recoveryWindow := max (minCongestionWindow b) (bb_bytesInFlight b + bytesAcked)\<rparr>
      else
        let w = (if recoveryWindow b \<ge> bytesLost then recoveryWindow b - bytesLost else bb_maxDatagramSize b);
            w = (if recoveryState b = bbrRecoveryStateGrowth then w + bytesAcked else w);
            w = max w (bb_bytesInFlight b + bytesAcked)
        in b\<lparr>recoveryWindow := max (minCongestionWindow b) w\<rparr>)"


section \<open>Congestion events\<close>

text \<open>The threshold product of the sampler, which the sampler's theory leaves open.\<close>

definition threshold_product :: "(real \<Rightarrow> real) \<Rightarrow> real \<Rightarrow> ByteCount \<Rightarrow> ByteCount" where
  "threshold_product rnd t n = ByteCount_of (rnd (t * rnd (of_int n)))"

text \<open>
  \<open>OnCongestionEventEx\<close> in four parts: what happens before the sampler is asked, what its sample changes, the transitions of the mode, and the new
  rates and windows with the cleaning up at the end. An event without packets indexes below a slice.
\<close>

definition event_begin :: "(real \<Rightarrow> real) \<Rightarrow> duration \<Rightarrow> ByteCount \<Rightarrow> (PacketNumber \<times> ByteCount) list \<Rightarrow> (PacketNumber \<times> ByteCount) list
    \<Rightarrow> bbrSender \<Rightarrow> bool \<times> bbrSender" where
  "event_begin rnd rtt priorInFlight acked lost b =
     (let b = maybeAppLimited rnd rtt priorInFlight b;
          b = b\<lparr>bb_bytesInFlight := priorInFlight - sum_list (map snd acked) - sum_list (map snd lost)\<rparr>
      in if acked \<noteq> []
         then let (isRoundStart, b) = updateRoundTripCounter (fst (last acked)) b
              in (isRoundStart, updateRecoveryState (fst (last acked)) (lost \<noteq> []) isRoundStart b)
         else (False, b))"

definition event_sample :: "instant \<Rightarrow> ByteCount \<Rightarrow> congestionEventSample \<Rightarrow> bbrSender \<Rightarrow> bool \<times> bbrSender" where
  "event_sample eventTime totalBytesAckedBefore s b =
     (let b = (if isValid (lastPacketSendState s)
               then let b = b\<lparr>lastSampleIsAppLimited := st_isAppLimited (lastPacketSendState s)\<rparr>
                    in b\<lparr>hasNoAppLimitedSample := hasNoAppLimitedSample b \<or> \<not> lastSampleIsAppLimited b\<rparr>
               else b);
          b = (if totalBytesAckedBefore \<noteq> totalBytesAcked (sampler b)
                  \<and> (\<not> sampleIsAppLimited s \<or> sampleMaxBandwidth s > GetBest (maxBandwidth b))
               then b\<lparr>maxBandwidth := wf_Update 0 MaxFilter (sampleMaxBandwidth s) (roundTripCount b) (maxBandwidth b)\<rparr> else b)
      in if sampleRtt s \<noteq> infRTT then maybeUpdateMinRtt eventTime (sampleRtt s) b else (False, b))"

definition event_mode :: "(real \<Rightarrow> real) \<Rightarrow> duration \<Rightarrow> int \<Rightarrow> nat \<Rightarrow> instant \<Rightarrow> ByteCount \<Rightarrow> bool \<Rightarrow> bool \<Rightarrow> bool \<Rightarrow> sendTimeState \<Rightarrow> ByteCount
    \<Rightarrow> bbrSender \<Rightarrow> bbrSender" where
  "event_mode rnd rtt maxPacketBufferSize r eventTime priorInFlight hasLosses isRoundStart minRttExpired state bytesLost b =
     (let b = (if hasLosses then b\<lparr>numLossEventsInRound := numLossEventsInRound b + 1, bytesLostInRound := bytesLostInRound b + bytesLost\<rparr> else b);
          b = (if bb_mode b = bbrModeProbeBw then updateGainCyclePhase rnd rtt eventTime priorInFlight hasLosses b else b);
          b = (if isRoundStart \<and> \<not> isAtFullBandwidth b then checkIfFullBandwidthReached rnd state b else b);
          b = maybeExitStartupOrDrain rnd rtt r eventTime b
      in maybeEnterOrExitProbeRtt maxPacketBufferSize r eventTime isRoundStart minRttExpired b)"

definition event_end :: "(real \<Rightarrow> real) \<Rightarrow> duration \<Rightarrow> (PacketNumber \<times> ByteCount) list \<Rightarrow> (PacketNumber \<times> ByteCount) list \<Rightarrow> bool \<Rightarrow> ByteCount
    \<Rightarrow> ByteCount \<Rightarrow> ByteCount \<Rightarrow> bbrSender \<Rightarrow> bbrSender option" where
  "event_end rnd rtt acked lost isRoundStart bytesAcked bytesLost excessAcked b =
     do {
       b \<leftarrow> calculatePacingRate rnd rtt bytesLost b;
       let b = calculateRecoveryWindow bytesAcked bytesLost (calculateCongestionWindow rnd rtt bytesAcked excessAcked b);
       leastUnacked \<leftarrow> (if acked \<noteq> [] then Some (fst (last acked) - 2) else if lost \<noteq> [] then Some (fst (last lost) + 1) else None);
       s \<leftarrow> RemoveObsoletePackets leastUnacked (sampler b);
       let b = b\<lparr>sampler := s\<rparr>;
       Some (if isRoundStart then b\<lparr>numLossEventsInRound := 0, bytesLostInRound := 0\<rparr> else b)
     }"

definition bbr_OnCongestionEventEx :: "(real \<Rightarrow> real) \<Rightarrow> duration \<Rightarrow> int \<Rightarrow> nat \<Rightarrow> ByteCount \<Rightarrow> instant \<Rightarrow> (PacketNumber \<times> ByteCount) list
    \<Rightarrow> (PacketNumber \<times> ByteCount) list \<Rightarrow> bbrSender \<Rightarrow> bbrSender option" where
  "bbr_OnCongestionEventEx rnd rtt maxPacketBufferSize r priorInFlight eventTime acked lost b0 =
     (let (isRoundStart, b) = event_begin rnd rtt priorInFlight acked lost b0
      in do {
        (s, smp) \<leftarrow> OnCongestionEvent (threshold_product rnd) eventTime (map fst acked) lost (GetBest (maxBandwidth b)) infBandwidth
                     (roundTripCount b) (sampler b);
        let (minRttExpired, b) = event_sample eventTime (totalBytesAcked (sampler b0)) s (b\<lparr>sampler := smp\<rparr>);
        let bytesLost = totalBytesLost (sampler b) - totalBytesLost (sampler b0);
        let b = event_mode rnd rtt maxPacketBufferSize r eventTime priorInFlight (lost \<noteq> []) isRoundStart minRttExpired (lastPacketSendState s) bytesLost b;
        let bytesAcked = totalBytesAcked (sampler b) - totalBytesAcked (sampler b0);
        event_end rnd rtt acked lost isRoundStart bytesAcked bytesLost (ces_extraAcked s) b
      })"


section \<open>Round trip samples\<close>

text \<open>A duration whose 64-bit pattern is not zero, by which a bandwidth can be divided.\<close>

definition rtt_ok :: "duration \<Rightarrow> bool" where "rtt_ok d \<longleftrightarrow> d \<noteq> 0 \<and> - (2 ^ 63) < d \<and> d < 2 ^ 63"

lemma BandwidthFromDelta_rtt:
  assumes "rtt_ok d"
  shows "\<exists>r. BandwidthFromDelta n d = Some r"
proof -
  have "(word_of_int d :: u64) \<noteq> 0"
  proof
    assume "(word_of_int d :: u64) = 0"
    then have "(2 :: int) ^ 64 dvd d" by (simp add: word_of_int_eq_0_iff)
    then show False using assms dvd_imp_le_int [of d "2 ^ 64"] by (auto simp: rtt_ok_def)
  qed
  then show ?thesis by (simp add: BandwidthFromDelta_def)
qed

lemma ack_sample_rtt:
  assumes "ack_sample t p b = Some (s, b')" and "clock_time t" and "entry_times p"
  shows "bs_rtt s = 0 \<or> rtt_ok (bs_rtt s)"
  using assms
  by (auto simp: ack_sample_def newBandwidthSample_def rtt_ok_def entry_times_def clock_time_def Let_def split: if_splits option.splits prod.splits)

lemma onPacketAcknowledged_rtt:
  assumes "onPacketAcknowledged t pn b = Some (s, b')" and "clock_time t" and "sampler_ok b"
  shows "bs_rtt s = 0 \<or> rtt_ok (bs_rtt s)"
proof (cases "pq_GetEntry pn (connectionStateMap b)")
  case None
  then show ?thesis using assms(1) by (auto simp: onPacketAcknowledged_def newBandwidthSample_def)
next
  case (Some p)
  have "entry_times p" using Some sampler_okD(1,3) [OF assms(3)] by (simp add: pq_GetEntry_map)
  then show ?thesis using Some assms(1,2) ack_sample_rtt by (fastforce simp: onPacketAcknowledged_def)
qed

lemma ack_one_rtt:
  assumes "rtt_ok (sampleRtt (acc_sample a))" and "bs_rtt s = 0 \<or> rtt_ok (bs_rtt s)"
  shows "rtt_ok (sampleRtt (acc_sample (ack_one s n a)))"
  using assms by (auto simp: ack_one_def Let_def min_def)

lemma ack_all_rtt:
  assumes "ack_all t ps a b = Some (a', b')" and "clock_time t" and "sampler_ok b" and "rtt_ok (sampleRtt (acc_sample a))"
  shows "rtt_ok (sampleRtt (acc_sample a'))"
  using assms
proof (induction ps arbitrary: a b)
  case (Cons p ps)
  obtain s b1 where s: "onPacketAcknowledged t p b = Some (s, b1)" "sampler_ok b1"
    using onPacketAcknowledged_ok [OF Cons.prems(3,2)] by blast
  show ?case
    using Cons.IH [of "ack_one s (totalBytesAcked b1) a" b1] Cons.prems s ack_one_rtt onPacketAcknowledged_rtt by simp
qed simp

lemma OnCongestionEvent_rtt:
  assumes "OnCongestionEvent fmul t acked lost mx ub rtc b = Some (es, b')" and "clock_time t" and "sampler_ok b"
  shows "rtt_ok (sampleRtt es)"
proof -
  have inf: "rtt_ok infRTT" by (simp add: rtt_ok_def infRTT_def)
  obtain ls b1 where l: "lose_all lost no_state b = (ls, b1)" "sampler_ok b1"
    using lose_all_ok [OF assms(3), of lost no_state] by (cases "lose_all lost no_state b") auto
  obtain a b2 where a: "ack_all t acked \<lparr>acc_sample = newCongestionEventSample, acc_state = no_state, acc_maxSendRate = 0\<rparr> b1 = Some (a, b2)"
    using ack_all_ok [OF l(2) assms(2)] by blast
  have "rtt_ok (sampleRtt (acc_sample a))"
    using ack_all_rtt [OF a assms(2) l(2)] inf by (simp add: newCongestionEventSample_def)
  then show ?thesis using assms(1) l a inf
    by (auto simp: OnCongestionEvent_def newCongestionEventSample_def Let_def split: if_splits prod.splits)
qed


section \<open>The modes\<close>

text \<open>What each mode means for the gains, and which modes a connection at its full bandwidth can be in.\<close>

definition mode_ok :: "bbrSender \<Rightarrow> bool" where
  "mode_ok b =
     (case bb_mode b of
        bbrModeStartup \<Rightarrow> \<not> isAtFullBandwidth b \<and> bb_pacingGain b = highGain b \<and> congestionWindowGain b = highCwndGain b
      | bbrModeDrain \<Rightarrow> isAtFullBandwidth b \<and> bb_pacingGain b = drainGain b \<and> congestionWindowGain b = highCwndGain b
      | bbrModeProbeBw \<Rightarrow> isAtFullBandwidth b \<and> congestionWindowGain b = congestionWindowGainConstant b \<and> cycleCurrentOffset b < 8
                          \<and> (bb_pacingGain b = pacingGain ! cycleCurrentOffset b \<or> drainToTarget b \<and> bb_pacingGain b = 3 / 4)
      | bbrModeProbeRtt \<Rightarrow> bb_pacingGain b = 1)"

lemma gains_nth: "i < 8 \<Longrightarrow> pacingGain ! i \<in> {5 / 4, 3 / 4, 1}" "i < 8 \<Longrightarrow> pacingGain ! i < 1 \<Longrightarrow> pacingGain ! i = 3 / 4"
  by (auto simp: pacingGain_def less_Suc_eq numeral_eq_Suc)

lemma cycle_length [simp]: "gainCycleLength = 8"
  by (simp add: gainCycleLength_def pacingGain_def)

text \<open>The fields the modes are about; most steps leave them alone.\<close>

definition same_mode :: "bbrSender \<Rightarrow> bbrSender \<Rightarrow> bool" where
  "same_mode b b' \<longleftrightarrow> bb_mode b' = bb_mode b \<and> exitProbeRttAt b' = exitProbeRttAt b \<and> isAtFullBandwidth b' = isAtFullBandwidth b
     \<and> bb_pacingGain b' = bb_pacingGain b \<and> congestionWindowGain b' = congestionWindowGain b \<and> cycleCurrentOffset b' = cycleCurrentOffset b \<and> highGain b' = highGain b
     \<and> drainGain b' = drainGain b \<and> highCwndGain b' = highCwndGain b \<and> congestionWindowGainConstant b' = congestionWindowGainConstant b
     \<and> drainToTarget b' = drainToTarget b"

lemma same_mode_trans: "same_mode a b \<Longrightarrow> same_mode b c \<Longrightarrow> same_mode a c"
  by (simp add: same_mode_def)

lemma mode_ok_same: "same_mode b b' \<Longrightarrow> mode_ok b' = mode_ok b" "same_mode b b' \<Longrightarrow> isAtFullBandwidth b' = isAtFullBandwidth b"
  by (auto simp: same_mode_def mode_ok_def split: bbrMode.splits)

lemma same_mode_update [simp]:
  "same_mode b (bb_pacer_update f1 c) = same_mode b c" "same_mode b (sampler_update f2 c) = same_mode b c"
  "same_mode b (roundTripCount_update f3 c) = same_mode b c" "same_mode b (bb_lastSentPacket_update f4 c) = same_mode b c"
  "same_mode b (currentRoundTripEnd_update f5 c) = same_mode b c" "same_mode b (numLossEventsInRound_update f6 c) = same_mode b c"
  "same_mode b (bytesLostInRound_update f7 c) = same_mode b c" "same_mode b (maxBandwidth_update f8 c) = same_mode b c"
  "same_mode b (minRtt_update f9 c) = same_mode b c" "same_mode b (minRttTimestamp_update f10 c) = same_mode b c"
  "same_mode b (congestionWindow_update f11 c) = same_mode b c" "same_mode b (initialCongestionWindow_update f12 c) = same_mode b c"
  "same_mode b (maxCongestionWindow_update f13 c) = same_mode b c" "same_mode b (minCongestionWindow_update f14 c) = same_mode b c"
  "same_mode b (pacingRate_update f15 c) = same_mode b c" "same_mode b (lastCycleStart_update f16 c) = same_mode b c"
  "same_mode b (roundsWithoutBandwidthGain_update f17 c) = same_mode b c" "same_mode b (bandwidthAtLastRound_update f18 c) = same_mode b c"
  "same_mode b (exitingQuiescence_update f19 c) = same_mode b c"
  "same_mode b (probeRttRoundPassed_update f21 c) = same_mode b c" "same_mode b (lastSampleIsAppLimited_update f22 c) = same_mode b c"
  "same_mode b (hasNoAppLimitedSample_update f23 c) = same_mode b c" "same_mode b (recoveryState_update f24 c) = same_mode b c"
  "same_mode b (endRecoveryAt_update f25 c) = same_mode b c" "same_mode b (recoveryWindow_update f26 c) = same_mode b c"
  "same_mode b (detectOvershooting_update f27 c) = same_mode b c" "same_mode b (bytesLostWhileDetectingOvershooting_update f28 c) = same_mode b c"
  "same_mode b (cwndToCalculateMinPacingRate_update f29 c) = same_mode b c" "same_mode b (bb_maxDatagramSize_update f30 c) = same_mode b c"
  "same_mode b (bb_bytesInFlight_update f31 c) = same_mode b c"
  by (simp_all add: same_mode_def)

lemma same_mode_refl [simp]: "same_mode b b"
  by (simp add: same_mode_def)

lemma same_mode_if [simp]: "same_mode b (if x then c else d) = (if x then same_mode b c else same_mode b d)"
  by simp

lemmas same_mode_simps = same_mode_if same_mode_update same_mode_refl if_cancel

lemma app_limited_mode: "same_mode b (maybeAppLimited rnd rtt n b)"
  by (simp add: maybeAppLimited_def)

lemma round_trip_mode: "same_mode b (snd (updateRoundTripCounter n b))"
  by (simp add: updateRoundTripCounter_def)

lemma recovery_mode: "same_mode b (updateRecoveryState n l rs b)"
  by (cases "recoveryState b") (simp_all add: updateRecoveryState_def Let_def)

lemma event_begin_mode: "same_mode b (snd (event_begin rnd rtt prior acked lost b))"
proof -
  define c where "c = (maybeAppLimited rnd rtt prior b)\<lparr>bb_bytesInFlight := prior - sum_list (map snd acked) - sum_list (map snd lost)\<rparr>"
  obtain rs d where d: "updateRoundTripCounter (fst (last acked)) c = (rs, d)" by (cases "updateRoundTripCounter (fst (last acked)) c")
  have bc: "same_mode b c" using app_limited_mode by (simp add: c_def)
  have "same_mode c d" using round_trip_mode [of c "fst (last acked)"] by (simp add: d)
  then have "same_mode b (updateRecoveryState (fst (last acked)) (lost \<noteq> []) rs d)"
    using bc recovery_mode same_mode_trans by blast
  then show ?thesis unfolding event_begin_def c_def [symmetric] Let_def d using bc by simp
qed

lemma min_rtt_mode: "same_mode b (snd (maybeUpdateMinRtt t m b))"
  by (simp add: maybeUpdateMinRtt_def Let_def)

lemma event_sample_mode: "same_mode b (snd (event_sample t before s b))"
proof -
  define c where "c = (if isValid (lastPacketSendState s)
    then let b = b\<lparr>lastSampleIsAppLimited := st_isAppLimited (lastPacketSendState s)\<rparr>
         in b\<lparr>hasNoAppLimitedSample := hasNoAppLimitedSample b \<or> \<not> lastSampleIsAppLimited b\<rparr> else b)"
  define d where "d = (if before \<noteq> totalBytesAcked (sampler c) \<and> (\<not> sampleIsAppLimited s \<or> sampleMaxBandwidth s > GetBest (maxBandwidth c))
    then c\<lparr>maxBandwidth := wf_Update 0 MaxFilter (sampleMaxBandwidth s) (roundTripCount c) (maxBandwidth c)\<rparr> else c)"
  have bd: "same_mode b d" by (simp add: c_def d_def Let_def)
  then have "same_mode b (snd (maybeUpdateMinRtt t (sampleRtt s) d))" using min_rtt_mode same_mode_trans by blast
  moreover have "event_sample t before s b = (if sampleRtt s \<noteq> infRTT then maybeUpdateMinRtt t (sampleRtt s) d else (False, d))"
    unfolding event_sample_def d_def c_def Let_def by (rule refl)
  ultimately show ?thesis using bd by simp
qed

lemma pacing_rate_mode: "calculatePacingRate rnd rtt l b = Some b' \<Longrightarrow> same_mode b b'"
  unfolding calculatePacingRate_def Let_def by (auto split: if_split_asm bind_split_asm)

lemma window_mode: "same_mode b (calculateCongestionWindow rnd rtt a e b)"
  unfolding calculateCongestionWindow_def Let_def by (simp only: same_mode_simps)

lemma recovery_window_mode: "same_mode b (calculateRecoveryWindow a l b)"
  unfolding calculateRecoveryWindow_def Let_def by (simp only: same_mode_simps)

lemma event_endE:
  assumes "event_end rnd rtt acked lost rs a l e b = Some b'"
  obtains c s where "calculatePacingRate rnd rtt l b = Some c"
    "b' = (let d = (calculateRecoveryWindow a l (calculateCongestionWindow rnd rtt a e c))\<lparr>sampler := s\<rparr>
           in if rs then d\<lparr>numLossEventsInRound := 0, bytesLostInRound := 0\<rparr> else d)"
    "RemoveObsoletePackets (if acked \<noteq> [] then fst (last acked) - 2 else fst (last lost) + 1)
       (sampler (calculateRecoveryWindow a l (calculateCongestionWindow rnd rtt a e c))) = Some s"
proof (cases "calculatePacingRate rnd rtt l b")
  case None
  then show ?thesis using assms by (simp add: event_end_def)
next
  case (Some c)
  let ?d = "calculateRecoveryWindow a l (calculateCongestionWindow rnd rtt a e c)"
  let ?n = "if acked \<noteq> [] then fst (last acked) - 2 else fst (last lost) + 1"
  have ne: "acked \<noteq> [] \<or> lost \<noteq> []" using assms Some by (auto simp: event_end_def)
  then have e: "event_end rnd rtt acked lost rs a l e b = Option.bind (RemoveObsoletePackets ?n (sampler ?d))
      (\<lambda>s. Some (let d = ?d\<lparr>sampler := s\<rparr> in if rs then d\<lparr>numLossEventsInRound := 0, bytesLostInRound := 0\<rparr> else d))"
    unfolding event_end_def Some bind.bind_lunit Let_def by (cases "acked = []") simp_all
  show ?thesis
  proof (cases "RemoveObsoletePackets ?n (sampler ?d)")
    case None
    then show ?thesis using assms unfolding e by simp
  next
    case (Some s)
    have "b' = (let d = ?d\<lparr>sampler := s\<rparr> in if rs then d\<lparr>numLossEventsInRound := 0, bytesLostInRound := 0\<rparr> else d)"
      using assms unfolding e Some bind.bind_lunit option.inject by (rule sym)
    then show ?thesis by (rule that [OF \<open>calculatePacingRate rnd rtt l b = Some c\<close> _ Some])
  qed
qed

lemma event_end_mode:
  assumes "event_end rnd rtt acked lost rs a l e b = Some b'"
  shows "same_mode b b'"
proof -
  obtain c s where c: "calculatePacingRate rnd rtt l b = Some c"
    and b': "b' = (let d = (calculateRecoveryWindow a l (calculateCongestionWindow rnd rtt a e c))\<lparr>sampler := s\<rparr>
           in if rs then d\<lparr>numLossEventsInRound := 0, bytesLostInRound := 0\<rparr> else d)" using assms by (rule event_endE)
  have "same_mode b (calculateRecoveryWindow a l (calculateCongestionWindow rnd rtt a e c))"
    by (rule same_mode_trans [OF pacing_rate_mode [OF c] same_mode_trans [OF window_mode recovery_window_mode]])
  then show ?thesis by (simp add: b' Let_def)
qed

lemma sent_mode: "bbr_OnPacketSent rnd d rtt t inflight pn n retr b = Some b' \<Longrightarrow> same_mode b b'"
  by (auto simp: bbr_OnPacketSent_def Let_def)

lemma rescaleE:
  assumes "rescalePacketSizedWindows s b = Some b'"
  obtains iw mw pw where "scaleByteWindowForDatagramSize (initialCongestionWindow b) (bb_maxDatagramSize b) s = Some iw"
    "scaleByteWindowForDatagramSize (maxCongestionWindow b) (bb_maxDatagramSize b) s = Some mw"
    "scaleByteWindowForDatagramSize (cwndToCalculateMinPacingRate b) (bb_maxDatagramSize b) s = Some pw"
    "b' = b\<lparr>bb_maxDatagramSize := s, initialCongestionWindow := iw, maxCongestionWindow := mw,
            minCongestionWindow := minCongestionWindowForMaxDatagramSize s, cwndToCalculateMinPacingRate := pw\<rparr>"
  using assms unfolding rescalePacketSizedWindows_def Let_def by (auto simp only: bind_eq_Some_conv option.inject)

lemma sizeE:
  assumes "bbr_SetMaxDatagramSize s b = Some b'"
  obtains c w where "bb_maxDatagramSize b \<le> s" "rescalePacketSizedWindows s b = Some c"
    "w = (if congestionWindow c = minCongestionWindow b then minCongestionWindow c
          else if congestionWindow c = initialCongestionWindow b then initialCongestionWindow c
          else min (maxCongestionWindow c) (max (congestionWindow c) (minCongestionWindow c)))"
    "b' = c\<lparr>congestionWindow := w, recoveryWindow := min (maxCongestionWindow c) (max (recoveryWindow c) (minCongestionWindow c)),
            bb_pacer := p_SetMaxDatagramSize s (bb_pacer c)\<rparr>"
proof (cases "s < bb_maxDatagramSize b")
  case True
  then show ?thesis using assms by (simp add: bbr_SetMaxDatagramSize_def)
next
  case False
  obtain c where c: "rescalePacketSizedWindows s b = Some c" using assms False by (cases "rescalePacketSizedWindows s b") (simp_all add: bbr_SetMaxDatagramSize_def)
  show ?thesis
    using assms False unfolding bbr_SetMaxDatagramSize_def c Let_def if_False bind.bind_lunit option.inject not_less
    by (intro that [OF _ c refl]) (simp_all only: if_not_P not_less option.inject bind.bind_lunit)
qed

lemma size_mode:
  assumes "bbr_SetMaxDatagramSize s b = Some b'"
  shows "same_mode b b'"
proof -
  obtain c w u v where c: "rescalePacketSizedWindows s b = Some c" and b': "b' = c\<lparr>congestionWindow := w, recoveryWindow := u, bb_pacer := v\<rparr>"
    using assms by (rule sizeE) blast
  have "same_mode b c" using c by (rule rescaleE) (simp only: same_mode_simps)
  then show ?thesis by (simp only: b' same_mode_simps)
qed

text \<open>The transitions.\<close>

lemma probe_bw_ok: "isAtFullBandwidth b \<Longrightarrow> mode_ok (enterProbeBandwidthMode r t b)"
  using pos_mod_bound [of 7 "int r"] by (auto simp: enterProbeBandwidthMode_def mode_ok_def Let_def less_Suc_eq)

lemma startup_ok: "\<not> isAtFullBandwidth b \<Longrightarrow> mode_ok (enterStartupMode b)"
  by (simp add: enterStartupMode_def mode_ok_def)

lemma gain_cycle_ok:
  assumes "mode_ok b" and "bb_mode b = bbrModeProbeBw"
  shows "mode_ok (updateGainCyclePhase rnd rtt t prior l b)"
  using assms gains_nth(2) [of "cycleCurrentOffset b"] by (auto simp: updateGainCyclePhase_def mode_ok_def Let_def)

lemma gain_cycle_frame:
  "bb_mode (updateGainCyclePhase rnd rtt t prior l b) = bb_mode b" "isAtFullBandwidth (updateGainCyclePhase rnd rtt t prior l b) = isAtFullBandwidth b"
  by (simp_all add: updateGainCyclePhase_def Let_def)

text \<open>Finding the full bandwidth breaks the meaning of \<open>STARTUP\<close> until the next step leaves that mode.\<close>

definition mode_mid :: "bbrSender \<Rightarrow> bool" where
  "mode_mid b \<longleftrightarrow> mode_ok b \<or> bb_mode b = bbrModeStartup \<and> isAtFullBandwidth b"

lemma full_check_mid:
  assumes "mode_ok b"
  shows "mode_mid (checkIfFullBandwidthReached rnd st b)" "isAtFullBandwidth b \<Longrightarrow> isAtFullBandwidth (checkIfFullBandwidthReached rnd st b)"
    "bb_mode (checkIfFullBandwidthReached rnd st b) = bb_mode b"
  using assms by (auto simp: checkIfFullBandwidthReached_def mode_mid_def mode_ok_def Let_def split: bbrMode.splits)

lemma exit_startup_ok:
  assumes "mode_mid b"
  shows "mode_ok (maybeExitStartupOrDrain rnd rtt r t b)"
    "isAtFullBandwidth (maybeExitStartupOrDrain rnd rtt r t b) = isAtFullBandwidth b"
    "bb_mode b = bbrModeProbeRtt \<Longrightarrow> maybeExitStartupOrDrain rnd rtt r t b = b"
proof -
  define c where "c = (if bb_mode b = bbrModeStartup \<and> isAtFullBandwidth b
    then b\<lparr>bb_mode := bbrModeDrain, bb_pacingGain := drainGain b, congestionWindowGain := highCwndGain b\<rparr> else b)"
  have c: "mode_ok c" "isAtFullBandwidth c = isAtFullBandwidth b" using assms by (auto simp: c_def mode_mid_def mode_ok_def)
  have e: "maybeExitStartupOrDrain rnd rtt r t b = (if bb_mode c = bbrModeDrain \<and> bb_bytesInFlight c \<le> getTargetCongestionWindow rnd rtt 1 c
    then enterProbeBandwidthMode r t c else c)" by (simp add: maybeExitStartupOrDrain_def c_def Let_def)
  have "bb_mode c = bbrModeDrain \<Longrightarrow> isAtFullBandwidth c" using c(1) by (simp add: mode_ok_def)
  then show "mode_ok (maybeExitStartupOrDrain rnd rtt r t b)" using c(1) probe_bw_ok by (simp add: e)
  show "isAtFullBandwidth (maybeExitStartupOrDrain rnd rtt r t b) = isAtFullBandwidth b"
    using c(2) by (simp add: e enterProbeBandwidthMode_def Let_def)
  show "maybeExitStartupOrDrain rnd rtt r t b = b" if "bb_mode b = bbrModeProbeRtt" using that by (simp add: e c_def)
qed

lemma probe_rtt_ok:
  assumes "mode_ok b"
  shows "mode_ok (maybeEnterOrExitProbeRtt pb r t rs ex b)"
    "isAtFullBandwidth (maybeEnterOrExitProbeRtt pb r t rs ex b) = isAtFullBandwidth b"
proof -
  define c where "c = (if ex \<and> \<not> exitingQuiescence b \<and> bb_mode b \<noteq> bbrModeProbeRtt
    then b\<lparr>bb_mode := bbrModeProbeRtt, bb_pacingGain := 1, exitProbeRttAt := 0\<rparr> else b)"
  have c: "mode_ok c" "isAtFullBandwidth c = isAtFullBandwidth b" using assms by (auto simp: c_def mode_ok_def)
  show "mode_ok (maybeEnterOrExitProbeRtt pb r t rs ex b)"
    unfolding maybeEnterOrExitProbeRtt_def c_def [symmetric] using c(1) probe_bw_ok startup_ok
    by (auto simp: mode_ok_def Let_def enterStartupMode_def enterProbeBandwidthMode_def split: bbrMode.splits)
  show "isAtFullBandwidth (maybeEnterOrExitProbeRtt pb r t rs ex b) = isAtFullBandwidth b"
    unfolding maybeEnterOrExitProbeRtt_def c_def [symmetric] using c(2)
    by (simp add: Let_def enterStartupMode_def enterProbeBandwidthMode_def)
qed


section \<open>The windows\<close>

text \<open>
  At all times: the sizes are multiples of the datagram size, the window is between the smallest and the largest one, the sampler is sound and the
  smallest round trip time seen is one by which a rate can be divided.
\<close>

definition base_ok :: "int \<Rightarrow> ByteCount \<Rightarrow> bbrSender \<Rightarrow> bool" where
  "base_ok N m b \<longleftrightarrow> bb_maxDatagramSize b = m \<and> 0 < m \<and> m \<le> 65536 \<and> minCongestionWindow b = 4 * m
     \<and> initialCongestionWindow b = 32 * m \<and> maxCongestionWindow b = N * m \<and> cwndToCalculateMinPacingRate b = 32 * m
     \<and> 4 * m \<le> congestionWindow b \<and> congestionWindow b \<le> N * m
     \<and> sampler_ok (sampler b) \<and> (minRtt b = 0 \<or> rtt_ok (minRtt b))"

text \<open>And between events, when the recovery window has been set up, it is not below the smallest window either.\<close>

definition bbr_ok :: "int \<Rightarrow> ByteCount \<Rightarrow> bbrSender \<Rightarrow> bool" where
  "bbr_ok N m b \<longleftrightarrow> base_ok N m b \<and> (InRecovery b \<longrightarrow> minCongestionWindow b \<le> recoveryWindow b)"

lemma base_okD: "base_ok N m b \<Longrightarrow> sampler_ok (sampler b)" "base_ok N m b \<Longrightarrow> minRtt b = 0 \<or> rtt_ok (minRtt b)"
  by (simp_all add: base_ok_def)

lemma base_update [simp]:
  "base_ok N m (bb_pacer_update g0 c) = base_ok N m c" "base_ok N m (bb_mode_update g1 c) = base_ok N m c"
  "base_ok N m (roundTripCount_update g2 c) = base_ok N m c" "base_ok N m (bb_lastSentPacket_update g3 c) = base_ok N m c"
  "base_ok N m (currentRoundTripEnd_update g4 c) = base_ok N m c" "base_ok N m (numLossEventsInRound_update g5 c) = base_ok N m c"
  "base_ok N m (bytesLostInRound_update g6 c) = base_ok N m c" "base_ok N m (maxBandwidth_update g7 c) = base_ok N m c"
  "base_ok N m (minRttTimestamp_update g8 c) = base_ok N m c" "base_ok N m (pacingRate_update g9 c) = base_ok N m c"
  "base_ok N m (bb_pacingGain_update g10 c) = base_ok N m c" "base_ok N m (congestionWindowGain_update g11 c) = base_ok N m c"
  "base_ok N m (cycleCurrentOffset_update g12 c) = base_ok N m c" "base_ok N m (lastCycleStart_update g13 c) = base_ok N m c"
  "base_ok N m (isAtFullBandwidth_update g14 c) = base_ok N m c" "base_ok N m (roundsWithoutBandwidthGain_update g15 c) = base_ok N m c"
  "base_ok N m (bandwidthAtLastRound_update g16 c) = base_ok N m c" "base_ok N m (exitingQuiescence_update g17 c) = base_ok N m c"
  "base_ok N m (exitProbeRttAt_update g18 c) = base_ok N m c" "base_ok N m (probeRttRoundPassed_update g19 c) = base_ok N m c"
  "base_ok N m (lastSampleIsAppLimited_update g20 c) = base_ok N m c" "base_ok N m (hasNoAppLimitedSample_update g21 c) = base_ok N m c"
  "base_ok N m (recoveryState_update g22 c) = base_ok N m c" "base_ok N m (endRecoveryAt_update g23 c) = base_ok N m c"
  "base_ok N m (recoveryWindow_update g24 c) = base_ok N m c" "base_ok N m (detectOvershooting_update g25 c) = base_ok N m c"
  "base_ok N m (bytesLostWhileDetectingOvershooting_update g26 c) = base_ok N m c" "base_ok N m (bb_bytesInFlight_update g27 c) = base_ok N m c"
  by (simp_all add: base_ok_def)

lemma base_if [simp]: "base_ok N m (if x then c else d) = (if x then base_ok N m c else base_ok N m d)"
  by simp

lemma base_sampler: "base_ok N m b \<Longrightarrow> sampler_ok s \<Longrightarrow> base_ok N m (b\<lparr>sampler := s\<rparr>)"
  by (simp add: base_ok_def)

lemma base_min_rtt: "base_ok N m b \<Longrightarrow> rtt_ok x \<Longrightarrow> base_ok N m (b\<lparr>minRtt := x\<rparr>)"
  by (simp add: base_ok_def)

lemma sampler_ok_hints [simp]:
  "sampler_ok (OnAppLimited s) = sampler_ok s" "sampler_ok (ResetMaxAckHeightTracker h t s) = sampler_ok s"
  "sampler_ok (SetReduceExtraAckedOnBandwidthIncrease v s) = sampler_ok s" "sampler_ok (EnableOverestimateAvoidance s) = sampler_ok s"
  by (simp_all add: OnAppLimited_def configure_defs EnableOverestimateAvoidance_def sampler_ok_def)

lemmas base_simps = base_if base_update if_cancel

lemma app_limited_base: "base_ok N m b \<Longrightarrow> base_ok N m (maybeAppLimited rnd rtt n b)"
  using base_sampler [of N m b "OnAppLimited (sampler b)"] base_okD(1) [of N m b] by (simp add: maybeAppLimited_def)

lemma round_trip_base: "base_ok N m (snd (updateRoundTripCounter n b)) = base_ok N m b"
  by (simp add: updateRoundTripCounter_def)

lemma recovery_base: "base_ok N m (updateRecoveryState n l rs b) = base_ok N m b"
  by (cases "recoveryState b") (simp_all add: updateRecoveryState_def Let_def)

lemma event_begin_base:
  assumes "base_ok N m b"
  shows "base_ok N m (snd (event_begin rnd rtt prior acked lost b))"
proof -
  define c where "c = (maybeAppLimited rnd rtt prior b)\<lparr>bb_bytesInFlight := prior - sum_list (map snd acked) - sum_list (map snd lost)\<rparr>"
  obtain rs d where d: "updateRoundTripCounter (fst (last acked)) c = (rs, d)" by (cases "updateRoundTripCounter (fst (last acked)) c")
  have "base_ok N m c" using app_limited_base [OF assms] by (simp add: c_def)
  moreover have "base_ok N m d = base_ok N m c" using round_trip_base [of N m "fst (last acked)" c] by (simp add: d)
  ultimately show ?thesis unfolding event_begin_def c_def [symmetric] Let_def d by (simp add: recovery_base)
qed

lemma event_sample_base:
  assumes "base_ok N m b" and "rtt_ok (sampleRtt s)"
  shows "base_ok N m (snd (event_sample t before s b))"
proof -
  define c where "c = (if isValid (lastPacketSendState s)
    then let b = b\<lparr>lastSampleIsAppLimited := st_isAppLimited (lastPacketSendState s)\<rparr>
         in b\<lparr>hasNoAppLimitedSample := hasNoAppLimitedSample b \<or> \<not> lastSampleIsAppLimited b\<rparr> else b)"
  define d where "d = (if before \<noteq> totalBytesAcked (sampler c) \<and> (\<not> sampleIsAppLimited s \<or> sampleMaxBandwidth s > GetBest (maxBandwidth c))
    then c\<lparr>maxBandwidth := wf_Update 0 MaxFilter (sampleMaxBandwidth s) (roundTripCount c) (maxBandwidth c)\<rparr> else c)"
  have d: "base_ok N m d" using assms(1) by (simp add: c_def d_def Let_def)
  then have "base_ok N m (snd (maybeUpdateMinRtt t (sampleRtt s) d))" using base_min_rtt [OF d assms(2)] by (simp add: maybeUpdateMinRtt_def Let_def)
  moreover have "event_sample t before s b = (if sampleRtt s \<noteq> infRTT then maybeUpdateMinRtt t (sampleRtt s) d else (False, d))"
    unfolding event_sample_def d_def c_def Let_def by (rule refl)
  ultimately show ?thesis using d by simp
qed

lemma gain_cycle_base: "base_ok N m (updateGainCyclePhase rnd rtt t prior l b) = base_ok N m b"
  unfolding updateGainCyclePhase_def Let_def by (simp only: base_simps)

lemma full_check_base:
  assumes "base_ok N m b"
  shows "base_ok N m (checkIfFullBandwidthReached rnd st b)"
proof -
  have "base_ok N m (b\<lparr>bandwidthAtLastRound := x, roundsWithoutBandwidthGain := y, sampler := ResetMaxAckHeightTracker 0 z (sampler b)\<rparr>)" for x y z
    using assms base_okD(1) [OF assms] by (intro base_sampler) simp_all
  then show ?thesis unfolding checkIfFullBandwidthReached_def Let_def using assms by simp
qed

lemma enter_base: "base_ok N m (enterStartupMode b) = base_ok N m b" "base_ok N m (enterProbeBandwidthMode r t b) = base_ok N m b"
  unfolding enterStartupMode_def enterProbeBandwidthMode_def Let_def by (simp_all only: base_simps)

lemma exit_startup_base: "base_ok N m (maybeExitStartupOrDrain rnd rtt r t b) = base_ok N m b"
  unfolding maybeExitStartupOrDrain_def Let_def by (simp only: base_simps enter_base)

lemma probe_rtt_base:
  assumes "base_ok N m b"
  shows "base_ok N m (maybeEnterOrExitProbeRtt pb r t rs ex b)"
proof -
  define c where "c = (if ex \<and> \<not> exitingQuiescence b \<and> bb_mode b \<noteq> bbrModeProbeRtt
    then b\<lparr>bb_mode := bbrModeProbeRtt, bb_pacingGain := 1, exitProbeRttAt := 0\<rparr> else b)"
  have c: "base_ok N m c" using assms by (simp add: c_def)
  then have "base_ok N m (c\<lparr>sampler := OnAppLimited (sampler c)\<rparr>)" using base_okD(1) [OF c] by (intro base_sampler) simp_all
  with c show ?thesis unfolding maybeEnterOrExitProbeRtt_def c_def [symmetric] Let_def by (simp only: base_simps enter_base simp_thms)
qed

lemma event_mode_base:
  assumes "base_ok N m b"
  shows "base_ok N m (event_mode rnd rtt pb r t prior l rs ex st n b)"
  unfolding event_mode_def Let_def using assms
  by (intro probe_rtt_base) (simp add: exit_startup_base full_check_base gain_cycle_base)

lemma pacing_rate_base: "calculatePacingRate rnd rtt l b = Some b' \<Longrightarrow> base_ok N m b' = base_ok N m b"
  unfolding calculatePacingRate_def Let_def by (auto split: if_split_asm bind_split_asm)

lemma window_base:
  assumes "base_ok N m b" and "4 \<le> N"
  shows "base_ok N m (calculateCongestionWindow rnd rtt a e b)"
proof -
  have upd: "base_ok N m (b\<lparr>congestionWindow := min (max w (minCongestionWindow b)) (maxCongestionWindow b)\<rparr>)" for w
  proof -
    have "4 * m \<le> N * m" using assms by (intro mult_right_mono) (simp_all add: base_ok_def)
    then show ?thesis using assms(1) by (simp add: base_ok_def)
  qed
  show ?thesis unfolding calculateCongestionWindow_def Let_def by (simp only: base_simps upd assms(1))
qed

lemma recovery_window_base: "base_ok N m (calculateRecoveryWindow a l b) = base_ok N m b"
  unfolding calculateRecoveryWindow_def Let_def by (simp only: base_simps)

lemma recovery_window_ok:
  "InRecovery (calculateRecoveryWindow a l b) \<Longrightarrow> minCongestionWindow (calculateRecoveryWindow a l b) \<le> recoveryWindow (calculateRecoveryWindow a l b)"
  by (cases "recoveryState b = bbrRecoveryStateNotInRecovery"; cases "recoveryWindow b = 0") (simp_all add: calculateRecoveryWindow_def InRecovery_def Let_def)

lemma pacing_rate_Some:
  assumes "rtt_ok rtt"
  shows "\<exists>b'. calculatePacingRate rnd rtt l b = Some b'"
proof -
  obtain r1 where "BandwidthFromDelta (initialCongestionWindow b) rtt = Some r1" using BandwidthFromDelta_rtt [OF assms] by blast
  moreover obtain r2 where "BandwidthFromDelta (cwndToCalculateMinPacingRate b) rtt = Some r2" using BandwidthFromDelta_rtt [OF assms] by blast
  ultimately show ?thesis unfolding calculatePacingRate_def Let_def by (simp add: bind_eq_Some_conv)
qed

lemma obsolete_ok: "sampler_ok b \<Longrightarrow> \<exists>b'. RemoveObsoletePackets n b = Some b' \<and> sampler_ok b'"
  using sampler_do_ok [of b "Obsolete n"] by (simp add: sampler_do_def call_fits_def)

lemma event_end_ok:
  assumes b: "base_ok N m b" and rtt: "rtt_ok rtt" and N: "4 \<le> N" and ne: "acked \<noteq> [] \<or> lost \<noteq> []"
  shows "\<exists>b'. event_end rnd rtt acked lost rs a l e b = Some b' \<and> bbr_ok N m b'"
proof -
  obtain c where c: "calculatePacingRate rnd rtt l b = Some c" using pacing_rate_Some [OF rtt] by blast
  define d where "d = calculateRecoveryWindow a l (calculateCongestionWindow rnd rtt a e c)"
  have d: "base_ok N m d" using pacing_rate_base [OF c] window_base [OF _ N] b by (simp add: d_def recovery_window_base)
  have d': "InRecovery d \<Longrightarrow> minCongestionWindow d \<le> recoveryWindow d" unfolding d_def by (rule recovery_window_ok)
  obtain n where n: "(if acked \<noteq> [] then Some (fst (last acked) - 2) else if lost \<noteq> [] then Some (fst (last lost) + 1) else None) = Some n"
    using ne by (cases "acked = []") auto
  obtain s where s: "RemoveObsoletePackets n (sampler d) = Some s" "sampler_ok s" using obsolete_ok [OF base_okD(1) [OF d]] by blast
  define f where "f = (if rs then d\<lparr>sampler := s, numLossEventsInRound := 0, bytesLostInRound := 0\<rparr> else d\<lparr>sampler := s\<rparr>)"
  have "event_end rnd rtt acked lost rs a l e b = Some f"
    unfolding event_end_def c Let_def bind.bind_lunit n d_def [symmetric] s(1) f_def by (rule refl)
  moreover have "bbr_ok N m f" using base_sampler [OF d s(2)] d' by (simp add: bbr_ok_def f_def InRecovery_def)
  ultimately show ?thesis by blast
qed

lemma event_ok:
  assumes b: "base_ok N m b" and t: "clock_time t" and rtt: "rtt_ok rtt" and N: "4 \<le> N" and ne: "acked \<noteq> [] \<or> lost \<noteq> []"
  shows "\<exists>b'. bbr_OnCongestionEventEx rnd rtt pb r prior t acked lost b = Some b' \<and> bbr_ok N m b'"
proof -
  obtain rs c where c: "event_begin rnd rtt prior acked lost b = (rs, c)" by (cases "event_begin rnd rtt prior acked lost b")
  have cb: "base_ok N m c" using event_begin_base [OF b, of rnd rtt prior acked lost] by (simp add: c)
  obtain es smp where s: "OnCongestionEvent (threshold_product rnd) t (map fst acked) lost (GetBest (maxBandwidth c)) infBandwidth (roundTripCount c)
      (sampler c) = Some (es, smp)" "sampler_ok smp" using OnCongestionEvent_ok [OF base_okD(1) [OF cb] t] by blast
  have es: "rtt_ok (sampleRtt es)" using OnCongestionEvent_rtt [OF s(1) t base_okD(1) [OF cb]] .
  obtain ex d where d: "event_sample t (totalBytesAcked (sampler b)) es (c\<lparr>sampler := smp\<rparr>) = (ex, d)"
    by (cases "event_sample t (totalBytesAcked (sampler b)) es (c\<lparr>sampler := smp\<rparr>)")
  have "base_ok N m d" using event_sample_base [OF base_sampler [OF cb s(2)] es, of t "totalBytesAcked (sampler b)"] by (simp add: d)
  note event_end_ok [OF event_mode_base [OF this] rtt N ne]
  then show ?thesis unfolding bbr_OnCongestionEventEx_def c Let_def prod.case s(1) bind.bind_lunit d by blast
qed

text \<open>A window of whole packets scales to as many of the new size.\<close>

lemma scale_exact:
  assumes "0 < old" "old \<le> 65536" "0 \<le> new" "new \<le> 65536" "0 \<le> k" "k \<le> 2 ^ 30"
  shows "scaleByteWindowForDatagramSize (k * old) old new = Some (k * new)"
proof -
  have ko: "0 \<le> k * old" "k * old \<le> 2 ^ 30 * 65536" using assms by (simp, intro mult_mono) simp_all
  have kon: "0 \<le> k * old * new" "k * old * new \<le> 2 ^ 30 * 65536 * 65536" using ko assms by (simp, intro mult_mono) simp_all
  have kn: "0 \<le> k * new" "k * new \<le> 2 ^ 30 * 65536" using assms by (simp, intro mult_mono) simp_all
  have u: "uint (word_of_int x :: u64) = x" if "0 \<le> x" "x < 2 ^ 64" for x using that by (simp add: uint_word_of_int)
  have "uint (word_of_int (k * old) * word_of_int new :: u64) = k * old * new" unfolding wi_hom_mult using kon by (intro u) simp_all
  moreover have "uint (word_of_int old :: u64) = old" using assms by (intro u) simp_all
  moreover have "k * old * new div old = k * new" using assms by (simp add: mult.commute mult.left_commute)
  ultimately have "(word_of_int (k * old) * word_of_int new div word_of_int old :: u64) = word_of_int (k * new)" by (simp only: word_div_def)
  moreover have "sint (word_of_int (k * new) :: u64) = k * new"
    unfolding sint_sbintrunc' using kn by (intro signed_take_bit_int_eq_self) simp_all
  moreover have "(word_of_int old :: u64) \<noteq> 0" using \<open>uint (word_of_int old :: u64) = old\<close> assms(1) by (metis less_irrefl unsigned_0)
  ultimately show ?thesis by (simp add: scaleByteWindowForDatagramSize_def)
qed

lemma size_ok:
  assumes b: "base_ok N m b" and s: "m \<le> s" "s \<le> 65536" and N: "32 \<le> N" "N \<le> 2 ^ 30"
  shows "\<exists>b'. bbr_SetMaxDatagramSize s b = Some b' \<and> bbr_ok N s b'"
proof -
  let ?m = "bb_maxDatagramSize b"
  have s: "?m \<le> s" "s \<le> 65536" using b s by (simp_all add: base_ok_def)
  have m: "0 < ?m" "?m \<le> 65536" "initialCongestionWindow b = 32 * ?m" "maxCongestionWindow b = N * ?m" "cwndToCalculateMinPacingRate b = 32 * ?m"
    using b by (simp_all add: base_ok_def)
  have "0 \<le> s" using m s by simp
  note sc = scale_exact [OF m(1,2) this s(2)]
  define c where "c = b\<lparr>bb_maxDatagramSize := s, initialCongestionWindow := 32 * s, maxCongestionWindow := N * s,
            minCongestionWindow := 4 * s, cwndToCalculateMinPacingRate := 32 * s\<rparr>"
  have c: "rescalePacketSizedWindows s b = Some c"
    using N sc [of 32] sc [of N] by (simp add: rescalePacketSizedWindows_def m minCongestionWindowForMaxDatagramSize_def minCongestionWindowPackets_def c_def)
  obtain b' where b': "bbr_SetMaxDatagramSize s b = Some b'" using c s by (simp add: bbr_SetMaxDatagramSize_def Let_def)
  have lt: "4 * s \<le> N * s" "32 * s \<le> N * s" using N m s by (simp_all add: mult_right_mono)
  from b' show ?thesis
  proof (rule sizeE)
    fix c' w
    assume "rescalePacketSizedWindows s b = Some c'"
      and w: "w = (if congestionWindow c' = minCongestionWindow b then minCongestionWindow c'
          else if congestionWindow c' = initialCongestionWindow b then initialCongestionWindow c'
          else min (maxCongestionWindow c') (max (congestionWindow c') (minCongestionWindow c')))"
      and e: "b' = c'\<lparr>congestionWindow := w, recoveryWindow := min (maxCongestionWindow c') (max (recoveryWindow c') (minCongestionWindow c')),
            bb_pacer := p_SetMaxDatagramSize s (bb_pacer c')\<rparr>"
    then have c': "c' = c" using c by simp
    have "4 * s \<le> w" "w \<le> N * s" using lt m s by (simp_all add: w c' c_def)
    then have "bbr_ok N s b'" using b s m lt unfolding bbr_ok_def base_ok_def e c' by (simp add: c_def)
    then show ?thesis using b' by blast
  qed
qed


section \<open>Runs\<close>

text \<open>The calls of the QUIC library that change the sender, with the readings of the round trip statistics and the random numbers they meet.\<close>

datatype bbr_call =
    BbrSent duration instant ByteCount PacketNumber ByteCount bool
  | BbrEvent duration nat ByteCount instant "(PacketNumber \<times> ByteCount) list" "(PacketNumber \<times> ByteCount) list"
  | BbrSize ByteCount

definition bbr_do :: "(real \<Rightarrow> real) \<Rightarrow> duration \<Rightarrow> int \<Rightarrow> bbr_call \<Rightarrow> bbrSender \<Rightarrow> bbrSender option" where
  "bbr_do rnd minDelay pb c b =
     (case c of
        BbrSent rtt t inflight pn n retr \<Rightarrow> bbr_OnPacketSent rnd minDelay rtt t inflight pn n retr b
      | BbrEvent rtt r prior t acked lost \<Rightarrow> bbr_OnCongestionEventEx rnd rtt pb r prior t acked lost b
      | BbrSize s \<Rightarrow> bbr_SetMaxDatagramSize s b)"

fun bbr_run :: "(real \<Rightarrow> real) \<Rightarrow> duration \<Rightarrow> int \<Rightarrow> bbr_call list \<Rightarrow> bbrSender \<Rightarrow> bbrSender option" where
  "bbr_run rnd minDelay pb [] b = Some b"
| "bbr_run rnd minDelay pb (c # cs) b = (case bbr_do rnd minDelay pb c b of None \<Rightarrow> None | Some b \<Rightarrow> bbr_run rnd minDelay pb cs b)"

text \<open>
  What the library promises: readings of its clock, packet numbers from -1 on, round trip times that are not negative, and known once an
  acknowledgement or a loss is reported; events are about at least one packet, and the datagram size does not shrink.
\<close>

fun calls_fit :: "ByteCount \<Rightarrow> bbr_call list \<Rightarrow> bool" where
  "calls_fit m [] \<longleftrightarrow> True"
| "calls_fit m (BbrSent rtt t inflight pn n retr # cs) \<longleftrightarrow> 0 \<le> rtt \<and> rtt < 2 ^ 63 \<and> clock_time t \<and> - 1 \<le> pn \<and> calls_fit m cs"
| "calls_fit m (BbrEvent rtt r prior t acked lost # cs) \<longleftrightarrow>
     0 < rtt \<and> rtt < 2 ^ 63 \<and> clock_time t \<and> (acked \<noteq> [] \<or> lost \<noteq> []) \<and> calls_fit m cs"
| "calls_fit m (BbrSize s # cs) \<longleftrightarrow> m \<le> s \<and> s \<le> 65536 \<and> calls_fit s cs"

lemma getMinRtt_ok: "base_ok N m b \<Longrightarrow> 0 \<le> rtt \<Longrightarrow> rtt < 2 ^ 63 \<Longrightarrow> rtt_ok (getMinRtt rtt b)"
  using base_okD(2) [of N m b] by (auto simp: getMinRtt_def rtt_ok_def)

lemma bandwidthForPacer_ok:
  assumes "base_ok N m b" and "0 \<le> rtt" and "rtt < 2 ^ 63"
  shows "\<exists>bw. bandwidthForPacer rnd rtt b = Some bw \<and> 65536 \<le> bw \<and> bw < 2 ^ 63"
proof -
  obtain r where "PacingRate rnd rtt b = Some r"
    using BandwidthFromDelta_rtt [OF getMinRtt_ok [OF assms], of "initialCongestionWindow b"] by (cases "pacingRate b = 0") (auto simp: PacingRate_def)
  moreover have "ByteCount_of x < 2 ^ 63" for x by (simp add: ByteCount_of_def Let_def)
  ultimately show ?thesis by (auto simp: bandwidthForPacer_def Let_def minBps_def)
qed

lemma TimeUntilSend_ok:
  assumes "base_ok N m b" and "0 \<le> rtt" and "rtt < 2 ^ 63"
  shows "\<exists>t. bbr_TimeUntilSend rnd minDelay rtt b = Some t"
proof -
  obtain bw where bw: "bandwidthForPacer rnd rtt b = Some bw" "65536 \<le> bw" "bw < 2 ^ 63" using bandwidthForPacer_ok [OF assms] by blast
  then have "uint (word_of_int bw :: u64) = bw" by (simp add: uint_word_of_int)
  then have "(word_of_int bw :: u64) \<noteq> 0" using bw(2) by (metis not_numeral_le_zero unsigned_0)
  then show ?thesis by (simp add: bbr_TimeUntilSend_def bw(1) TimeUntilSend_def Let_def)
qed

lemma sent_ok:
  assumes "bbr_ok N m b" and "0 \<le> rtt" "rtt < 2 ^ 63" and "clock_time t" and "- 1 \<le> pn"
  shows "\<exists>b'. bbr_OnPacketSent rnd d rtt t inflight pn n retr b = Some b' \<and> bbr_ok N m b'"
proof -
  have b: "base_ok N m b" using assms(1) by (simp add: bbr_ok_def)
  obtain bw where bw: "bandwidthForPacer rnd rtt b = Some bw" using bandwidthForPacer_ok [OF b assms(2,3)] by blast
  define c where "c = (let b = b\<lparr>bb_pacer := SentPacket d bw t n (bb_pacer b), bb_lastSentPacket := pn, bb_bytesInFlight := inflight\<rparr>
    in if inflight = 0 then b\<lparr>exitingQuiescence := True\<rparr> else b)"
  have c: "base_ok N m c" "InRecovery c = InRecovery b" "minCongestionWindow c = minCongestionWindow b" "recoveryWindow c = recoveryWindow b" using b by (simp_all add: c_def Let_def InRecovery_def)
  have "bbr_OnPacketSent rnd d rtt t inflight pn n retr b = Some (c\<lparr>sampler := OnPacketSent t pn n inflight retr (sampler c)\<rparr>)"
    by (simp add: bbr_OnPacketSent_def bw c_def Let_def)
  moreover have "base_ok N m (c\<lparr>sampler := OnPacketSent t pn n inflight retr (sampler c)\<rparr>)"
    using c(1) OnPacketSent_ok [OF base_okD(1) [OF c(1)] assms(4)] assms(5) by (intro base_sampler) simp_all
  ultimately show ?thesis using assms(1) c by (simp add: bbr_ok_def InRecovery_def)
qed

lemma bbr_run_ok:
  assumes "bbr_ok N m b" and "calls_fit m cs" and "32 \<le> N" "N \<le> 2 ^ 30"
  shows "\<exists>b' m'. bbr_run rnd d pb cs b = Some b' \<and> bbr_ok N m' b'"
  using assms(1,2)
proof (induction cs arbitrary: b m)
  case (Cons c cs)
  have base: "base_ok N m b" using Cons.prems(1) by (simp add: bbr_ok_def)
  have "\<exists>b' m'. bbr_do rnd d pb c b = Some b' \<and> bbr_ok N m' b' \<and> calls_fit m' cs"
  proof (cases c)
    case (BbrSent rtt t inflight pn n retr)
    then show ?thesis using sent_ok [OF Cons.prems(1), of rtt t pn rnd d inflight n retr] Cons.prems(2) by (auto simp: bbr_do_def)
  next
    case (BbrEvent rtt r prior t acked lost)
    then show ?thesis using event_ok [OF base, of t rtt acked lost rnd pb r prior] Cons.prems(2) assms(3) by (auto simp: bbr_do_def rtt_ok_def)
  next
    case (BbrSize s)
    then show ?thesis using size_ok [OF base, of s] Cons.prems(2) assms(3,4) by (auto simp: bbr_do_def)
  qed
  then obtain b1 m1 where "bbr_do rnd d pb c b = Some b1" "bbr_ok N m1 b1" "calls_fit m1 cs" by blast
  then show ?case using Cons.IH by simp
qed auto

lemma new_bbr_ok:
  assumes "0 < s" "s \<le> 65536" and "32 \<le> N"
  shows "bbr_ok N s (NewBbrSender rnd ps N s p)"
proof -
  have N: "4 * s \<le> 32 * s" "32 * s \<le> N * s" using assms by (simp_all add: mult_right_mono)
  have "sampler_ok (newBandwidthSampler bandwidthWindowSize)" by (rule new_sampler_ok)
  then show ?thesis using assms N
    by (simp add: NewBbrSender_def newBbrSender_def enterStartupMode_def applyProfile_def Let_def bbr_ok_def base_ok_def InRecovery_def
        initialCongestionWindowPackets_def minCongestionWindowForMaxDatagramSize_def minCongestionWindowPackets_def)
qed

lemma new_mode_ok: "mode_ok (NewBbrSender rnd ps N s p)"
  by (simp add: NewBbrSender_def newBbrSender_def enterStartupMode_def applyProfile_def Let_def mode_ok_def)

text \<open>One event: the mode keeps its meaning, and the full bandwidth, once found, stays found.\<close>

lemma event_mode_ok:
  assumes "mode_ok b"
  shows "mode_ok (event_mode rnd rtt pb r t prior l rs ex st n b)"
    "isAtFullBandwidth b \<Longrightarrow> isAtFullBandwidth (event_mode rnd rtt pb r t prior l rs ex st n b)"
proof -
  define c where "c = (if l then b\<lparr>numLossEventsInRound := numLossEventsInRound b + 1, bytesLostInRound := bytesLostInRound b + n\<rparr> else b)"
  define d where "d = (if bb_mode c = bbrModeProbeBw then updateGainCyclePhase rnd rtt t prior l c else c)"
  define e where "e = (if rs \<and> \<not> isAtFullBandwidth d then checkIfFullBandwidthReached rnd st d else d)"
  have "same_mode b c" by (simp add: c_def)
  then have c: "mode_ok c" "isAtFullBandwidth c = isAtFullBandwidth b" using mode_ok_same assms by blast+
  have d: "mode_ok d" "isAtFullBandwidth d = isAtFullBandwidth c" using gain_cycle_ok c(1) by (simp_all add: d_def gain_cycle_frame)
  have e: "mode_mid e" "isAtFullBandwidth d \<Longrightarrow> isAtFullBandwidth e" using full_check_mid [OF d(1)] d(1) by (simp_all add: e_def mode_mid_def)
  have eq: "event_mode rnd rtt pb r t prior l rs ex st n b = maybeEnterOrExitProbeRtt pb r t rs ex (maybeExitStartupOrDrain rnd rtt r t e)"
    unfolding event_mode_def Let_def e_def d_def c_def by (rule refl)
  show "mode_ok (event_mode rnd rtt pb r t prior l rs ex st n b)" unfolding eq by (intro probe_rtt_ok exit_startup_ok e(1))
  show "isAtFullBandwidth (event_mode rnd rtt pb r t prior l rs ex st n b)" if "isAtFullBandwidth b"
    unfolding eq using that c d e by (simp add: probe_rtt_ok(2) exit_startup_ok(1,2))
qed

lemma eventE:
  assumes "bbr_OnCongestionEventEx rnd rtt pb r prior t acked lost b = Some b'"
  obtains rs c es smp ex d st n a l e where "event_begin rnd rtt prior acked lost b = (rs, c)"
    "event_sample t (totalBytesAcked (sampler b)) es (c\<lparr>sampler := smp\<rparr>) = (ex, d)"
    "event_end rnd rtt acked lost rs a l e (event_mode rnd rtt pb r t prior (lost \<noteq> []) rs ex st n d) = Some b'"
proof -
  obtain rs c where c: "event_begin rnd rtt prior acked lost b = (rs, c)" by (cases "event_begin rnd rtt prior acked lost b")
  obtain es smp where s: "OnCongestionEvent (threshold_product rnd) t (map fst acked) lost (GetBest (maxBandwidth c)) infBandwidth (roundTripCount c)
      (sampler c) = Some (es, smp)" using assms unfolding bbr_OnCongestionEventEx_def c Let_def prod.case by (auto simp: bind_eq_Some_conv)
  obtain ex d where d: "event_sample t (totalBytesAcked (sampler b)) es (c\<lparr>sampler := smp\<rparr>) = (ex, d)"
    by (cases "event_sample t (totalBytesAcked (sampler b)) es (c\<lparr>sampler := smp\<rparr>)")
  show ?thesis using assms that [OF c d] unfolding bbr_OnCongestionEventEx_def c Let_def prod.case s bind.bind_lunit d by blast
qed

text \<open>What the parts of an event before the transitions leave alone.\<close>

lemma event_before_mode:
  assumes "event_begin rnd rtt prior acked lost b = (rs, c)" and "event_sample t n es (c\<lparr>sampler := smp\<rparr>) = (ex, d)"
  shows "same_mode b d"
proof -
  have "same_mode b c" using event_begin_mode [of b rnd rtt prior acked lost] assms(1) by simp
  moreover have "same_mode (c\<lparr>sampler := smp\<rparr>) d" using event_sample_mode [of "c\<lparr>sampler := smp\<rparr>" t n es] assms(2) by simp
  ultimately show ?thesis by (rule_tac same_mode_trans) (simp_all add: same_mode_def)
qed

lemma event_modes:
  assumes "bbr_OnCongestionEventEx rnd rtt pb r prior t acked lost b = Some b'" and "mode_ok b"
  shows "mode_ok b' \<and> (isAtFullBandwidth b \<longrightarrow> isAtFullBandwidth b')"
  using assms(1)
proof (rule eventE)
  fix rs c es smp ex d st n a l e
  assume "event_begin rnd rtt prior acked lost b = (rs, c)"
    and "event_sample t (totalBytesAcked (sampler b)) es (c\<lparr>sampler := smp\<rparr>) = (ex, d)"
    and e: "event_end rnd rtt acked lost rs a l e (event_mode rnd rtt pb r t prior (lost \<noteq> []) rs ex st n d) = Some b'"
  then have "same_mode b d" by (intro event_before_mode)
  then have "mode_ok d" "isAtFullBandwidth d = isAtFullBandwidth b" using assms(2) mode_ok_same by blast+
  then show ?thesis
    using event_mode_ok [of d rnd rtt pb r t prior "lost \<noteq> []" rs ex st n] mode_ok_same [OF event_end_mode [OF e]] by simp
qed

lemma bbr_do_modes:
  assumes "bbr_do rnd d pb c b = Some b'" and "mode_ok b"
  shows "mode_ok b' \<and> (isAtFullBandwidth b \<longrightarrow> isAtFullBandwidth b')"
  using assms(1)
proof (cases c)
  case (BbrEvent rtt r prior t acked lost)
  then show ?thesis using assms(1) event_modes [OF _ assms(2)] by (simp add: bbr_do_def)
next
  case (BbrSent rtt t inflight pn n retr)
  then have "same_mode b b'" using assms(1) sent_mode by (simp add: bbr_do_def)
  then show ?thesis using mode_ok_same assms(2) by blast
next
  case (BbrSize s)
  then have "same_mode b b'" using assms(1) size_mode by (simp add: bbr_do_def)
  then show ?thesis using mode_ok_same assms(2) by blast
qed

lemma bbr_run_modes:
  "bbr_run rnd d pb cs b = Some b' \<Longrightarrow> mode_ok b \<Longrightarrow> mode_ok b' \<and> (isAtFullBandwidth b \<longrightarrow> isAtFullBandwidth b')"
proof (induction cs arbitrary: b)
  case (Cons c cs)
  then obtain b1 where b1: "bbr_do rnd d pb c b = Some b1" "bbr_run rnd d pb cs b1 = Some b'" by (auto split: option.splits)
  show ?case using Cons.IH [OF b1(2)] bbr_do_modes [OF b1(1) Cons.prems(2)] by blast
qed simp

text \<open>The bytes in flight and the smallest window, as the transitions see them.\<close>

lemma event_before_flight:
  assumes "event_begin rnd rtt prior acked lost b = (rs, c)" and "event_sample t n es (c\<lparr>sampler := smp\<rparr>) = (ex, d)"
  shows "bb_bytesInFlight d = prior - sum_list (map snd acked) - sum_list (map snd lost)"
    "acked \<noteq> [] \<Longrightarrow> rs = (currentRoundTripEnd b = invalidPacketNumber \<or> fst (last acked) > currentRoundTripEnd b)"
    "minCongestionWindow d = minCongestionWindow b"
proof -
  have fe: "bb_bytesInFlight (snd (event_sample t n es x)) = bb_bytesInFlight x"
    "minCongestionWindow (snd (event_sample t n es x)) = minCongestionWindow x" for x
    by (simp_all add: event_sample_def maybeUpdateMinRtt_def Let_def)
  have fr: "bb_bytesInFlight (updateRecoveryState k hl rs' x) = bb_bytesInFlight x"
    "minCongestionWindow (updateRecoveryState k hl rs' x) = minCongestionWindow x" for k hl rs' x
    by (cases "recoveryState x"; simp add: updateRecoveryState_def Let_def)+
  have "minCongestionWindow (maybeAppLimited rnd rtt prior b) = minCongestionWindow b" by (simp add: maybeAppLimited_def)
  then have "minCongestionWindow c = minCongestionWindow b"
    using assms(1) by (auto simp: event_begin_def updateRoundTripCounter_def fr Let_def split: if_split_asm)
  then show "minCongestionWindow d = minCongestionWindow b" using fe(2) [of "c\<lparr>sampler := smp\<rparr>"] assms(2) by simp
  have fa: "currentRoundTripEnd (maybeAppLimited rnd rtt prior b) = currentRoundTripEnd b" by (simp add: maybeAppLimited_def)
  have "bb_bytesInFlight c = prior - sum_list (map snd acked) - sum_list (map snd lost)"
    using assms(1) by (auto simp: event_begin_def updateRoundTripCounter_def fr Let_def split: if_split_asm)
  then show "bb_bytesInFlight d = prior - sum_list (map snd acked) - sum_list (map snd lost)"
    using fe(1) [of "c\<lparr>sampler := smp\<rparr>"] assms(2) by simp
  show "rs = (currentRoundTripEnd b = invalidPacketNumber \<or> fst (last acked) > currentRoundTripEnd b)" if "acked \<noteq> []"
    using assms(1) that by (auto simp: event_begin_def updateRoundTripCounter_def fa Let_def split: if_split_asm)
qed

lemma full_check_frame:
  "exitProbeRttAt (checkIfFullBandwidthReached rnd st b) = exitProbeRttAt b" "bb_bytesInFlight (checkIfFullBandwidthReached rnd st b) = bb_bytesInFlight b"
  "bb_mode (checkIfFullBandwidthReached rnd st b) = bb_mode b" "minCongestionWindow (checkIfFullBandwidthReached rnd st b) = minCongestionWindow b"
  by (simp_all add: checkIfFullBandwidthReached_def Let_def)

text \<open>The transitions of an event in \<open>PROBE_RTT\<close>.\<close>

lemma event_mode_probe_rtt:
  assumes "bb_mode b = bbrModeProbeRtt" and "b' = event_mode rnd rtt pb r t prior l rs ex st n b"
  shows "exitProbeRttAt b = 0 \<Longrightarrow> bb_bytesInFlight b < minCongestionWindow b + pb \<Longrightarrow> bb_mode b' = bbrModeProbeRtt \<and> exitProbeRttAt b' = t + probeRttTime"
    "exitProbeRttAt b \<noteq> 0 \<Longrightarrow> exitProbeRttAt b \<le> t \<Longrightarrow> rs \<Longrightarrow> bb_mode b' = (if isAtFullBandwidth b' then bbrModeProbeBw else bbrModeStartup)"
proof -
  define c where "c = (if l then b\<lparr>numLossEventsInRound := numLossEventsInRound b + 1, bytesLostInRound := bytesLostInRound b + n\<rparr> else b)"
  define d where "d = (if bb_mode c = bbrModeProbeBw then updateGainCyclePhase rnd rtt t prior l c else c)"
  define e where "e = (if rs \<and> \<not> isAtFullBandwidth d then checkIfFullBandwidthReached rnd st d else d)"
  have c: "bb_mode c = bbrModeProbeRtt" "exitProbeRttAt c = exitProbeRttAt b" "bb_bytesInFlight c = bb_bytesInFlight b"
    "minCongestionWindow c = minCongestionWindow b" using assms(1) by (simp_all add: c_def)
  have e: "bb_mode e = bbrModeProbeRtt" "exitProbeRttAt e = exitProbeRttAt b" "bb_bytesInFlight e = bb_bytesInFlight b"
    "minCongestionWindow e = minCongestionWindow b" using c by (simp_all add: e_def d_def full_check_frame)
  have "maybeExitStartupOrDrain rnd rtt r t e = e" using e(1) by (simp add: maybeExitStartupOrDrain_def Let_def)
  moreover have "b' = maybeEnterOrExitProbeRtt pb r t rs ex (maybeExitStartupOrDrain rnd rtt r t e)"
    unfolding assms(2) event_mode_def Let_def e_def d_def c_def by (rule refl)
  ultimately have b': "b' = maybeEnterOrExitProbeRtt pb r t rs ex e" by simp
  show "bb_mode b' = bbrModeProbeRtt \<and> exitProbeRttAt b' = t + probeRttTime"
    if "exitProbeRttAt b = 0" "bb_bytesInFlight b < minCongestionWindow b + pb"
    unfolding b' maybeEnterOrExitProbeRtt_def Let_def probeRttCongestionWindow_def using that e by simp
  show "bb_mode b' = (if isAtFullBandwidth b' then bbrModeProbeBw else bbrModeStartup)" if "exitProbeRttAt b \<noteq> 0" "exitProbeRttAt b \<le> t" rs
    unfolding b' maybeEnterOrExitProbeRtt_def Let_def using that e by (simp add: enterStartupMode_def enterProbeBandwidthMode_def Let_def)
qed


section \<open>Properties\<close>



text \<open>
  The modes: in every state reached by calls of the library the gains are those of the mode - the high gain in \<open>STARTUP\<close>, its inverse in
  \<open>DRAIN\<close>, a position of the gain cycle in \<open>PROBE_BW\<close> and one in \<open>PROBE_RTT\<close> - and once the full bandwidth has been found
  the connection never returns to \<open>STARTUP\<close>.
\<close>

theorem bbr_modes:
  assumes "mode_ok b" and "bbr_run rnd d pb cs b = Some b'"
  shows "mode_ok (NewBbrSender rnd ps N s p) \<and> mode_ok b' \<and> (isAtFullBandwidth b \<longrightarrow> isAtFullBandwidth b' \<and> \<not> InSlowStart b')"
  using new_mode_ok bbr_run_modes [OF assms(2,1)] by (auto simp: InSlowStart_def mode_ok_def)

definition drained :: bbrSender where
  "drained = (let b = NewBbrSender f64 1280 10000 1200 [] in b\<lparr>isAtFullBandwidth := True, bb_mode := bbrModeDrain, bb_pacingGain := drainGain b\<rparr>)"

theorem bbr_modes_witness:
  "\<exists>b. bbr_run f64 1000000 1452 [BbrSize 1300, BbrEvent 5000 3 1200 9000 [(0, 1200)] []] drained = Some b \<and> \<not> InSlowStart b"
proof -
  let ?cs = "[BbrSize 1300, BbrEvent 5000 3 1200 9000 [(0, 1200)] []]"
  have new: "bbr_ok 10000 1200 (NewBbrSender f64 1280 10000 1200 [])" by (rule new_bbr_ok) simp_all
  have mode: "mode_ok drained" "isAtFullBandwidth drained"
    by (simp_all add: drained_def mode_ok_def Let_def NewBbrSender_def newBbrSender_def enterStartupMode_def applyProfile_def)
  have "bbr_ok 10000 1200 drained" using new by (auto simp: drained_def bbr_ok_def base_ok_def InRecovery_def Let_def)
  moreover have "calls_fit 1200 ?cs" by (simp add: clock_time_def)
  ultimately obtain b where b: "bbr_run f64 1000000 1452 ?cs drained = Some b" using bbr_run_ok [of 10000 1200 drained ?cs f64 1000000 1452] by auto
  then show ?thesis using bbr_modes [OF mode(1) b] mode(2) by blast
qed

text \<open>
  \<open>PROBE_RTT\<close> ends: an event that leaves less than four datagrams and a packet in flight schedules the end for 200 ms later, and the
  first event after that time which starts a round leaves the mode, for \<open>PROBE_BW\<close> or, when the full bandwidth is not known, for \<open>STARTUP\<close>.
\<close>

theorem probe_rtt_ends:
  assumes "bbr_ok N m b" and "bb_mode b = bbrModeProbeRtt" and "32 \<le> N" and "clock_time t" and "0 < rtt" "rtt < 2 ^ 63" and "acked \<noteq> []"
  shows "\<exists>b'. bbr_OnCongestionEventEx rnd rtt pb r prior t acked lost b = Some b'
      \<and> (exitProbeRttAt b = 0 \<and> prior - sum_list (map snd acked) - sum_list (map snd lost) < 4 * m + pb
           \<longrightarrow> bb_mode b' = bbrModeProbeRtt \<and> exitProbeRttAt b' = t + 200 * Millisecond)
      \<and> (exitProbeRttAt b \<noteq> 0 \<and> exitProbeRttAt b \<le> t \<and> fst (last acked) > currentRoundTripEnd b
           \<longrightarrow> bb_mode b' = (if isAtFullBandwidth b' then bbrModeProbeBw else bbrModeStartup))"
proof -
  have base: "base_ok N m b" using assms(1) by (simp add: bbr_ok_def)
  obtain b' where b': "bbr_OnCongestionEventEx rnd rtt pb r prior t acked lost b = Some b'"
    using event_ok [OF base assms(4), of rtt acked lost rnd pb r prior] assms by (auto simp: rtt_ok_def)
  then show ?thesis
  proof (rule eventE)
    fix rs c es smp ex d st n a l e
    assume c: "event_begin rnd rtt prior acked lost b = (rs, c)"
      and d: "event_sample t (totalBytesAcked (sampler b)) es (c\<lparr>sampler := smp\<rparr>) = (ex, d)"
      and e: "event_end rnd rtt acked lost rs a l e (event_mode rnd rtt pb r t prior (lost \<noteq> []) rs ex st n d) = Some b'"
    have "same_mode b d" using c d by (rule event_before_mode)
    then have mode: "bb_mode d = bbrModeProbeRtt" "exitProbeRttAt d = exitProbeRttAt b" using assms(2) by (simp_all add: same_mode_def)
    define f where "f = event_mode rnd rtt pb r t prior (lost \<noteq> []) rs ex st n d"
    have "same_mode f b'" unfolding f_def by (rule event_end_mode [OF e])
    then have f: "bb_mode b' = bb_mode f" "exitProbeRttAt b' = exitProbeRttAt f" "isAtFullBandwidth b' = isAtFullBandwidth f" by (simp_all add: same_mode_def)
    have "minCongestionWindow d = 4 * m" using event_before_flight(3) [OF c d] base by (simp add: base_ok_def)
    then show ?thesis
      using b' event_mode_probe_rtt [OF mode(1) f_def] event_before_flight(1,2) [OF c d] mode(2) assms(7) by (auto simp: f probeRttTime_def)
  qed
qed

definition probing :: bbrSender where
  "probing = (NewBbrSender f64 1280 10000 1200 [])\<lparr>bb_mode := bbrModeProbeRtt, bb_pacingGain := 1, exitProbeRttAt := 5000\<rparr>"

theorem probe_rtt_ends_witness:
  "\<exists>b. bbr_OnCongestionEventEx f64 5000 1452 3 1200 9000 [(0, 1200)] [] probing = Some b \<and> bb_mode b \<noteq> bbrModeProbeRtt"
proof -
  have "bbr_ok 10000 1200 (NewBbrSender f64 1280 10000 1200 [])" by (rule new_bbr_ok) simp_all
  then have ok: "bbr_ok 10000 1200 probing" by (auto simp: probing_def bbr_ok_def base_ok_def InRecovery_def)
  have "bb_mode probing = bbrModeProbeRtt" "exitProbeRttAt probing = 5000" "currentRoundTripEnd probing = - 1"
    by (simp_all add: probing_def NewBbrSender_def newBbrSender_def enterStartupMode_def applyProfile_def invalidPacketNumber_def Let_def)
  then show ?thesis
    using probe_rtt_ends [OF ok, of 9000 5000 "[(0, 1200)]" f64 1452 3 1200 "[]"] by (auto simp: clock_time_def split: if_split_asm)
qed

end
