(* ===== verification/Padding.thy ===== *)
theory Padding
  imports Prelude
begin

text \<open>
  The length distributions of the protocol's padding fields
  (\<open>core/internal/protocol/padding.go\<close>). Random numbers are arguments: \<open>r\<close> is what
  \<open>randUint32\<close> returned and \<open>rnd i\<close> the \<open>i\<close>-th byte \<open>rand.Read\<close> stored. HMAC-SHA256 is a
  parameter \<open>hmac key message\<close>; what the code relies on is that it returns 32 bytes.
  A panic (a negative length given to \<open>make\<close>, a remainder by zero) is \<open>None\<close>.
\<close>

definition paddingChars :: string where
  "paddingChars = ''abcdefghijklmnopqrstuvwxyzABCDEFGHIJKLMNOPQRSTUVWXYZ0123456789''"

definition MaxPaddingLength :: nat where "MaxPaddingLength = 4096"

record padding =
  pMin :: int
  pMax :: int

definition generate :: "padding \<Rightarrow> u32 \<Rightarrow> (nat \<Rightarrow> u8) \<Rightarrow> string option" where
  "generate p r rnd =
     (let span = pMax p - pMin p;
          n = (if span > 0
               then if (word_of_int span :: u32) = 0 then None
                    else Some (pMin p + uint (r mod word_of_int span))
               else Some (pMin p))
      in case n of None \<Rightarrow> None
         | Some n \<Rightarrow>
             if n < 0 then None
             else Some (map (\<lambda>i. paddingChars ! (unat (rnd i) mod length paddingChars)) [0..<nat n]))"

record PaddingScheme =
  AuthRequestP :: padding
  AuthResponseP :: padding
  TCPRequestP :: padding
  TCPResponseP :: padding

definition defaultPaddingScheme :: PaddingScheme where
  "defaultPaddingScheme =
     \<lparr>AuthRequestP = \<lparr>pMin = 256, pMax = 2048\<rparr>,
      AuthResponseP = \<lparr>pMin = 256, pMax = 2048\<rparr>,
      TCPRequestP = \<lparr>pMin = 64, pMax = 512\<rparr>,
      TCPResponseP = \<lparr>pMin = 128, pMax = 1024\<rparr>\<rparr>"

record paddingBounds =
  MinLo :: int
  MinHi :: int
  SpanLo :: int
  SpanHi :: int

definition authPaddingBounds :: paddingBounds where
  "authPaddingBounds = \<lparr>MinLo = 64, MinHi = 1024, SpanLo = 256, SpanHi = 1536\<rparr>"

definition tcpRequestPaddingBounds :: paddingBounds where
  "tcpRequestPaddingBounds = \<lparr>MinLo = 16, MinHi = 256, SpanLo = 64, SpanHi = 768\<rparr>"

definition tcpResponsePaddingBounds :: paddingBounds where
  "tcpResponsePaddingBounds = \<lparr>MinLo = 32, MinHi = 512, SpanLo = 128, SpanHi = 1024\<rparr>"

definition derivePadding ::
  "(bytes \<Rightarrow> bytes \<Rightarrow> bytes) \<Rightarrow> bytes \<Rightarrow> string \<Rightarrow> paddingBounds \<Rightarrow> padding" where
  "derivePadding hmac seed label b =
     (let sum = hmac seed (bytes_of label);
          lo = MinLo b + uint (Uint32 (take 4 sum) mod word_of_int (MinHi b - MinLo b));
          span = SpanLo b + uint (Uint32 (take 4 (drop 4 sum)) mod word_of_int (SpanHi b - SpanLo b))
      in \<lparr>pMin = lo, pMax = lo + span\<rparr>)"

definition NewPaddingScheme :: "(bytes \<Rightarrow> bytes \<Rightarrow> bytes) \<Rightarrow> bytes \<Rightarrow> PaddingScheme" where
  "NewPaddingScheme hmac seed =
     (if length seed = 0 then defaultPaddingScheme
      else \<lparr>AuthRequestP = derivePadding hmac seed ''auth-request'' authPaddingBounds,
            AuthResponseP = derivePadding hmac seed ''auth-response'' authPaddingBounds,
            TCPRequestP = derivePadding hmac seed ''tcp-request'' tcpRequestPaddingBounds,
            TCPResponseP = derivePadding hmac seed ''tcp-response'' tcpResponsePaddingBounds\<rparr>)"

definition orDefault :: "PaddingScheme option \<Rightarrow> PaddingScheme" where
  "orDefault ps = (case ps of None \<Rightarrow> defaultPaddingScheme | Some s \<Rightarrow> s)"


section \<open>A range that generates, and never too much\<close>

text \<open>
  \<open>padding_ok\<close> is what the protocol needs of a range: it is a non-empty range of non-negative
  lengths that stays below the reader's limit.
\<close>

definition padding_ok :: "padding \<Rightarrow> bool" where
  "padding_ok p \<longleftrightarrow> 0 \<le> pMin p \<and> pMin p < pMax p \<and> pMax p \<le> int MaxPaddingLength"

definition scheme_ok :: "PaddingScheme \<Rightarrow> bool" where
  "scheme_ok s \<longleftrightarrow> padding_ok (AuthRequestP s) \<and> padding_ok (AuthResponseP s)
     \<and> padding_ok (TCPRequestP s) \<and> padding_ok (TCPResponseP s)"

lemma uint_u32_of_int: "0 \<le> k \<Longrightarrow> k < 2 ^ 32 \<Longrightarrow> uint (word_of_int k :: u32) = k"
  by (simp add: uint_word_of_int)

lemma uint_mod_word_of_int:
  fixes x :: u32
  assumes "0 < k" and "k < 2 ^ 32"
  shows "uint (x mod word_of_int k) < k" "0 \<le> uint (x mod word_of_int k)"
proof -
  have "uint (word_of_int k :: u32) = k"
    using assms by (intro uint_u32_of_int) auto
  then show "uint (x mod word_of_int k) < k"
    using assms by (simp add: uint_mod)
qed simp

lemma generate_padding_ok:
  assumes "padding_ok p"
  obtains s where "generate p r rnd = Some s" and "pMin p \<le> int (length s)" and "int (length s) < pMax p"
    and "set s \<subseteq> set paddingChars"
proof -
  define k where "k = pMax p - pMin p"
  have k: "0 < k" "k < 2 ^ 32"
    using assms by (auto simp: padding_ok_def k_def MaxPaddingLength_def)
  define n where "n = pMin p + uint (r mod word_of_int k)"
  have nz: "(word_of_int k :: u32) \<noteq> 0"
    using uint_u32_of_int [of k] k by auto
  have n: "pMin p \<le> n" "n < pMax p" "0 \<le> n"
    using uint_mod_word_of_int [OF k, of r] assms by (auto simp: n_def k_def padding_ok_def)
  let ?s = "map (\<lambda>i. paddingChars ! (unat (rnd i) mod length paddingChars)) [0..<nat n]"
  have "generate p r rnd = Some ?s"
    using k nz n by (simp add: generate_def k_def [symmetric] n_def [symmetric])
  moreover have "set ?s \<subseteq> set paddingChars"
  proof -
    have "0 < length paddingChars" by (simp add: paddingChars_def)
    then show ?thesis by (auto intro!: nth_mem)
  qed
  ultimately show thesis
    using n by (intro that [of ?s]) auto
qed

lemma derivePadding_ok:
  assumes "0 \<le> MinLo b" "MinLo b < MinHi b" "0 < SpanLo b" "SpanLo b < SpanHi b"
    and "MinHi b + SpanHi b \<le> int MaxPaddingLength"
  shows "padding_ok (derivePadding hmac seed label b)"
proof -
  have *: "0 < MinHi b - MinLo b" "MinHi b - MinLo b < 2 ^ 32"
    "0 < SpanHi b - SpanLo b" "SpanHi b - SpanLo b < 2 ^ 32"
    using assms by (auto simp: MaxPaddingLength_def)
  show ?thesis
    using uint_mod_word_of_int [OF *(1,2), of "Uint32 (take 4 (hmac seed (bytes_of label)))"]
      uint_mod_word_of_int [OF *(3,4), of "Uint32 (take 4 (drop 4 (hmac seed (bytes_of label))))"] assms
    by (auto simp: derivePadding_def padding_ok_def Let_def add_pos_nonneg simp del: of_int_diff)
qed

lemmas bounds_defs = authPaddingBounds_def tcpRequestPaddingBounds_def tcpResponsePaddingBounds_def

lemma default_scheme_ok [simp]: "scheme_ok defaultPaddingScheme"
  by (simp add: scheme_ok_def padding_ok_def defaultPaddingScheme_def MaxPaddingLength_def)

lemma NewPaddingScheme_scheme_ok [simp]: "scheme_ok (NewPaddingScheme hmac seed)"
  by (auto simp: NewPaddingScheme_def scheme_ok_def bounds_defs MaxPaddingLength_def
      intro!: derivePadding_ok)
    (simp_all add: padding_ok_def defaultPaddingScheme_def MaxPaddingLength_def)

end
