(* ===== verification/Wire.thy ===== *)
theory Wire
  imports Padding
begin

text \<open>
  The proxy protocol's wire formats (\<open>core/internal/protocol/proxy.go\<close>): TCP requests and
  responses on a stream, UDP messages in datagrams.

  The stream given to a \<open>Read\<close> function is the list of bytes it delivers before its end; a
  \<open>Read\<close> function returns an error or its result with the bytes left. A \<open>Write\<close> function
  returns the bytes it hands to the writer. The variable-length integers are decoded by
  package quicvarint of quic-go, which is not part of this repository: \<open>qlen\<close> and \<open>qread\<close>
  are parameters, and the locale \<open>quic_varint\<close> states what RFC 9000, section 16, says of them.
\<close>

datatype io_error = EOF | UnexpectedEOF | ProtocolError string | OtherError string

definition MaxAddressLength :: nat where "MaxAddressLength = 2048"
definition MaxMessageLength :: nat where "MaxMessageLength = 2048"
definition MaxUDPSize :: nat where "MaxUDPSize = 4096"
definition FrameTypeTCPRequest :: u64 where "FrameTypeTCPRequest = 0x401"

definition maxVarInt1 :: u64 where "maxVarInt1 = 63"
definition maxVarInt2 :: u64 where "maxVarInt2 = 16383"
definition maxVarInt4 :: u64 where "maxVarInt4 = 1073741823"
definition maxVarInt8 :: u64 where "maxVarInt8 = 4611686018427387903"

lemmas maxVarInt_defs = maxVarInt1_def maxVarInt2_def maxVarInt4_def maxVarInt8_def
lemmas limit_defs = MaxAddressLength_def MaxMessageLength_def MaxPaddingLength_def


section \<open>Definitions\<close>

subsection \<open>Standard library readers\<close>

definition ReadFull :: "bytes \<Rightarrow> nat \<Rightarrow> io_error + bytes \<times> bytes" where
  "ReadFull r n =
     (if n \<le> length r then Inr (take n r, drop n r)
      else if r = [] then Inl EOF else Inl UnexpectedEOF)"

definition CopyN_Discard :: "bytes \<Rightarrow> nat \<Rightarrow> io_error + bytes" where
  "CopyN_Discard r n = (if n \<le> length r then Inr (drop n r) else Inl EOF)"

subsection \<open>Variable-length integers\<close>

text \<open>The bytes \<open>varintPut\<close> stores, by the magnitude of the integer; \<open>None\<close> is its panic.\<close>

definition varint_bytes :: "u64 \<Rightarrow> bytes option" where
  "varint_bytes i =
     (if i \<le> maxVarInt1 then Some [ucast i]
      else if i \<le> maxVarInt2 then Some [ucast (drop_bit 8 i) OR 0x40, ucast i]
      else if i \<le> maxVarInt4 then
        Some [ucast (drop_bit 24 i) OR 0x80, ucast (drop_bit 16 i), ucast (drop_bit 8 i), ucast i]
      else if i \<le> maxVarInt8 then
        Some [ucast (drop_bit 56 i) OR 0xc0, ucast (drop_bit 48 i), ucast (drop_bit 40 i),
              ucast (drop_bit 32 i), ucast (drop_bit 24 i), ucast (drop_bit 16 i),
              ucast (drop_bit 8 i), ucast i]
      else None)"

definition varintPut :: "bytes \<Rightarrow> nat \<Rightarrow> u64 \<Rightarrow> (bytes \<times> nat) option" where
  "varintPut b off i = do {
     bs \<leftarrow> varint_bytes i;
     b' \<leftarrow> put_bytes b off bs;
     Some (b', length bs) }"

subsection \<open>TCP requests\<close>

definition ReadTCPRequest ::
  "(bytes \<Rightarrow> io_error + u64 \<times> bytes) \<Rightarrow> bytes \<Rightarrow> io_error + string \<times> bytes" where
  "ReadTCPRequest qread r =
     (case qread r of Inl e \<Rightarrow> Inl e
      | Inr (addrLen, r) \<Rightarrow>
        if addrLen = 0 \<or> unat addrLen > MaxAddressLength
        then Inl (ProtocolError ''invalid address length'')
        else (case ReadFull r (unat addrLen) of Inl e \<Rightarrow> Inl e
      | Inr (addrBuf, r) \<Rightarrow>
        (case qread r of Inl e \<Rightarrow> Inl e
      | Inr (paddingLen, r) \<Rightarrow>
        if unat paddingLen > MaxPaddingLength
        then Inl (ProtocolError ''invalid padding length'')
        else if paddingLen > 0
        then (case CopyN_Discard r (unat paddingLen) of Inl e \<Rightarrow> Inl e
              | Inr r \<Rightarrow> Inr (string_of addrBuf, r))
        else Inr (string_of addrBuf, r))))"

definition WriteTCPRequest ::
  "(u64 \<Rightarrow> nat) \<Rightarrow> string \<Rightarrow> PaddingScheme option \<Rightarrow> u32 \<Rightarrow> (nat \<Rightarrow> u8) \<Rightarrow> bytes option" where
  "WriteTCPRequest qlen addr ps rand32 rnd = do {
     padding \<leftarrow> generate (TCPRequestP (orDefault ps)) rand32 rnd;
     let paddingLen = length padding;
     let addrLen = length addr;
     let sz = qlen FrameTypeTCPRequest
            + qlen (of_nat addrLen) + addrLen
            + qlen (of_nat paddingLen) + paddingLen;
     let buf = make_bytes sz;
     (buf, i) \<leftarrow> varintPut buf 0 FrameTypeTCPRequest;
     (buf, n) \<leftarrow> varintPut buf i (of_nat addrLen);
     let i = i + n;
     (buf, n) \<leftarrow> go_copy buf i (bytes_of addr);
     let i = i + n;
     (buf, n) \<leftarrow> varintPut buf i (of_nat paddingLen);
     let i = i + n;
     (buf, n) \<leftarrow> go_copy buf i (bytes_of padding);
     Some buf }"

subsection \<open>TCP responses\<close>

definition ReadTCPResponse ::
  "(bytes \<Rightarrow> io_error + u64 \<times> bytes) \<Rightarrow> bytes \<Rightarrow> io_error + bool \<times> string \<times> bytes" where
  "ReadTCPResponse qread r =
     (case ReadFull r 1 of Inl e \<Rightarrow> Inl e
      | Inr (status, r) \<Rightarrow>
        (case qread r of Inl e \<Rightarrow> Inl e
      | Inr (msgLen, r) \<Rightarrow>
        if unat msgLen > MaxMessageLength
        then Inl (ProtocolError ''invalid message length'')
        else (case (if msgLen > 0 then ReadFull r (unat msgLen) else Inr ([], r)) of Inl e \<Rightarrow> Inl e
      | Inr (msgBuf, r) \<Rightarrow>
        (case qread r of Inl e \<Rightarrow> Inl e
      | Inr (paddingLen, r) \<Rightarrow>
        if unat paddingLen > MaxPaddingLength
        then Inl (ProtocolError ''invalid padding length'')
        else if paddingLen > 0
        then (case CopyN_Discard r (unat paddingLen) of Inl e \<Rightarrow> Inl e
              | Inr r \<Rightarrow> Inr (hd status = 0, string_of msgBuf, r))
        else Inr (hd status = 0, string_of msgBuf, r)))))"

definition WriteTCPResponse ::
  "(u64 \<Rightarrow> nat) \<Rightarrow> bool \<Rightarrow> string \<Rightarrow> PaddingScheme option \<Rightarrow> u32 \<Rightarrow> (nat \<Rightarrow> u8) \<Rightarrow> bytes option" where
  "WriteTCPResponse qlen ok msg ps rand32 rnd = do {
     padding \<leftarrow> generate (TCPResponseP (orDefault ps)) rand32 rnd;
     let paddingLen = length padding;
     let msgLen = length msg;
     let sz = 1 + qlen (of_nat msgLen) + msgLen + qlen (of_nat paddingLen) + paddingLen;
     let buf = make_bytes sz;
     buf \<leftarrow> put_bytes buf 0 [if ok then 0 else 1];
     (buf, i) \<leftarrow> varintPut buf 1 (of_nat msgLen);
     (buf, n) \<leftarrow> go_copy buf (1 + i) (bytes_of msg);
     let i = i + n;
     (buf, n) \<leftarrow> varintPut buf (1 + i) (of_nat paddingLen);
     let i = i + n;
     (buf, n) \<leftarrow> go_copy buf (1 + i) (bytes_of padding);
     Some buf }"

subsection \<open>UDP messages\<close>

record UDPMessage =
  SessionID :: u32
  PacketID :: u16
  FragID :: u8
  FragCount :: u8
  Addr :: string
  Data :: bytes

definition HeaderSize :: "(u64 \<Rightarrow> nat) \<Rightarrow> UDPMessage \<Rightarrow> nat" where
  "HeaderSize qlen m =
     (let lAddr = length (Addr m) in 4 + 2 + 1 + 1 + qlen (of_nat lAddr) + lAddr)"

definition Size :: "(u64 \<Rightarrow> nat) \<Rightarrow> UDPMessage \<Rightarrow> nat" where
  "Size qlen m = HeaderSize qlen m + length (Data m)"

definition Serialize :: "(u64 \<Rightarrow> nat) \<Rightarrow> UDPMessage \<Rightarrow> bytes \<Rightarrow> (bytes \<times> int) option" where
  "Serialize qlen m buf =
     (if length buf < Size qlen m then Some (buf, -1)
      else do {
        buf \<leftarrow> put_bytes buf 0 (be32 (SessionID m));
        buf \<leftarrow> put_bytes buf 4 (be16 (PacketID m));
        buf \<leftarrow> put_bytes buf 6 [FragID m];
        buf \<leftarrow> put_bytes buf 7 [FragCount m];
        (buf, i) \<leftarrow> varintPut buf 8 (of_nat (length (Addr m)));
        (buf, n) \<leftarrow> go_copy buf (8 + i) (bytes_of (Addr m));
        let i = i + n;
        (buf, n) \<leftarrow> go_copy buf (8 + i) (Data m);
        let i = i + n;
        Some (buf, int (8 + i)) })"

definition SerializeTo :: "(u64 \<Rightarrow> nat) \<Rightarrow> UDPMessage \<Rightarrow> bytes \<Rightarrow> bytes option" where
  "SerializeTo qlen m buf = do {
     (buf, n) \<leftarrow> Serialize qlen m buf;
     if n \<ge> 0 then Some (take (nat n) buf)
     else do {
       let buf = make_bytes (Size qlen m);
       (buf, n) \<leftarrow> Serialize qlen m buf;
       if n < 0 then None else Some (take (nat n) buf) } }"

definition ParseUDPMessage ::
  "(bytes \<Rightarrow> io_error + u64 \<times> bytes) \<Rightarrow> bytes \<Rightarrow> io_error + UDPMessage" where
  "ParseUDPMessage qread msg =
     (case ReadFull msg 4 of Inl e \<Rightarrow> Inl e
      | Inr (sid, buf) \<Rightarrow> (case ReadFull buf 2 of Inl e \<Rightarrow> Inl e
      | Inr (pid, buf) \<Rightarrow> (case ReadFull buf 1 of Inl e \<Rightarrow> Inl e
      | Inr (fid, buf) \<Rightarrow> (case ReadFull buf 1 of Inl e \<Rightarrow> Inl e
      | Inr (fcnt, buf) \<Rightarrow> (case qread buf of Inl e \<Rightarrow> Inl e
      | Inr (lAddr, bs) \<Rightarrow>
        if lAddr = 0 \<or> unat lAddr > MaxMessageLength
        then Inl (ProtocolError ''invalid address length'')
        else if length bs \<le> unat lAddr
        then Inl (ProtocolError ''invalid message length'')
        else Inr \<lparr>SessionID = Uint32 sid, PacketID = Uint16 pid, FragID = hd fid,
                  FragCount = hd fcnt, Addr = string_of (take (unat lAddr) bs),
                  Data = drop (unat lAddr) bs\<rparr>)))))"


section \<open>The interface to quicvarint\<close>

locale quic_varint =
  fixes qlen :: "u64 \<Rightarrow> nat"
    and qread :: "bytes \<Rightarrow> io_error + u64 \<times> bytes"
  assumes qlen_1: "i \<le> 63 \<Longrightarrow> qlen i = 1"
    and qlen_2: "63 < i \<Longrightarrow> i \<le> 16383 \<Longrightarrow> qlen i = 2"
    and qlen_4: "16383 < i \<Longrightarrow> i \<le> 1073741823 \<Longrightarrow> qlen i = 4"
    and qlen_8: "1073741823 < i \<Longrightarrow> i \<le> 4611686018427387903 \<Longrightarrow> qlen i = 8"
    and qread_empty: "\<exists>e. qread [] = Inl e"
    and qread_short: "length bs + 1 < 2 ^ unat (drop_bit 6 b) \<Longrightarrow> \<exists>e. qread (b # bs) = Inl e"
    and qread_value: "2 ^ unat (drop_bit 6 b) \<le> length bs + 1 \<Longrightarrow>
      qread (b # bs) = Inr (uint_be (take (2 ^ unat (drop_bit 6 b) - 1) bs) (ucast (b AND 63)),
                            drop (2 ^ unat (drop_bit 6 b) - 1) bs)"

text \<open>A reader and a length function that follow the RFC's text, to show the laws can hold.\<close>

definition rfc9000_len :: "u64 \<Rightarrow> nat" where
  "rfc9000_len i = (if i \<le> 63 then 1 else if i \<le> 16383 then 2 else if i \<le> 1073741823 then 4 else 8)"

definition rfc9000_read :: "bytes \<Rightarrow> io_error + u64 \<times> bytes" where
  "rfc9000_read bs =
     (case bs of [] \<Rightarrow> Inl EOF
      | b # rest \<Rightarrow>
        (let n = 2 ^ unat (drop_bit 6 b) - 1
         in if n \<le> length rest
            then Inr (uint_be (take n rest) (ucast (b AND 63)), drop n rest)
            else Inl UnexpectedEOF))"

interpretation rfc9000: quic_varint rfc9000_len rfc9000_read
  by unfold_locales
    (auto simp: rfc9000_len_def rfc9000_read_def Let_def word_le_nat_alt word_less_nat_alt)



section \<open>Encodings\<close>

lemma marker_bits:
  assumes "\<And>n. bit x n \<Longrightarrow> n < 6"
  shows "drop_bit 6 (x OR 0x40) = (1::u8)" "(x OR 0x40) AND 63 = (x::u8)"
       "drop_bit 6 (x OR 0x80) = (2::u8)" "(x OR 0x80) AND 63 = (x::u8)"
       "drop_bit 6 (x OR 0xC0) = (3::u8)" "(x OR 0xC0) AND 63 = (x::u8)"
proof -
  have m: "(0x40::u8) = push_bit 6 1" "(0x80::u8) = push_bit 6 2"  "(0xC0::u8) = push_bit 6 3"  "(63::u8) = mask 6"
    by (simp_all add: mask_eq_exp_minus_1)
  have hi: "bit (push_bit 6 c :: u8) n \<Longrightarrow> 6 \<le> n" for c n
    by (simp add: bit_simps)
  have "drop_bit 6 x = 0"
    by (rule bit_word_eqI) (auto simp: bit_simps dest: assms)
  then show "drop_bit 6 (x OR 0x40) = (1::u8)" "drop_bit 6 (x OR 0x80) = (2::u8)"
    "drop_bit 6 (x OR 0xC0) = (3::u8)" by simp_all
  show "(x OR 0x40) AND 63 = (x::u8)"
    unfolding m(1,4) by (rule low_bits_or(2) [OF assms hi])
  show "(x OR 0x80) AND 63 = (x::u8)"
    unfolding m(2,4) by (rule low_bits_or(2) [OF assms hi])
  show "(x OR 0xC0) AND 63 = (x::u8)"
    unfolding m(3,4) by (rule low_bits_or(2) [OF assms hi])
qed

lemma ucast_u8_u64:
  fixes x :: u64
  assumes "\<And>n. bit x n \<Longrightarrow> n < 8"
  shows "ucast (ucast x :: u8) = x"
  by (rule bit_word_eqI) (auto simp: bit_simps dest: assms bit_imp_le_length)

text \<open>The first byte of a multi-byte encoding keeps the top six bits of the value.\<close>

lemma first_byte:
  fixes i :: u64
  assumes "unat i < 2 ^ (k + 6)"
  shows "drop_bit 6 (ucast (drop_bit k i) OR 0x40 :: u8) = 1"
    "ucast ((ucast (drop_bit k i) OR 0x40 :: u8) AND 63) = drop_bit k i"
    "drop_bit 6 (ucast (drop_bit k i) OR 0x80 :: u8) = 2"
    "ucast ((ucast (drop_bit k i) OR 0x80 :: u8) AND 63) = drop_bit k i"
    "drop_bit 6 (ucast (drop_bit k i) OR 0xc0 :: u8) = 3"
    "ucast ((ucast (drop_bit k i) OR 0xc0 :: u8) AND 63) = drop_bit k i"
proof -
  have hi: "n < 6" if "bit (drop_bit k i) n" for n
    using bit_less_exp [OF assms, of "k + n"] that by (simp add: bit_simps)
  have b: "n < 6" if "bit (ucast (drop_bit k i) :: u8) n" for n
    using that hi by (simp add: bit_simps)
  have u: "ucast (ucast (drop_bit k i) :: u8) = drop_bit k i"
    by (rule ucast_u8_u64) (use hi in fastforce)
  show "drop_bit 6 (ucast (drop_bit k i) OR 0x40 :: u8) = 1"
    and "drop_bit 6 (ucast (drop_bit k i) OR 0x80 :: u8) = 2"
    and "drop_bit 6 (ucast (drop_bit k i) OR 0xc0 :: u8) = 3"
    by (rule marker_bits, erule b)+
  show "ucast ((ucast (drop_bit k i) OR 0x40 :: u8) AND 63) = drop_bit k i"
    and "ucast ((ucast (drop_bit k i) OR 0x80 :: u8) AND 63) = drop_bit k i"
    and "ucast ((ucast (drop_bit k i) OR 0xc0 :: u8) AND 63) = drop_bit k i"
    using b marker_bits [of "ucast (drop_bit k i)"] u by simp_all
qed

lemma single_byte:
  fixes i :: u64
  assumes "unat i < 2 ^ 6"
  shows "drop_bit 6 (ucast i :: u8) = 0" "ucast (ucast i AND 63 :: u8) = i"
proof -
  have b: "n < 6" if "bit i n" for n
    using bit_less_exp [OF assms that] .
  show "drop_bit 6 (ucast i :: u8) = 0"
    by (rule bit_word_eqI) (auto simp: bit_simps dest: b)
  have m: "(63 :: u8) = mask 6" by (simp add: mask_eq_exp_minus_1)
  show "ucast (ucast i AND 63 :: u8) = i"
    unfolding m by (rule bit_word_eqI) (auto simp: bit_simps dest: b)
qed

lemma varint_bytes_None_iff: "varint_bytes i = None \<longleftrightarrow> maxVarInt8 < i"
  by (auto simp: varint_bytes_def maxVarInt_defs word_le_nat_alt word_less_nat_alt)

lemma varint_bytes_Some:
  assumes "i \<le> maxVarInt8"
  obtains bs where "varint_bytes i = Some bs"
  using assms varint_bytes_None_iff [of i] by (cases "varint_bytes i") auto

lemma small_nat_le_maxVarInt8: "n \<le> 2 ^ 60 \<Longrightarrow> (of_nat n :: u64) \<le> maxVarInt8"
  by (simp add: maxVarInt8_def word_le_nat_alt unat_of_nat take_bit_eq_mod)

context quic_varint
begin

lemma length_varint_bytes: "varint_bytes i = Some bs \<Longrightarrow> length bs = qlen i"
  by (auto simp: varint_bytes_def maxVarInt_defs qlen_1 qlen_2 qlen_4 qlen_8 not_le split: if_splits)

lemma qread_first:
  assumes "drop_bit 6 b = k" and "ucast (b AND 63) = hi" and "2 ^ unat k \<le> length bs + 1"
  shows "qread (b # bs) = Inr (uint_be (take (2 ^ unat k - 1) bs) hi, drop (2 ^ unat k - 1) bs)"
  using qread_value [of b bs] assms by simp

lemma qread_varint:
  assumes "varint_bytes i = Some bs"
  shows "qread (bs @ rest) = Inr (i, rest)"
proof -
  consider "unat i < 2 ^ 6" "bs = [ucast i]"
    | "unat i < 2 ^ (8 + 6)" "bs = [ucast (drop_bit 8 i) OR 0x40, ucast i]"
    | "unat i < 2 ^ (24 + 6)" "bs = [ucast (drop_bit 24 i) OR 0x80, ucast (drop_bit 16 i), ucast (drop_bit 8 i), ucast i]"
    | "unat i < 2 ^ (56 + 6)" "bs = [ucast (drop_bit 56 i) OR 0xc0, ucast (drop_bit 48 i), ucast (drop_bit 40 i),
              ucast (drop_bit 32 i), ucast (drop_bit 24 i), ucast (drop_bit 16 i), ucast (drop_bit 8 i), ucast i]"
    using assms by (auto simp: varint_bytes_def maxVarInt_defs word_le_nat_alt split: if_splits)
  then show ?thesis
  proof cases
    case 1
    then show ?thesis using qread_first [OF single_byte, of i rest] by simp
  next
    case 2
    then show ?thesis using qread_first [OF first_byte(1,2), of i 8 "ucast i # rest"] by simp
  next
    case 3
    then show ?thesis
      using qread_first [OF first_byte(3,4), of i 24 "tl bs @ rest"]
      by (simp add: uint_be_chain del: uint_be.simps(2))
  next
    case 4
    then show ?thesis
      using qread_first [OF first_byte(5,6), of i 56 "tl bs @ rest"]
      by (simp add: uint_be_chain del: uint_be.simps(2))
  qed
qed

lemma varintPut_at [buf_simps]:
  assumes "varint_bytes i = Some bs" and "n = length pre" and "length bs \<le> length rest"
  shows "varintPut (pre @ rest) n i = Some ((pre @ bs) @ drop (length bs) rest, length bs)"
  using assms by (simp add: varintPut_def put_bytes_at)

lemma varintPut_fresh [buf_simps]:
  assumes "varint_bytes i = Some bs" and "n = length pre" and "length bs \<le> k"
  shows "varintPut (pre @ make_bytes k) n i = Some ((pre @ bs) @ make_bytes (k - length bs), length bs)"
  using assms by (simp add: varintPut_def put_bytes_fresh)

lemma WriteTCPRequest_bytes:
  assumes pad: "generate (TCPRequestP (orDefault ps)) r rnd = Some pad"
    and f: "varint_bytes FrameTypeTCPRequest = Some vf"
    and a: "varint_bytes (of_nat (length addr)) = Some va"
    and p: "varint_bytes (of_nat (length pad)) = Some vp"
  shows "WriteTCPRequest qlen addr ps r rnd = Some (vf @ va @ bytes_of addr @ vp @ bytes_of pad)"
proof -
  note l = length_varint_bytes [OF f] length_varint_bytes [OF a] length_varint_bytes [OF p]
  show ?thesis
    using varintPut_fresh [OF f, of 0 "[]"]
    by (simp add: WriteTCPRequest_def pad Let_def varintPut_fresh [OF a] varintPut_fresh [OF p]
        go_copy_fresh l del: append_assoc)
qed

lemma WriteTCPResponse_bytes:
  assumes pad: "generate (TCPResponseP (orDefault ps)) r rnd = Some pad"
    and a: "varint_bytes (of_nat (length msg)) = Some va"
    and p: "varint_bytes (of_nat (length pad)) = Some vp"
  shows "WriteTCPResponse qlen ok msg ps r rnd
       = Some ((if ok then 0 else 1) # va @ bytes_of msg @ vp @ bytes_of pad)"
proof -
  note l = length_varint_bytes [OF a] length_varint_bytes [OF p]
  show ?thesis
    using put_bytes_fresh [of 0 "[]" "[if ok then 0 else 1]"]
    by (simp add: WriteTCPResponse_def pad Let_def varintPut_fresh [OF a] varintPut_fresh [OF p]
        go_copy_fresh l del: append_assoc append_Cons)
qed

lemma Serialize_bytes:
  assumes a: "varint_bytes (of_nat (length (Addr m))) = Some va" and sz: "Size qlen m \<le> length buf"
  shows "Serialize qlen m buf =
    Some (be32 (SessionID m) @ be16 (PacketID m) @ [FragID m, FragCount m] @ va @ bytes_of (Addr m)
            @ Data m @ drop (Size qlen m) buf, int (Size qlen m))"
proof -
  note l = length_varint_bytes [OF a]
  show ?thesis
    using sz put_bytes_at [of 0 "[]" "be32 (SessionID m)" buf]
    by (simp add: Serialize_def Size_def HeaderSize_def Let_def put_bytes_at varintPut_at [OF a]
        go_copy_at l del: append_assoc) (simp add: add_ac)
qed

lemma ReadTCPRequest_encoded:
  assumes "varint_bytes (of_nat (length addr)) = Some va" and "varint_bytes (of_nat (length pad)) = Some vp"
    and "addr \<noteq> []" and "length addr \<le> MaxAddressLength" and "length pad \<le> MaxPaddingLength"
  shows "ReadTCPRequest qread (va @ bytes_of addr @ vp @ bytes_of pad @ rest) = Inr (addr, rest)"
proof -
  have u: "unat (of_nat n :: u64) = n" if "n \<le> 4096" for n
    using that by (simp add: unat_of_nat take_bit_eq_mod)
  have nz: "(of_nat (length addr) :: u64) \<noteq> 0"
    using u [of "length addr"] assms(3,4) by (auto simp: limit_defs)
  show ?thesis
    using assms u [of "length addr"] u [of "length pad"] nz
    by (simp add: ReadTCPRequest_def qread_varint ReadFull_def CopyN_Discard_def limit_defs
        word_less_nat_alt)
qed

lemma ReadTCPResponse_encoded:
  assumes "varint_bytes (of_nat (length msg)) = Some va" and "varint_bytes (of_nat (length pad)) = Some vp"
    and "length msg \<le> MaxMessageLength" and "length pad \<le> MaxPaddingLength"
  shows "ReadTCPResponse qread (st # va @ bytes_of msg @ vp @ bytes_of pad @ rest) = Inr (st = 0, msg, rest)"
proof -
  have u: "unat (of_nat n :: u64) = n" if "n \<le> 4096" for n
    using that by (simp add: unat_of_nat take_bit_eq_mod)
  show ?thesis
    using assms u [of "length msg"] u [of "length pad"]
    by (simp add: ReadTCPResponse_def qread_varint ReadFull_def CopyN_Discard_def limit_defs
        word_less_nat_alt)
qed

lemma ParseUDPMessage_encoded:
  assumes "varint_bytes (of_nat (length (Addr m))) = Some va"
    and "Addr m \<noteq> []" and "length (Addr m) \<le> MaxMessageLength" and "Data m \<noteq> []"
  shows "ParseUDPMessage qread
    (be32 (SessionID m) @ be16 (PacketID m) @ [FragID m, FragCount m] @ va @ bytes_of (Addr m) @ Data m) = Inr m"
proof -
  have u: "unat (of_nat (length (Addr m)) :: u64) = length (Addr m)"
    using assms(3) by (simp add: unat_of_nat take_bit_eq_mod limit_defs)
  then have nz: "(of_nat (length (Addr m)) :: u64) \<noteq> 0"
    using assms(2) by auto
  show ?thesis
    using assms u nz Uint32_be32 [of _ "[]"] Uint16_be16 [of _ "[]"]
    by (simp add: ParseUDPMessage_def ReadFull_def qread_varint limit_defs del: Uint32_be32 Uint16_be16)
qed

end


section \<open>Round trips\<close>

lemma varint_small:
  assumes "n \<le> 2 ^ 60"
  obtains bs where "varint_bytes (of_nat n) = Some bs"
  using varint_bytes_Some [OF small_nat_le_maxVarInt8 [OF assms]] .

lemma scheme_ok_orDefault:
  assumes "ps = None \<or> ps = Some (NewPaddingScheme hmac seed)"
  shows "scheme_ok (orDefault ps)"
  using assms by (auto simp: orDefault_def)

lemma TCPRequest_read:
  assumes qv: "quic_varint qlen qread"
    and ps: "ps = None \<or> ps = Some (NewPaddingScheme hmac seed)"
    and addr: "addr \<noteq> []" "length addr \<le> MaxAddressLength"
  shows "\<exists>out body. WriteTCPRequest qlen addr ps r rnd = Some out
           \<and> (\<forall>rest. qread (out @ rest) = Inr (FrameTypeTCPRequest, body @ rest)
                \<and> ReadTCPRequest qread (body @ rest) = Inr (addr, rest))"
proof -
  obtain pad where pad: "generate (TCPRequestP (orDefault ps)) r rnd = Some pad"
    and len: "int (length pad) < pMax (TCPRequestP (orDefault ps))"
    using generate_padding_ok [of "TCPRequestP (orDefault ps)" r rnd] scheme_ok_orDefault [OF ps]
    by (auto simp: scheme_ok_def)
  have padlen: "length pad \<le> MaxPaddingLength"
    using len scheme_ok_orDefault [OF ps] by (auto simp: scheme_ok_def padding_ok_def)
  obtain vf where f: "varint_bytes FrameTypeTCPRequest = Some vf"
    using varint_bytes_Some [of FrameTypeTCPRequest] by (auto simp: FrameTypeTCPRequest_def maxVarInt8_def)
  obtain va where a: "varint_bytes (of_nat (length addr)) = Some va"
    by (rule varint_small [of "length addr"]) (use addr in \<open>simp add: limit_defs\<close>)
  obtain vp where p: "varint_bytes (of_nat (length pad)) = Some vp"
    by (rule varint_small [of "length pad"]) (use padlen in \<open>simp add: limit_defs\<close>)
  let ?body = "va @ bytes_of addr @ vp @ bytes_of pad"
  show ?thesis
    using quic_varint.WriteTCPRequest_bytes [OF qv pad f a p] quic_varint.qread_varint [OF qv f]
      quic_varint.ReadTCPRequest_encoded [OF qv a p addr padlen]
    by (intro exI [of _ "vf @ ?body"] exI [of _ ?body]) simp
qed

text \<open>
  A TCP request written with the padding scheme of any seed, or with none, and with any
  random numbers, is read back: \<open>WriteTCPRequest\<close> does not panic, its output starts with the
  frame type 0x401, and \<open>ReadTCPRequest\<close> on what follows returns the address and leaves the
  stream exactly behind the request.
\<close>

theorem tcp_request_roundtrip:
  assumes qv: "quic_varint qlen qread"
    and ps: "ps = None \<or> ps = Some (NewPaddingScheme hmac seed)"
    and addr: "addr \<noteq> []" "length addr \<le> MaxAddressLength"
  shows "\<exists>out body. WriteTCPRequest qlen addr ps r rnd = Some out
           \<and> qread (out @ rest) = Inr (FrameTypeTCPRequest, body @ rest)
           \<and> ReadTCPRequest qread (body @ rest) = Inr (addr, rest)"
  using TCPRequest_read [OF qv ps addr] by blast

theorem tcp_request_roundtrip_witness:
  "\<exists>out body. WriteTCPRequest rfc9000_len ''a:1'' None 7 (\<lambda>_. 0) = Some out
     \<and> rfc9000_read (out @ []) = Inr (FrameTypeTCPRequest, body @ [])
     \<and> ReadTCPRequest rfc9000_read (body @ []) = Inr (''a:1'', [])"
  by (rule tcp_request_roundtrip [OF rfc9000.quic_varint_axioms, where hmac = "\<lambda>_ _. []" and seed = "[]"])
    (simp_all add: MaxAddressLength_def)

lemma TCPResponse_read:
  assumes qv: "quic_varint qlen qread"
    and ps: "ps = None \<or> ps = Some (NewPaddingScheme hmac seed)"
    and msg: "length msg \<le> MaxMessageLength"
  shows "\<exists>out. WriteTCPResponse qlen ok msg ps r rnd = Some out
           \<and> (\<forall>rest. ReadTCPResponse qread (out @ rest) = Inr (ok, msg, rest))"
proof -
  obtain pad where pad: "generate (TCPResponseP (orDefault ps)) r rnd = Some pad"
    and len: "int (length pad) < pMax (TCPResponseP (orDefault ps))"
    using generate_padding_ok [of "TCPResponseP (orDefault ps)" r rnd] scheme_ok_orDefault [OF ps]
    by (auto simp: scheme_ok_def)
  have padlen: "length pad \<le> MaxPaddingLength"
    using len scheme_ok_orDefault [OF ps] by (auto simp: scheme_ok_def padding_ok_def)
  obtain va where a: "varint_bytes (of_nat (length msg)) = Some va"
    by (rule varint_small [of "length msg"]) (use msg in \<open>simp add: limit_defs\<close>)
  obtain vp where p: "varint_bytes (of_nat (length pad)) = Some vp"
    by (rule varint_small [of "length pad"]) (use padlen in \<open>simp add: limit_defs\<close>)
  show ?thesis
    using quic_varint.WriteTCPResponse_bytes [OF qv pad a p]
      quic_varint.ReadTCPResponse_encoded [OF qv a p msg padlen, of "if ok then 0 else 1"]
    by (cases ok) simp_all
qed

text \<open>
  A TCP response (status and message of at most 2048 bytes) written with any scheme of
  \<open>NewPaddingScheme\<close> is read back with the same status and message, and the stream is left
  behind it.
\<close>

theorem tcp_response_roundtrip:
  assumes qv: "quic_varint qlen qread"
    and ps: "ps = None \<or> ps = Some (NewPaddingScheme hmac seed)"
    and msg: "length msg \<le> MaxMessageLength"
  shows "\<exists>out. WriteTCPResponse qlen ok msg ps r rnd = Some out
           \<and> ReadTCPResponse qread (out @ rest) = Inr (ok, msg, rest)"
  using TCPResponse_read [OF qv ps msg] by blast

theorem tcp_response_roundtrip_witness:
  "\<exists>out. WriteTCPResponse rfc9000_len False ''no'' None 7 (\<lambda>_. 0) = Some out
     \<and> ReadTCPResponse rfc9000_read (out @ [9]) = Inr (False, ''no'', [9])"
  by (rule tcp_response_roundtrip [OF rfc9000.quic_varint_axioms, where hmac = "\<lambda>_ _. []" and seed = "[]"])
    (simp_all add: MaxMessageLength_def)

text \<open>
  A UDP message with an address of 1 to 2048 bytes and at least one byte of data survives
  \<open>SerializeTo\<close> and \<open>ParseUDPMessage\<close> unchanged, whatever the caller's buffer is: a buffer
  that is too small is replaced, never overrun.
\<close>

theorem udp_message_roundtrip:
  assumes qv: "quic_varint qlen qread"
    and addr: "Addr m \<noteq> []" "length (Addr m) \<le> MaxMessageLength" and data: "Data m \<noteq> []"
  shows "\<exists>out. SerializeTo qlen m buf = Some out \<and> length out = Size qlen m
           \<and> ParseUDPMessage qread out = Inr m"
proof -
  obtain va where a: "varint_bytes (of_nat (length (Addr m))) = Some va"
    by (rule varint_small [of "length (Addr m)"]) (use addr in \<open>simp add: limit_defs\<close>)
  define out where "out = be32 (SessionID m) @ be16 (PacketID m) @ [FragID m, FragCount m] @ va
    @ bytes_of (Addr m) @ Data m"
  have len: "length out = Size qlen m"
    by (simp add: out_def Size_def HeaderSize_def Let_def quic_varint.length_varint_bytes [OF qv a])
  have ser: "Serialize qlen m b = Some (out @ drop (Size qlen m) b, int (Size qlen m))"
    if "Size qlen m \<le> length b" for b
    using quic_varint.Serialize_bytes [OF qv a that] by (simp add: out_def)
  have "SerializeTo qlen m buf = Some out"
  proof (cases "Size qlen m \<le> length buf")
    case True
    then show ?thesis using ser [OF True] len by (simp add: SerializeTo_def)
  next
    case False
    then show ?thesis
      using ser [of "make_bytes (Size qlen m)"] len by (simp add: SerializeTo_def Serialize_def Let_def)
  qed
  then show ?thesis
    using quic_varint.ParseUDPMessage_encoded [OF qv a addr data] len by (auto simp: out_def)
qed

theorem udp_message_roundtrip_witness:
  "\<exists>out. SerializeTo rfc9000_len \<lparr>SessionID = 1, PacketID = 2, FragID = 0, FragCount = 1, Addr = ''h:53'', Data = [1, 2]\<rparr> [0, 0]
         = Some out
     \<and> length out = Size rfc9000_len \<lparr>SessionID = 1, PacketID = 2, FragID = 0, FragCount = 1, Addr = ''h:53'', Data = [1, 2]\<rparr>
     \<and> ParseUDPMessage rfc9000_read out
         = Inr \<lparr>SessionID = 1, PacketID = 2, FragID = 0, FragCount = 1, Addr = ''h:53'', Data = [1, 2]\<rparr>"
  by (rule udp_message_roundtrip [OF rfc9000.quic_varint_axioms]) (simp_all add: MaxMessageLength_def)

end
