(* ===== verification/Frag.thy ===== *)
theory Frag
  imports Wire "HOL-Library.Multiset"
begin

text \<open>
  Fragmentation and reassembly of UDP messages (\<open>core/internal/frag/frag.go\<close>).

  \<open>FragUDPMessage\<close> keeps the source's \<open>uint8\<close> counters, so the count it computes can wrap
  around and its indexing can panic (\<open>None\<close>). The \<open>Defragger\<close> is a table of fragment groups;
  \<open>Feed\<close> takes the clock reading as an argument and returns the new table with the completed
  message, if any; a panic is \<open>None\<close>. Go iterates over a map in an unspecified order: the
  order is the argument \<open>ord\<close>, which arranges the list of keys.
\<close>

definition defraggerTimeout :: duration where "defraggerTimeout = 10 * Second"
definition defraggerMaxEntries :: int where "defraggerMaxEntries = 8"
definition defraggerMaxMessageSize :: nat where "defraggerMaxMessageSize = 65535"


section \<open>Fragmentation\<close>

definition zeroUDPMessage :: UDPMessage where
  "zeroUDPMessage = \<lparr>SessionID = 0, PacketID = 0, FragID = 0, FragCount = 0, Addr = [], Data = []\<rparr>"

text \<open>The loop of \<open>FragUDPMessage\<close>; the caller has checked that \<open>maxPayloadSize\<close> is positive.\<close>

function frag_loop ::
  "UDPMessage \<Rightarrow> nat \<Rightarrow> u8 \<Rightarrow> UDPMessage list \<Rightarrow> nat \<Rightarrow> u8 \<Rightarrow> UDPMessage list option" where
  "frag_loop m maxPayloadSize fragCount frags off fragID =
     (if off < length (Data m) \<and> 0 < maxPayloadSize
      then let payloadSize = length (Data m) - off;
               payloadSize = (if payloadSize > maxPayloadSize then maxPayloadSize else payloadSize);
               frag = m\<lparr>FragID := fragID, FragCount := fragCount,
                        Data := take payloadSize (drop off (Data m))\<rparr>
           in if unat fragID < length frags
              then frag_loop m maxPayloadSize fragCount (frags[unat fragID := frag])
                     (off + payloadSize) (fragID + 1)
              else None
      else Some frags)"
  by pat_completeness auto
termination
  by (relation "measure (\<lambda>(m, _, _, _, off, _). length (Data m) - off)") (auto simp: Let_def)

declare frag_loop.simps [simp del]

definition FragUDPMessage :: "(u64 \<Rightarrow> nat) \<Rightarrow> UDPMessage \<Rightarrow> int \<Rightarrow> UDPMessage list option" where
  "FragUDPMessage qlen m maxSize =
     (if int (Size qlen m) \<le> maxSize then Some [m]
      else let maxPayloadSize = maxSize - int (HeaderSize qlen m)
           in if maxPayloadSize \<le> 0 then Some []
              else let p = nat maxPayloadSize;
                       fragCount = (of_nat ((length (Data m) + p - 1) div p) :: u8)
                   in frag_loop m p fragCount (replicate (unat fragCount) zeroUDPMessage) 0 0)"


section \<open>Reassembly\<close>

record defraggerEntry =
  e_frags :: "UDPMessage option list"
  e_count :: u8
  e_size :: nat
  e_last :: instant

record Defragger =
  d_entries :: "(u16 \<times> defraggerEntry) list"
  d_timeout :: duration
  d_maxEntries :: int

definition defragger_init :: "Defragger \<Rightarrow> Defragger" where
  "defragger_init d =
     (let d = (if d_timeout d \<le> 0 then d\<lparr>d_timeout := defraggerTimeout\<rparr> else d)
      in if d_maxEntries d \<le> 0 then d\<lparr>d_maxEntries := defraggerMaxEntries\<rparr> else d)"

definition NewDefragger :: Defragger where
  "NewDefragger = defragger_init \<lparr>d_entries = [], d_timeout = 0, d_maxEntries = 0\<rparr>"

definition sweep :: "instant \<Rightarrow> Defragger \<Rightarrow> Defragger" where
  "sweep now d = d\<lparr>d_entries := filter (\<lambda>(_, e). \<not> now - e_last e > d_timeout d) (d_entries d)\<rparr>"

fun oldest_scan ::
  "(u16 \<rightharpoonup> defraggerEntry) \<Rightarrow> u16 list \<Rightarrow> (u16 \<times> instant) option \<Rightarrow> (u16 \<times> instant) option" where
  "oldest_scan m [] acc = acc"
| "oldest_scan m (i # is) acc =
     (case m i of None \<Rightarrow> oldest_scan m is acc
      | Some e \<Rightarrow>
         oldest_scan m is
           (case acc of None \<Rightarrow> Some (i, e_last e)
            | Some (oldestID, oldest) \<Rightarrow>
                if e_last e < oldest then Some (i, e_last e) else Some (oldestID, oldest)))"

definition evictOldest :: "(u16 list \<Rightarrow> u16 list) \<Rightarrow> Defragger \<Rightarrow> Defragger" where
  "evictOldest ord d =
     (case oldest_scan (map_of (d_entries d)) (ord (map fst (d_entries d))) None of
        None \<Rightarrow> d
      | Some (oldestID, _) \<Rightarrow> d\<lparr>d_entries := AList.delete oldestID (d_entries d)\<rparr>)"

text \<open>
  The copying loop that assembles a completed group; reading through a nil fragment pointer
  panics.
\<close>

fun assemble :: "UDPMessage option list \<Rightarrow> bytes \<Rightarrow> nat \<Rightarrow> bytes option" where
  "assemble [] data off = Some data"
| "assemble (None # fs) data off = None"
| "assemble (Some f # fs) data off =
     (case go_copy data off (Data f) of None \<Rightarrow> None
      | Some (data, n) \<Rightarrow> assemble fs data (off + n))"

text \<open>The part of \<open>Feed\<close> behind the choice of the entry: store the fragment, then drop, keep or finish.\<close>

definition Feed_store :: "Defragger \<Rightarrow> instant \<Rightarrow> UDPMessage \<Rightarrow> defraggerEntry \<Rightarrow> (Defragger \<times> UDPMessage option) option" where
  "Feed_store d now m e =
     (if unat (FragID m) < length (e_frags e)
      then let e = e\<lparr>e_frags := (e_frags e)[unat (FragID m) := Some m], e_count := e_count e + 1,
                     e_size := e_size e + length (Data m), e_last := now\<rparr>
           in if e_size e > defraggerMaxMessageSize
              then Some (d\<lparr>d_entries := AList.delete (PacketID m) (d_entries d)\<rparr>, None)
              else if unat (e_count e) \<noteq> length (e_frags e)
              then Some (d\<lparr>d_entries := AList.update (PacketID m) e (d_entries d)\<rparr>, None)
              else (case assemble (e_frags e) (make_bytes (e_size e)) 0 of None \<Rightarrow> None
                    | Some data \<Rightarrow>
                        Some (d\<lparr>d_entries := AList.delete (PacketID m) (d_entries d)\<rparr>,
                              Some (m\<lparr>Data := data, FragID := 0, FragCount := 1\<rparr>)))
      else None)"

definition newEntry :: "UDPMessage \<Rightarrow> defraggerEntry" where
  "newEntry m = \<lparr>e_frags = replicate (unat (FragCount m)) None, e_count = 0, e_size = 0, e_last = 0\<rparr>"

definition Feed ::
  "(u16 list \<Rightarrow> u16 list) \<Rightarrow> Defragger \<Rightarrow> instant \<Rightarrow> UDPMessage \<Rightarrow> (Defragger \<times> UDPMessage option) option" where
  "Feed ord d now m =
     (if FragCount m \<le> 1 then Some (d, Some m)
      else if FragID m \<ge> FragCount m then Some (d, None)
      else let d = sweep now (defragger_init d)
           in case map_of (d_entries d) (PacketID m) of
                None \<Rightarrow>
                  Feed_store (if int (length (d_entries d)) \<ge> d_maxEntries d then evictOldest ord d else d)
                    now m (newEntry m)
              | Some e \<Rightarrow>
                  if length (e_frags e) \<noteq> unat (FragCount m)
                  then Feed_store d now m (newEntry m)
                  else (case e_frags e ! unat (FragID m) of
                          Some _ \<Rightarrow> Some (d, None)
                        | None \<Rightarrow> Feed_store d now m e))"


section \<open>Fragmenting: how many pieces, and what they are\<close>

definition frag_pieces :: "nat \<Rightarrow> nat \<Rightarrow> nat" where
  "frag_pieces len p = (len + p - 1) div p"

definition piece :: "UDPMessage \<Rightarrow> nat \<Rightarrow> nat \<Rightarrow> UDPMessage" where
  "piece m p k = m\<lparr>FragID := of_nat k, FragCount := of_nat (frag_pieces (length (Data m)) p),
                   Data := take p (drop (k * p) (Data m))\<rparr>"

lemma frag_pieces_bounds:
  assumes "0 < p"
  shows "len \<le> frag_pieces len p * p" "k < frag_pieces len p \<Longrightarrow> k * p < len"
proof -
  have d: "frag_pieces len p * p + (len + p - 1) mod p = len + p - 1"
    unfolding frag_pieces_def by (rule div_mult_mod_eq)
  have "(len + p - 1) mod p \<le> p - 1"
    using mod_less_divisor [OF assms, of "len + p - 1"] by linarith
  then show "len \<le> frag_pieces len p * p"
    using d assms by linarith
  show "k * p < len" if "k < frag_pieces len p"
  proof -
    have "Suc k * p \<le> frag_pieces len p * p" using that by (intro mult_le_mono1) simp
    then show ?thesis using d assms by simp
  qed
qed

lemma concat_pieces:
  assumes "0 < p"
  shows "concat (map (\<lambda>k. take p (drop (k * p) xs)) [0..<n]) = take (n * p) xs"
proof (induction n)
  case (Suc n)
  have "take (Suc n * p) xs = take (n * p) xs @ take p (drop (n * p) xs)"
    using take_add [of "n * p" p xs] by (simp add: add.commute)
  with Suc show ?case by simp
qed simp

lemma payload_min: "(if a > b then b else a) = min a (b::nat)"
  by auto

lemma frag_loop_step:
  assumes "k * p < length (Data m)" and "0 < p" and "k < 256" and "k < length frags"
  shows "frag_loop m p c frags (k * p) (of_nat k)
       = frag_loop m p c (frags[k := m\<lparr>FragID := of_nat k, FragCount := c, Data := take p (drop (k * p) (Data m))\<rparr>])
           (min (Suc k * p) (length (Data m))) (of_nat (Suc k))"
proof -
  have u: "unat (of_nat k :: u8) = k"
    using assms(3) by (simp add: unat_of_nat take_bit_eq_mod)
  have t: "take (min (length (Data m) - k * p) p) (drop (k * p) (Data m)) = take p (drop (k * p) (Data m))"
    by (metis length_drop min.commute take_all_iff take_take min_def order_refl)
  have s: "k * p + min (length (Data m) - k * p) p = min (Suc k * p) (length (Data m))"
    using assms(1) by auto
  show ?thesis
    using assms by (subst frag_loop.simps) (simp add: Let_def payload_min u t s add.commute)
qed

lemma frag_loop_end:
  "length (Data m) \<le> off \<Longrightarrow> frag_loop m p c frags off i = Some frags"
  by (simp add: frag_loop.simps)

lemma frag_loop_fits:
  assumes "0 < p" and "n = frag_pieces (length (Data m)) p" and "n \<le> 255" and "k \<le> n"
  shows "frag_loop m p (of_nat n) (map (piece m p) [0..<k] @ replicate (n - k) z)
           (min (k * p) (length (Data m))) (of_nat k) = Some (map (piece m p) [0..<n])"
  using assms(4)
proof (induction "n - k" arbitrary: k)
  case 0
  then have "length (Data m) \<le> k * p"
    using frag_pieces_bounds(1) [OF assms(1), of "length (Data m)"] assms(2) by simp
  then show ?case using 0 by (simp add: frag_loop_end)
next
  case (Suc d)
  then have k: "k < n" by simp
  have lt: "k * p < length (Data m)"
    using frag_pieces_bounds(2) [OF assms(1), of k "length (Data m)"] k assms(2) by simp
  have upd: "(map (piece m p) [0..<k] @ replicate (n - k) z)[k := piece m p k]
    = map (piece m p) [0..<Suc k] @ replicate (n - Suc k) z"
    using k by (simp add: list_update_append Suc_diff_Suc [symmetric])
  have "frag_loop m p (of_nat n) (map (piece m p) [0..<k] @ replicate (n - k) z) (k * p) (of_nat k)
    = frag_loop m p (of_nat n) (map (piece m p) [0..<Suc k] @ replicate (n - Suc k) z)
        (min (Suc k * p) (length (Data m))) (of_nat (Suc k))"
    using frag_loop_step [OF lt assms(1), of "map (piece m p) [0..<k] @ replicate (n - k) z" "of_nat n"]
      k assms(2,3) upd by (simp add: piece_def)
  then show ?case using Suc.hyps(1) [of "Suc k"] Suc.hyps(2) k lt by simp
qed

lemma frag_loop_overflow:
  assumes "0 < p" and "length frags < 256" and "length frags * p < length (Data m)" and "k \<le> length frags"
  shows "frag_loop m p c frags (k * p) (of_nat k) = None"
  using assms(2-)
proof (induction "length frags - k" arbitrary: k frags)
  case 0
  then have "k = length frags" by simp
  then show ?case
    using 0 assms(1) by (subst frag_loop.simps) (simp add: Let_def unat_of_nat take_bit_eq_mod)
next
  case (Suc d)
  then have k: "k < length frags" by simp
  then have "Suc k * p \<le> length frags * p" by (intro mult_le_mono1) simp
  then have lt: "Suc k * p < length (Data m)" using Suc.prems(2) by linarith
  then have "frag_loop m p c frags (k * p) (of_nat k)
    = frag_loop m p c (frags[k := m\<lparr>FragID := of_nat k, FragCount := c, Data := take p (drop (k * p) (Data m))\<rparr>])
        (Suc k * p) (of_nat (Suc k))"
    using frag_loop_step [of k p m frags c] assms(1) k Suc.prems by simp
  also have "\<dots> = None"
    by (rule Suc.hyps(1)) (use Suc.hyps(2) Suc.prems k in auto)
  finally show ?case .
qed

lemma FragUDPMessage_split:
  assumes "\<not> int (Size qlen m) \<le> maxSize" and "0 < p" and "maxSize - int (HeaderSize qlen m) = int p"
  shows "FragUDPMessage qlen m maxSize =
    (if frag_pieces (length (Data m)) p \<le> 255
     then Some (map (piece m p) [0..<frag_pieces (length (Data m)) p]) else None)"
proof -
  let ?n = "frag_pieces (length (Data m)) p"
  have loop: "FragUDPMessage qlen m maxSize
    = frag_loop m p (of_nat ?n) (replicate (unat (of_nat ?n :: u8)) zeroUDPMessage) 0 0"
    using assms by (simp add: FragUDPMessage_def Let_def frag_pieces_def)
  show ?thesis
  proof (cases "?n \<le> 255")
    case True
    then have "unat (of_nat ?n :: u8) = ?n" by (simp add: unat_of_nat take_bit_eq_mod)
    then show ?thesis
      using True loop frag_loop_fits [OF assms(2) refl True, of 0 zeroUDPMessage] by simp
  next
    case False
    let ?c = "unat (of_nat ?n :: u8)"
    have c: "?c < 256"
      using unsigned_less [of "of_nat ?n :: u8"] by (simp add: unat_of_nat take_bit_eq_mod)
    then have "?c * p < length (Data m)"
      using frag_pieces_bounds(2) [OF assms(2), of ?c "length (Data m)"] False by linarith
    then show ?thesis
      using False loop c frag_loop_overflow [OF assms(2), of "replicate ?c zeroUDPMessage" m 0] by simp
  qed
qed

text \<open>
  \<open>FragUDPMessage\<close> on every branch: a message that fits is returned as it is; a header that
  leaves no room returns no fragment at all; otherwise the message is cut into consecutive
  pieces of at most \<open>maxSize - HeaderSize\<close> bytes, numbered from 0 and counted; and when more
  than 255 pieces are needed the 8-bit count wraps around and the function panics.
\<close>

lemma FragUDPMessage_eq:
  "FragUDPMessage qlen m maxSize =
     (let p = nat (maxSize - int (HeaderSize qlen m))
      in if int (Size qlen m) \<le> maxSize then Some [m]
         else if p = 0 then Some []
         else if frag_pieces (length (Data m)) p \<le> 255
         then Some (map (piece m p) [0..<frag_pieces (length (Data m)) p])
         else None)"
proof (cases "int (Size qlen m) \<le> maxSize \<or> maxSize \<le> int (HeaderSize qlen m)")
  case True
  then show ?thesis by (auto simp: FragUDPMessage_def Let_def)
next
  case False
  then show ?thesis
    using FragUDPMessage_split [of qlen m maxSize "nat (maxSize - int (HeaderSize qlen m))"]
    by (simp add: Let_def)
qed

text \<open>
  C16. \<open>FragUDPMessage\<close> panics (index out of range on a slice whose length wrapped around)
  exactly when the message does not fit, the header leaves room, and more than 255 pieces of
  the room that is left are needed.
\<close>

theorem FragUDPMessage_panics_iff:
  "FragUDPMessage qlen m maxSize = None \<longleftrightarrow>
     maxSize < int (Size qlen m) \<and> int (HeaderSize qlen m) < maxSize
     \<and> 255 < frag_pieces (length (Data m)) (nat (maxSize - int (HeaderSize qlen m)))"
  unfolding FragUDPMessage_eq by (auto simp: Let_def)

text \<open>
  Whenever \<open>FragUDPMessage\<close> returns fragments, the concatenation of their data in the order
  of their numbers is the message's data, each fits the datagram size, carries the message's
  session, packet number and address, and is numbered and counted correctly.
\<close>

theorem FragUDPMessage_lossless:
  assumes "FragUDPMessage qlen m maxSize = Some fs" and "fs \<noteq> []" and "FragID m = 0" and "FragCount m = 1"
  shows "concat (map Data fs) = Data m
    \<and> (\<forall>f \<in> set fs. int (Size qlen f) \<le> maxSize \<and> Addr f = Addr m \<and> SessionID f = SessionID m
           \<and> PacketID f = PacketID m)
    \<and> (\<forall>i < length fs. unat (FragID (fs ! i)) = i \<and> unat (FragCount (fs ! i)) = length fs)"
proof -
  define p where "p = nat (maxSize - int (HeaderSize qlen m))"
  have hs: "HeaderSize qlen (piece m p k) = HeaderSize qlen m" for k
    by (simp add: HeaderSize_def piece_def)
  consider "fs = [m]" "int (Size qlen m) \<le> maxSize"
    | "0 < p" "frag_pieces (length (Data m)) p \<le> 255"
      "fs = map (piece m p) [0..<frag_pieces (length (Data m)) p]"
    using assms(1,2) unfolding FragUDPMessage_eq p_def [symmetric] Let_def
    by (auto split: if_splits)
  then show ?thesis
  proof cases
    case 1
    then show ?thesis using assms(3,4) by simp
  next
    case 2
    have "concat (map Data fs) = take (frag_pieces (length (Data m)) p * p) (Data m)"
      using 2 concat_pieces [OF 2(1), of "Data m"] by (simp add: piece_def o_def)
    then have "concat (map Data fs) = Data m"
      using frag_pieces_bounds(1) [OF 2(1), of "length (Data m)"] by simp
    moreover have "int (Size qlen (piece m p k)) \<le> maxSize" for k
    proof -
      have "length (Data (piece m p k)) \<le> p" by (simp add: piece_def)
      then show ?thesis using 2(1) hs [of k] by (simp add: Size_def p_def)
    qed
    ultimately show ?thesis
      using 2 by (auto simp: piece_def unat_of_nat take_bit_eq_mod)
  qed
qed

lemma FragUDPMessage_length: "FragUDPMessage qlen m maxSize = Some fs \<Longrightarrow> length fs < 256"
  unfolding FragUDPMessage_eq by (auto simp: Let_def split: if_splits)

lemma FragUDPMessage_pieces:
  assumes "FragUDPMessage qlen m maxSize = Some fs" and "2 \<le> length fs"
  shows "concat (map Data fs) = Data m
    \<and> (\<forall>i < length fs. unat (FragID (fs ! i)) = i \<and> unat (FragCount (fs ! i)) = length fs)
    \<and> (\<forall>f \<in> set fs. \<exists>k dat. f = m\<lparr>FragID := k, FragCount := of_nat (length fs), Data := dat\<rparr>)"
proof -
  define p where "p = nat (maxSize - int (HeaderSize qlen m))"
  have p: "0 < p" "frag_pieces (length (Data m)) p \<le> 255"
    "fs = map (piece m p) [0..<frag_pieces (length (Data m)) p]"
    using assms unfolding FragUDPMessage_eq p_def [symmetric] Let_def
    by (auto split: if_splits)
  have "concat (map Data fs) = take (frag_pieces (length (Data m)) p * p) (Data m)"
    using p concat_pieces [OF p(1), of "Data m"] by (simp add: piece_def o_def)
  then have "concat (map Data fs) = Data m"
    using frag_pieces_bounds(1) [OF p(1), of "length (Data m)"] by simp
  then show ?thesis
    using p by (auto simp: piece_def unat_of_nat take_bit_eq_mod)
qed

definition demo_msg :: UDPMessage where
  "demo_msg = \<lparr>SessionID = 7, PacketID = 9, FragID = 0, FragCount = 1, Addr = ''h:53'', Data = [1, 2, 3, 4, 5]\<rparr>"

definition demo_frags :: "UDPMessage list" where
  "demo_frags = [demo_msg\<lparr>FragID := 0, FragCount := 3, Data := [1, 2]\<rparr>,
                 demo_msg\<lparr>FragID := 1, FragCount := 3, Data := [3, 4]\<rparr>,
                 demo_msg\<lparr>FragID := 2, FragCount := 3, Data := [5]\<rparr>]"

lemma demo_frags: "FragUDPMessage rfc9000_len demo_msg 15 = Some demo_frags"
  unfolding FragUDPMessage_eq
  by (simp add: demo_msg_def demo_frags_def HeaderSize_def Size_def rfc9000_len_def frag_pieces_def
      piece_def Let_def upt_rec)

theorem FragUDPMessage_lossless_witness:
  "FragUDPMessage rfc9000_len demo_msg 15 = Some demo_frags
    \<and> concat (map Data demo_frags) = Data demo_msg"
  using FragUDPMessage_lossless [OF demo_frags] demo_frags
  by (simp add: demo_frags_def demo_msg_def)


section \<open>The defragger's table\<close>

definition frags_size :: "UDPMessage option list \<Rightarrow> nat" where
  "frags_size fs = sum_list (map (\<lambda>f. case f of None \<Rightarrow> 0 | Some m \<Rightarrow> length (Data m)) fs)"

definition frags_count :: "UDPMessage option list \<Rightarrow> nat" where
  "frags_count fs = length (filter (\<lambda>f. f \<noteq> None) fs)"

definition entry_ok :: "u16 \<Rightarrow> defraggerEntry \<Rightarrow> bool" where
  "entry_ok k e \<longleftrightarrow>
     2 \<le> length (e_frags e) \<and> length (e_frags e) < 256
     \<and> unat (e_count e) = frags_count (e_frags e) \<and> frags_count (e_frags e) < length (e_frags e)
     \<and> e_size e = frags_size (e_frags e) \<and> e_size e \<le> defraggerMaxMessageSize
     \<and> (\<forall>i < length (e_frags e). \<forall>m. e_frags e ! i = Some m \<longrightarrow>
          unat (FragID m) = i \<and> unat (FragCount m) = length (e_frags e) \<and> PacketID m = k)"

text \<open>
  The invariant: one entry per key, every entry incomplete and consistent with the fragments it
  holds, and, once the limits are set, no more entries than the limit.
\<close>

definition defragger_ok :: "Defragger \<Rightarrow> bool" where
  "defragger_ok d \<longleftrightarrow>
     distinct (map fst (d_entries d)) \<and> (\<forall>(k, e) \<in> set (d_entries d). entry_ok k e)
     \<and> 0 < d_timeout d \<and> 0 < d_maxEntries d \<and> int (length (d_entries d)) \<le> d_maxEntries d"

text \<open>Reassembly by copying is concatenation, as long as the buffer has the summed size.\<close>

lemma assemble_concat:
  assumes "None \<notin> set fs"
  shows "assemble fs (pre @ make_bytes (frags_size fs + k)) (length pre)
       = Some (pre @ concat (map (Data \<circ> the) fs) @ make_bytes k)"
  using assms
proof (induction fs arbitrary: pre)
  case Nil
  then show ?case by (simp add: frags_size_def)
next
  case (Cons f fs)
  then obtain m where f: "f = Some m" by (cases f) auto
  have "go_copy (pre @ make_bytes (frags_size (f # fs) + k)) (length pre) (Data m)
      = Some ((pre @ Data m) @ make_bytes (frags_size fs + k), length (Data m))"
    using go_copy_fresh [of "length pre" pre "Data m" "frags_size (f # fs) + k"] f
    by (simp add: frags_size_def)
  then show ?case
    using Cons.IH [of "pre @ Data m"] Cons.prems f by simp
qed

lemma frags_count_full: "frags_count fs = length fs \<longleftrightarrow> None \<notin> set fs"
proof (induction fs)
  case (Cons f fs)
  then show ?case
    using length_filter_le [of "\<lambda>f. f \<noteq> None" fs]
    by (cases f) (auto simp: frags_count_def simp del: length_filter_le)
qed (simp add: frags_count_def)

lemma frags_count_le: "frags_count fs \<le> length fs"
  by (simp add: frags_count_def)

lemma frags_update:
  assumes "i < length fs" and "fs ! i = None"
  shows "frags_count (fs[i := Some m]) = Suc (frags_count fs)"
    and "frags_size (fs[i := Some m]) = frags_size fs + length (Data m)"
  using assms
  by (induction fs arbitrary: i) (auto simp: frags_count_def frags_size_def nth_Cons split: nat.splits)

lemma oldest_scan_min:
  assumes "\<forall>i t. acc = Some (i, t) \<longrightarrow> (\<exists>e. m i = Some e \<and> e_last e = t)"
  shows "case oldest_scan m is acc of
      None \<Rightarrow> acc = None \<and> (\<forall>j \<in> set is. m j = None)
    | Some (i, t) \<Rightarrow> (\<exists>e. m i = Some e \<and> e_last e = t) \<and> (\<forall>i' t'. acc = Some (i', t') \<longrightarrow> t \<le> t')
        \<and> (\<forall>j \<in> set is. \<forall>e. m j = Some e \<longrightarrow> t \<le> e_last e)"
  using assms
proof (induction "is" arbitrary: acc)
  case Nil
  then show ?case by (auto split: option.splits)
next
  case (Cons i "is")
  show ?case
  proof (cases "m i")
    case None
    then show ?thesis using Cons.IH [OF Cons.prems] by (auto split: option.splits)
  next
    case (Some e)
    let ?acc = "case acc of None \<Rightarrow> Some (i, e_last e)
      | Some (oid, old) \<Rightarrow> if e_last e < old then Some (i, e_last e) else Some (oid, old)"
    have "\<forall>i t. ?acc = Some (i, t) \<longrightarrow> (\<exists>e. m i = Some e \<and> e_last e = t)"
      using Some Cons.prems by (auto split: option.splits if_splits)
    from Cons.IH [OF this] show ?thesis
      using Some by (fastforce split: option.splits if_splits)
  qed
qed

text \<open>Eviction makes room: it removes one entry, and one that was updated least recently.\<close>

lemma evictOldest_removes:
  assumes "distinct (map fst (d_entries d))" and "d_entries d \<noteq> []" and "\<And>ks. set (ord ks) = set ks"
  obtains k e where "(k, e) \<in> set (d_entries d)" and "\<forall>(k', e') \<in> set (d_entries d). e_last e \<le> e_last e'"
    and "evictOldest ord d = d\<lparr>d_entries := AList.delete k (d_entries d)\<rparr>"
    and "length (d_entries (evictOldest ord d)) = length (d_entries d) - 1"
proof -
  let ?m = "map_of (d_entries d)"
  let ?ks = "ord (map fst (d_entries d))"
  have dom: "(k, e) \<in> set (d_entries d) \<longleftrightarrow> ?m k = Some e" for k e
    using assms(1) by simp
  obtain k0 e0 where "(k0, e0) \<in> set (d_entries d)"
    using assms(2) by (cases "d_entries d") auto
  then have ex: "k0 \<in> set ?ks" "?m k0 = Some e0"
    using assms(1,3) by force+
  from ex oldest_scan_min [of None ?m ?ks] obtain k t where
    sc: "oldest_scan ?m ?ks None = Some (k, t)"
    by (cases "oldest_scan ?m ?ks None") auto
  with oldest_scan_min [of None ?m ?ks] obtain e where
    e: "?m k = Some e" "e_last e = t" and least: "\<forall>j \<in> set ?ks. \<forall>e. ?m j = Some e \<longrightarrow> t \<le> e_last e"
    by auto
  have mem: "(k, e) \<in> set (d_entries d)"
    using e dom by simp
  have ev: "evictOldest ord d = d\<lparr>d_entries := AList.delete k (d_entries d)\<rparr>"
    by (simp add: evictOldest_def sc)
  have "length (AList.delete k (d_entries d)) = length (d_entries d) - 1"
    using assms(1) mem by (force simp: length_alist_delete)
  moreover have "\<forall>(k', e') \<in> set (d_entries d). e_last e \<le> e_last e'"
    using least e(2) assms(3) dom by fastforce
  ultimately show thesis
    using that mem ev by simp
qed

text \<open>
  Storing a fragment in an entry that has its place free: the group is dropped when it grew too
  big, kept while fragments are missing, and delivered when it is complete. No branch panics.
\<close>

definition stored :: "instant \<Rightarrow> UDPMessage \<Rightarrow> defraggerEntry \<Rightarrow> defraggerEntry" where
  "stored now m e = e\<lparr>e_frags := (e_frags e)[unat (FragID m) := Some m], e_count := e_count e + 1,
                      e_size := e_size e + length (Data m), e_last := now\<rparr>"

definition delivered :: "UDPMessage \<Rightarrow> UDPMessage option list \<Rightarrow> UDPMessage" where
  "delivered m fs = m\<lparr>Data := concat (map (Data \<circ> the) fs), FragID := 0, FragCount := 1\<rparr>"

definition slot_free :: "UDPMessage \<Rightarrow> defraggerEntry \<Rightarrow> bool" where
  "slot_free m e \<longleftrightarrow> entry_ok (PacketID m) e \<and> length (e_frags e) = unat (FragCount m)
     \<and> unat (FragID m) < length (e_frags e) \<and> e_frags e ! unat (FragID m) = None"

lemma stored_counts:
  assumes "slot_free m e"
  shows "unat (e_count (stored now m e)) = frags_count (e_frags (stored now m e))"
    and "e_size (stored now m e) = frags_size (e_frags (stored now m e))"
    and "frags_count (e_frags (stored now m e)) \<le> length (e_frags e)"
proof -
  have i: "unat (FragID m) < length (e_frags e)" "e_frags e ! unat (FragID m) = None"
    and cnt: "unat (e_count e) = frags_count (e_frags e)" "frags_count (e_frags e) < length (e_frags e)"
      "length (e_frags e) < 256" and sz: "e_size e = frags_size (e_frags e)"
    using assms by (auto simp: slot_free_def entry_ok_def)
  have "unat (e_count e + 1) = Suc (unat (e_count e))"
    using cnt by (simp add: unat_word_ariths)
  then show "unat (e_count (stored now m e)) = frags_count (e_frags (stored now m e))"
    using i cnt by (simp add: stored_def frags_update)
  show "e_size (stored now m e) = frags_size (e_frags (stored now m e))"
    using i sz by (simp add: stored_def frags_update)
  show "frags_count (e_frags (stored now m e)) \<le> length (e_frags e)"
    using frags_count_le [of "e_frags (stored now m e)"] by (simp add: stored_def)
qed

lemma stored_entry_ok:
  assumes "slot_free m e" and "e_size (stored now m e) \<le> defraggerMaxMessageSize"
    and "frags_count (e_frags (stored now m e)) < length (e_frags e)"
  shows "entry_ok (PacketID m) (stored now m e)"
proof -
  have ok: "entry_ok (PacketID m) e" and len: "length (e_frags (stored now m e)) = length (e_frags e)"
    and slot: "length (e_frags e) = unat (FragCount m)"
    using assms(1) by (simp_all add: slot_free_def stored_def)
  have "unat (FragID m') = i \<and> unat (FragCount m') = length (e_frags e) \<and> PacketID m' = PacketID m"
    if "i < length (e_frags e)" "e_frags (stored now m e) ! i = Some m'" for i m'
  proof (cases "i = unat (FragID m)")
    case True
    then show ?thesis using that slot by (simp add: stored_def)
  next
    case False
    then show ?thesis using that ok by (simp add: stored_def entry_ok_def)
  qed
  then show ?thesis
    using stored_counts [OF assms(1), of now] assms(2,3) ok
    unfolding entry_ok_def len by simp
qed

lemma Feed_store_cases:
  assumes "slot_free m e"
  shows "Feed_store d now m e = Some
    (if e_size (stored now m e) > defraggerMaxMessageSize
     then (d\<lparr>d_entries := AList.delete (PacketID m) (d_entries d)\<rparr>, None)
     else if frags_count (e_frags (stored now m e)) < length (e_frags e)
     then (d\<lparr>d_entries := AList.update (PacketID m) (stored now m e) (d_entries d)\<rparr>, None)
     else (d\<lparr>d_entries := AList.delete (PacketID m) (d_entries d)\<rparr>,
           Some (delivered m (e_frags (stored now m e)))))"
proof -
  let ?e = "stored now m e"
  have i: "unat (FragID m) < length (e_frags e)" and len: "length (e_frags ?e) = length (e_frags e)"
    using assms by (auto simp: slot_free_def stored_def)
  note c = stored_counts [OF assms, of now]
  have "assemble (e_frags ?e) (make_bytes (e_size ?e)) 0 = Some (concat (map (Data \<circ> the) (e_frags ?e)))"
    if "\<not> frags_count (e_frags ?e) < length (e_frags e)"
  proof -
    have "None \<notin> set (e_frags ?e)"
      using that c(3) frags_count_full [of "e_frags ?e"] len by simp
    from assemble_concat [OF this, of "[]" 0] show ?thesis using c(2) by simp
  qed
  then show ?thesis
    using i len c unfolding Feed_store_def stored_def [symmetric] Let_def delivered_def
    by (auto simp: stored_def)
qed

lemma newEntry_slot_free:
  assumes "1 < FragCount m" and "FragID m < FragCount m"
  shows "slot_free m (newEntry m)"
proof -
  have "2 \<le> unat (FragCount m)" "unat (FragID m) < unat (FragCount m)" "unat (FragCount m) < 256"
    using assms unsigned_less [of "FragCount m"]
    by (auto simp: word_less_nat_alt)
  then show ?thesis
    by (auto simp: slot_free_def entry_ok_def newEntry_def frags_count_def frags_size_def
        defraggerMaxMessageSize_def sum_list_replicate)
qed

lemma Feed_store_defragger_ok:
  assumes d: "defragger_ok d" and free: "slot_free m e"
    and room: "PacketID m \<in> fst ` set (d_entries d) \<or> int (length (d_entries d)) < d_maxEntries d"
  shows "\<exists>d' r. Feed_store d now m e = Some (d', r) \<and> defragger_ok d'"
proof -
  have del: "defragger_ok (d\<lparr>d_entries := AList.delete (PacketID m) (d_entries d)\<rparr>)"
    using d length_delete_le [of "PacketID m" "d_entries d"] by (auto simp: defragger_ok_def)
  have upd: "defragger_ok (d\<lparr>d_entries := AList.update (PacketID m) (stored now m e) (d_entries d)\<rparr>)"
    if "e_size (stored now m e) \<le> defraggerMaxMessageSize"
      "frags_count (e_frags (stored now m e)) < length (e_frags e)"
    using d room stored_entry_ok [OF free that] by (auto simp: defragger_ok_def length_alist_update)
  show ?thesis
    using Feed_store_cases [OF free, of d now] del upd by auto
qed

lemma sweep_init_ok: "defragger_ok d \<Longrightarrow> defragger_ok (sweep now (defragger_init d))"
proof -
  assume d: "defragger_ok d"
  then have "defragger_init d = d"
    by (simp add: defragger_init_def defragger_ok_def)
  moreover have "int (length (filter P (d_entries d))) \<le> d_maxEntries d" for P
    using d length_filter_le [of P "d_entries d"] unfolding defragger_ok_def by linarith
  ultimately show ?thesis
    using d by (auto simp: defragger_ok_def sweep_def intro: distinct_map_filter)
qed

lemma Feed_defragger_ok:
  assumes d: "defragger_ok d" and ord: "\<And>ks. set (ord ks) = set ks"
  shows "\<exists>d' r. Feed ord d now m = Some (d', r) \<and> defragger_ok d'"
proof (cases "FragCount m \<le> 1 \<or> FragID m \<ge> FragCount m")
  case True
  then show ?thesis using d by (auto simp: Feed_def)
next
  case False
  then have fresh: "slot_free m (newEntry m)"
    by (intro newEntry_slot_free) auto
  define s where "s = sweep now (defragger_init d)"
  have s: "defragger_ok s"
    using sweep_init_ok [OF d] by (simp add: s_def)
  show ?thesis
  proof (cases "map_of (d_entries s) (PacketID m)")
    case (Some e)
    then have key: "PacketID m \<in> fst ` set (d_entries s)" and ok: "entry_ok (PacketID m) e"
      using s by (auto simp: defragger_ok_def map_of_in_fst dest: map_of_SomeD)
    have "slot_free m e" if "length (e_frags e) = unat (FragCount m)" "e_frags e ! unat (FragID m) = None"
      using that ok False by (auto simp: slot_free_def not_le word_less_nat_alt)
    then show ?thesis
      using Feed_store_defragger_ok [OF s] key fresh s False Some
      by (auto simp: Feed_def Let_def s_def [symmetric] split: option.splits)
  next
    case None
    let ?d = "if int (length (d_entries s)) \<ge> d_maxEntries s then evictOldest ord s else s"
    have "defragger_ok ?d \<and> int (length (d_entries ?d)) < d_maxEntries ?d"
    proof (cases "int (length (d_entries s)) \<ge> d_maxEntries s")
      case True
      then have ne: "d_entries s \<noteq> []" using s by (auto simp: defragger_ok_def)
      have "distinct (map fst (d_entries s))" using s by (simp add: defragger_ok_def)
      from evictOldest_removes [OF this ne ord] obtain k where
        ev: "evictOldest ord s = s\<lparr>d_entries := AList.delete k (d_entries s)\<rparr>"
        "length (d_entries (evictOldest ord s)) = length (d_entries s) - 1" by metis
      moreover have "0 < length (d_entries s)" using ne by simp
      ultimately show ?thesis using s True by (auto simp: defragger_ok_def)
    qed (use s in auto)
    then show ?thesis
      using Feed_store_defragger_ok [OF _ fresh, of ?d now] False None
      by (auto simp: Feed_def Let_def s_def [symmetric])
  qed
qed


section \<open>Runs of the defragger\<close>

fun feed_all ::
  "(u16 list \<Rightarrow> u16 list) \<Rightarrow> Defragger \<Rightarrow> (instant \<times> UDPMessage) list \<Rightarrow> (Defragger \<times> UDPMessage option list) option" where
  "feed_all ord d [] = Some (d, [])"
| "feed_all ord d ((t, m) # xs) =
     (case Feed ord d t m of None \<Rightarrow> None
      | Some (d, r) \<Rightarrow> (case feed_all ord d xs of None \<Rightarrow> None | Some (d, rs) \<Rightarrow> Some (d, r # rs)))"

definition held_bytes :: "Defragger \<Rightarrow> nat" where
  "held_bytes d = sum_list (map (frags_size \<circ> e_frags \<circ> snd) (d_entries d))"

lemma NewDefragger_ok: "defragger_ok NewDefragger" and NewDefragger_max: "d_maxEntries NewDefragger = 8"
  by (simp_all add: NewDefragger_def defragger_init_def defragger_ok_def defraggerTimeout_def
      defraggerMaxEntries_def)

lemma Feed_store_limits:
  "Feed_store d now m e = Some (d', r) \<Longrightarrow> d_maxEntries d' = d_maxEntries d \<and> d_timeout d' = d_timeout d"
  by (auto simp: Feed_store_def Let_def split: if_splits option.splits)

lemma evictOldest_limits [simp]:
  "d_maxEntries (evictOldest ord d) = d_maxEntries d" "d_timeout (evictOldest ord d) = d_timeout d"
  by (auto simp: evictOldest_def split: option.splits)

lemma Feed_limits:
  assumes "defragger_ok d" and "Feed ord d now m = Some (d', r)"
  shows "d_maxEntries d' = d_maxEntries d" "d_timeout d' = d_timeout d"
proof -
  have "defragger_init d = d" using assms(1) by (simp add: defragger_init_def defragger_ok_def)
  then have "d_maxEntries d' = d_maxEntries d \<and> d_timeout d' = d_timeout d"
    using assms(2)
    by (auto simp: Feed_def Let_def sweep_def split: if_splits option.splits dest!: Feed_store_limits)
  then show "d_maxEntries d' = d_maxEntries d" "d_timeout d' = d_timeout d" by simp_all
qed

lemma feed_all_ok:
  assumes "defragger_ok d" and "\<And>ks. set (ord ks) = set ks"
  shows "\<exists>d' rs. feed_all ord d xs = Some (d', rs) \<and> defragger_ok d' \<and> d_maxEntries d' = d_maxEntries d"
  using assms(1)
proof (induction xs arbitrary: d)
  case (Cons x xs)
  obtain t m where x: "x = (t, m)" by (cases x)
  obtain d1 r where 1: "Feed ord d t m = Some (d1, r)" "defragger_ok d1"
    using Feed_defragger_ok [OF Cons.prems assms(2)] by blast
  then show ?case
    using Cons.IH [OF 1(2)] Feed_limits [OF Cons.prems 1(1)] x by auto
qed simp

lemma held_bytes_bound:
  assumes "defragger_ok d"
  shows "held_bytes d \<le> length (d_entries d) * defraggerMaxMessageSize"
proof -
  have "\<forall>x \<in> set (map (frags_size \<circ> e_frags \<circ> snd) (d_entries d)). x \<le> defraggerMaxMessageSize"
    using assms by (force simp: defragger_ok_def entry_ok_def)
  then show ?thesis
    using sum_list_mono [of "d_entries d" "frags_size \<circ> e_frags \<circ> snd" "\<lambda>_. defraggerMaxMessageSize"]
    by (simp add: held_bytes_def sum_list_triv o_def)
qed

text \<open>
  Whatever a peer sends, at whatever times, and in whatever order Go iterates over its map:
  a fresh defragger never panics, never tracks more than 8 groups, never holds more than
  8 times 65535 bytes of fragments, and every group it still holds is incomplete.
\<close>

theorem defragger_bounded:
  assumes ord: "\<And>ks. set (ord ks) = set ks"
  shows "\<exists>d rs. feed_all ord NewDefragger xs = Some (d, rs)
           \<and> length (d_entries d) \<le> 8 \<and> held_bytes d \<le> 8 * 65535
           \<and> (\<forall>(k, e) \<in> set (d_entries d). None \<in> set (e_frags e))"
proof -
  obtain d rs where d: "feed_all ord NewDefragger xs = Some (d, rs)" "defragger_ok d"
    "d_maxEntries d = 8"
    using feed_all_ok [OF NewDefragger_ok ord, of xs] NewDefragger_max by auto
  then have len: "length (d_entries d) \<le> 8" by (simp add: defragger_ok_def)
  have "held_bytes d \<le> length (d_entries d) * 65535"
    using held_bytes_bound [OF d(2)] by (simp add: defraggerMaxMessageSize_def)
  also have "\<dots> \<le> 8 * 65535" using len by (rule mult_le_mono1)
  finally have "held_bytes d \<le> 8 * 65535" .
  moreover have "None \<in> set (e_frags e)" if "(k, e) \<in> set (d_entries d)" for k e
    using that d(2) frags_count_full [of "e_frags e"] by (fastforce simp: defragger_ok_def entry_ok_def)
  ultimately show ?thesis using d len by auto
qed

theorem defragger_bounded_witness:
  "\<exists>d rs. feed_all rev NewDefragger (map (\<lambda>f. (0, f)) (rev demo_frags)) = Some (d, rs)
     \<and> length (d_entries d) \<le> 8 \<and> held_bytes d \<le> 8 * 65535
     \<and> (\<forall>(k, e) \<in> set (d_entries d). None \<in> set (e_frags e))"
  by (rule defragger_bounded) simp


section \<open>Reassembly in any order\<close>

text \<open>
  A group as \<open>FragUDPMessage\<close> makes it: numbered in place, counted, of one packet, and of a
  total size the defragger accepts. \<open>partial\<close> is what an entry holds once the fragments of the
  set \<open>S\<close> have arrived.
\<close>

definition frag_group :: "u16 \<Rightarrow> UDPMessage list \<Rightarrow> bool" where
  "frag_group pid fs \<longleftrightarrow> 2 \<le> length fs \<and> length fs < 256
     \<and> (\<forall>i < length fs. unat (FragID (fs ! i)) = i \<and> unat (FragCount (fs ! i)) = length fs
          \<and> PacketID (fs ! i) = pid)
     \<and> length (concat (map Data fs)) \<le> defraggerMaxMessageSize"

definition partial :: "UDPMessage list \<Rightarrow> UDPMessage set \<Rightarrow> UDPMessage option list" where
  "partial fs S = map (\<lambda>f. if f \<in> S then Some f else None) fs"

lemma frag_group_distinct: "frag_group pid fs \<Longrightarrow> distinct fs"
  by (metis distinct_conv_nth frag_group_def)

lemma frag_group_memberE:
  assumes "frag_group pid fs" and "f \<in> set fs"
  obtains i where "i < length fs" and "f = fs ! i" and "unat (FragID f) = i"
    and "unat (FragCount f) = length fs" and "PacketID f = pid"
  using assms by (auto simp: in_set_conv_nth frag_group_def)

lemma partial_update:
  assumes "frag_group pid fs" and "f \<in> set fs"
  shows "(partial fs S)[unat (FragID f) := Some f] = partial fs (insert f S)"
proof -
  obtain i where i: "i < length fs" "f = fs ! i" "unat (FragID f) = i"
    using frag_group_memberE [OF assms] by metis
  show ?thesis
    unfolding i(3)
  proof (rule nth_equalityI)
    fix j assume "j < length ((partial fs S)[i := Some f])"
    then show "(partial fs S)[i := Some f] ! j = partial fs (insert f S) ! j"
      using i frag_group_distinct [OF assms(1)]
      by (cases "j = i") (auto simp: partial_def nth_eq_iff_index_eq)
  qed (simp add: partial_def)
qed

lemma partial_full: "partial fs (set fs) = map Some fs"
  by (simp add: partial_def)

lemma None_in_partial: "None \<in> set (partial fs S) \<longleftrightarrow> \<not> set fs \<subseteq> S"
  by (auto simp: partial_def image_iff)

lemma frags_size_partial: "frags_size (partial fs S) \<le> length (concat (map Data fs))"
  by (induction fs) (auto simp: partial_def frags_size_def)

text \<open>One fragment of the group arrives at an entry that holds the fragments of \<open>S\<close>.\<close>

lemma store_group_member:
  assumes g: "frag_group pid fs" and f: "f \<in> set fs" "f \<notin> S" and S: "S \<subseteq> set fs"
    and e: "entry_ok pid e" "e_frags e = partial fs S" and d: "distinct (map fst (d_entries d))"
  shows "if insert f S = set fs
    then \<exists>d'. Feed_store d now f e = Some (d', Some (delivered f (map Some fs)))
    else \<exists>d' e'. Feed_store d now f e = Some (d', None) \<and> map_of (d_entries d') pid = Some e'
           \<and> e_frags e' = partial fs (insert f S) \<and> e_last e' = now"
proof -
  obtain i where i: "i < length fs" "f = fs ! i" "unat (FragID f) = i"
    "unat (FragCount f) = length fs" "PacketID f = pid"
    using frag_group_memberE [OF g f(1)] by metis
  have free: "slot_free f e"
    using e i f by (simp add: slot_free_def partial_def)
  have fr: "e_frags (stored now f e) = partial fs (insert f S)"
    using partial_update [OF g f(1)] e(2) by (simp add: stored_def)
  have small: "e_size (stored now f e) \<le> defraggerMaxMessageSize"
    using stored_counts(2) [OF free, of now] fr frags_size_partial [of fs "insert f S"] g
    by (simp add: frag_group_def)
  have full: "frags_count (partial fs (insert f S)) < length (e_frags e) \<longleftrightarrow> insert f S \<noteq> set fs"
  proof -
    have "frags_count (partial fs (insert f S)) = length (partial fs (insert f S)) \<longleftrightarrow> insert f S = set fs"
      unfolding frags_count_full None_in_partial using S f(1) by auto
    then show ?thesis
      using frags_count_le [of "partial fs (insert f S)"] e(2) by (auto simp: partial_def)
  qed
  show ?thesis
    using Feed_store_cases [OF free, of d now] small fr full i(5)
    by (auto simp: partial_full update_conv' stored_def)
qed

text \<open>
  The table knows exactly the fragments of \<open>S\<close>: no entry yet, or an entry last updated at \<open>t\<close>.
\<close>

definition holds_partial :: "Defragger \<Rightarrow> u16 \<Rightarrow> UDPMessage list \<Rightarrow> UDPMessage set \<Rightarrow> instant \<Rightarrow> bool" where
  "holds_partial d pid fs S t \<longleftrightarrow>
     (S = {} \<and> map_of (d_entries d) pid = None)
     \<or> (\<exists>e. map_of (d_entries d) pid = Some e \<and> e_frags e = partial fs S \<and> e_last e = t)"

lemma sweep_keeps:
  assumes "distinct (map fst (d_entries d))" and "map_of (d_entries d) k = Some e"
    and "now - e_last e \<le> d_timeout d"
  shows "map_of (d_entries (sweep now d)) k = Some e"
proof -
  have "(k, e) \<in> set (d_entries (sweep now d))"
    using assms by (auto simp: sweep_def dest: map_of_SomeD)
  moreover have "distinct (map fst (d_entries (sweep now d)))"
    using assms(1) by (simp add: sweep_def distinct_map_filter)
  ultimately show ?thesis by simp
qed

lemma sweep_None: "map_of (d_entries d) k = None \<Longrightarrow> map_of (d_entries (sweep now d)) k = None"
  by (force simp: sweep_def map_of_eq_None_iff)

lemma newEntry_partial:
  "frag_group pid fs \<Longrightarrow> f \<in> set fs \<Longrightarrow> e_frags (newEntry f) = partial fs {}"
  by (erule (1) frag_group_memberE) (simp add: newEntry_def partial_def map_replicate_const)

lemma feed_group_member:
  assumes ok: "defragger_ok d" and ord: "\<And>ks. set (ord ks) = set ks" and g: "frag_group pid fs"
    and f: "f \<in> set fs" "f \<notin> S" and S: "S \<subseteq> set fs" and h: "holds_partial d pid fs S t"
    and gap: "now - t \<le> d_timeout d"
  obtains d' r where "Feed ord d now f = Some (d', r)" and "defragger_ok d'" and "d_timeout d' = d_timeout d"
    and "if insert f S = set fs then r = Some (delivered f (map Some fs))
         else r = None \<and> holds_partial d' pid fs (insert f S) now"
proof -
  obtain i where i: "unat (FragID f) = i" "i < length fs" "f = fs ! i" "unat (FragCount f) = length fs" "PacketID f = pid"
    using frag_group_memberE [OF g f(1)] by metis
  have guard: "\<not> FragCount f \<le> 1" "\<not> FragID f \<ge> FragCount f"
    using i g by (auto simp: word_le_nat_alt frag_group_def)
  have init: "defragger_init d = d" and dist: "distinct (map fst (d_entries d))"
    using ok by (simp_all add: defragger_init_def defragger_ok_def)
  obtain d' r where fd: "Feed ord d now f = Some (d', r)" "defragger_ok d'"
    using Feed_defragger_ok [OF ok ord] by blast
  have "\<exists>d0 e0. Feed ord d now f = Feed_store d0 now f e0 \<and> entry_ok pid e0
      \<and> e_frags e0 = partial fs S \<and> distinct (map fst (d_entries d0))"
  proof (cases "map_of (d_entries d) pid")
    case None
    let ?s = "sweep now d"
    let ?d0 = "if int (length (d_entries ?s)) \<ge> d_maxEntries ?s then evictOldest ord ?s else ?s"
    have "S = {}" using h None by (simp add: holds_partial_def)
    moreover have "distinct (map fst (d_entries ?d0))"
      using dist by (auto simp: sweep_def distinct_map_filter evictOldest_def split: option.splits)
    moreover have "entry_ok pid (newEntry f)"
      using newEntry_slot_free [of f] guard i(5) by (auto simp: slot_free_def)
    ultimately show ?thesis
      using guard init sweep_None [OF None, of now] newEntry_partial [OF g f(1)] i(5)
      by (intro exI [of _ ?d0] exI [of _ "newEntry f"]) (simp add: Feed_def Let_def)
  next
    case (Some e)
    then have e: "e_frags e = partial fs S" "e_last e = t" using h by (simp_all add: holds_partial_def)
    have "entry_ok pid e" using ok map_of_SomeD [OF Some] by (auto simp: defragger_ok_def)
    moreover have "e_frags e ! unat (FragID f) = None" using e(1) i f(2) by (simp add: partial_def)
    moreover have "length (e_frags e) = unat (FragCount f)" using e(1) i by (simp add: partial_def)
    moreover have "distinct (map fst (d_entries (sweep now d)))"
      using dist by (simp add: sweep_def distinct_map_filter)
    ultimately show ?thesis
      using guard init sweep_keeps [OF dist Some, of now] gap e i(5)
      by (intro exI [of _ "sweep now d"] exI [of _ e]) (simp add: Feed_def Let_def)
  qed
  then obtain d0 e0 where st: "Feed ord d now f = Feed_store d0 now f e0" "entry_ok pid e0"
    "e_frags e0 = partial fs S" "distinct (map fst (d_entries d0))" by blast
  show thesis
    using that [OF fd Feed_limits(2) [OF ok fd(1)]]
      store_group_member [OF g f S st(2,3,4), of now] st(1) fd(1)
    by (auto simp: holds_partial_def split: if_splits)
qed

fun gaps_within :: "duration \<Rightarrow> instant \<Rightarrow> (instant \<times> UDPMessage) list \<Rightarrow> bool" where
  "gaps_within timeout t [] = True"
| "gaps_within timeout t ((t', _) # xs) = (t' - t \<le> timeout \<and> gaps_within timeout t' xs)"

lemma feed_all_group:
  assumes "defragger_ok d" and ord: "\<And>ks. set (ord ks) = set ks" and g: "frag_group pid fs"
    and "xs \<noteq> []" and "distinct (map snd xs)" and "set (map snd xs) = set fs - S" and "S \<subseteq> set fs"
    and "holds_partial d pid fs S t" and "gaps_within (d_timeout d) t xs"
  shows "\<exists>d'. feed_all ord d xs
    = Some (d', replicate (length xs - 1) None @ [Some (delivered (snd (last xs)) (map Some fs))])"
  using assms(1,4-)
proof (induction xs arbitrary: d S t)
  case (Cons x xs)
  obtain now f where x: "x = (now, f)" by (cases x)
  have f: "f \<in> set fs" "f \<notin> S" and gap: "now - t \<le> d_timeout d"
    using Cons.prems x by auto
  obtain d' r where fd: "Feed ord d now f = Some (d', r)" "defragger_ok d'" "d_timeout d' = d_timeout d"
    and r: "if insert f S = set fs then r = Some (delivered f (map Some fs))
            else r = None \<and> holds_partial d' pid fs (insert f S) now"
    using feed_group_member [OF Cons.prems(1) ord g f Cons.prems(5,6) gap] .
  have rest: "set (map snd xs) = set fs - insert f S"
    using Cons.prems(3,4) x by auto
  show ?case
  proof (cases "xs = []")
    case True
    then have "insert f S = set fs" using rest f(1) Cons.prems(5) by auto
    then show ?thesis using True fd r x by simp
  next
    case False
    then have "insert f S \<noteq> set fs" using rest by auto
    then have r': "r = None" "holds_partial d' pid fs (insert f S) now" using r by simp_all
    obtain d'' where "feed_all ord d' xs
        = Some (d'', replicate (length xs - 1) None @ [Some (delivered (snd (last xs)) (map Some fs))])"
      using Cons.IH [OF fd(2) False _ rest _ r'(2)] Cons.prems f fd(3) x by auto
    then show ?thesis
      using False fd(1) r'(1) x by (cases xs) auto
  qed
qed simp

lemma feed_all_reassembles:
  assumes d: "defragger_ok d" and ord: "\<And>ks. set (ord ks) = set ks"
    and frags: "FragUDPMessage qlen m maxSize = Some fs" "2 \<le> length fs" "FragID m = 0" "FragCount m = 1"
    and size: "length (Data m) \<le> defraggerMaxMessageSize"
    and perm: "mset (map snd xs) = mset fs"
    and new: "map_of (d_entries d) (PacketID m) = None"
    and gaps: "gaps_within (d_timeout d) (fst (hd xs)) xs"
  shows "\<exists>d'. feed_all ord d xs = Some (d', replicate (length fs - 1) None @ [Some m])"
proof -
  have l: "concat (map Data fs) = Data m
    \<and> (\<forall>i < length fs. unat (FragID (fs ! i)) = i \<and> unat (FragCount (fs ! i)) = length fs)
    \<and> (\<forall>f \<in> set fs. \<exists>k dat. f = m\<lparr>FragID := k, FragCount := of_nat (length fs), Data := dat\<rparr>)"
    using FragUDPMessage_pieces [OF frags(1,2)] .
  have g: "frag_group (PacketID m) fs"
  proof -
    have "PacketID (fs ! i) = PacketID m" if i: "i < length fs" for i
    proof -
      obtain k dat where "fs ! i = m\<lparr>FragID := k, FragCount := of_nat (length fs), Data := dat\<rparr>"
        using l nth_mem [OF i] by blast
      then show ?thesis by simp
    qed
    then show ?thesis
      using l frags(2) size FragUDPMessage_length [OF frags(1)] by (simp add: frag_group_def)
  qed
  have set: "set (map snd xs) = set fs" and len: "length xs = length fs"
    using perm mset_eq_setD mset_eq_length [OF perm] by (metis, simp)
  have dist: "distinct (map snd xs)"
    using perm frag_group_distinct [OF g] by (metis mset_eq_imp_distinct_iff)
  have ne: "xs \<noteq> []" using len frags(2) by auto
  obtain d' where run: "feed_all ord d xs
      = Some (d', replicate (length xs - 1) None @ [Some (delivered (snd (last xs)) (map Some fs))])"
    using feed_all_group [OF d ord g ne dist, of "{}" "fst (hd xs)"] set new gaps
    by (auto simp: holds_partial_def)
  have "snd (last xs) \<in> set fs" using ne set by (metis last_in_set last_map list.map_disc_iff)
  then obtain k dat where "snd (last xs) = m\<lparr>FragID := k, FragCount := of_nat (length fs), Data := dat\<rparr>"
    using l by blast
  then have "delivered (snd (last xs)) (map Some fs) = m"
    using l frags(3,4) by (simp add: delivered_def o_def)
  then show ?thesis using run len by simp
qed

text \<open>
  C8. Reassembly: the fragments of one message, fed in any order and at any times no further
  apart than the timeout, to a defragger that knows nothing of that packet number, give no
  message until the last of them and then exactly the message that was fragmented.
\<close>

theorem defragger_reassembles:
  assumes d: "defragger_ok d" and ord: "\<And>ks. set (ord ks) = set ks"
    and frags: "FragUDPMessage qlen m maxSize = Some fs" "2 \<le> length fs" "FragID m = 0" "FragCount m = 1"
    and size: "length (Data m) \<le> defraggerMaxMessageSize"
    and perm: "mset (map snd xs) = mset fs"
    and new: "map_of (d_entries d) (PacketID m) = None"
    and gaps: "gaps_within (d_timeout d) (fst (hd xs)) xs"
  shows "\<exists>d'. feed_all ord d xs = Some (d', replicate (length fs - 1) None @ [Some m])"
  using assms by (rule feed_all_reassembles)

theorem defragger_reassembles_witness:
  "\<exists>d'. feed_all rev NewDefragger [(0, demo_frags ! 2), (Second, demo_frags ! 0), (2 * Second, demo_frags ! 1)]
     = Some (d', [None, None, Some demo_msg])"
proof -
  have "\<exists>d'. feed_all rev NewDefragger [(0, demo_frags ! 2), (Second, demo_frags ! 0), (2 * Second, demo_frags ! 1)]
     = Some (d', replicate (length demo_frags - 1) None @ [Some demo_msg])"
    by (rule defragger_reassembles [OF NewDefragger_ok _ demo_frags])
      (simp_all add: demo_frags_def demo_msg_def defraggerMaxMessageSize_def NewDefragger_def
        defragger_init_def defraggerTimeout_def)
  moreover have "replicate (length demo_frags - 1) None @ [Some demo_msg] = [None, None, Some demo_msg]"
    by (simp add: demo_frags_def numeral_2_eq_2)
  ultimately show ?thesis by simp
qed

end
