(* ===== verification/Server_Udp.thy ===== *)
theory Server_Udp
  imports Frag
begin

text \<open>
  The server's UDP sessions (\<open>core/server/udp.go\<close>). Sessions and sockets live on a heap: a
  session is an index into \<open>sessions\<close>, a socket an index into \<open>sockets\<close>, whose entry says
  whether the program has not closed it yet. The hook, the outbound and the QUIC connection are the
  record \<open>udpIO\<close> of their answers; every step has its own, so an outbound may change its mind.

  Several goroutines share the state. A call of \<open>CloseWithErr\<close> is a pending continuation that runs in two steps,
  the part under \<open>connLock\<close> and then \<open>ExitFunc\<close>; the receive loop's \<open>feed\<close> is the lookup (or creation) and then the \<open>Enqueue\<close>.
  Everything else may happen in between.
\<close>

section \<open>Definitions\<close>

type_synonym err = "string option"

definition maxSessionACLCache :: nat where "maxSessionACLCache = 256"
definition sessionSendQueueLen :: nat where "sessionSendQueueLen = 1024"

datatype send_result = SendOK | TooLarge int | SendErr string

record udpIO =
  io_Hook :: "bytes \<Rightarrow> string \<Rightarrow> string + string"
  io_UDP :: "string \<Rightarrow> err"
  io_CheckUDP :: "string \<Rightarrow> err"
  io_WriteTo :: "nat \<Rightarrow> bytes \<Rightarrow> string \<Rightarrow> err"
  io_SendMessage :: "nat \<Rightarrow> UDPMessage \<Rightarrow> send_result"

record udpSessionEntry =
  ID :: u32
  OverrideAddr :: string
  OriginalAddr :: string
  D :: Defragger
  Last :: instant
  conn :: "nat option"
  closed :: bool
  sendCh :: "UDPMessage list"
  aclCache :: "(string \<times> err) list"

datatype pending = PClose nat err | PExit nat err

datatype event =
    NewEv u32 string
  | ExitEv nat u32 err
  | DialEv nat string string
  | CheckEv nat string err
  | WriteEv nat string bytes
  | SentEv nat UDPMessage

record udpSessionManager =
  sessions :: "udpSessionEntry list"
  sockets :: "bool list"
  mgr_m :: "(u32 \<times> nat) list"
  idleTimeout :: duration
  UDPSessionFeedFailed :: u64
  UDPSessionQueueFull :: u64
  feeding :: "(UDPMessage \<times> nat) option"
  pend :: "pending list"
  events :: "event list"

definition newUDPSessionManager :: "duration \<Rightarrow> udpSessionManager" where
  "newUDPSessionManager idle = \<lparr>sessions = [], sockets = [], mgr_m = [], idleTimeout = idle,
     UDPSessionFeedFailed = 0, UDPSessionQueueFull = 0, feeding = None, pend = [], events = []\<rparr>"

definition newUDPSessionEntry :: "u32 \<Rightarrow> instant \<Rightarrow> udpSessionEntry" where
  "newUDPSessionEntry i now = \<lparr>ID = i, OverrideAddr = [], OriginalAddr = [], D = NewDefragger, Last = now,
     conn = None, closed = False, sendCh = [], aclCache = []\<rparr>"

text \<open>The fields of the session at \<open>i\<close>, an update of it, and the record of what it did.\<close>

abbreviation sess :: "udpSessionManager \<Rightarrow> nat \<Rightarrow> udpSessionEntry" where
  "sess s i \<equiv> sessions s ! i"

definition upd :: "nat \<Rightarrow> (udpSessionEntry \<Rightarrow> udpSessionEntry) \<Rightarrow> udpSessionManager \<Rightarrow> udpSessionManager" where
  "upd i f s = s\<lparr>sessions := (sessions s)[i := f (sess s i)]\<rparr>"

definition noteEv :: "event \<Rightarrow> udpSessionManager \<Rightarrow> udpSessionManager" where
  "noteEv ev s = s\<lparr>events := events s @ [ev]\<rparr>"

subsection \<open>Closing a session\<close>

definition call_CloseWithErr :: "nat \<Rightarrow> err \<Rightarrow> udpSessionManager \<Rightarrow> udpSessionManager" where
  "call_CloseWithErr i e s = s\<lparr>pend := pend s @ [PClose i e]\<rparr>"

definition close_socket :: "nat option \<Rightarrow> udpSessionManager \<Rightarrow> udpSessionManager" where
  "close_socket c s = (case c of None \<Rightarrow> s | Some c \<Rightarrow> s\<lparr>sockets := (sockets s)[c := False]\<rparr>)"

definition CloseWithErr :: "nat \<Rightarrow> err \<Rightarrow> udpSessionManager \<Rightarrow> udpSessionManager" where
  "CloseWithErr i e s =
     (if closed (sess s i) then s
      else let s = upd i (\<lambda>x. x\<lparr>closed := True\<rparr>) s;
               s = close_socket (conn (sess s i)) s
           in s\<lparr>pend := pend s @ [PExit i e]\<rparr>)"

definition exitFunc :: "nat \<Rightarrow> err \<Rightarrow> udpSessionManager \<Rightarrow> udpSessionManager" where
  "exitFunc i e s =
     (let s = noteEv (ExitEv i (ID (sess s i)) e) s
      in s\<lparr>mgr_m := AList.delete (ID (sess s i)) (mgr_m s)\<rparr>)"

subsection \<open>From the client to the target\<close>

definition dialFunc :: "udpIO \<Rightarrow> nat \<Rightarrow> string \<Rightarrow> bytes \<Rightarrow> udpSessionManager
    \<Rightarrow> udpSessionManager \<times> (string + nat \<times> string)" where
  "dialFunc io i addr firstMsgData s =
     (case io_Hook io firstMsgData addr of
        Inl e \<Rightarrow> (s, Inl e)
      | Inr addr' \<Rightarrow>
          let s = noteEv (NewEv (ID (sess s i)) addr') s
          in case io_UDP io addr' of
               Some e \<Rightarrow> (s, Inl e)
             | None \<Rightarrow> (noteEv (DialEv i addr addr') (s\<lparr>sockets := sockets s @ [True]\<rparr>),
                        Inr (length (sockets s), addr')))"

definition initConn :: "udpIO \<Rightarrow> nat \<Rightarrow> UDPMessage \<Rightarrow> udpSessionManager \<Rightarrow> udpSessionManager \<times> err" where
  "initConn io i firstMsg s =
     (if closed (sess s i) then (s, Some ''session is closed'')
      else case dialFunc io i (Addr firstMsg) (Data firstMsg) s of
        (s, Inl e) \<Rightarrow> (call_CloseWithErr i (Some e) s, Some e)
      | (s, Inr (c, actualAddr)) \<Rightarrow>
          let s = upd i (\<lambda>x. x\<lparr>conn := Some c\<rparr>) s;
              s = (if Addr firstMsg \<noteq> actualAddr
                   then upd i (\<lambda>x. x\<lparr>OverrideAddr := actualAddr, OriginalAddr := Addr firstMsg\<rparr>) s else s)
          in (s, None))"

text \<open>\<open>victim\<close> is the key Go's map iteration yields first.\<close>

definition checkAddr :: "udpIO \<Rightarrow> string \<Rightarrow> nat \<Rightarrow> string \<Rightarrow> udpSessionManager \<Rightarrow> udpSessionManager \<times> err" where
  "checkAddr io victim i addr s =
     (case map_of (aclCache (sess s i)) addr of
        Some decision \<Rightarrow> (s, decision)
      | None \<Rightarrow>
          let decision = io_CheckUDP io addr;
              s = noteEv (CheckEv i addr decision) s;
              cache = (if maxSessionACLCache \<le> length (aclCache (sess s i))
                       then AList.delete victim (aclCache (sess s i)) else aclCache (sess s i))
          in (upd i (\<lambda>x. x\<lparr>aclCache := AList.update addr decision cache\<rparr>) s, decision))"

definition WriteTo :: "udpIO \<Rightarrow> nat \<Rightarrow> bytes \<Rightarrow> string \<Rightarrow> udpSessionManager \<Rightarrow> udpSessionManager \<times> err" where
  "WriteTo io i data addr s =
     (case conn (sess s i) of
        None \<Rightarrow> (s, Some ''nil conn'')
      | Some c \<Rightarrow> (noteEv (WriteEv i addr data) s, io_WriteTo io c data addr))"

definition deliver :: "udpIO \<Rightarrow> string \<Rightarrow> nat \<Rightarrow> UDPMessage \<Rightarrow> udpSessionManager \<Rightarrow> udpSessionManager \<times> err" where
  "deliver io victim i dfMsg s =
     (if OverrideAddr (sess s i) \<noteq> [] then WriteTo io i (Data dfMsg) (OverrideAddr (sess s i)) s
      else case checkAddr io victim i (Addr dfMsg) s of
             (s, Some e) \<Rightarrow> (s, Some e)
           | (s, None) \<Rightarrow> WriteTo io i (Data dfMsg) (Addr dfMsg) s)"

definition entry_Feed :: "udpIO \<Rightarrow> string \<Rightarrow> (u16 list \<Rightarrow> u16 list) \<Rightarrow> instant \<Rightarrow> nat \<Rightarrow> UDPMessage
    \<Rightarrow> udpSessionManager \<Rightarrow> (udpSessionManager \<times> err) option" where
  "entry_Feed io victim ord now i msg s =
     (let s = upd i (\<lambda>x. x\<lparr>Last := now\<rparr>) s
      in case Feed ord (D (sess s i)) now msg of
           None \<Rightarrow> None
         | Some (d, None) \<Rightarrow> Some (upd i (\<lambda>x. x\<lparr>D := d\<rparr>) s, None)
         | Some (d, Some dfMsg) \<Rightarrow>
             let s = upd i (\<lambda>x. x\<lparr>D := d\<rparr>) s
             in if conn (sess s i) = None
                then case initConn io i dfMsg s of
                       (s, Some e) \<Rightarrow> Some (s, Some e)
                     | (s, None) \<Rightarrow>
                         let s = (if OverrideAddr (sess s i) = []
                                  then upd i (\<lambda>x. x\<lparr>aclCache := [(Addr dfMsg, None)]\<rparr>) s else s)
                         in Some (deliver io victim i dfMsg s)
                else Some (deliver io victim i dfMsg s))"

text \<open>One turn of \<open>sendLoop\<close> that takes a message.\<close>

definition sendLoop :: "udpIO \<Rightarrow> string \<Rightarrow> (u16 list \<Rightarrow> u16 list) \<Rightarrow> instant \<Rightarrow> nat
    \<Rightarrow> udpSessionManager \<Rightarrow> udpSessionManager option" where
  "sendLoop io victim ord now i s =
     (case sendCh (sess s i) of
        [] \<Rightarrow> Some s
      | msg # rest \<Rightarrow>
          (case entry_Feed io victim ord now i msg (upd i (\<lambda>x. x\<lparr>sendCh := rest\<rparr>) s) of
             None \<Rightarrow> None
           | Some (s, None) \<Rightarrow> Some s
           | Some (s, Some e) \<Rightarrow> Some (s\<lparr>UDPSessionFeedFailed := UDPSessionFeedFailed s + 1\<rparr>)))"

text \<open>Go's \<open>select\<close> may take either ready case; \<open>pick_done\<close> says which when both are.\<close>

definition Enqueue :: "bool \<Rightarrow> instant \<Rightarrow> nat \<Rightarrow> UDPMessage \<Rightarrow> udpSessionManager \<Rightarrow> udpSessionManager" where
  "Enqueue pick_done now i msg s =
     (let s = upd i (\<lambda>x. x\<lparr>Last := now\<rparr>) s;
          room = length (sendCh (sess s i)) < sessionSendQueueLen
      in if closed (sess s i) \<and> (pick_done \<or> \<not> room) then s
         else if room then upd i (\<lambda>x. x\<lparr>sendCh := sendCh x @ [msg]\<rparr>) s
         else s\<lparr>UDPSessionQueueFull := UDPSessionQueueFull s + 1\<rparr>)"

text \<open>\<open>feed\<close> up to the call of \<open>Enqueue\<close>: the session is found or created.\<close>

definition feed :: "instant \<Rightarrow> UDPMessage \<Rightarrow> udpSessionManager \<Rightarrow> udpSessionManager" where
  "feed now msg s =
     (case map_of (mgr_m s) (SessionID msg) of
        Some i \<Rightarrow> s\<lparr>feeding := Some (msg, i)\<rparr>
      | None \<Rightarrow>
          let i = length (sessions s)
          in s\<lparr>sessions := sessions s @ [newUDPSessionEntry (SessionID msg) now],
               mgr_m := AList.update (SessionID msg) i (mgr_m s), feeding := Some (msg, i)\<rparr>)"

subsection \<open>From the target to the client\<close>

fun send_frags :: "(nat \<Rightarrow> UDPMessage \<Rightarrow> send_result) \<Rightarrow> nat \<Rightarrow> UDPMessage list \<Rightarrow> UDPMessage list \<times> send_result" where
  "send_frags send k [] = ([], SendOK)"
| "send_frags send k (f # fs) =
     (case send k f of
        SendOK \<Rightarrow> let (sent, r) = send_frags send (Suc k) fs in (f # sent, r)
      | r \<Rightarrow> ([], r))"

definition sendMessageAutoFrag :: "(u64 \<Rightarrow> nat) \<Rightarrow> nat \<Rightarrow> (nat \<Rightarrow> UDPMessage \<Rightarrow> send_result) \<Rightarrow> UDPMessage
    \<Rightarrow> (UDPMessage list \<times> send_result) option" where
  "sendMessageAutoFrag qlen rnd send msg =
     (case send 0 msg of
        TooLarge n \<Rightarrow>
          let msg = msg\<lparr>PacketID := of_nat rnd + 1\<rparr>
          in (case FragUDPMessage qlen msg n of None \<Rightarrow> None | Some fMsgs \<Rightarrow> Some (send_frags send 1 fMsgs))
      | SendOK \<Rightarrow> Some ([msg], SendOK)
      | r \<Rightarrow> Some ([], r))"

definition err_of :: "send_result \<Rightarrow> err" where
  "err_of r = (case r of SendOK \<Rightarrow> None | TooLarge _ \<Rightarrow> Some ''message too large'' | SendErr e \<Rightarrow> Some e)"

definition receiveLoop :: "(u64 \<Rightarrow> nat) \<Rightarrow> nat \<Rightarrow> udpIO \<Rightarrow> instant \<Rightarrow> nat \<Rightarrow> string + bytes \<times> string
    \<Rightarrow> udpSessionManager \<Rightarrow> udpSessionManager option" where
  "receiveLoop qlen rnd io now i r s =
     (case r of
        Inl e \<Rightarrow> Some (call_CloseWithErr i (Some e) s)
      | Inr (data, rAddr) \<Rightarrow>
          let s = upd i (\<lambda>x. x\<lparr>Last := now\<rparr>) s;
              rAddr = (if OriginalAddr (sess s i) \<noteq> [] then OriginalAddr (sess s i) else rAddr);
              msg = \<lparr>SessionID = ID (sess s i), PacketID = 0, FragID = 0, FragCount = 1, Addr = rAddr, Data = data\<rparr>
          in (case sendMessageAutoFrag qlen rnd (io_SendMessage io) msg of
                None \<Rightarrow> None
              | Some (sent, res) \<Rightarrow>
                  let s = fold (\<lambda>m. noteEv (SentEv i m)) sent s
                  in Some (if res = SendOK then s else call_CloseWithErr i (err_of res) s)))"

subsection \<open>Cleaning up\<close>

definition cleanup :: "bool \<Rightarrow> instant \<Rightarrow> udpSessionManager \<Rightarrow> udpSessionManager" where
  "cleanup idleOnly now s =
     fold (\<lambda>i. call_CloseWithErr i None)
       (filter (\<lambda>i. \<not> idleOnly \<or> now - Last (sess s i) > idleTimeout s) (map snd (mgr_m s))) s"

definition Count :: "udpSessionManager \<Rightarrow> nat" where "Count s = length (mgr_m s)"

subsection \<open>The interleavings\<close>

inductive server_step :: "udpSessionManager \<Rightarrow> udpSessionManager \<Rightarrow> bool" where
  receive: "feeding s = None \<Longrightarrow> server_step s (feed now msg s)"
| enqueue: "feeding s = Some (msg, i) \<Longrightarrow> server_step s ((Enqueue pd now i msg s)\<lparr>feeding := None\<rparr>)"
| send: "i < length (sessions s) \<Longrightarrow> (\<And>ks. set (ord ks) = set ks) \<Longrightarrow>
    length (aclCache (sess s i)) = 0 \<or> victim \<in> fst ` set (aclCache (sess s i)) \<Longrightarrow>
    sendLoop io victim ord now i s = Some s' \<Longrightarrow> server_step s s'"
| target: "i < length (sessions s) \<Longrightarrow> conn (sess s i) \<noteq> None \<Longrightarrow>
    receiveLoop qlen rnd io now i r s = Some s' \<Longrightarrow> server_step s s'"
| close: "PClose i e \<in> set (pend s) \<Longrightarrow>
    server_step s (CloseWithErr i e (s\<lparr>pend := remove1 (PClose i e) (pend s)\<rparr>))"
| exit: "PExit i e \<in> set (pend s) \<Longrightarrow>
    server_step s (exitFunc i e (s\<lparr>pend := remove1 (PExit i e) (pend s)\<rparr>))"
| clean: "server_step s (cleanup idleOnly now s)"

inductive server_reach :: "duration \<Rightarrow> udpSessionManager \<Rightarrow> bool" for idle where
  start: "server_reach idle (newUDPSessionManager idle)"
| step: "server_reach idle s \<Longrightarrow> server_step s s' \<Longrightarrow> server_reach idle s'"

inductive_cases server_stepE: "server_step s s'"


section \<open>The life cycle of sessions and sockets\<close>

text \<open>
  The abstract contract: what matters of a session is its identifier, its socket and whether it is closed.
  A session may be created when its identifier is free, may dial once while it is not closed,
  is closed at most once, and leaves the map when its exit has run.
\<close>

record life =
  l_ids :: "u32 list"
  l_conn :: "nat option list"
  l_closed :: "bool list"
  l_socks :: "bool list"
  l_map :: "(u32 \<times> nat) list"
  l_pend :: "pending list"
  l_exits :: "nat list"

inductive life_step :: "life \<Rightarrow> life \<Rightarrow> bool" where
  create: "map_of (l_map a) k = None \<Longrightarrow>
    life_step a (a\<lparr>l_ids := l_ids a @ [k], l_conn := l_conn a @ [None], l_closed := l_closed a @ [False],
      l_map := AList.update k (length (l_ids a)) (l_map a)\<rparr>)"
| ask: "i < length (l_ids a) \<Longrightarrow> life_step a (a\<lparr>l_pend := l_pend a @ [PClose i e]\<rparr>)"
| dial: "i < length (l_ids a) \<Longrightarrow> l_conn a ! i = None \<Longrightarrow> \<not> l_closed a ! i \<Longrightarrow>
    life_step a (a\<lparr>l_socks := l_socks a @ [True], l_conn := (l_conn a)[i := Some (length (l_socks a))]\<rparr>)"
| shut: "PClose i e \<in> set (l_pend a) \<Longrightarrow> \<not> l_closed a ! i \<Longrightarrow>
    life_step a (a\<lparr>l_closed := (l_closed a)[i := True],
      l_socks := (case l_conn a ! i of None \<Rightarrow> l_socks a | Some c \<Rightarrow> (l_socks a)[c := False]),
      l_pend := remove1 (PClose i e) (l_pend a) @ [PExit i e]\<rparr>)"
| again: "PClose i e \<in> set (l_pend a) \<Longrightarrow> l_closed a ! i \<Longrightarrow>
    life_step a (a\<lparr>l_pend := remove1 (PClose i e) (l_pend a)\<rparr>)"
| leave: "PExit i e \<in> set (l_pend a) \<Longrightarrow>
    life_step a (a\<lparr>l_pend := remove1 (PExit i e) (l_pend a), l_exits := l_exits a @ [i],
      l_map := AList.delete (l_ids a ! i) (l_map a)\<rparr>)"

fun exit_of :: "event \<Rightarrow> nat list" where
  "exit_of (ExitEv i k e) = [i]"
| "exit_of _ = []"

definition exited :: "udpSessionManager \<Rightarrow> nat list" where
  "exited s = concat (map exit_of (events s))"

definition lifeview :: "udpSessionManager \<Rightarrow> life" where
  "lifeview s = \<lparr>l_ids = map ID (sessions s), l_conn = map conn (sessions s), l_closed = map closed (sessions s),
     l_socks = sockets s, l_map = mgr_m s, l_pend = pend s, l_exits = concat (map exit_of (events s))\<rparr>"

fun is_PExit :: "nat \<Rightarrow> pending \<Rightarrow> bool" where
  "is_PExit i (PExit j e) = (j = i)"
| "is_PExit i (PClose j e) = False"

fun pend_ix :: "pending \<Rightarrow> nat" where
  "pend_ix (PExit j e) = j"
| "pend_ix (PClose j e) = j"

definition life_ok :: "life \<Rightarrow> bool" where
  "life_ok a \<longleftrightarrow>
     length (l_conn a) = length (l_ids a) \<and> length (l_closed a) = length (l_ids a)
     \<and> distinct (map fst (l_map a)) \<and> (\<forall>(k, i) \<in> set (l_map a). i < length (l_ids a) \<and> l_ids a ! i = k)
     \<and> (\<forall>i < length (l_ids a). (l_ids a ! i, i) \<in> set (l_map a) \<longleftrightarrow> i \<notin> set (l_exits a))
     \<and> distinct (l_exits a) \<and> (\<forall>i \<in> set (l_exits a). i < length (l_ids a) \<and> l_closed a ! i)
     \<and> (\<forall>q \<in> set (l_pend a). pend_ix q < length (l_ids a))
     \<and> (\<forall>i < length (l_ids a). length (filter (is_PExit i) (l_pend a)) = of_bool (l_closed a ! i \<and> i \<notin> set (l_exits a)))
     \<and> (\<forall>i < length (l_ids a). \<forall>c. l_conn a ! i = Some c \<longrightarrow> c < length (l_socks a) \<and> l_socks a ! c = (\<not> l_closed a ! i))
     \<and> (\<forall>c < length (l_socks a). \<exists>i < length (l_ids a). l_conn a ! i = Some c)
     \<and> (\<forall>i < length (l_ids a). \<forall>j < length (l_ids a). l_conn a ! i \<noteq> None \<longrightarrow> l_conn a ! i = l_conn a ! j \<longrightarrow> i = j)"

lemma life_okD:
  assumes "life_ok a"
  shows "length (l_conn a) = length (l_ids a)" "length (l_closed a) = length (l_ids a)"
    "distinct (map fst (l_map a))" "(k, i) \<in> set (l_map a) \<Longrightarrow> i < length (l_ids a) \<and> l_ids a ! i = k"
    "i < length (l_ids a) \<Longrightarrow> (l_ids a ! i, i) \<in> set (l_map a) \<longleftrightarrow> i \<notin> set (l_exits a)"
    "distinct (l_exits a)" "i \<in> set (l_exits a) \<Longrightarrow> i < length (l_ids a) \<and> l_closed a ! i"
    "q \<in> set (l_pend a) \<Longrightarrow> pend_ix q < length (l_ids a)"
    "i < length (l_ids a) \<Longrightarrow> length (filter (is_PExit i) (l_pend a)) = of_bool (l_closed a ! i \<and> i \<notin> set (l_exits a))"
    "i < length (l_ids a) \<Longrightarrow> l_conn a ! i = Some c \<Longrightarrow> c < length (l_socks a) \<and> l_socks a ! c = (\<not> l_closed a ! i)"
    "c < length (l_socks a) \<Longrightarrow> \<exists>i < length (l_ids a). l_conn a ! i = Some c"
    "i < length (l_ids a) \<Longrightarrow> j < length (l_ids a) \<Longrightarrow> l_conn a ! i = Some c \<Longrightarrow> l_conn a ! j = Some c \<Longrightarrow> i = j"
  using assms unfolding life_ok_def by (auto simp: split_beta)

lemma filter_remove1_PExit:
  "PExit i e \<in> set ps \<Longrightarrow> length (filter (is_PExit j) ps) = length (filter (is_PExit j) (remove1 (PExit i e) ps)) + of_bool (i = j)"
  by (induction ps) auto

lemma filter_remove1_PClose [simp]:
  "filter (is_PExit j) (remove1 (PClose i e) ps) = filter (is_PExit j) ps"
  by (induction ps) auto

lemma life_okI:
  assumes "length (l_conn a) = length (l_ids a)" "length (l_closed a) = length (l_ids a)"
    "distinct (map fst (l_map a))" "\<And>k i. (k, i) \<in> set (l_map a) \<Longrightarrow> i < length (l_ids a) \<and> l_ids a ! i = k"
    "\<And>i. i < length (l_ids a) \<Longrightarrow> (l_ids a ! i, i) \<in> set (l_map a) \<longleftrightarrow> i \<notin> set (l_exits a)"
    "distinct (l_exits a)" "\<And>i. i \<in> set (l_exits a) \<Longrightarrow> i < length (l_ids a) \<and> l_closed a ! i"
    "\<And>q. q \<in> set (l_pend a) \<Longrightarrow> pend_ix q < length (l_ids a)"
    "\<And>i. i < length (l_ids a) \<Longrightarrow> length (filter (is_PExit i) (l_pend a)) = of_bool (l_closed a ! i \<and> i \<notin> set (l_exits a))"
    "\<And>i c. i < length (l_ids a) \<Longrightarrow> l_conn a ! i = Some c \<Longrightarrow> c < length (l_socks a) \<and> l_socks a ! c = (\<not> l_closed a ! i)"
    "\<And>c. c < length (l_socks a) \<Longrightarrow> \<exists>i < length (l_ids a). l_conn a ! i = Some c"
    "\<And>i j c. i < length (l_ids a) \<Longrightarrow> j < length (l_ids a) \<Longrightarrow> l_conn a ! i = Some c \<Longrightarrow> l_conn a ! j = Some c \<Longrightarrow> i = j"
  shows "life_ok a"
  using assms unfolding life_ok_def by (auto simp: split_beta)

text \<open>An entry of the map is found under its own identifier only.\<close>

lemma life_map_unique:
  "life_ok a \<Longrightarrow> i < length (l_ids a) \<Longrightarrow> i \<notin> set (l_exits a) \<Longrightarrow> l_ids a ! i \<in> fst ` set (l_map a)"
  using life_okD(5) by force

lemma no_PExit_beyond: "life_ok a \<Longrightarrow> filter (is_PExit (length (l_ids a))) (l_pend a) = []"
proof -
  assume ok: "life_ok a"
  have "\<not> is_PExit (length (l_ids a)) q" if "q \<in> set (l_pend a)" for q
    using life_okD(8) [OF ok that] by (cases q) auto
  then show ?thesis by (simp add: filter_empty_conv)
qed

lemma life_create:
  assumes ok: "life_ok a" and free: "map_of (l_map a) k = None"
  shows "life_ok (a\<lparr>l_ids := l_ids a @ [k], l_conn := l_conn a @ [None], l_closed := l_closed a @ [False],
      l_map := AList.update k (length (l_ids a)) (l_map a)\<rparr>)"
proof -
  note d = life_okD [OF ok]
  have k: "k \<notin> fst ` set (l_map a)" using free by (simp add: map_of_eq_None_iff)
  have ex: "length (l_ids a) \<notin> set (l_exits a)" using d(7) by blast
  note pe = no_PExit_beyond [OF ok]
  show ?thesis
  proof (rule life_okI, goal_cases)
    case (5 i)
    then show ?case
      using d(3,4,5) k ex life_map_unique [OF ok, of i] by (auto simp: nth_append less_Suc_eq)
  next
    case (11 c)
    then obtain i where "i < length (l_ids a)" "l_conn a ! i = Some c" using d(11) by auto
    then show ?case using d(1) by (auto simp: nth_append intro!: exI [of _ i])
  next
    case (10 i c)
    then show ?case using d(1,2,10) by (auto simp: nth_append less_Suc_eq split: if_splits)
  next
    case (12 i j c)
    then show ?case using d(1,12) by (auto simp: nth_append less_Suc_eq split: if_splits)
  qed (use d ex pe in \<open>auto simp: nth_append less_Suc_eq\<close>)
qed

lemma life_dial:
  assumes ok: "life_ok a" and i: "i < length (l_ids a)" "l_conn a ! i = None" "\<not> l_closed a ! i"
  shows "life_ok (a\<lparr>l_socks := l_socks a @ [True], l_conn := (l_conn a)[i := Some (length (l_socks a))]\<rparr>)"
proof -
  note d = life_okD [OF ok]
  have fresh: "l_conn a ! j \<noteq> Some (length (l_socks a))" if "j < length (l_ids a)" for j
    using d(10) [OF that] by blast
  show ?thesis
  proof (rule life_okI, goal_cases)
    case (10 j c)
    then show ?case using d(1,2,10) i by (auto simp: nth_append nth_list_update split: if_splits)
  next
    case (11 c)
    show ?case
    proof (cases "c = length (l_socks a)")
      case True
      then show ?thesis using d(1) i by auto
    next
      case False
      then obtain j where "j < length (l_ids a)" "l_conn a ! j = Some c" using 11 d(11) [of c] by auto
      then show ?thesis using d(1) i by (auto simp: nth_list_update intro!: exI [of _ j])
    qed
  next
    case (12 j k c)
    then show ?case using d(1,12) i fresh by (auto simp: nth_list_update split: if_splits)
  qed (use d i in auto)
qed

lemma life_shut:
  assumes ok: "life_ok a" and i: "PClose i e \<in> set (l_pend a)" "\<not> l_closed a ! i"
  shows "life_ok (a\<lparr>l_closed := (l_closed a)[i := True],
      l_socks := (case l_conn a ! i of None \<Rightarrow> l_socks a | Some c \<Rightarrow> (l_socks a)[c := False]),
      l_pend := remove1 (PClose i e) (l_pend a) @ [PExit i e]\<rparr>)"
proof -
  note d = life_okD [OF ok]
  have ix: "i < length (l_ids a)" using d(8) [OF i(1)] by simp
  have ne: "i \<notin> set (l_exits a)" using d(7) i(2) by blast
  show ?thesis
  proof (rule life_okI, goal_cases)
    case (10 j c)
    then have j: "j < length (l_ids a)" "l_conn a ! j = Some c" by auto
    show ?case
    proof (cases "j = i")
      case True
      then show ?thesis using d(2) d(10) [OF j] j ix by simp
    next
      case False
      then have "l_conn a ! i \<noteq> Some c" using d(12) [OF ix j(1) _ j(2)] by blast
      then show ?thesis using False d(10) [OF j] by (auto split: option.split)
    qed
  next
    case (11 c)
    then show ?case using d(11) by (auto split: option.splits)
  next
    case (8 q)
    then show ?case using d(8) ix by (auto dest: notin_set_remove1)
  next
    case (9 j)
    then show ?case using d(2) d(9) [of j] ix ne i(2) by (auto simp: nth_list_update)
  qed (use d ix in \<open>auto simp: nth_list_update\<close>)
qed

lemma life_leave:
  assumes ok: "life_ok a" and i: "PExit i e \<in> set (l_pend a)"
  shows "life_ok (a\<lparr>l_pend := remove1 (PExit i e) (l_pend a), l_exits := l_exits a @ [i],
      l_map := AList.delete (l_ids a ! i) (l_map a)\<rparr>)"
proof -
  note d = life_okD [OF ok]
  have ix: "i < length (l_ids a)" using d(8) [OF i] by simp
  have "length (filter (is_PExit i) (l_pend a)) \<noteq> 0"
    using i by (force simp: filter_empty_conv)
  then have cl: "l_closed a ! i" "i \<notin> set (l_exits a)" using d(9) [OF ix] by auto
  have me: "(l_ids a ! i, i) \<in> set (l_map a)" using d(5) [OF ix] cl by simp
  have only: "j = i" if "(l_ids a ! i, j) \<in> set (l_map a)" for j
    using that me d(3) by (metis eq_key_imp_eq_value)
  show ?thesis
  proof (rule life_okI, goal_cases)
    case (5 j)
    then show ?case using d(5) [of j] only by auto
  next
    case (8 q)
    then show ?case using d(8) by (auto dest: notin_set_remove1)
  next
    case (9 j)
    then show ?case
      using filter_remove1_PExit [OF i, of j] d(9) [of j] cl by (auto split: if_splits)
  qed (use d ix cl in \<open>auto\<close>)
qed

lemma life_pend:
  "life_ok a \<Longrightarrow> (\<And>q. q \<in> set ps \<Longrightarrow> pend_ix q < length (l_ids a)) \<Longrightarrow>
   (\<And>j. filter (is_PExit j) ps = filter (is_PExit j) (l_pend a)) \<Longrightarrow> life_ok (a\<lparr>l_pend := ps\<rparr>)"
  by (rule life_okI) (auto dest: life_okD)

lemma life_step_ok: "life_step a b \<Longrightarrow> life_ok a \<Longrightarrow> life_ok b"
proof (induction rule: life_step.induct)
  case (ask i a e)
  show ?case by (rule life_pend [OF ask(2)]) (use ask life_okD(8) in auto)
next
  case (again i e a)
  show ?case by (rule life_pend [OF again(3)]) (use again life_okD(8) in \<open>auto dest: notin_set_remove1\<close>)
qed (auto intro: life_create life_dial life_shut life_leave)

lemma life_steps_ok: "life_step\<^sup>*\<^sup>* a b \<Longrightarrow> life_ok a \<Longrightarrow> life_ok b"
  by (induction rule: rtranclp_induct) (auto intro: life_step_ok)


section \<open>The server refines the life cycle\<close>

lemma map_list_update_same:
  assumes "\<And>x. g (f x) = g x" shows "map g (xs[i := f (xs ! i)]) = map g xs"
  using assms by (cases "i < length xs") (simp_all add: map_update list_update_same_conv list_update_beyond)

lemma lifeview_upd:
  assumes "\<And>x. ID (f x) = ID x" "\<And>x. conn (f x) = conn x" "\<And>x. closed (f x) = closed x"
  shows "lifeview (upd i f s) = lifeview s"
  using assms by (simp add: lifeview_def upd_def map_list_update_same)

lemma lifeview_quiet [simp]:
  "lifeview (upd i (\<lambda>x. x\<lparr>Last := t\<rparr>) s) = lifeview s"
  "lifeview (upd i (\<lambda>x. x\<lparr>D := d\<rparr>) s) = lifeview s"
  "lifeview (upd i (\<lambda>x. x\<lparr>aclCache := c\<rparr>) s) = lifeview s"
  "lifeview (upd i (\<lambda>x. x\<lparr>sendCh := q\<rparr>) s) = lifeview s"
  "lifeview (upd i (\<lambda>x. x\<lparr>sendCh := sendCh x @ [m]\<rparr>) s) = lifeview s"
  "lifeview (upd i (\<lambda>x. x\<lparr>OverrideAddr := a, OriginalAddr := b\<rparr>) s) = lifeview s"
  by (simp_all add: lifeview_upd)

lemma lifeview_noteEv [simp]: "exit_of ev = [] \<Longrightarrow> lifeview (noteEv ev s) = lifeview s"
  by (simp add: lifeview_def noteEv_def)

lemma lifeview_fields [simp]:
  "lifeview (s\<lparr>feeding := x\<rparr>) = lifeview s" "lifeview (s\<lparr>UDPSessionFeedFailed := n\<rparr>) = lifeview s"
  "lifeview (s\<lparr>UDPSessionQueueFull := n\<rparr>) = lifeview s"
  by (simp_all add: lifeview_def)

lemma lifeview_Enqueue [simp]: "lifeview (Enqueue pd now i m s) = lifeview s"
  by (simp add: Enqueue_def Let_def)

lemma lifeview_deliver: "deliver io v i m s = (s', r) \<Longrightarrow> lifeview s' = lifeview s"
  by (auto simp: deliver_def checkAddr_def WriteTo_def Let_def split: if_splits option.splits prod.splits)

abbreviation follows :: "udpSessionManager \<Rightarrow> udpSessionManager \<Rightarrow> bool" where
  "follows s s' \<equiv> life_step\<^sup>*\<^sup>* (lifeview s) (lifeview s')"

lemma lifeview_simps [simp]:
  "l_ids (lifeview s) = map ID (sessions s)" "l_conn (lifeview s) = map conn (sessions s)"
  "l_closed (lifeview s) = map closed (sessions s)" "l_socks (lifeview s) = sockets s"
  "l_map (lifeview s) = mgr_m s" "l_pend (lifeview s) = pend s"
  "l_exits (lifeview s) = exited s"
  by (simp_all add: lifeview_def exited_def)

lemma lifeview_call:
  "lifeview (call_CloseWithErr i e s) = (lifeview s)\<lparr>l_pend := l_pend (lifeview s) @ [PClose i e]\<rparr>"
  by (simp add: lifeview_def call_CloseWithErr_def)

lemma follows_call: "i < length (sessions s) \<Longrightarrow> follows s (call_CloseWithErr i e s)"
  unfolding lifeview_call by (rule r_into_rtranclp, rule life_step.ask) simp

lemma length_sessions [simp]:
  "length (sessions (upd i f s)) = length (sessions s)" "length (sessions (noteEv ev s)) = length (sessions s)"
  "length (sessions (call_CloseWithErr i e s)) = length (sessions s)"
  by (simp_all add: upd_def noteEv_def call_CloseWithErr_def)

lemma sessions_simps [simp]:
  "sessions (noteEv ev s) = sessions s" "sessions (call_CloseWithErr i e s) = sessions s"
  "sockets (noteEv ev s) = sockets s" "sockets (upd i f s) = sockets s"
  "mgr_m (noteEv ev s) = mgr_m s" "mgr_m (upd i f s) = mgr_m s" "mgr_m (call_CloseWithErr i e s) = mgr_m s"
  "pend (noteEv ev s) = pend s" "pend (upd i f s) = pend s"
  "events (upd i f s) = events s" "events (call_CloseWithErr i e s) = events s"
  "events (noteEv ev s) = events s @ [ev]"
  "feeding (upd i f s) = feeding s" "feeding (noteEv ev s) = feeding s" "feeding (call_CloseWithErr i e s) = feeding s"
  by (simp_all add: upd_def noteEv_def call_CloseWithErr_def)

lemma sess_upd [simp]:
  "i < length (sessions s) \<Longrightarrow> sess (upd i f s) j = (if i = j then f (sess s i) else sess s j)"
  by (simp add: upd_def nth_list_update)

lemma lifeview_dial:
  "i < length (sessions s) \<Longrightarrow>
   lifeview (upd i (\<lambda>x. x\<lparr>conn := Some c\<rparr>) (noteEv (DialEv i a b) (noteEv (NewEv k b) (s\<lparr>sockets := sockets s @ [True]\<rparr>)))) =
   (lifeview s)\<lparr>l_socks := sockets s @ [True], l_conn := (map conn (sessions s))[i := Some c]\<rparr>"
  by (simp add: lifeview_def upd_def noteEv_def map_update list_update_same_conv)

lemma follows_initConn:
  assumes i: "i < length (sessions s)" and c: "conn (sess s i) = None" and r: "initConn io i m s = (s', r)"
  shows "follows s s'"
proof (cases "closed (sess s i)")
  case False
  show ?thesis
  proof (cases "io_Hook io (Data m) (Addr m)")
    case (Inl e)
    then have "s' = call_CloseWithErr i (Some e) s"
      using False r by (auto simp: initConn_def dialFunc_def)
    then show ?thesis using follows_call i by simp
  next
    case (Inr b)
    let ?s1 = "noteEv (NewEv (ID (sess s i)) b) s"
    show ?thesis
    proof (cases "io_UDP io b")
      case (Some e)
      then have "s' = call_CloseWithErr i (Some e) ?s1"
        using False r Inr by (auto simp: initConn_def dialFunc_def Let_def)
      then show ?thesis using follows_call [of i ?s1] i by simp
    next
      case None
      have "lifeview s' = (lifeview s)\<lparr>l_socks := l_socks (lifeview s) @ [True],
          l_conn := (l_conn (lifeview s))[i := Some (length (l_socks (lifeview s)))]\<rparr>"
        using False r Inr None i
        by (auto simp: initConn_def dialFunc_def Let_def lifeview_def upd_def noteEv_def map_update
            list_update_same_conv)
      then show ?thesis
        using i c False life_step.dial [of i "lifeview s"] by auto
    qed
  qed
qed (use r in \<open>simp add: initConn_def\<close>)

lemma follows_entry_Feed:
  assumes i: "i < length (sessions s)" and r: "entry_Feed io v ord now i m s = Some (s', r)"
  shows "follows s s'"
proof -
  let ?s1 = "upd i (\<lambda>x. x\<lparr>Last := now\<rparr>) s"
  obtain d df where f: "Feed ord (D (sess s i)) now m = Some (d, df)"
    using r i by (auto simp: entry_Feed_def Let_def split: option.splits)
  let ?s2 = "upd i (\<lambda>x. x\<lparr>D := d\<rparr>) ?s1"
  have v: "lifeview ?s2 = lifeview s" by simp
  show ?thesis
  proof (cases df)
    case None
    then show ?thesis using r f i by (auto simp: entry_Feed_def Let_def)
  next
    case (Some dm)
    show ?thesis
    proof (cases "conn (sess s i)")
      case (Some c)
      then have "deliver io v i dm ?s2 = (s', r)" using r f i \<open>df = Some dm\<close> by (simp add: entry_Feed_def Let_def)
      then show ?thesis using lifeview_deliver v by simp
    next
      case None
      obtain s3 r3 where s3: "initConn io i dm ?s2 = (s3, r3)" by fastforce
      have 1: "follows s s3" using follows_initConn [OF _ _ s3] i None v by simp
      show ?thesis
      proof (cases r3)
        case (Some e)
        then show ?thesis using r f i s3 None \<open>df = Some dm\<close> 1 by (auto simp: entry_Feed_def Let_def)
      next
        case None
        let ?s4 = "if OverrideAddr (sess s3 i) = [] then upd i (\<lambda>x. x\<lparr>aclCache := [(Addr dm, None)]\<rparr>) s3 else s3"
        have "deliver io v i dm ?s4 = (s', r)"
          using r f i s3 \<open>conn (sess s i) = None\<close> \<open>df = Some dm\<close> None by (simp add: entry_Feed_def Let_def)
        then have "lifeview s' = lifeview ?s4" by (rule lifeview_deliver)
        also have "\<dots> = lifeview s3" by simp
        finally show ?thesis using 1 by simp
      qed
    qed
  qed
qed

lemma follows_sendLoop:
  assumes "i < length (sessions s)" and "sendLoop io v ord now i s = Some s'"
  shows "follows s s'"
proof (cases "sendCh (sess s i)")
  case (Cons m rest)
  let ?s1 = "upd i (\<lambda>x. x\<lparr>sendCh := rest\<rparr>) s"
  obtain s2 r where s2: "entry_Feed io v ord now i m ?s1 = Some (s2, r)"
    using assms Cons by (auto simp: sendLoop_def split: option.splits)
  have "follows ?s1 s2" using follows_entry_Feed [OF _ s2] assms(1) by simp
  moreover have "lifeview s' = lifeview s2"
    using assms Cons s2 by (auto simp: sendLoop_def split: option.splits)
  ultimately show ?thesis by simp
qed (use assms in \<open>simp add: sendLoop_def\<close>)

lemma lifeview_sent [simp]: "lifeview (fold (\<lambda>m. noteEv (SentEv i m)) ms s) = lifeview s"
  by (induction ms arbitrary: s) simp_all

lemma length_sessions_sent [simp]: "sessions (fold (\<lambda>m. noteEv (SentEv i m)) ms s) = sessions s"
  by (induction ms arbitrary: s) simp_all

lemma follows_receiveLoop:
  assumes "i < length (sessions s)" and "receiveLoop qlen rnd io now i r s = Some s'"
  shows "follows s s'"
proof (cases r)
  case (Inl e)
  then show ?thesis using assms follows_call by (auto simp: receiveLoop_def)
next
  case (Inr x)
  let ?s1 = "upd i (\<lambda>x. x\<lparr>Last := now\<rparr>) s"
  from Inr assms obtain sent e where
    "s' = fold (\<lambda>m. noteEv (SentEv i m)) sent ?s1 \<or> s' = call_CloseWithErr i e (fold (\<lambda>m. noteEv (SentEv i m)) sent ?s1)"
    by (cases x) (auto simp: receiveLoop_def Let_def split: option.splits prod.splits if_splits)
  then show ?thesis
    using follows_call [of i "fold (\<lambda>m. noteEv (SentEv i m)) sent ?s1"] assms(1) by auto
qed

lemma follows_cleanup:
  assumes "\<And>k i. (k, i) \<in> set (mgr_m s) \<Longrightarrow> i < length (sessions s)"
  shows "follows s (cleanup b now s)"
proof -
  have *: "follows s (fold (\<lambda>i. call_CloseWithErr i None) js s)"
    if "\<forall>j \<in> set js. j < length (sessions s)" for js s
    using that
  proof (induction js arbitrary: s)
    case (Cons j js)
    have "follows s (call_CloseWithErr j None s)" using Cons.prems follows_call by simp
    moreover have "follows (call_CloseWithErr j None s) (fold (\<lambda>i. call_CloseWithErr i None) js (call_CloseWithErr j None s))"
      using Cons by simp
    ultimately show ?case by simp
  qed simp
  show ?thesis unfolding cleanup_def by (rule *) (use assms in auto)
qed

lemma follows_feed: "follows s (feed now m s)"
proof (cases "map_of (mgr_m s) (SessionID m)")
  case None
  then show ?thesis
    using life_step.create [of "lifeview s" "SessionID m"]
    by (auto simp: feed_def Let_def lifeview_def newUDPSessionEntry_def intro!: r_into_rtranclp)
qed (simp add: feed_def)

lemma follows_close:
  assumes "PClose i e \<in> set (pend s)" and "i < length (sessions s)"
  shows "follows s (CloseWithErr i e (s\<lparr>pend := remove1 (PClose i e) (pend s)\<rparr>))"
proof (cases "closed (sess s i)")
  case True
  then show ?thesis
    using assms life_step.again [of i e "lifeview s"] by (auto simp: CloseWithErr_def lifeview_def)
next
  case False
  have "lifeview (CloseWithErr i e (s\<lparr>pend := remove1 (PClose i e) (pend s)\<rparr>)) =
    (lifeview s)\<lparr>l_closed := (map closed (sessions s))[i := True],
      l_socks := (case map conn (sessions s) ! i of None \<Rightarrow> sockets s | Some c \<Rightarrow> (sockets s)[c := False]),
      l_pend := remove1 (PClose i e) (pend s) @ [PExit i e]\<rparr>"
    using False assms
    by (auto simp: CloseWithErr_def Let_def close_socket_def lifeview_def upd_def map_update list_update_same_conv
        split: option.split)
  then show ?thesis
    using False assms life_step.shut [of i e "lifeview s"] by (auto simp: lifeview_def cong: option.case_cong)
qed

lemma follows_exit:
  assumes "PExit i e \<in> set (pend s)" and "i < length (sessions s)"
  shows "follows s (exitFunc i e (s\<lparr>pend := remove1 (PExit i e) (pend s)\<rparr>))"
  using assms life_step.leave [of i e "lifeview s"]
  by (auto simp: exitFunc_def Let_def lifeview_def noteEv_def)

text \<open>Every step of the server is a sequence of steps of the life cycle.\<close>

lemma server_step_follows:
  assumes "server_step s s'" and "life_ok (lifeview s)"
  shows "follows s s'"
proof -
  have pix: "pend_ix q < length (sessions s)" if "q \<in> set (pend s)" for q
    using life_okD(8) [OF assms(2), of q] that by simp
  have mix: "i < length (sessions s)" if "(k, i) \<in> set (mgr_m s)" for k i
    using life_okD(4) [OF assms(2), of k i] that by simp
  show ?thesis
    using assms(1)
  proof cases
    case (close i e)
    then show ?thesis using follows_close pix by fastforce
  next
    case (exit i e)
    then show ?thesis using follows_exit pix by fastforce
  next
    case clean
    then show ?thesis using follows_cleanup mix by blast
  qed (auto intro: follows_feed follows_sendLoop follows_receiveLoop)
qed

lemma reach_life_ok: "server_reach idle s \<Longrightarrow> life_ok (lifeview s)"
proof (induction rule: server_reach.induct)
  case start
  show ?case by (simp add: life_ok_def newUDPSessionManager_def lifeview_def)
next
  case (step s s')
  then show ?case using server_step_follows life_steps_ok by blast
qed


section \<open>Running the pending calls to the end\<close>

fun pend_weight :: "pending \<Rightarrow> nat" where
  "pend_weight (PClose i e) = 2"
| "pend_weight (PExit i e) = 1"

function drain :: "udpSessionManager \<Rightarrow> udpSessionManager" where
  "drain s =
     (case pend s of
        [] \<Rightarrow> s
      | PClose i e # ps \<Rightarrow> drain (CloseWithErr i e (s\<lparr>pend := ps\<rparr>))
      | PExit i e # ps \<Rightarrow> drain (exitFunc i e (s\<lparr>pend := ps\<rparr>)))"
  by pat_completeness auto
termination
proof (relation "measure (\<lambda>s. sum_list (map pend_weight (pend s)))", goal_cases)
  case (2 s q ps i e)
  then show ?case by (auto simp: CloseWithErr_def Let_def close_socket_def upd_def split: option.splits)
next
  case (3 s q ps i e)
  then show ?case by (auto simp: exitFunc_def Let_def noteEv_def)
qed simp

declare drain.simps [simp del]

text \<open>Whoever is still in the map has a call pending that will take it out.\<close>

definition leaving :: "udpSessionManager \<Rightarrow> bool" where
  "leaving s \<longleftrightarrow> (\<forall>(k, i) \<in> set (mgr_m s). \<exists>e. PClose i e \<in> set (pend s) \<or> PExit i e \<in> set (pend s))"

lemma leaving_close:
  assumes ok: "life_ok (lifeview s)" and l: "leaving s" and p: "pend s = PClose i e # ps"
  shows "leaving (CloseWithErr i e (s\<lparr>pend := ps\<rparr>))"
proof (cases "closed (sess s i)")
  case False
  have "mgr_m (CloseWithErr i e (s\<lparr>pend := ps\<rparr>)) = mgr_m s"
    "pend (CloseWithErr i e (s\<lparr>pend := ps\<rparr>)) = ps @ [PExit i e]"
    using False by (auto simp: CloseWithErr_def Let_def close_socket_def upd_def split: option.splits)
  then show ?thesis using l p by (fastforce simp: leaving_def)
next
  case True
  note d = life_okD [OF ok, simplified]
  have ix: "i < length (sessions s)" using d(8) [of "PClose i e"] p by simp
  have "\<exists>e. PExit i e \<in> set ps" if "(k, i) \<in> set (mgr_m s)" for k
  proof -
    have "ID (sess s i) = k" using d(4) [OF that] ix by simp
    then have "i \<notin> set (exited s)" using d(5) [OF ix] that ix by simp
    then have "length (filter (is_PExit i) (pend s)) = 1" using d(9) [OF ix] True ix by simp
    then obtain q where "q \<in> set (pend s)" "is_PExit i q"
      by (metis filter_empty_conv length_0_conv zero_neq_one)
    then show ?thesis using p by (auto elim!: is_PExit.elims(2))
  qed
  then show ?thesis using l p True by (fastforce simp: leaving_def CloseWithErr_def)
qed

lemma leaving_exit:
  assumes ok: "life_ok (lifeview s)" and l: "leaving s" and p: "pend s = PExit i e # ps"
  shows "leaving (exitFunc i e (s\<lparr>pend := ps\<rparr>))"
proof -
  note d = life_okD [OF ok, simplified]
  have ix: "i < length (sessions s)" using d(8) [of "PExit i e"] p by simp
  have "j \<noteq> i" if "(k, j) \<in> set (mgr_m s)" "k \<noteq> ID (sess s i)" for k j
    using d(4) [OF that(1)] that(2) by auto
  then show ?thesis using l p by (fastforce simp: leaving_def exitFunc_def noteEv_def Let_def)
qed

lemma drain_ok:
  assumes "life_ok (lifeview s)" and "leaving s"
  shows "life_ok (lifeview (drain s)) \<and> pend (drain s) = [] \<and> mgr_m (drain s) = []"
  using assms
proof (induction s rule: drain.induct)
  case (1 s)
  show ?case
  proof (cases "pend s")
    case Nil
    then have "mgr_m s = []" using 1(4) by (cases "mgr_m s") (auto simp: leaving_def)
    then show ?thesis using Nil 1(3) by (subst (1 2 3) drain.simps) simp
  next
    case (Cons q ps)
    show ?thesis
    proof (cases q)
      case (PClose i e)
      let ?t = "CloseWithErr i e (s\<lparr>pend := ps\<rparr>)"
      have "i < length (sessions s)" using life_okD(8) [OF 1(3), of q] Cons PClose by simp
      then have "follows s ?t" using follows_close [of i e s] Cons PClose by simp
      then have "life_ok (lifeview ?t)" using life_steps_ok 1(3) by blast
      moreover have "leaving ?t" using leaving_close [OF 1(3,4)] Cons PClose by simp
      moreover have "drain s = drain ?t" using Cons PClose by (subst drain.simps) simp
      ultimately show ?thesis using 1(1) [OF Cons PClose] by simp
    next
      case (PExit i e)
      let ?t = "exitFunc i e (s\<lparr>pend := ps\<rparr>)"
      have "i < length (sessions s)" using life_okD(8) [OF 1(3), of q] Cons PExit by simp
      then have "follows s ?t" using follows_exit [of i e s] Cons PExit by simp
      then have "life_ok (lifeview ?t)" using life_steps_ok 1(3) by blast
      moreover have "leaving ?t" using leaving_exit [OF 1(3,4)] Cons PExit by simp
      moreover have "drain s = drain ?t" using Cons PExit by (subst drain.simps) simp
      ultimately show ?thesis using 1(2) [OF Cons PExit] by simp
    qed
  qed
qed

lemma fold_call_pend:
  "pend (fold (\<lambda>i. call_CloseWithErr i e) js s) = pend s @ map (\<lambda>i. PClose i e) js"
  "mgr_m (fold (\<lambda>i. call_CloseWithErr i e) js s) = mgr_m s"
  by (induction js arbitrary: s) (simp_all add: call_CloseWithErr_def)

lemma leaving_cleanup: "leaving (cleanup False now s)"
  by (force simp: leaving_def cleanup_def fold_call_pend)

text \<open>With the map empty every socket is closed.\<close>

lemma sockets_closed:
  assumes "life_ok (lifeview s)" and "mgr_m s = []"
  shows "set (sockets s) \<subseteq> {False}"
proof -
  note d = life_okD [OF assms(1), simplified]
  have "\<not> sockets s ! c" if c: "c < length (sockets s)" for c
  proof -
    obtain i where i: "i < length (sessions s)" "conn (sess s i) = Some c"
      using d(11) [OF c] by auto
    have "i \<in> set (exited s)" using d(5) [OF i(1)] assms(2) by simp
    then have "closed (sess s i)" using d(7) [of i] i(1) by simp
    then show ?thesis using d(10) [OF i(1), of c] i by simp
  qed
  then show ?thesis by (auto simp: in_set_conv_nth)
qed


section \<open>Bounds and policy\<close>

text \<open>
  What one session promises: its queue and its cache are bounded, its queue holds messages of the session,
  its defragger is in order, and whatever the cache allows, and the override address, were decided by the policy.
\<close>

definition allowed :: "event set \<Rightarrow> nat \<Rightarrow> string \<Rightarrow> bool" where
  "allowed evs i a \<longleftrightarrow> CheckEv i a None \<in> evs \<or> (\<exists>b. DialEv i a b \<in> evs) \<or> (\<exists>b. DialEv i b a \<in> evs)"

definition session_ok :: "event set \<Rightarrow> nat \<Rightarrow> udpSessionEntry \<Rightarrow> bool" where
  "session_ok evs i x \<longleftrightarrow>
     length (sendCh x) \<le> sessionSendQueueLen \<and> (\<forall>m \<in> set (sendCh x). SessionID m = ID x)
     \<and> length (aclCache x) \<le> maxSessionACLCache \<and> distinct (map fst (aclCache x))
     \<and> defragger_ok (D x) \<and> d_maxEntries (D x) = defraggerMaxEntries
     \<and> (\<forall>(a, d) \<in> set (aclCache x). d = None \<longrightarrow> allowed evs i a)
     \<and> (OverrideAddr x \<noteq> [] \<longrightarrow> allowed evs i (OverrideAddr x))"

definition server_ok :: "udpSessionManager \<Rightarrow> bool" where
  "server_ok s \<longleftrightarrow> (\<forall>i < length (sessions s). session_ok (set (events s)) i (sess s i))
     \<and> (\<forall>i a d. WriteEv i a d \<in> set (events s) \<longrightarrow> allowed (set (events s)) i a)
     \<and> (\<forall>m i. feeding s = Some (m, i) \<longrightarrow> i < length (sessions s) \<and> ID (sess s i) = SessionID m)"

lemma allowed_mono: "allowed evs i a \<Longrightarrow> evs \<subseteq> evs' \<Longrightarrow> allowed evs' i a"
  by (auto simp: allowed_def)

lemma session_ok_mono: "session_ok evs i x \<Longrightarrow> evs \<subseteq> evs' \<Longrightarrow> session_ok evs' i x"
  by (auto simp: session_ok_def intro: allowed_mono)

lemma server_ok_noteEv:
  assumes "server_ok s" and "\<And>i a d. ev = WriteEv i a d \<Longrightarrow> allowed (set (events s)) i a"
  shows "server_ok (noteEv ev s)"
proof -
  have "allowed (insert ev (set (events s))) i a" if "allowed (set (events s)) i a" for i a
    using that by (rule allowed_mono) auto
  then show ?thesis
    using assms unfolding server_ok_def by simp (blast intro: session_ok_mono [OF _ subset_insertI])
qed

lemma server_ok_upd:
  assumes "server_ok s" and "i < length (sessions s) \<Longrightarrow> session_ok (set (events s)) i (sess s i) \<Longrightarrow> session_ok (set (events s)) i (f (sess s i))"
    and "\<And>x. ID (f x) = ID x"
  shows "server_ok (upd i f s)"
proof (cases "i < length (sessions s)")
  case True
  then show ?thesis using assms unfolding server_ok_def by auto
next
  case False
  then have "upd i f s = s" by (simp add: upd_def list_update_beyond)
  then show ?thesis using assms by simp
qed

lemma server_ok_fields [simp]:
  "server_ok (s\<lparr>UDPSessionFeedFailed := n\<rparr>) = server_ok s" "server_ok (s\<lparr>UDPSessionQueueFull := n\<rparr>) = server_ok s"
  "server_ok (s\<lparr>pend := p\<rparr>) = server_ok s" "server_ok (s\<lparr>mgr_m := m\<rparr>) = server_ok s"
  "server_ok (s\<lparr>sockets := b\<rparr>) = server_ok s" "server_ok (call_CloseWithErr i e s) = server_ok s"
  by (simp_all add: server_ok_def call_CloseWithErr_def)

lemma server_ok_quiet [simp]:
  "server_ok s \<Longrightarrow> server_ok (upd i (\<lambda>x. x\<lparr>Last := t\<rparr>) s)"
  "server_ok s \<Longrightarrow> server_ok (upd i (\<lambda>x. x\<lparr>closed := b\<rparr>) s)"
  "server_ok s \<Longrightarrow> server_ok (upd i (\<lambda>x. x\<lparr>conn := c\<rparr>) s)"
  by (auto intro!: server_ok_upd simp: session_ok_def)

lemma server_ok_WriteTo:
  assumes "server_ok s" and "allowed (set (events s)) i a"
  shows "server_ok (fst (WriteTo io i data a s))"
  using assms by (auto simp: WriteTo_def intro!: server_ok_noteEv split: option.split)

lemma server_ok_checkAddr:
  assumes ok: "server_ok s" and i: "i < length (sessions s)"
    and v: "length (aclCache (sess s i)) < maxSessionACLCache \<or> victim \<in> fst ` set (aclCache (sess s i))"
  shows "server_ok (fst (checkAddr io victim i a s))"
    and "snd (checkAddr io victim i a s) = None \<Longrightarrow> allowed (set (events (fst (checkAddr io victim i a s)))) i a"
proof -
  have e: "session_ok (set (events s)) i (sess s i)" using ok i by (simp add: server_ok_def)
  let ?s1 = "noteEv (CheckEv i a (io_CheckUDP io a)) s"
  let ?cache = "if maxSessionACLCache \<le> length (aclCache (sess s i))
    then AList.delete victim (aclCache (sess s i)) else aclCache (sess s i)"
  have len: "length ?cache < maxSessionACLCache"
    using e v by (auto simp: session_ok_def length_alist_delete maxSessionACLCache_def)
  have 1: "server_ok ?s1" using ok by (rule server_ok_noteEv) simp
  have new: "server_ok (upd i (\<lambda>x. x\<lparr>aclCache := AList.update a (io_CheckUDP io a) ?cache\<rparr>) ?s1)"
  proof (rule server_ok_upd [OF 1])
    assume "session_ok (set (events ?s1)) i (sess ?s1 i)"
    moreover have "distinct (map fst ?cache)" using e by (simp add: session_ok_def)
    ultimately show "session_ok (set (events ?s1)) i ((sess ?s1 i)\<lparr>aclCache := AList.update a (io_CheckUDP io a) ?cache\<rparr>)"
      using len by (auto simp: session_ok_def length_alist_update allowed_def split: if_splits)
  qed simp
  show "server_ok (fst (checkAddr io victim i a s))"
    using ok new
    by (cases "maxSessionACLCache \<le> length (aclCache (sess s i))") (simp_all add: checkAddr_def Let_def split: option.split)
  show "allowed (set (events (fst (checkAddr io victim i a s)))) i a" if "snd (checkAddr io victim i a s) = None"
    using that e by (auto simp: checkAddr_def Let_def session_ok_def allowed_def split: option.splits dest!: map_of_SomeD)
qed

lemma length_checkAddr [simp]: "length (sessions (fst (checkAddr io v i a s))) = length (sessions s)"
  by (simp add: checkAddr_def Let_def split: option.split)

lemma server_ok_deliver:
  assumes ok: "server_ok s" and i: "i < length (sessions s)"
    and v: "length (aclCache (sess s i)) < maxSessionACLCache \<or> victim \<in> fst ` set (aclCache (sess s i))"
  shows "server_ok (fst (deliver io victim i m s))"
proof (cases "OverrideAddr (sess s i) = []")
  case False
  then have "allowed (set (events s)) i (OverrideAddr (sess s i))" using ok i by (simp add: server_ok_def session_ok_def)
  then show ?thesis using False server_ok_WriteTo [OF ok] by (simp add: deliver_def)
next
  case True
  obtain s1 r where s1: "checkAddr io victim i (Addr m) s = (s1, r)" by fastforce
  have "server_ok s1" "r = None \<Longrightarrow> allowed (set (events s1)) i (Addr m)"
    using server_ok_checkAddr [OF ok i v, of io "Addr m"] s1 by auto
  then show ?thesis using True s1 server_ok_WriteTo by (cases r) (auto simp: deliver_def)
qed

lemma server_ok_initConn:
  assumes ok: "server_ok s" and i: "i < length (sessions s)" and r: "initConn io i m s = (s', r)"
  shows "server_ok s' \<and> length (sessions s') = length (sessions s) \<and> aclCache (sess s' i) = aclCache (sess s i)
    \<and> (r = None \<longrightarrow> (\<exists>b. DialEv i (Addr m) b \<in> set (events s')))"
proof (cases "closed (sess s i)")
  case False
  note new = server_ok_noteEv [OF ok, of "NewEv k b" for k b, simplified]
  show ?thesis
  proof (cases "io_Hook io (Data m) (Addr m)")
    case (Inl e)
    then show ?thesis using False r ok by (auto simp: initConn_def dialFunc_def)
  next
    case (Inr b)
    let ?s1 = "noteEv (NewEv (ID (sess s i)) b) s"
    show ?thesis
    proof (cases "io_UDP io b")
      case (Some e)
      then show ?thesis using False r Inr new by (auto simp: initConn_def dialFunc_def Let_def)
    next
      case None
      let ?s2 = "noteEv (DialEv i (Addr m) b) (?s1\<lparr>sockets := sockets ?s1 @ [True]\<rparr>)"
      let ?s3 = "upd i (\<lambda>x. x\<lparr>conn := Some (length (sockets s))\<rparr>) ?s2"
      let ?s4 = "upd i (\<lambda>x. x\<lparr>OverrideAddr := b, OriginalAddr := Addr m\<rparr>) ?s3"
      have s': "s' = (if Addr m \<noteq> b then ?s4 else ?s3)"
        using False r Inr None by (auto simp: initConn_def dialFunc_def Let_def noteEv_def split: if_splits)
      have 2: "server_ok ?s2" by (rule server_ok_noteEv) (use new in simp_all)
      then have 3: "server_ok ?s3" by simp
      have 4: "server_ok ?s4"
        by (rule server_ok_upd [OF 3]) (auto simp: session_ok_def allowed_def)
      show ?thesis using s' 3 4 i by (auto split: if_splits simp: noteEv_def)
    qed
  qed
qed (use r ok in \<open>auto simp: initConn_def\<close>)

lemma server_ok_entry_Feed:
  assumes ok: "server_ok s" and i: "i < length (sessions s)" and o: "\<And>ks. set (ord ks) = set ks"
    and v: "length (aclCache (sess s i)) = 0 \<or> victim \<in> fst ` set (aclCache (sess s i))"
  shows "\<exists>s' r. entry_Feed io victim ord now i m s = Some (s', r) \<and> server_ok s'"
proof -
  let ?s1 = "upd i (\<lambda>x. x\<lparr>Last := now\<rparr>) s"
  have e: "session_ok (set (events s)) i (sess s i)" using ok i by (simp add: server_ok_def)
  then have dok: "defragger_ok (D (sess s i))" by (simp add: session_ok_def)
  obtain d df where f: "Feed ord (D (sess s i)) now m = Some (d, df)" "defragger_ok d"
    using Feed_defragger_ok [OF dok o] by blast
  have lim: "d_maxEntries d = d_maxEntries (D (sess s i))" using Feed_limits [OF dok f(1)] by simp
  let ?s2 = "upd i (\<lambda>x. x\<lparr>D := d\<rparr>) ?s1"
  have 2: "server_ok ?s2"
    by (rule server_ok_upd) (use ok f lim e i in \<open>auto simp: session_ok_def\<close>)
  have v2: "length (aclCache (sess ?s2 i)) < maxSessionACLCache \<or> victim \<in> fst ` set (aclCache (sess ?s2 i))"
    using v i by (auto simp: maxSessionACLCache_def)
  show ?thesis
  proof (cases df)
    case None
    then show ?thesis using f 2 i by (simp add: entry_Feed_def Let_def)
  next
    case (Some dm)
    show ?thesis
    proof (cases "conn (sess s i)")
      case (Some c)
      then have "entry_Feed io victim ord now i m s = Some (deliver io victim i dm ?s2)"
        using f i \<open>df = Some dm\<close> by (simp add: entry_Feed_def Let_def)
      then show ?thesis using server_ok_deliver [OF 2 _ v2] i by (metis length_sessions(1) prod.collapse)
    next
      case None
      obtain s3 r3 where s3: "initConn io i dm ?s2 = (s3, r3)" by fastforce
      have i2: "i < length (sessions ?s2)" using i by simp
      have 3: "server_ok s3" "length (sessions s3) = length (sessions s)" "aclCache (sess s3 i) = aclCache (sess s i)"
        "r3 = None \<Longrightarrow> \<exists>b. DialEv i (Addr dm) b \<in> set (events s3)"
        using server_ok_initConn [OF 2 i2 s3] i by auto
      show ?thesis
      proof (cases r3)
        case (Some e)
        then show ?thesis using f i s3 None \<open>df = Some dm\<close> 3 by (simp add: entry_Feed_def Let_def)
      next
        case None
        let ?s4 = "if OverrideAddr (sess s3 i) = [] then upd i (\<lambda>x. x\<lparr>aclCache := [(Addr dm, None)]\<rparr>) s3 else s3"
        have r: "entry_Feed io victim ord now i m s = Some (deliver io victim i dm ?s4)"
          using f i s3 \<open>conn (sess s i) = None\<close> \<open>df = Some dm\<close> None by (simp add: entry_Feed_def Let_def)
        have 4: "server_ok ?s4"
          using 3(1,4) None
          by (auto intro!: server_ok_upd simp: session_ok_def allowed_def maxSessionACLCache_def)
        have v4: "length (aclCache (sess ?s4 i)) < maxSessionACLCache \<or> victim \<in> fst ` set (aclCache (sess ?s4 i))"
          using v 3 i by (auto simp: maxSessionACLCache_def)
        have "i < length (sessions ?s4)" using 3(2) i by simp
        from server_ok_deliver [OF 4 this v4] show ?thesis using r by (metis prod.collapse)
      qed
    qed
  qed
qed

lemma sendLoop_total:
  assumes ok: "server_ok s" and i: "i < length (sessions s)" and o: "\<And>ks. set (ord ks) = set ks"
    and v: "length (aclCache (sess s i)) = 0 \<or> victim \<in> fst ` set (aclCache (sess s i))"
  shows "\<exists>s'. sendLoop io victim ord now i s = Some s' \<and> server_ok s'"
proof (cases "sendCh (sess s i)")
  case (Cons m rest)
  let ?s1 = "upd i (\<lambda>x. x\<lparr>sendCh := rest\<rparr>) s"
  have 1: "server_ok ?s1"
    by (rule server_ok_upd [OF ok]) (use Cons in \<open>auto simp: session_ok_def\<close>)
  obtain s2 r where "entry_Feed io victim ord now i m ?s1 = Some (s2, r)" "server_ok s2"
    using server_ok_entry_Feed [OF 1 _ o, of i victim io now m] i v by auto
  then show ?thesis using Cons by (cases r) (simp_all add: sendLoop_def)
qed (use ok in \<open>simp add: sendLoop_def\<close>)

lemma server_ok_Enqueue:
  assumes ok: "server_ok s" and m: "i < length (sessions s)" "ID (sess s i) = SessionID m"
  shows "server_ok (Enqueue pd now i m s)"
proof -
  let ?s1 = "upd i (\<lambda>x. x\<lparr>Last := now\<rparr>) s"
  have "server_ok (upd i (\<lambda>x. x\<lparr>sendCh := sendCh x @ [m]\<rparr>) ?s1)" if "length (sendCh (sess s i)) < sessionSendQueueLen"
    by (rule server_ok_upd) (use ok that m in \<open>auto simp: session_ok_def\<close>)
  then show ?thesis using ok m by (auto simp: Enqueue_def Let_def)
qed

lemma server_ok_sent: "server_ok s \<Longrightarrow> server_ok (fold (\<lambda>m. noteEv (SentEv i m)) ms s)"
  by (induction ms arbitrary: s) (auto intro: server_ok_noteEv)

lemma server_ok_feed:
  assumes ok: "server_ok s" and life: "life_ok (lifeview s)"
  shows "server_ok (feed now m s)"
proof (cases "map_of (mgr_m s) (SessionID m)")
  case (Some i)
  then have "i < length (sessions s) \<and> ID (sess s i) = SessionID m"
    using life_okD(4) [OF life, of "SessionID m" i] by (auto dest!: map_of_SomeD)
  then show ?thesis using ok Some by (auto simp: feed_def server_ok_def)
next
  case None
  have "session_ok evs i (newUDPSessionEntry k now)" for evs i k
    using NewDefragger_ok NewDefragger_max
    by (simp add: session_ok_def newUDPSessionEntry_def defraggerMaxEntries_def)
  then show ?thesis
    using None ok by (auto simp: feed_def Let_def server_ok_def nth_append less_Suc_eq newUDPSessionEntry_def)
qed

lemma server_ok_step:
  assumes "server_step s s'" and "server_ok s" and "life_ok (lifeview s)"
  shows "server_ok s'"
  using assms(1)
proof cases
  case (receive now m)
  then show ?thesis using server_ok_feed assms by blast
next
  case (enqueue m i pd now)
  then have "i < length (sessions s)" "ID (sess s i) = SessionID m" using assms(2) by (auto simp: server_ok_def)
  then show ?thesis using enqueue server_ok_Enqueue [OF assms(2)] by (simp add: server_ok_def)
next
  case (send i ord victim io now)
  then show ?thesis using sendLoop_total [OF assms(2), of i ord victim] by (metis option.inject)
next
  case (target i qlen rnd io now r)
  show ?thesis
  proof (cases r)
    case (Inr x)
    then obtain sent e where "s' = fold (\<lambda>m. noteEv (SentEv i m)) sent (upd i (\<lambda>x. x\<lparr>Last := now\<rparr>) s)
      \<or> s' = call_CloseWithErr i e (fold (\<lambda>m. noteEv (SentEv i m)) sent (upd i (\<lambda>x. x\<lparr>Last := now\<rparr>) s))"
      using target by (cases x) (auto simp: receiveLoop_def Let_def split: option.splits prod.splits if_splits)
    then show ?thesis using assms(2) server_ok_sent by fastforce
  qed (use target assms in \<open>auto simp: receiveLoop_def\<close>)
next
  case (close i e)
  then show ?thesis using assms(2)
    by (auto simp: CloseWithErr_def Let_def close_socket_def split: option.split)
next
  case (exit i e)
  then show ?thesis using assms(2) by (auto simp: exitFunc_def Let_def intro!: server_ok_noteEv)
next
  case (clean b now)
  have "server_ok (fold (\<lambda>i. call_CloseWithErr i None) js t) = server_ok t" for js t
    by (induction js arbitrary: t) simp_all
  then show ?thesis using clean assms(2) by (simp add: cleanup_def)
qed

lemma reach_server_ok: "server_reach idle s \<Longrightarrow> server_ok s"
proof (induction rule: server_reach.induct)
  case start
  show ?case by (simp add: server_ok_def newUDPSessionManager_def)
next
  case (step s s')
  then show ?case using server_ok_step reach_life_ok by blast
qed


section \<open>Properties\<close>

text \<open>The run the witnesses use: one message opens a session, whose socket is dialled and written to.\<close>

definition open_io :: udpIO where
  "open_io = \<lparr>io_Hook = (\<lambda>data addr. Inr addr), io_UDP = (\<lambda>_. None), io_CheckUDP = (\<lambda>_. Some ''denied''),
     io_WriteTo = (\<lambda>_ _ _. None), io_SendMessage = (\<lambda>_ _. SendOK)\<rparr>"

definition one_msg :: UDPMessage where
  "one_msg = \<lparr>SessionID = 7, PacketID = 0, FragID = 0, FragCount = 1, Addr = ''h:53'', Data = [1, 2]\<rparr>"

definition opened :: "udpSessionManager" where
  "opened = the (sendLoop open_io [] id 5 0 ((Enqueue False 3 0 one_msg (feed 1 one_msg (newUDPSessionManager 60)))\<lparr>feeding := None\<rparr>))"

lemmas server_run_defs = opened_def sendLoop_def Enqueue_def feed_def newUDPSessionManager_def one_msg_def open_io_def
  upd_def noteEv_def newUDPSessionEntry_def sessionSendQueueLen_def entry_Feed_def Feed_def initConn_def dialFunc_def
  deliver_def checkAddr_def WriteTo_def

lemma opened_run:
  "sendLoop open_io [] id 5 0 ((Enqueue False 3 0 one_msg (feed 1 one_msg (newUDPSessionManager 60)))\<lparr>feeding := None\<rparr>) = Some opened"
  by (simp add: server_run_defs)

lemma opened_state: "events opened = [NewEv 7 ''h:53'', DialEv 0 ''h:53'' ''h:53'', WriteEv 0 ''h:53'' [1, 2]]"
  "sockets opened = [True]" "mgr_m opened = [(7, 0)]" "pend opened = []" "length (sessions opened) = 1"
  "feeding opened = None"
  by (simp_all add: server_run_defs)

lemma opened_reach: "server_reach 60 opened"
proof -
  let ?s0 = "newUDPSessionManager 60"
  let ?s1 = "feed 1 one_msg ?s0"
  let ?s2 = "(Enqueue False 3 0 one_msg ?s1)\<lparr>feeding := None\<rparr>"
  have "server_reach 60 ?s1"
    by (rule server_reach.step [OF server_reach.start]) (rule server_step.receive, simp add: newUDPSessionManager_def)
  then have "server_reach 60 ?s2"
    by (rule server_reach.step) (rule server_step.enqueue, simp add: feed_def newUDPSessionManager_def)
  then show ?thesis
    by (rule server_reach.step)
      (rule server_step.send [OF _ _ _ opened_run], simp_all add: Enqueue_def feed_def newUDPSessionManager_def
        newUDPSessionEntry_def upd_def Let_def sessionSendQueueLen_def)
qed

text \<open>
  C7. Whatever the client, the targets, the outbound and the scheduler do, in every reachable state: a session
  identifier names at most one session, the one that has not left; a session leaves (its exit is logged and
  it is removed from the map) at most once, and only after it was closed; a session that is closed and has not left has exactly one exit
  call pending; and a socket belongs to exactly one session and is open exactly as long as that session is not closed.
\<close>

theorem udp_session_lifecycle:
  assumes "server_reach idle s"
  shows "distinct (map fst (mgr_m s))
    \<and> (\<forall>i < length (sessions s). (ID (sess s i), i) \<in> set (mgr_m s) \<longleftrightarrow> i \<notin> set (exited s))
    \<and> distinct (exited s)
    \<and> (\<forall>i \<in> set (exited s). i < length (sessions s) \<and> closed (sess s i))
    \<and> (\<forall>i < length (sessions s). length (filter (is_PExit i) (pend s))
         = of_bool (closed (sess s i) \<and> i \<notin> set (exited s)))
    \<and> (\<forall>c < length (sockets s). \<exists>!i. i < length (sessions s) \<and> conn (sess s i) = Some c)
    \<and> (\<forall>i < length (sessions s). \<forall>c. conn (sess s i) = Some c \<longrightarrow> sockets s ! c = (\<not> closed (sess s i)))"
proof -
  note d = life_okD [OF reach_life_ok [OF assms], simplified]
  have ex: "i < length (sessions s) \<and> closed (sess s i)" if "i \<in> set (exited s)" for i
    using d(7) [OF that] by auto
  have own: "\<exists>!i. i < length (sessions s) \<and> conn (sess s i) = Some c" if "c < length (sockets s)" for c
    using d(11) [OF that] d(12) by (metis (no_types, lifting) nth_map)
  show ?thesis
    using d(3,5,6,9,10) own ex by auto
qed

theorem udp_session_lifecycle_witness:
  "sockets opened ! 0 = (\<not> closed (sess opened 0))"
  using udp_session_lifecycle [OF opened_reach]
  by (simp add: opened_state server_run_defs)

text \<open>
  No socket is leaked: from every reachable state, once \<open>Run\<close>'s final \<open>cleanup(false)\<close> and the pending
  calls have run, no session is left in the map and every socket the server ever dialled is closed.
\<close>

theorem cleanup_closes_everything:
  assumes "server_reach idle s"
  shows "mgr_m (drain (cleanup False now s)) = [] \<and> pend (drain (cleanup False now s)) = []
    \<and> set (sockets (drain (cleanup False now s))) \<subseteq> {False}"
proof -
  have "server_reach idle (cleanup False now s)"
    by (rule server_reach.step [OF assms server_step.clean])
  then have "life_ok (lifeview (cleanup False now s))" by (rule reach_life_ok)
  from drain_ok [OF this leaving_cleanup] show ?thesis using sockets_closed by blast
qed

theorem cleanup_closes_everything_witness:
  "sockets opened = [True] \<and> set (sockets (drain (cleanup False 9 opened))) \<subseteq> {False}"
  using cleanup_closes_everything [OF opened_reach, of 9] opened_state(2) by simp



text \<open>
  Memory per session is bounded whatever arrives, and the send loop never panics: the queue holds at most 1024 messages,
  all of this session; the decision cache at most 256 entries; the defragger at most 8 groups.
\<close>

theorem udp_session_bounded:
  assumes "server_reach idle s" and "i < length (sessions s)" and "\<And>ks. set (ord ks) = set ks"
    and "aclCache (sess s i) = [] \<or> victim \<in> fst ` set (aclCache (sess s i))"
  shows "length (sendCh (sess s i)) \<le> 1024 \<and> (\<forall>m \<in> set (sendCh (sess s i)). SessionID m = ID (sess s i))
    \<and> length (aclCache (sess s i)) \<le> 256 \<and> length (d_entries (D (sess s i))) \<le> 8
    \<and> (\<exists>s'. sendLoop io victim ord now i s = Some s')"
proof -
  have ok: "server_ok s" using assms(1) by (rule reach_server_ok)
  have "\<exists>s'. sendLoop io victim ord now i s = Some s'"
    using sendLoop_total [OF ok assms(2,3), of victim io now] assms(4) by auto
  moreover have "session_ok (set (events s)) i (sess s i)" using ok assms(2) by (simp add: server_ok_def)
  ultimately show ?thesis
    by (auto simp: session_ok_def sessionSendQueueLen_def maxSessionACLCache_def defragger_ok_def defraggerMaxEntries_def)
qed

theorem udp_session_bounded_witness:
  "length (aclCache (sess opened 0)) \<le> 256 \<and> (\<exists>s'. sendLoop open_io ''h:53'' rev 9 0 opened = Some s')"
proof -
  have "aclCache (sess opened 0) = [(''h:53'', None)]" by (simp add: server_run_defs)
  then show ?thesis
    using udp_session_bounded [OF opened_reach, of 0 rev "''h:53''" open_io 9] by (simp add: opened_state)
qed

end
