(* ===== verification/Client_Udp.thy ===== *)
theory Client_Udp
  imports Server_Udp
begin

text \<open>
  The client's UDP sessions (\<open>core/client/udp.go\<close>). All operations of the manager run under its
  mutex, so each is one step. A channel is the list of messages in it and whether it was closed;
  sending on a closed channel and closing it twice are run-time panics, the value \<open>None\<close>. Sessions live on a heap and are indices.
\<close>

section \<open>Definitions\<close>

definition udpMessageChanSize :: nat where "udpMessageChanSize = 1024"

record udpConn =
  uID :: u32
  uD :: Defragger
  ReceiveCh :: "UDPMessage list"
  ReceiveCh_closed :: bool
  Closed :: bool

record clientSessionManager =
  cm_conns :: "udpConn list"
  cm_m :: "(u32 \<times> nat) list"
  nextID :: u32
  cm_closed :: bool
  UDPRxNoSession :: u64
  UDPRxQueueFull :: u64

definition newClientSessionManager :: clientSessionManager where
  "newClientSessionManager = \<lparr>cm_conns = [], cm_m = [], nextID = 1, cm_closed = False, UDPRxNoSession = 0, UDPRxQueueFull = 0\<rparr>"

definition conn_close :: "nat \<Rightarrow> clientSessionManager \<Rightarrow> clientSessionManager option" where
  "conn_close i m =
     (let u = cm_conns m ! i
      in if \<not> Closed u
         then if ReceiveCh_closed u then None
              else Some (m\<lparr>cm_conns := (cm_conns m)[i := u\<lparr>Closed := True, ReceiveCh_closed := True\<rparr>],
                           cm_m := AList.delete (uID u) (cm_m m)\<rparr>)
         else Some m)"

fun close_all :: "nat list \<Rightarrow> clientSessionManager \<Rightarrow> clientSessionManager option" where
  "close_all [] m = Some m"
| "close_all (i # is) m = (case conn_close i m of None \<Rightarrow> None | Some m' \<Rightarrow> close_all is m')"

text \<open>Go's iteration order over the map is the order of \<open>ord\<close>.\<close>

definition closeCleanup :: "(nat list \<Rightarrow> nat list) \<Rightarrow> clientSessionManager \<Rightarrow> clientSessionManager option" where
  "closeCleanup ord m =
     (case close_all (ord (map snd (cm_m m))) m of None \<Rightarrow> None | Some m' \<Rightarrow> Some (m'\<lparr>cm_closed := True\<rparr>))"

definition client_feed :: "UDPMessage \<Rightarrow> clientSessionManager \<Rightarrow> clientSessionManager option" where
  "client_feed msg m =
     (case map_of (cm_m m) (SessionID msg) of
        None \<Rightarrow> Some (m\<lparr>UDPRxNoSession := UDPRxNoSession m + 1\<rparr>)
      | Some i \<Rightarrow>
          let u = cm_conns m ! i
          in if ReceiveCh_closed u then None
             else if length (ReceiveCh u) < udpMessageChanSize
             then Some (m\<lparr>cm_conns := (cm_conns m)[i := u\<lparr>ReceiveCh := ReceiveCh u @ [msg]\<rparr>]\<rparr>)
             else Some (m\<lparr>UDPRxQueueFull := UDPRxQueueFull m + 1\<rparr>))"

definition NewUDP :: "clientSessionManager \<Rightarrow> clientSessionManager \<times> nat option" where
  "NewUDP m =
     (if cm_closed m then (m, None)
      else let i = length (cm_conns m);
               u = \<lparr>uID = nextID m, uD = NewDefragger, ReceiveCh = [], ReceiveCh_closed = False, Closed = False\<rparr>
           in (m\<lparr>nextID := nextID m + 1, cm_conns := cm_conns m @ [u], cm_m := AList.update (nextID m) i (cm_m m)\<rparr>,
               Some i))"

datatype recv = Blocked | EOF | Got bytes string

text \<open>\<open>now\<close> lists the clock readings of the loop's turns; a loop still waiting is \<open>Blocked\<close>.\<close>

fun receive_loop :: "(u16 list \<Rightarrow> u16 list) \<Rightarrow> (nat \<Rightarrow> instant) \<Rightarrow> nat \<Rightarrow> bool \<Rightarrow> Defragger \<Rightarrow> UDPMessage list
    \<Rightarrow> (Defragger \<times> UDPMessage list \<times> recv) option" where
  "receive_loop ord now k ch_closed d [] = Some (d, [], if ch_closed then EOF else Blocked)"
| "receive_loop ord now k ch_closed d (msg # ch) =
     (case Feed ord d (now k) msg of
        None \<Rightarrow> None
      | Some (d', None) \<Rightarrow> receive_loop ord now (Suc k) ch_closed d' ch
      | Some (d', Some dfMsg) \<Rightarrow> Some (d', ch, Got (Data dfMsg) (Addr dfMsg)))"

definition Receive :: "(u16 list \<Rightarrow> u16 list) \<Rightarrow> (nat \<Rightarrow> instant) \<Rightarrow> nat \<Rightarrow> clientSessionManager
    \<Rightarrow> (clientSessionManager \<times> recv) option" where
  "Receive ord now i m =
     (let u = cm_conns m ! i
      in case receive_loop ord now 0 (ReceiveCh_closed u) (uD u) (ReceiveCh u) of
           None \<Rightarrow> None
         | Some (d, ch, r) \<Rightarrow> Some (m\<lparr>cm_conns := (cm_conns m)[i := u\<lparr>uD := d, ReceiveCh := ch\<rparr>]\<rparr>, r))"

definition Send :: "(u64 \<Rightarrow> nat) \<Rightarrow> nat \<Rightarrow> (nat \<Rightarrow> UDPMessage \<Rightarrow> send_result) \<Rightarrow> udpConn \<Rightarrow> bytes \<Rightarrow> string
    \<Rightarrow> (UDPMessage list \<times> send_result) option" where
  "Send qlen rnd send u data addr =
     (let msg = \<lparr>SessionID = uID u, PacketID = 0, FragID = 0, FragCount = 1, Addr = addr, Data = data\<rparr>
      in case send 0 msg of
           TooLarge n \<Rightarrow>
             (case FragUDPMessage qlen (msg\<lparr>PacketID := of_nat rnd + 1\<rparr>) n of
                None \<Rightarrow> None | Some fMsgs \<Rightarrow> Some (send_frags send 1 fMsgs))
         | SendOK \<Rightarrow> Some ([msg], SendOK)
         | r \<Rightarrow> Some ([], r))"

definition client_Count :: "clientSessionManager \<Rightarrow> nat" where "client_Count m = length (cm_m m)"

inductive client_step :: "clientSessionManager \<Rightarrow> clientSessionManager \<Rightarrow> bool" where
  newudp: "client_step m (fst (NewUDP m))"
| feed: "client_feed msg m = Some m' \<Longrightarrow> client_step m m'"
| close: "i < length (cm_conns m) \<Longrightarrow> conn_close i m = Some m' \<Longrightarrow> client_step m m'"
| receive: "i < length (cm_conns m) \<Longrightarrow> (\<And>ks. set (ord ks) = set ks) \<Longrightarrow> Receive ord now i m = Some (m', r) \<Longrightarrow> client_step m m'"
| stop: "(\<And>is. set (ord is) = set is) \<Longrightarrow> closeCleanup ord m = Some m' \<Longrightarrow> client_step m m'"

inductive client_reach :: "clientSessionManager \<Rightarrow> bool" where
  start: "client_reach newClientSessionManager"
| step: "client_reach m \<Longrightarrow> client_step m m' \<Longrightarrow> client_reach m'"


section \<open>The invariant\<close>

definition uconn_ok :: "udpConn \<Rightarrow> bool" where
  "uconn_ok u \<longleftrightarrow> ReceiveCh_closed u = Closed u \<and> length (ReceiveCh u) \<le> udpMessageChanSize
     \<and> (\<forall>msg \<in> set (ReceiveCh u). SessionID msg = uID u) \<and> defragger_ok (uD u) \<and> d_maxEntries (uD u) = defraggerMaxEntries"

text \<open>The identifier of the session created \<open>i\<close> sessions after the first.\<close>

definition sid :: "nat \<Rightarrow> u32" where "sid i = of_nat (Suc i)"

lemma sid_Suc [simp]: "sid i + 1 = sid (Suc i)" by (simp add: sid_def)

definition client_ok :: "clientSessionManager \<Rightarrow> bool" where
  "client_ok m \<longleftrightarrow> (\<forall>i < length (cm_conns m). uconn_ok (cm_conns m ! i) \<and> uID (cm_conns m ! i) = sid i)
     \<and> (\<forall>k i. (k, i) \<in> set (cm_m m) \<longrightarrow> i < length (cm_conns m) \<and> k = sid i \<and> \<not> Closed (cm_conns m ! i))
     \<and> distinct (map fst (cm_m m)) \<and> nextID m = sid (length (cm_conns m)) \<and> (cm_closed m \<longrightarrow> cm_m m = [])
     \<and> (length (cm_conns m) < 2 ^ 32 \<longrightarrow>
          (\<forall>i < length (cm_conns m). \<not> Closed (cm_conns m ! i) \<longrightarrow> (sid i, i) \<in> set (cm_m m)))"

lemma sid_inj: "i < 2 ^ 32 - 1 \<Longrightarrow> j < 2 ^ 32 - 1 \<Longrightarrow> sid i = sid j \<Longrightarrow> i = j"
proof -
  assume ij: "i < 2 ^ 32 - 1" "j < 2 ^ 32 - 1" and eq: "sid i = sid j"
  from eq have "unat (of_nat (Suc i) :: u32) = unat (of_nat (Suc j) :: u32)" unfolding sid_def by (rule arg_cong)
  then show "i = j" using ij by (simp only: unat_of_nat take_bit_eq_mod) simp
qed

lemma client_ok_init: "client_ok newClientSessionManager"
  by (simp add: client_ok_def newClientSessionManager_def sid_def)

lemma client_ok_conn:
  assumes ok: "client_ok m" and i: "i < length (cm_conns m)" and u: "uconn_ok u'" "uID u' = uID (cm_conns m ! i)"
    "Closed u' = Closed (cm_conns m ! i)"
  shows "client_ok (m\<lparr>cm_conns := (cm_conns m)[i := u']\<rparr>)"
  using assms unfolding client_ok_def by (auto simp: nth_list_update)

lemma client_ok_NewUDP:
  assumes ok: "client_ok m"
  shows "client_ok (fst (NewUDP m))"
proof (cases "cm_closed m")
  case False
  let ?n = "length (cm_conns m)"
  let ?u = "\<lparr>uID = nextID m, uD = NewDefragger, ReceiveCh = [], ReceiveCh_closed = False, Closed = False\<rparr>"
  have "uconn_ok ?u"
    using NewDefragger_ok NewDefragger_max by (simp add: uconn_ok_def defraggerMaxEntries_def)
  moreover have "(sid i, i) \<in> set (AList.update (nextID m) ?n (cm_m m))"
    if "Suc ?n < 2 ^ 32" "i < ?n" "\<not> Closed (cm_conns m ! i)" for i
  proof -
    have "sid i \<noteq> nextID m"
      using ok that sid_inj [of i ?n] by (auto simp: client_ok_def)
    then show ?thesis using ok that by (auto simp: client_ok_def)
  qed
  ultimately show ?thesis
    using ok False unfolding client_ok_def
    by (auto simp: NewUDP_def Let_def nth_append less_Suc_eq)
qed (use ok in \<open>simp add: NewUDP_def\<close>)

lemma client_ok_feed:
  assumes ok: "client_ok m"
  shows "\<exists>m'. client_feed msg m = Some m' \<and> client_ok m'"
proof (cases "map_of (cm_m m) (SessionID msg)")
  case None
  then show ?thesis using ok by (auto simp: client_feed_def client_ok_def)
next
  case (Some i)
  let ?u = "cm_conns m ! i"
  have i: "i < length (cm_conns m)" "uID ?u = SessionID msg" "\<not> Closed ?u"
    using ok map_of_SomeD [OF Some] by (auto simp: client_ok_def)
  have u: "uconn_ok ?u" using ok i by (simp add: client_ok_def)
  have "client_ok (m\<lparr>cm_conns := (cm_conns m)[i := ?u\<lparr>ReceiveCh := ReceiveCh ?u @ [msg]\<rparr>]\<rparr>)"
    if "length (ReceiveCh ?u) < udpMessageChanSize"
    using u i that by (intro client_ok_conn [OF ok i(1)]) (auto simp: uconn_ok_def)
  moreover have "client_ok (m\<lparr>UDPRxQueueFull := n\<rparr>)" for n
    using ok by (simp add: client_ok_def)
  ultimately show ?thesis using Some u i by (simp add: client_feed_def Let_def uconn_ok_def)
qed

lemma client_ok_close:
  assumes ok: "client_ok m" and i: "i < length (cm_conns m)"
  shows "\<exists>m'. conn_close i m = Some m' \<and> client_ok m' \<and> length (cm_conns m') = length (cm_conns m)
    \<and> set (cm_m m') \<subseteq> {(k, j) \<in> set (cm_m m). j \<noteq> i}"
proof (cases "Closed (cm_conns m ! i)")
  case True
  then show ?thesis using ok by (auto simp: conn_close_def Let_def client_ok_def)
next
  case False
  let ?u = "cm_conns m ! i"
  have u: "uconn_ok ?u" "uID ?u = sid i" using ok i by (auto simp: client_ok_def)
  let ?m = "m\<lparr>cm_conns := (cm_conns m)[i := ?u\<lparr>Closed := True, ReceiveCh_closed := True\<rparr>], cm_m := AList.delete (uID ?u) (cm_m m)\<rparr>"
  have "sid j \<noteq> sid i" if "length (cm_conns m) < 2 ^ 32" "j < length (cm_conns m)" "j \<noteq> i" for j
    using sid_inj [of j i] ok that i by (auto simp: client_ok_def)
  then have "client_ok ?m"
    using ok i u unfolding client_ok_def
    by (auto simp: nth_list_update uconn_ok_def)
  moreover have "conn_close i m = Some ?m" using False u by (simp add: conn_close_def Let_def uconn_ok_def)
  moreover have "set (cm_m ?m) \<subseteq> {(k, j) \<in> set (cm_m m). j \<noteq> i}"
    using ok by (auto simp: client_ok_def)
  ultimately show ?thesis by auto
qed

lemma client_ok_close_all:
  assumes "client_ok m" and "\<forall>i \<in> set js. i < length (cm_conns m)"
  shows "\<exists>m'. close_all js m = Some m' \<and> client_ok m' \<and> length (cm_conns m') = length (cm_conns m)
    \<and> set (cm_m m') \<subseteq> {(k, j) \<in> set (cm_m m). j \<notin> set js}"
  using assms
proof (induction js arbitrary: m)
  case Nil
  then show ?case by auto
next
  case (Cons j js)
  obtain m1 where 1: "conn_close j m = Some m1" "client_ok m1" "length (cm_conns m1) = length (cm_conns m)"
    "set (cm_m m1) \<subseteq> {(k, i) \<in> set (cm_m m). i \<noteq> j}"
    using client_ok_close [OF Cons.prems(1)] Cons.prems(2) by fastforce
  then obtain m2 where "close_all js m1 = Some m2" "client_ok m2" "length (cm_conns m2) = length (cm_conns m1)"
    "set (cm_m m2) \<subseteq> {(k, i) \<in> set (cm_m m1). i \<notin> set js}"
    using Cons.IH [OF 1(2)] Cons.prems(2) by auto
  then show ?case using 1 by fastforce
qed

lemma client_ok_closeCleanup:
  assumes ok: "client_ok m" and ord: "\<And>is. set (ord is) = set is"
  shows "\<exists>m'. closeCleanup ord m = Some m' \<and> client_ok m' \<and> cm_closed m' \<and> cm_m m' = []"
proof -
  have "\<forall>i \<in> set (ord (map snd (cm_m m))). i < length (cm_conns m)"
    using ok ord by (auto simp: client_ok_def)
  from client_ok_close_all [OF ok this] obtain m1 where
    1: "close_all (ord (map snd (cm_m m))) m = Some m1" "client_ok m1"
    "set (cm_m m1) \<subseteq> {(k, j) \<in> set (cm_m m). j \<notin> set (ord (map snd (cm_m m)))}" by blast
  have "set (cm_m m1) \<subseteq> {}" using 1(3) ord by force
  then show ?thesis using 1 by (auto simp: closeCleanup_def client_ok_def)
qed

lemma receive_loop_ok:
  assumes "defragger_ok d" "d_maxEntries d = defraggerMaxEntries" and ord: "\<And>ks. set (ord ks) = set ks"
  shows "\<exists>d' ch' r. receive_loop ord now k b d ch = Some (d', ch', r) \<and> defragger_ok d'
    \<and> d_maxEntries d' = defraggerMaxEntries \<and> (\<exists>n. ch' = drop n ch) \<and> (r = EOF \<longrightarrow> b \<and> ch' = [])
    \<and> (r = Blocked \<longrightarrow> \<not> b \<and> ch' = [])"
  using assms(1,2)
proof (induction ch arbitrary: d k)
  case (Cons m ch)
  obtain d1 r1 where f: "Feed ord d (now k) m = Some (d1, r1)" "defragger_ok d1"
    using Feed_defragger_ok [OF Cons.prems(1) ord] by blast
  have lim: "d_maxEntries d1 = defraggerMaxEntries" using Feed_limits(1) [OF Cons.prems(1) f(1)] Cons.prems(2) by simp
  show ?case
  proof (cases r1)
    case None
    obtain d' ch' r n where "receive_loop ord now (Suc k) b d1 ch = Some (d', ch', r)" "defragger_ok d'"
      "d_maxEntries d' = defraggerMaxEntries" "ch' = drop n ch" "r = EOF \<longrightarrow> b \<and> ch' = []" "r = Blocked \<longrightarrow> \<not> b \<and> ch' = []"
      using Cons.IH [OF f(2) lim, of "Suc k"] by blast
    then show ?thesis using f None by (auto intro: exI [of _ "Suc n"])
  next
    case (Some x)
    then show ?thesis using f lim by (auto intro: exI [of _ 1])
  qed
qed auto

lemma client_ok_Receive:
  assumes ok: "client_ok m" and i: "i < length (cm_conns m)" and ord: "\<And>ks. set (ord ks) = set ks"
  shows "\<exists>m' r. Receive ord now i m = Some (m', r) \<and> client_ok m'"
proof -
  let ?u = "cm_conns m ! i"
  have u: "uconn_ok ?u" using ok i by (simp add: client_ok_def)
  obtain d' ch' r n where r: "receive_loop ord now 0 (ReceiveCh_closed ?u) (uD ?u) (ReceiveCh ?u) = Some (d', ch', r)"
    "defragger_ok d'" "d_maxEntries d' = defraggerMaxEntries" "ch' = drop n (ReceiveCh ?u)"
    using receive_loop_ok [of "uD ?u" ord now 0 "ReceiveCh_closed ?u" "ReceiveCh ?u"] u ord
    by (auto simp: uconn_ok_def)
  have "client_ok (m\<lparr>cm_conns := (cm_conns m)[i := ?u\<lparr>uD := d', ReceiveCh := ch'\<rparr>]\<rparr>)"
    using u r by (intro client_ok_conn [OF ok i]) (auto simp: uconn_ok_def dest: in_set_dropD)
  then show ?thesis using r by (simp add: Receive_def Let_def)
qed

lemma client_ok_step: "client_step m m' \<Longrightarrow> client_ok m \<Longrightarrow> client_ok m'"
proof (induction rule: client_step.induct)
  case (feed msg m m')
  then show ?case using client_ok_feed [of m msg] by auto
next
  case (close i m m')
  then show ?case using client_ok_close [of m i] by auto
next
  case (receive i m ord now m' r)
  then show ?case using client_ok_Receive [of m i ord now] by auto
next
  case (stop ord m m')
  then show ?case using client_ok_closeCleanup [of m ord] by auto
qed (rule client_ok_NewUDP)

lemma reach_client_ok: "client_reach m \<Longrightarrow> client_ok m"
  by (induction rule: client_reach.induct) (auto intro: client_ok_init client_ok_step)


section \<open>From the client to the target\<close>

lemma send_frags_ok: "(\<And>j f. send (Suc j) f = SendOK) \<Longrightarrow> send_frags send (Suc k) fs = (fs, SendOK)"
  by (induction fs arbitrary: k) simp_all

text \<open>Feeding a session of the server, message by message.\<close>

fun entry_Feed_all :: "udpIO \<Rightarrow> string \<Rightarrow> (u16 list \<Rightarrow> u16 list) \<Rightarrow> nat \<Rightarrow> (instant \<times> UDPMessage) list
    \<Rightarrow> udpSessionManager \<Rightarrow> udpSessionManager option" where
  "entry_Feed_all io victim ord i [] s = Some s"
| "entry_Feed_all io victim ord i ((t, m) # xs) s =
     (case entry_Feed io victim ord t i m s of None \<Rightarrow> None | Some (s', _) \<Rightarrow> entry_Feed_all io victim ord i xs s')"

definition ready :: "nat \<Rightarrow> string \<Rightarrow> udpSessionManager \<Rightarrow> bool" where
  "ready i addr s \<longleftrightarrow> i < length (sessions s) \<and> conn (sess s i) \<noteq> None \<and> OverrideAddr (sess s i) = []
     \<and> map_of (aclCache (sess s i)) addr = Some None"

lemma entry_Feed_none:
  assumes "ready i addr s" and "Feed ord (D (sess s i)) t m = Some (d, None)"
  shows "\<exists>s'. entry_Feed io v ord t i m s = Some (s', None) \<and> ready i addr s' \<and> D (sess s' i) = d
    \<and> events s' = events s"
  using assms by (auto simp: ready_def entry_Feed_def Let_def)

lemma entry_Feed_some:
  assumes "ready i (Addr dm) s" and "Feed ord (D (sess s i)) t m = Some (d, Some dm)"
  shows "\<exists>s' r. entry_Feed io v ord t i m s = Some (s', r) \<and> events s' = events s @ [WriteEv i (Addr dm) (Data dm)]"
  using assms by (auto simp: ready_def entry_Feed_def Let_def deliver_def checkAddr_def WriteTo_def)

lemma entry_Feed_all_group:
  assumes "ready i (Addr dm) s" and "feed_all ord (D (sess s i)) xs = Some (d, replicate k None @ [Some dm])"
  shows "\<exists>s'. entry_Feed_all io v ord i xs s = Some s' \<and> events s' = events s @ [WriteEv i (Addr dm) (Data dm)]"
  using assms
proof (induction k arbitrary: xs s)
  case 0
  then obtain t m ys d1 where xs: "xs = (t, m) # ys" and f: "Feed ord (D (sess s i)) t m = Some (d1, Some dm)"
    and rest: "feed_all ord d1 ys = Some (d, [])"
    by (cases "(ord, D (sess s i), xs)" rule: feed_all.cases) (auto split: option.splits)
  have "ys = []" using rest by (cases "(ord, d1, ys)" rule: feed_all.cases) (auto split: option.splits)
  moreover obtain s' r where "entry_Feed io v ord t i m s = Some (s', r)" "events s' = events s @ [WriteEv i (Addr dm) (Data dm)]"
    using entry_Feed_some [OF 0(1) f] by blast
  ultimately show ?case using xs by simp
next
  case (Suc k)
  then obtain t m ys d1 where xs: "xs = (t, m) # ys" and f: "Feed ord (D (sess s i)) t m = Some (d1, None)"
    and rest: "feed_all ord d1 ys = Some (d, replicate k None @ [Some dm])"
    by (cases "(ord, D (sess s i), xs)" rule: feed_all.cases) (auto split: option.splits)
  obtain s1 where s1: "entry_Feed io v ord t i m s = Some (s1, None)" "ready i (Addr dm) s1" "D (sess s1 i) = d1"
    "events s1 = events s"
    using entry_Feed_none [OF Suc.prems(1) f] by blast
  show ?case using Suc.IH [OF s1(2), of ys] rest s1 xs by simp
qed


section \<open>Properties\<close>

definition two_sessions :: clientSessionManager where
  "two_sessions = fst (NewUDP (fst (NewUDP newClientSessionManager)))"

lemma two_sessions_reach: "client_reach two_sessions"
  unfolding two_sessions_def
  by (rule client_reach.step [OF client_reach.step [OF client_reach.start client_step.newudp] client_step.newudp])

lemma two_sessions_length: "length (cm_conns two_sessions) = 2"
  by (simp add: two_sessions_def NewUDP_def newClientSessionManager_def Let_def)

text \<open>
  The client's session manager never panics - it neither sends on a closed channel nor closes one twice, whatever the server sends and however the
  sessions are opened, read and closed - and it does not mix sessions up: what waits in a session's channel carries that session's identifier, and at most
  1024 messages wait; identifiers are distinct until 2^32 sessions have been created.
\<close>

theorem client_udp_safe:
  assumes "client_reach m" and "i < length (cm_conns m)" and "\<And>ks. set (ord ks) = set ks" and "\<And>is. set (ord' is) = set is"
  shows "client_feed msg m \<noteq> None \<and> conn_close i m \<noteq> None \<and> closeCleanup ord' m \<noteq> None \<and> Receive ord now i m \<noteq> None
    \<and> length (ReceiveCh (cm_conns m ! i)) \<le> 1024
    \<and> (\<forall>msg \<in> set (ReceiveCh (cm_conns m ! i)). SessionID msg = uID (cm_conns m ! i))
    \<and> (length (cm_conns m) < 2 ^ 32 \<longrightarrow> (\<forall>j < length (cm_conns m). uID (cm_conns m ! j) = uID (cm_conns m ! i) \<longrightarrow> j = i))"
proof -
  have ok: "client_ok m" using assms(1) by (rule reach_client_ok)
  have "uconn_ok (cm_conns m ! i)" using ok assms(2) by (simp add: client_ok_def)
  moreover have "j = i" if "length (cm_conns m) < 2 ^ 32" "j < length (cm_conns m)" "uID (cm_conns m ! j) = uID (cm_conns m ! i)" for j
    using sid_inj [of j i] ok that assms(2) by (simp add: client_ok_def)
  ultimately show ?thesis
    using client_ok_feed [OF ok, of msg] client_ok_close [OF ok assms(2)] client_ok_closeCleanup [OF ok assms(4)]
      client_ok_Receive [OF ok assms(2,3), of now]
    by (auto simp: uconn_ok_def udpMessageChanSize_def)
qed

theorem client_udp_safe_witness:
  "client_feed one_msg two_sessions \<noteq> None \<and> closeCleanup rev two_sessions \<noteq> None"
  using client_udp_safe [OF two_sessions_reach, of 1 rev rev one_msg "\<lambda>_. 0"] two_sessions_length by simp

text \<open>
  C19. When the connection ends, nobody is left waiting: after \<open>closeCleanup\<close> no session is registered, no new one
  is opened, and a read on any session that was ever opened returns (buffered data first, then \<open>io.EOF\<close>) instead of blocking.
\<close>

theorem closeCleanup_releases_readers:
  assumes "client_reach m" and "length (cm_conns m) < 2 ^ 32" and "\<And>is. set (ord' is) = set is"
    and "closeCleanup ord' m = Some m'" and "i < length (cm_conns m')" and "\<And>ks. set (ord ks) = set ks"
  shows "client_Count m' = 0 \<and> NewUDP m' = (m', None) \<and> (\<exists>m'' r. Receive ord now i m' = Some (m'', r) \<and> r \<noteq> Blocked)"
proof -
  have ok: "client_ok m" using assms(1) by (rule reach_client_ok)
  have m': "client_ok m'" "cm_closed m'" "cm_m m' = []"
    using client_ok_closeCleanup [OF ok assms(3)] assms(4) by auto
  have "\<forall>i \<in> set (ord' (map snd (cm_m m))). i < length (cm_conns m)"
    using ok assms(3) by (auto simp: client_ok_def)
  from client_ok_close_all [OF ok this] have len: "length (cm_conns m') = length (cm_conns m)"
    using assms(4) by (auto simp: closeCleanup_def)
  let ?u = "cm_conns m' ! i"
  have u: "uconn_ok ?u" using m'(1) assms(5) by (simp add: client_ok_def)
  have "Closed ?u" using m' assms(2,5) len by (auto simp: client_ok_def)
  then have "ReceiveCh_closed ?u" using u by (simp add: uconn_ok_def)
  moreover obtain d' ch' r where "receive_loop ord now 0 (ReceiveCh_closed ?u) (uD ?u) (ReceiveCh ?u) = Some (d', ch', r)"
    "r = Blocked \<longrightarrow> \<not> ReceiveCh_closed ?u"
    using receive_loop_ok [of "uD ?u" ord now 0 "ReceiveCh_closed ?u" "ReceiveCh ?u"] u assms(6)
    by (auto simp: uconn_ok_def)
  ultimately show ?thesis using m' by (auto simp: client_Count_def NewUDP_def Receive_def Let_def)
qed

theorem closeCleanup_releases_readers_witness:
  "\<exists>m'. closeCleanup rev two_sessions = Some m' \<and> client_Count m' = 0
     \<and> (\<exists>m'' r. Receive rev (\<lambda>_. 0) 1 m' = Some (m'', r) \<and> r \<noteq> Blocked)"
proof -
  have ok: "client_ok two_sessions" using two_sessions_reach by (rule reach_client_ok)
  obtain m' where m': "closeCleanup rev two_sessions = Some m'"
    using client_ok_closeCleanup [OF ok, of rev] by auto
  have "length (cm_conns m') = 2"
    using m' by (auto simp: closeCleanup_def two_sessions_def NewUDP_def newClientSessionManager_def conn_close_def Let_def
        numeral_2_eq_2)
  then show ?thesis
    using m' closeCleanup_releases_readers [OF two_sessions_reach _ _ m', of 1 rev "\<lambda>_. 0"] two_sessions_length by simp
qed

text \<open>
  The two ends fragment alike: the client's \<open>Send\<close> is the server's \<open>sendMessageAutoFrag\<close> on the message it builds.
\<close>

theorem Send_is_sendMessageAutoFrag:
  "Send qlen rnd send u data addr = sendMessageAutoFrag qlen rnd send
     \<lparr>SessionID = uID u, PacketID = 0, FragID = 0, FragCount = 1, Addr = addr, Data = data\<rparr>"
  by (simp add: Send_def sendMessageAutoFrag_def Let_def cong: send_result.case_cong)


definition tiny_send :: "nat \<Rightarrow> UDPMessage \<Rightarrow> send_result" where
  "tiny_send k m = (if k = 0 then TooLarge 15 else SendOK)"

definition demo_conn :: udpConn where
  "demo_conn = \<lparr>uID = 7, uD = NewDefragger, ReceiveCh = [], ReceiveCh_closed = False, Closed = False\<rparr>"


end
