(* ===== verification/Selector.thy ===== *)
theory Selector
  imports Prelude
begin

text \<open>
  The path-selection policy (\<open>core/selector/selector.go\<close>) over readings of one connection
  (\<open>core/pathstats/pathstats.go\<close>). Durations and instants are unbounded integers of
  nanoseconds; Go's division by two truncates. An address is a \<open>netip.AddrPort\<close>. The textual
  form of an address that is not a UDP address is parsed by \<open>netip.ParseAddrPort\<close>, whose
  result is part of the address given to the model.
\<close>

section \<open>Definitions\<close>

subsection \<open>Addresses\<close>

datatype ip_addr = NoIP | V4 u32 | V6 "128 word" string

record AddrPort =
  ap_addr :: ip_addr
  ap_port :: u16

definition zeroAddrPort :: AddrPort where
  "zeroAddrPort = \<lparr>ap_addr = NoIP, ap_port = 0\<rparr>"

text \<open>\<open>netip.Addr.Unmap\<close>: an IPv4-mapped IPv6 address becomes the IPv4 address it wraps.\<close>

definition Unmap :: "ip_addr \<Rightarrow> ip_addr" where
  "Unmap a = (case a of V6 w _ \<Rightarrow> if drop_bit 32 w = 0xffff then V4 (ucast w) else a | _ \<Rightarrow> a)"

datatype net_addr = NilAddr | UDPAddr AddrPort | OtherAddr "AddrPort option"

definition addrPort :: "net_addr \<Rightarrow> AddrPort \<times> bool" where
  "addrPort a =
     (case a of
        NilAddr \<Rightarrow> (zeroAddrPort, False)
      | UDPAddr ap \<Rightarrow> (ap\<lparr>ap_addr := Unmap (ap_addr ap)\<rparr>, ap_addr ap \<noteq> NoIP)
      | OtherAddr None \<Rightarrow> (zeroAddrPort, False)
      | OtherAddr (Some ap) \<Rightarrow> (ap\<lparr>ap_addr := Unmap (ap_addr ap)\<rparr>, True))"

subsection \<open>Readings\<close>

record PathStats =
  MinRTT :: duration
  LatestRTT :: duration
  SmoothedRTT :: duration
  RTTVariance :: duration
  BytesSent :: u64
  PacketsSent :: u64
  BytesReceived :: u64
  PacketsReceived :: u64
  BytesLost :: u64
  PacketsLost :: u64

record Config =
  KeepAlive :: duration
  IdleTimeout :: duration
  Candidates :: "AddrPort list"

record Path =
  path_stats :: PathStats
  path_live :: bool
  path_current :: net_addr

record Observation =
  At :: instant
  On :: AddrPort
  Live :: bool
  Stats :: PathStats

definition zeroStats :: PathStats where
  "zeroStats = \<lparr>MinRTT = 0, LatestRTT = 0, SmoothedRTT = 0, RTTVariance = 0, BytesSent = 0, PacketsSent = 0,
     BytesReceived = 0, PacketsReceived = 0, BytesLost = 0, PacketsLost = 0\<rparr>"

definition Sample :: "instant \<Rightarrow> Path \<Rightarrow> Observation \<times> bool" where
  "Sample at p =
     (if \<not> path_live p then (\<lparr>At = at, On = zeroAddrPort, Live = False, Stats = zeroStats\<rparr>, True)
      else let (on, ok) = addrPort (path_current p)
           in if \<not> ok then (\<lparr>At = 0, On = zeroAddrPort, Live = False, Stats = zeroStats\<rparr>, False)
              else (\<lparr>At = at, On = on, Live = True, Stats = path_stats p\<rparr>, True))"

subsection \<open>Decisions\<close>

datatype Action = Stay | Switch | GiveUp
datatype Reason = Alive | NoKeepAlive | NoConnection | Silent | Exhausted | NoCandidates

fun Action_String :: "Action \<Rightarrow> string" where
  "Action_String Stay = ''stay''"
| "Action_String Switch = ''switch''"
| "Action_String GiveUp = ''give-up''"

fun Reason_String :: "Reason \<Rightarrow> string" where
  "Reason_String Alive = ''alive''"
| "Reason_String NoKeepAlive = ''no-keep-alive''"
| "Reason_String NoConnection = ''no-connection''"
| "Reason_String Silent = ''silent''"
| "Reason_String Exhausted = ''exhausted''"
| "Reason_String NoCandidates = ''no-candidates''"

record Decision =
  dAction :: Action
  dReason :: Reason
  dTo :: AddrPort
  dSilence :: duration
  dThreshold :: duration

subsection \<open>The threshold\<close>

definition silenceSlack :: duration where "silenceSlack = 2 * Second"
definition ackDelay :: duration where "ackDelay = 25 * Millisecond"
definition granularity :: duration where "granularity = Millisecond"

definition pto :: "PathStats \<Rightarrow> duration" where
  "pto s = SmoothedRTT s + max (4 * RTTVariance s) granularity + ackDelay"

definition Threshold :: "Config \<Rightarrow> PathStats \<Rightarrow> duration" where
  "Threshold cfg s =
     (let interval = KeepAlive cfg;
          half = go_div (IdleTimeout cfg) 2;
          interval = (if half > 0 \<and> half < interval then half else interval);
          slow = go_div (3 * pto s) 2;
          interval = (if slow > interval then slow else interval)
      in interval + SmoothedRTT s + silenceSlack)"

subsection \<open>The selector\<close>

datatype Outcome = Refused | ConnectionGone

record Selector =
  cfg :: Config
  started :: bool
  s_on :: AddrPort
  quietSince :: instant
  lastRx :: u64
  tried :: "AddrPort set"
  exhausted :: bool
  pendingFrom :: AddrPort
  pendingQuiet :: instant

definition NewSelector :: "Config \<Rightarrow> Selector" where
  "NewSelector c =
     \<lparr>cfg = c\<lparr>Candidates := map (\<lambda>a. a\<lparr>ap_addr := Unmap (ap_addr a)\<rparr>) (Candidates c)\<rparr>,
      started = False, s_on = zeroAddrPort, quietSince = 0, lastRx = 0, tried = {}, exhausted = False,
      pendingFrom = zeroAddrPort, pendingQuiet = 0\<rparr>"

definition restart :: "Selector \<Rightarrow> instant \<Rightarrow> Selector" where
  "restart s at = s\<lparr>quietSince := at\<rparr>"

definition freshConnection :: "Selector \<Rightarrow> instant \<Rightarrow> Selector" where
  "freshConnection s at = (restart s at)\<lparr>tried := {}, exhausted := False\<rparr>"

definition next_candidate :: "Selector \<Rightarrow> AddrPort option" where
  "next_candidate s = find (\<lambda>c. c \<notin> tried s \<and> c \<noteq> s_on s) (Candidates (cfg s))"

text \<open>The bookkeeping of \<open>Observe\<close> for a live reading, up to the assignment of \<open>lastRx\<close>.\<close>

definition observe_note :: "Selector \<Rightarrow> Observation \<Rightarrow> Selector \<times> Observation" where
  "observe_note s obs =
     (let s = (if \<not> started s
               then restart (s\<lparr>started := True, s_on := On obs, lastRx := PacketsReceived (Stats obs)\<rparr>) (At obs)
               else s);
          obs = (if At obs < quietSince s then obs\<lparr>At := quietSince s\<rparr> else obs);
          s = (if PacketsReceived (Stats obs) < lastRx s
               then (freshConnection s (At obs))\<lparr>s_on := On obs\<rparr>
               else if On obs \<noteq> s_on s
               then (restart s (At obs))\<lparr>s_on := On obs\<rparr>
               else if PacketsReceived (Stats obs) > lastRx s
               then s\<lparr>quietSince := At obs\<rparr>
               else s)
      in (s\<lparr>lastRx := PacketsReceived (Stats obs)\<rparr>, obs))"

definition Observe :: "Selector \<Rightarrow> Observation \<Rightarrow> Selector \<times> Decision" where
  "Observe s obs =
     (if \<not> Live obs
      then ((freshConnection s (At obs))\<lparr>s_on := zeroAddrPort, started := False\<rparr>,
            \<lparr>dAction = Stay, dReason = NoConnection, dTo = zeroAddrPort, dSilence = 0, dThreshold = 0\<rparr>)
      else let (s, obs) = observe_note s obs;
               threshold = Threshold (cfg s) (Stats obs);
               quiet = At obs - quietSince s;
               d = \<lparr>dAction = Stay, dReason = Alive, dTo = zeroAddrPort, dSilence = quiet, dThreshold = threshold\<rparr>
           in if quiet < threshold then (s, d\<lparr>dAction := Stay, dReason := Alive\<rparr>)
              else if KeepAlive (cfg s) \<le> 0 then (s, d\<lparr>dAction := Stay, dReason := NoKeepAlive\<rparr>)
              else if Candidates (cfg s) = [] then (s, d\<lparr>dAction := GiveUp, dReason := NoCandidates\<rparr>)
              else if exhausted s then (s, d\<lparr>dAction := GiveUp, dReason := Exhausted\<rparr>)
              else let s = s\<lparr>tried := insert (s_on s) (tried s)\<rparr>
                   in case next_candidate s of
                        None \<Rightarrow> (s\<lparr>exhausted := True\<rparr>, d\<lparr>dAction := GiveUp, dReason := Exhausted\<rparr>)
                      | Some next \<Rightarrow>
                          (restart (s\<lparr>pendingFrom := s_on s, pendingQuiet := quietSince s, s_on := next\<rparr>) (At obs),
                           d\<lparr>dAction := Switch, dReason := Silent, dTo := next\<rparr>))"

definition SwitchFailed :: "Selector \<Rightarrow> AddrPort \<Rightarrow> Outcome \<Rightarrow> Selector" where
  "SwitchFailed s to out =
     (if s_on s \<noteq> to then s
      else let s = s\<lparr>tried := insert to (tried s), s_on := pendingFrom s, quietSince := pendingQuiet s\<rparr>
           in if out = ConnectionGone then s\<lparr>exhausted := True\<rparr> else s)"


section \<open>The shape of one decision\<close>

lemma observe_note_cfg [simp]: "cfg (fst (observe_note s obs)) = cfg s"
  by (simp add: observe_note_def Let_def restart_def freshConnection_def)

lemma observe_note_Stats [simp]: "Stats (snd (observe_note s obs)) = Stats obs"
  by (simp add: observe_note_def Let_def)

lemma Observe_cfg [simp]: "cfg (fst (Observe s obs)) = cfg s"
proof -
  obtain n obs' where n: "observe_note s obs = (n, obs')" by (cases "observe_note s obs")
  then have "cfg n = cfg s" using observe_note_cfg [of s obs] by simp
  then show ?thesis
    using n by (simp add: Observe_def Let_def restart_def freshConnection_def split: option.split)
qed

text \<open>Anything but a reading that shows no change on the same address puts the silence at zero.\<close>

lemma observe_note_still:
  "started s \<and> On obs = s_on s \<and> lastRx s = PacketsReceived (Stats obs) \<and> quietSince s \<le> At obs \<Longrightarrow>
   observe_note s obs = (s, obs)"
  by (simp add: observe_note_def)

lemma observe_note_moved:
  "\<not> (started s \<and> On obs = s_on s \<and> lastRx s = PacketsReceived (Stats obs) \<and> quietSince s \<le> At obs) \<Longrightarrow>
   At (snd (observe_note s obs)) = quietSince (fst (observe_note s obs))"
  by (cases "started s"; cases "At obs < quietSince s")
    (auto simp: observe_note_def Let_def restart_def freshConnection_def)

text \<open>A switch, taken apart: what the code knew when it decided it, and what it changed.\<close>

lemma Observe_Switch:
  assumes "Observe s obs = (s', d)" and "dAction d = Switch"
  obtains n obs' where "observe_note s obs = (n, obs')" and "Live obs"
    and "dThreshold d \<le> dSilence d" and "dThreshold d = Threshold (cfg s) (Stats obs)"
    and "dSilence d = At obs' - quietSince n" and "0 < KeepAlive (cfg s)" and "\<not> exhausted n"
    and "dTo d \<in> set (Candidates (cfg s))" and "dTo d \<notin> tried n" and "dTo d \<noteq> s_on n"
    and "s_on s' = dTo d" and "tried s' = insert (s_on n) (tried n)" and "exhausted s' = exhausted n"
    and "pendingFrom s' = s_on n" and "pendingQuiet s' = quietSince n" and "quietSince s' = At obs'"
    and "started s' = started n" and "lastRx s' = lastRx n" and "dReason d = Silent"
proof -
  obtain n obs' where n: "observe_note s obs = (n, obs')" by (cases "observe_note s obs")
  have c: "cfg n = cfg s" "Stats obs' = Stats obs"
    using observe_note_cfg [of s obs] observe_note_Stats [of s obs] n by auto
  have live: "Live obs" using assms by (cases "Live obs") (auto simp: Observe_def)
  obtain c where nc: "next_candidate (n\<lparr>tried := insert (s_on n) (tried n)\<rparr>) = Some c"
    using assms n live by (auto simp: Observe_def Let_def split: if_splits option.splits)
  then have mem: "c \<in> set (Candidates (cfg n))" "c \<notin> tried n" "c \<noteq> s_on n"
    by (auto simp: next_candidate_def find_Some_iff)
  show thesis
    using that [OF n] assms n live nc mem c
    by (auto simp: Observe_def Let_def restart_def split: if_splits)
qed

lemma Threshold_bounds:
  assumes "0 \<le> SmoothedRTT st" and "0 \<le> RTTVariance st"
  shows "silenceSlack + SmoothedRTT st \<le> Threshold c st" and "KeepAlive c \<le> 0 \<or> 0 < Threshold c st - silenceSlack"
proof -
  have p: "0 < pto st"
    using assms by (simp add: pto_def granularity_def ackDelay_def add_nonneg_pos)
  then have "0 < go_div (3 * pto st) 2"
    by (simp add: pto_def granularity_def ackDelay_def)
  then show "silenceSlack + SmoothedRTT st \<le> Threshold c st"
    and "KeepAlive c \<le> 0 \<or> 0 < Threshold c st - silenceSlack"
    using assms by (auto simp: Threshold_def Let_def)
qed


section \<open>One connection\<close>

text \<open>
  The life of one connection under a caller that keeps its side of the contract: every reading is
  of a live connection whose packet counter does not fall, taken where the last decision put it,
  and \<open>SwitchFailed\<close> may be called at any time. The number counts the ordered switches.
\<close>

definition is_Switch :: "Decision \<Rightarrow> bool" where
  "is_Switch d = (dAction d = Switch)"

inductive one_connection :: "Selector \<Rightarrow> nat \<Rightarrow> Selector \<Rightarrow> bool" where
  start: "one_connection s 0 s"
| observe: "one_connection s n t \<Longrightarrow> Live obs \<Longrightarrow>
    started t \<longrightarrow> lastRx t \<le> PacketsReceived (Stats obs) \<and> On obs = s_on t \<Longrightarrow>
    Observe t obs = (t', d) \<Longrightarrow> one_connection s (n + of_bool (is_Switch d)) t'"
| failed: "one_connection s n t \<Longrightarrow> one_connection s n (SwitchFailed t to out)"

lemma observe_note_one:
  assumes "started t \<longrightarrow> lastRx t \<le> PacketsReceived (Stats obs) \<and> On obs = s_on t"
  shows "tried (fst (observe_note t obs)) = tried t" "started (fst (observe_note t obs))"
    "started t \<Longrightarrow> s_on (fst (observe_note t obs)) = s_on t"
  using assms by (auto simp: observe_note_def Let_def restart_def)

definition untried :: "Selector \<Rightarrow> AddrPort set" where
  "untried s = set (Candidates (cfg s)) - insert (s_on s) (tried s)"

lemma finite_untried [simp]: "finite (untried s)" by (simp add: untried_def)

lemma untried_le: "card (untried s) \<le> card (set (Candidates (cfg s)))"
  by (simp add: untried_def card_mono)

lemma Switch_untried:
  assumes "Observe s obs = (s', d)" and "dAction d = Switch" and "observe_note s obs = (n, obs')"
  shows "dTo d \<in> untried n \<and> untried s' = untried n - {dTo d} \<and> started s' = started n"
proof (rule Observe_Switch [OF assms(1,2)])
  fix n' obs''
  assume *: "observe_note s obs = (n', obs'')" "dTo d \<in> set (Candidates (cfg s))" "dTo d \<notin> tried n'"
    "dTo d \<noteq> s_on n'" "s_on s' = dTo d" "tried s' = insert (s_on n') (tried n')" "started s' = started n'"
  have "cfg s' = cfg s" "cfg n = cfg s"
    using Observe_cfg [of s obs] observe_note_cfg [of s obs] assms by auto
  then show ?thesis using * assms(3) by (auto simp: untried_def)
qed

lemma Observe_not_Switch:
  assumes "Observe s obs = (s', d)" and "dAction d \<noteq> Switch" and "Live obs" and "observe_note s obs = (n, obs')"
  shows "s_on s' = s_on n" "tried n \<subseteq> tried s'" "started s' = started n"
  using assms by (auto simp: Observe_def Let_def split: if_splits option.splits)

lemma untried_SwitchFailed: "card (untried (SwitchFailed t to out)) \<le> card (untried t)"
  by (rule card_mono) (auto simp: untried_def SwitchFailed_def Let_def)

lemma SwitchFailed_keeps [simp]:
  "started (SwitchFailed t to out) = started t" "cfg (SwitchFailed t to out) = cfg t"
  by (simp_all add: SwitchFailed_def Let_def)

lemma one_connection_potential:
  assumes "one_connection s n t"
  shows "cfg t = cfg s \<and> n + card (untried t) \<le> card (set (Candidates (cfg s))) \<and> (\<not> started t \<longrightarrow> n = 0)
    \<or> started s"
  using assms
proof (induction rule: one_connection.induct)
  case (start s)
  then show ?case using untried_le [of s] by simp
next
  case (observe s n t obs t' d)
  obtain m obs' where m: "observe_note t obs = (m, obs')" by (cases "observe_note t obs")
  note keep = observe_note_one [OF observe.hyps(3), unfolded m fst_conv]
  have c: "cfg t' = cfg t" "cfg m = cfg t"
    using Observe_cfg [of t obs] observe_note_cfg [of t obs] observe.hyps(4) m by auto
  show ?case
  proof (cases "started s")
    case False
    with observe.IH have ih: "cfg t = cfg s" "n + card (untried t) \<le> card (set (Candidates (cfg s)))"
      "\<not> started t \<longrightarrow> n = 0" by auto
    have m_le: "n + card (untried m) \<le> card (set (Candidates (cfg s)))"
    proof (cases "started t")
      case True
      then have "untried m = untried t" using keep c by (simp add: untried_def)
      then show ?thesis using ih by simp
    next
      case False
      then show ?thesis using ih untried_le [of m] c by simp
    qed
    show ?thesis
    proof (cases "dAction d = Switch")
      case True
      have sw: "dTo d \<in> untried m" "untried t' = untried m - {dTo d}" "started t'"
        using Switch_untried [OF observe.hyps(4) True m] keep(2) by simp_all
      then have "Suc (card (untried t')) = card (untried m)"
        by (metis card_Suc_Diff1 finite_untried)
      then show ?thesis using m_le sw c ih True by (simp add: is_Switch_def)
    next
      case False
      note o = Observe_not_Switch [OF observe.hyps(4) False observe.hyps(2) m]
      have "card (untried t') \<le> card (untried m)"
        using o c by (intro card_mono) (auto simp: untried_def)
      then show ?thesis using m_le o keep(2) c ih False by (simp add: is_Switch_def)
    qed
  qed simp
next
  case (failed s n t to out)
  then show ?case using untried_SwitchFailed [of t to out] by auto
qed


section \<open>A connection that moves by itself\<close>

text \<open>Feeding a list of readings.\<close>

fun observe_all :: "Selector \<Rightarrow> Observation list \<Rightarrow> Selector \<times> Decision list" where
  "observe_all s [] = (s, [])"
| "observe_all s (x # xs) = (let (s', d) = Observe s x; (s'', ds) = observe_all s' xs in (s'', d # ds))"

lemma observe_all_append:
  "observe_all s (xs @ ys) =
     (let (s', ds) = observe_all s xs; (s'', es) = observe_all s' ys in (s'', ds @ es))"
  by (induction xs arbitrary: s) (simp_all add: Let_def split: prod.split)

text \<open>
  Two candidates, \<open>A\<close> and \<open>B\<close>. In each round the connection is found on \<open>A\<close> with a packet received, then
  silent there for ten seconds.
\<close>

definition addrA :: AddrPort where "addrA = \<lparr>ap_addr = V4 1, ap_port = 443\<rparr>"
definition addrB :: AddrPort where "addrB = \<lparr>ap_addr = V4 2, ap_port = 443\<rparr>"

definition twoCandidates :: Config where
  "twoCandidates = \<lparr>KeepAlive = 2 * Second, IdleTimeout = 4 * Second, Candidates = [addrA, addrB]\<rparr>"

definition moving_round :: "nat \<Rightarrow> Observation list" where
  "moving_round i =
     [\<lparr>At = 20 * Second * int i, On = addrA, Live = True, Stats = zeroStats\<lparr>PacketsReceived := of_nat i\<rparr>\<rparr>,
      \<lparr>At = 20 * Second * int i + 10 * Second, On = addrA, Live = True,
       Stats = zeroStats\<lparr>PacketsReceived := of_nat i\<rparr>\<rparr>]"

lemma addrAB [simp]: "addrA \<noteq> addrB" "addrB \<noteq> addrA" "addrA \<noteq> zeroAddrPort"
  by (simp_all add: addrA_def addrB_def zeroAddrPort_def)

lemma twoCandidates_simps [simp]:
  "Threshold twoCandidates (zeroStats\<lparr>PacketsReceived := x\<rparr>) = 4 * Second"
  "KeepAlive twoCandidates = 2 * Second" "Candidates twoCandidates = [addrA, addrB]"
  by (simp_all add: twoCandidates_def Threshold_def pto_def silenceSlack_def ackDelay_def granularity_def
      zeroStats_def Let_def)

definition round_end :: "Selector \<Rightarrow> nat \<Rightarrow> bool" where
  "round_end s i = (cfg s = twoCandidates \<and> started s \<and> s_on s = addrB \<and> tried s = {addrA} \<and> lastRx s = of_nat i
     \<and> \<not> exhausted s \<and> quietSince s = 20 * Second * int i + 10 * Second)"

lemmas observe_defs = Observe_def observe_note_def restart_def freshConnection_def next_candidate_def Let_def

lemma Observe_moved:
  assumes "Live obs" "started s" "quietSince s \<le> At obs" "lastRx s \<le> PacketsReceived (Stats obs)"
    "On obs \<noteq> s_on s" "0 < Threshold (cfg s) (Stats obs)"
  shows "Observe s obs =
    (s\<lparr>quietSince := At obs, s_on := On obs, lastRx := PacketsReceived (Stats obs)\<rparr>,
     \<lparr>dAction = Stay, dReason = Alive, dTo = zeroAddrPort, dSilence = 0,
      dThreshold = Threshold (cfg s) (Stats obs)\<rparr>)"
  using assms by (auto simp: observe_defs)

lemma Observe_silent:
  assumes "Live obs" "started s" "lastRx s = PacketsReceived (Stats obs)" "On obs = s_on s"
    "Threshold (cfg s) (Stats obs) \<le> At obs - quietSince s" "0 < Threshold (cfg s) (Stats obs)"
    "0 < KeepAlive (cfg s)" "\<not> exhausted s"
    "next_candidate (s\<lparr>tried := insert (s_on s) (tried s)\<rparr>) = Some c"
  shows "Observe s obs =
    (s\<lparr>tried := insert (s_on s) (tried s), pendingFrom := s_on s, pendingQuiet := quietSince s, s_on := c,
       quietSince := At obs\<rparr>,
     \<lparr>dAction = Switch, dReason = Silent, dTo = c, dSilence = At obs - quietSince s,
      dThreshold = Threshold (cfg s) (Stats obs)\<rparr>)"
proof -
  have "Candidates (cfg s) \<noteq> []" using assms(9) by (auto simp: next_candidate_def)
  moreover have "observe_note s obs = (s, obs)"
    using assms(2-6) by (simp add: observe_note_def Let_def)
  ultimately show ?thesis
    using assms by (simp add: Observe_def Let_def restart_def)
qed

lemma moving_round_0:
  "round_end (fst (observe_all (NewSelector twoCandidates) (moving_round 0))) 0"
  "map dTo (filter is_Switch (snd (observe_all (NewSelector twoCandidates) (moving_round 0)))) = [addrB]"
proof -
  have new: "NewSelector twoCandidates =
    \<lparr>cfg = twoCandidates, started = False, s_on = zeroAddrPort, quietSince = 0, lastRx = 0, tried = {},
     exhausted = False, pendingFrom = zeroAddrPort, pendingQuiet = 0\<rparr>"
    by (simp add: NewSelector_def twoCandidates_def addrA_def addrB_def Unmap_def)
  have [simp]: "Threshold twoCandidates zeroStats = 4 * Second" "PacketsReceived zeroStats = 0"
    by (simp_all add: twoCandidates_def Threshold_def pto_def silenceSlack_def ackDelay_def granularity_def
      zeroStats_def Let_def)
  have [simp]: "zeroStats\<lparr>PacketsReceived := 0\<rparr> = zeroStats" by (simp add: zeroStats_def)
  show "round_end (fst (observe_all (NewSelector twoCandidates) (moving_round 0))) 0"
    "map dTo (filter is_Switch (snd (observe_all (NewSelector twoCandidates) (moving_round 0)))) = [addrB]"
    by (simp_all add: new moving_round_def observe_defs round_end_def is_Switch_def)
qed

lemma moving_round_Suc:
  assumes "round_end s i" "Suc i < 2 ^ 64"
  shows "round_end (fst (observe_all s (moving_round (Suc i)))) (Suc i)"
    and "map dTo (filter is_Switch (snd (observe_all s (moving_round (Suc i))))) = [addrB]"
proof -
  let ?st = "zeroStats\<lparr>PacketsReceived := of_nat (Suc i)\<rparr>"
  let ?at = "20 * Second * int (Suc i)"
  let ?s1 = "s\<lparr>quietSince := ?at, s_on := addrA, lastRx := of_nat (Suc i)\<rparr>"
  note s = assms(1) [unfolded round_end_def]
  have ge: "(of_nat i :: u64) \<le> of_nat (Suc i)"
    using assms(2) by (simp add: word_le_nat_alt unat_of_nat take_bit_eq_mod del: of_nat_Suc)
  have 1: "Observe s \<lparr>At = ?at, On = addrA, Live = True, Stats = ?st\<rparr> =
    (?s1, \<lparr>dAction = Stay, dReason = Alive, dTo = zeroAddrPort, dSilence = 0, dThreshold = 4 * Second\<rparr>)"
    using s ge by (subst Observe_moved) auto
  have 2: "Observe ?s1 \<lparr>At = ?at + 10 * Second, On = addrA, Live = True, Stats = ?st\<rparr> =
    (?s1\<lparr>tried := insert addrA (tried ?s1), pendingFrom := addrA, pendingQuiet := ?at, s_on := addrB,
       quietSince := ?at + 10 * Second\<rparr>,
     \<lparr>dAction = Switch, dReason = Silent, dTo = addrB, dSilence = 10 * Second, dThreshold = 4 * Second\<rparr>)"
    using s by (subst Observe_silent [where c = addrB]) (auto simp: next_candidate_def)
  show "round_end (fst (observe_all s (moving_round (Suc i)))) (Suc i)"
    and "map dTo (filter is_Switch (snd (observe_all s (moving_round (Suc i))))) = [addrB]"
    unfolding moving_round_def observe_all.simps 1 Let_def prod.case 2
    using s by (simp_all add: round_end_def is_Switch_def)
qed

definition moving_trace :: "nat \<Rightarrow> Observation list" where
  "moving_trace n = concat (map moving_round [0..<Suc n])"

lemma moving_trace_switches:
  "n < 2 ^ 64 \<Longrightarrow> round_end (fst (observe_all (NewSelector twoCandidates) (moving_trace n))) n \<and>
     map dTo (filter is_Switch (snd (observe_all (NewSelector twoCandidates) (moving_trace n)))) = replicate (Suc n) addrB"
proof (induction n)
  case 0
  then show ?case using moving_round_0 by (simp add: moving_trace_def)
next
  case (Suc n)
  obtain s ds where s: "observe_all (NewSelector twoCandidates) (moving_trace n) = (s, ds)"
    by fastforce
  have t: "moving_trace (Suc n) = moving_trace n @ moving_round (Suc n)" by (simp add: moving_trace_def)
  have "round_end s n" "map dTo (filter is_Switch ds) = replicate (Suc n) addrB"
    using Suc s by auto
  with moving_round_Suc [of s n] Suc.prems s show ?case
    by (simp add: t observe_all_append Let_def split_beta replicate_append_same)
qed


definition reading :: "AddrPort \<Rightarrow> u64 \<Rightarrow> instant \<Rightarrow> Observation" where
  "reading a rx at = \<lparr>At = at, On = a, Live = True, Stats = zeroStats\<lparr>PacketsReceived := rx\<rparr>\<rparr>"

definition settled_on :: "AddrPort \<Rightarrow> Selector" where
  "settled_on a = \<lparr>cfg = twoCandidates, started = True, s_on = a, quietSince = 0, lastRx = 0, tried = {},
     exhausted = False, pendingFrom = zeroAddrPort, pendingQuiet = 0\<rparr>"

lemma settled_switches:
  "\<exists>s' d. Observe (settled_on addrA) (reading addrA 0 (10 * Second)) = (s', d) \<and> dAction d = Switch"
  by (subst Observe_silent [where c = addrB]) (simp_all add: settled_on_def reading_def next_candidate_def)

lemma moving_trace_sorted:
  "n < 2 ^ 64 \<Longrightarrow>
   (\<forall>obs \<in> set (moving_trace n). unat (PacketsReceived (Stats obs)) \<le> n \<and> At obs \<le> 20 * Second * int n + 10 * Second)
    \<and> sorted (map (\<lambda>obs. unat (PacketsReceived (Stats obs))) (moving_trace n)) \<and> sorted (map At (moving_trace n))"
proof (induction n)
  case 0
  then show ?case by (simp add: moving_trace_def moving_round_def)
next
  case (Suc n)
  have u: "unat (of_nat (Suc n) :: u64) = Suc n"
    using Suc.prems by (simp add: unat_of_nat take_bit_eq_mod del: of_nat_Suc)
  have ih: "unat (PacketsReceived (Stats obs)) \<le> n" "At obs \<le> 20 * Second * int n + 10 * Second"
    if "obs \<in> set (moving_trace n)" for obs
    using Suc that by auto
  have "unat (PacketsReceived (Stats obs)) \<le> Suc n" "At obs \<le> 20 * Second * int (Suc n)"
    if "obs \<in> set (moving_trace n)" for obs
    using ih [OF that] by auto
  moreover have "moving_trace (Suc n) = moving_trace n @ moving_round (Suc n)" by (simp add: moving_trace_def)
  moreover have "sorted (map (\<lambda>obs. unat (PacketsReceived (Stats obs))) (moving_trace n))" "sorted (map At (moving_trace n))"
    using Suc by auto
  ultimately show ?case
    by (auto simp: moving_round_def sorted_append u simp del: of_nat_Suc) force+
qed


section \<open>Properties\<close>

text \<open>
  C10. A switch is ordered only on evidence: the reading is of a live connection, keep-alives are on,
  the packet counter has not moved since an instant at least \<open>Threshold\<close> ago - which is at least
  the 2 s slack plus one round trip - and the target is a configured candidate that
  is neither the address being left nor one already found silent, and the address being left is recorded.
\<close>

theorem switch_on_silence_only:
  assumes "Observe s obs = (s', d)" and "dAction d = Switch"
    and "0 \<le> SmoothedRTT (Stats obs)" and "0 \<le> RTTVariance (Stats obs)"
  shows "Live obs \<and> 0 < KeepAlive (cfg s) \<and> dThreshold d \<le> dSilence d \<and>
    silenceSlack + SmoothedRTT (Stats obs) \<le> dThreshold d \<and>
    (lastRx s = PacketsReceived (Stats obs) \<and> On obs = s_on s \<and> started s \<and> dSilence d = At obs - quietSince s) \<and>
    dTo d \<in> set (Candidates (cfg s)) \<and> dTo d \<notin> tried s \<and> dTo d \<noteq> s_on s \<and>
    s_on s' = dTo d \<and> tried s' = insert (s_on s) (tried s)"
proof (rule Observe_Switch [OF assms(1,2)])
  fix n obs'
  assume *: "observe_note s obs = (n, obs')" "Live obs" "dThreshold d \<le> dSilence d"
    "dThreshold d = Threshold (cfg s) (Stats obs)" "dSilence d = At obs' - quietSince n" "0 < KeepAlive (cfg s)"
    "dTo d \<in> set (Candidates (cfg s))" "dTo d \<notin> tried n" "dTo d \<noteq> s_on n"
    "s_on s' = dTo d" "tried s' = insert (s_on n) (tried n)"
  have th: "silenceSlack + SmoothedRTT (Stats obs) \<le> dThreshold d"
    using Threshold_bounds(1) [OF assms(3,4)] *(4) by simp
  then have "0 < At obs' - quietSince n"
    using *(3,5) assms(3) by (simp add: silenceSlack_def)
  then have still: "started s \<and> On obs = s_on s \<and> lastRx s = PacketsReceived (Stats obs) \<and> quietSince s \<le> At obs"
    using observe_note_moved [of s obs] *(1) by auto
  then have "n = s" "obs' = obs" using observe_note_still [of s obs] *(1) by auto
  then show ?thesis using * th still by simp
qed

theorem switch_on_silence_only_witness:
  "\<exists>s' d. Observe (settled_on addrA) (reading addrA 0 (10 * Second)) = (s', d)
     \<and> dTo d \<in> set (Candidates twoCandidates) \<and> dThreshold d \<le> dSilence d \<and> tried s' = {addrA}"
proof -
  obtain s' d where o: "Observe (settled_on addrA) (reading addrA 0 (10 * Second)) = (s', d)"
    and sw: "dAction d = Switch"
    using settled_switches by blast
  have nn: "0 \<le> SmoothedRTT (Stats (reading addrA 0 (10 * Second)))"
    "0 \<le> RTTVariance (Stats (reading addrA 0 (10 * Second)))"
    by (simp_all add: reading_def zeroStats_def)
  have "dTo d \<in> set (Candidates (cfg (settled_on addrA)))" "dThreshold d \<le> dSilence d"
    "tried s' = insert (s_on (settled_on addrA)) (tried (settled_on addrA))"
    using switch_on_silence_only [OF o sw nn] by blast+
  then show ?thesis using o by (auto simp: settled_on_def)
qed

text \<open>
  C17. Under a caller that keeps its side of the contract the walk is finite: on one connection, however
  many readings are taken and however many switches are reported failed, the number of switches ordered is at most the
  number of distinct candidates.
\<close>

theorem walk_is_finite:
  assumes "one_connection (NewSelector c) n t"
  shows "n \<le> card (set (Candidates (cfg (NewSelector c))))"
  using one_connection_potential [OF assms] by (simp add: NewSelector_def)

theorem walk_is_finite_witness:
  "\<exists>t. one_connection (NewSelector twoCandidates) 1 t \<and> 1 \<le> card (set (Candidates (cfg (NewSelector twoCandidates))))"
proof -
  let ?s0 = "NewSelector twoCandidates"
  obtain s1 d1 where 1: "Observe ?s0 (moving_round 0 ! 0) = (s1, d1)" by fastforce
  obtain s2 d2 where 2: "Observe s1 (moving_round 0 ! 1) = (s2, d2)" by fastforce
  have note1: "s_on s1 = addrA \<and> lastRx s1 = 0 \<and> \<not> is_Switch d1"
    using 1 by (auto simp: observe_defs moving_round_def NewSelector_def Threshold_def pto_def twoCandidates_def
      zeroStats_def silenceSlack_def ackDelay_def granularity_def is_Switch_def)
  have "map dTo (filter is_Switch [d1, d2]) = [addrB]"
    using moving_round_0(2) 1 2 by (simp add: moving_round_def)
  then have "is_Switch d2" using note1 by (auto split: if_splits)
  have "one_connection ?s0 (0 + of_bool (is_Switch d1)) s1"
    by (rule one_connection.observe [OF one_connection.start _ _ 1])
      (simp_all add: moving_round_def NewSelector_def)
  then have "one_connection ?s0 (0 + of_bool (is_Switch d1) + of_bool (is_Switch d2)) s2"
    by (rule one_connection.observe [OF _ _ _ 2]) (use note1 in \<open>simp_all add: moving_round_def zeroStats_def\<close>)
  then have "one_connection ?s0 1 s2" using note1 \<open>is_Switch d2\<close> by simp
  then show ?thesis using walk_is_finite by blast
qed

text \<open>
  C18. When the connection itself follows its peer back to an address that had been left, the walk is not
  finite: for every \<open>n\<close> there is a run of readings of one live connection (the packet counter and the clock never go
  back) in which the same candidate \<open>B\<close> is chosen \<open>n + 1\<close> times. Only addresses found silent are struck off,
  and \<open>B\<close> never was.
\<close>

theorem candidate_retried_when_connection_moves:
  "n < 2 ^ 64 \<Longrightarrow>
   map dTo (filter is_Switch (snd (observe_all (NewSelector twoCandidates) (moving_trace n)))) = replicate (Suc n) addrB
   \<and> (\<forall>obs \<in> set (moving_trace n). Live obs \<and> On obs = addrA)
   \<and> sorted (map (\<lambda>obs. unat (PacketsReceived (Stats obs))) (moving_trace n))
   \<and> sorted (map At (moving_trace n))"
proof (intro conjI)
  assume n: "n < 2 ^ 64"
  then show "map dTo (filter is_Switch (snd (observe_all (NewSelector twoCandidates) (moving_trace n)))) = replicate (Suc n) addrB"
    using moving_trace_switches by blast
  show "\<forall>obs \<in> set (moving_trace n). Live obs \<and> On obs = addrA"
    by (auto simp: moving_trace_def moving_round_def)
  show "sorted (map (\<lambda>obs. unat (PacketsReceived (Stats obs))) (moving_trace n))" "sorted (map At (moving_trace n))"
    using moving_trace_sorted [OF n] by blast+
qed

theorem candidate_retried_when_connection_moves_witness:
  "map dTo (filter is_Switch (snd (observe_all (NewSelector twoCandidates) (moving_trace 2)))) = replicate (Suc 2) addrB"
  by (rule candidate_retried_when_connection_moves [of 2, THEN conjunct1]) simp

end
