(* ===== verification/Obfs.thy ===== *)
theory Obfs
  imports Prelude Aead
begin

text \<open>
  Packet obfuscation: the wrapper of a packet connection (\<open>extras/obfs/conn.go\<close>), its counters (\<open>extras/obfs/stats.go\<close>),
  Salamander (\<open>extras/obfs/salamander.go\<close>), and Salamander v2 with its replay set (\<open>extras/obfs/salamander_v2.go\<close>).

  The hash and the AEAD come from libraries and are arguments; the locale \<open>aead\<close> states what is used of the
  latter, and ChaCha20-Poly1305 as RFC 8439 defines it is shown to satisfy it. What a method writes into its output buffer is
  the returned list of bytes, of which the length is the number the method returns; the empty list is a refusal. Instants
  are nanoseconds since the epoch, so \<open>Unix\<close> is the quotient by a second.
\<close>

section \<open>The interface\<close>

text \<open>
  What the wrapper asks of an obfuscator. \<open>'r\<close> is what a sender draws (a salt, the time), \<open>'e\<close> what a
  receiver reads (the time), \<open>'s\<close> the receiver's state; \<open>good r e s\<close> says that the receiver is in a position to accept.
\<close>

locale obfuscator =
  fixes obfuscate :: "'r \<Rightarrow> bytes \<Rightarrow> nat \<Rightarrow> bytes"
    and deobfuscate :: "'e \<Rightarrow> 's \<Rightarrow> bytes \<Rightarrow> nat \<Rightarrow> 's \<times> bytes"
    and good :: "'r \<Rightarrow> 'e \<Rightarrow> 's \<Rightarrow> bool"
    and overhead :: nat
  assumes deobfuscate_obfuscate:
      "\<lbrakk>p \<noteq> []; length p + overhead \<le> cap; length p \<le> cap'; good r e s\<rbrakk>
       \<Longrightarrow> snd (deobfuscate e s (obfuscate r p cap) cap') = p"
    and length_obfuscate: "\<lbrakk>p \<noteq> []; length p + overhead \<le> cap\<rbrakk> \<Longrightarrow> length (obfuscate r p cap) = length p + overhead"

definition udpBufferSize :: nat where "udpBufferSize = 2048"

text \<open>
  \<open>obfsPacketConn.ReadFrom\<close> over the datagrams that arrive: refused ones are counted and skipped. An empty datagram
  is returned as it is.
\<close>

fun obfs_ReadFrom :: "('e \<Rightarrow> 's \<Rightarrow> bytes \<Rightarrow> nat \<Rightarrow> 's \<times> bytes) \<Rightarrow> nat \<Rightarrow> ('e \<times> bytes) list \<Rightarrow> 's \<Rightarrow> u64
    \<Rightarrow> 's \<times> u64 \<times> bytes option \<times> ('e \<times> bytes) list" where
  "obfs_ReadFrom deobf cap [] s dropped = (s, dropped, None, [])"
| "obfs_ReadFrom deobf cap ((e, d) # ds) s dropped =
     (let buf = take udpBufferSize d
      in if buf = [] then (s, dropped, Some [], ds)
         else let (s', p) = deobf e s buf cap
              in if p \<noteq> [] then (s', dropped, Some p, ds)
                 else obfs_ReadFrom deobf cap ds s' (dropped + 1))"

text \<open>\<open>obfsPacketConn.WriteTo\<close>: the datagram handed to the connection underneath.\<close>

definition obfs_WriteTo :: "('r \<Rightarrow> bytes \<Rightarrow> nat \<Rightarrow> bytes) \<Rightarrow> 'r \<Rightarrow> bytes \<Rightarrow> bytes" where
  "obfs_WriteTo obf r p = obf r p udpBufferSize"

text \<open>The states of the receiver while it refuses what arrives.\<close>

fun refuses :: "('e \<Rightarrow> 's \<Rightarrow> bytes \<Rightarrow> nat \<Rightarrow> 's \<times> bytes) \<Rightarrow> nat \<Rightarrow> ('e \<times> bytes) list \<Rightarrow> 's \<Rightarrow> 's option" where
  "refuses deobf cap [] s = Some s"
| "refuses deobf cap ((e, d) # ds) s =
     (if take udpBufferSize d = [] then None
      else case deobf e s (take udpBufferSize d) cap of (s', []) \<Rightarrow> refuses deobf cap ds s' | _ \<Rightarrow> None)"

lemma ReadFrom_skips:
  "refuses deobf cap junk s = Some t \<Longrightarrow>
   obfs_ReadFrom deobf cap (junk @ ds) s n = obfs_ReadFrom deobf cap ds t (n + of_nat (length junk))"
  by (induction junk arbitrary: s n) (auto simp: Let_def add.assoc split: if_splits prod.splits list.splits)

context obfuscator
begin

text \<open>What is written on one end is read on the other, and what the receiver refused before is only counted.\<close>

lemma conn_transparent:
  assumes "p \<noteq> []" and "length p + overhead \<le> udpBufferSize" and "length p \<le> cap"
    and "refuses deobfuscate cap junk s = Some t" and "good r e t"
  shows "\<exists>s'. obfs_ReadFrom deobfuscate cap (junk @ (e, obfs_WriteTo obfuscate r p) # rest) s n
    = (s', n + of_nat (length junk), Some p, rest)"
proof -
  let ?d = "obfs_WriteTo obfuscate r p"
  have len: "length ?d = length p + overhead" using length_obfuscate assms(1,2) by (simp add: obfs_WriteTo_def)
  then have d: "take udpBufferSize ?d = ?d" "?d \<noteq> []" using assms(1,2) by auto
  obtain s' q where q: "deobfuscate e t ?d cap = (s', q)" by fastforce
  have "q = p" using deobfuscate_obfuscate [OF assms(1,2,3,5)] q by (simp add: obfs_WriteTo_def)
  then show ?thesis using ReadFrom_skips [OF assms(4)] d q assms(1) by (auto simp: Let_def)
qed

end


section \<open>Salamander\<close>

definition smPSKMinLen :: nat where "smPSKMinLen = 4"
definition smSaltLen :: nat where "smSaltLen = 8"
definition smKeyLen :: nat where "smKeyLen = 32"

definition newSalamanderObfuscator :: "bytes \<Rightarrow> string + bytes" where
  "newSalamanderObfuscator psk =
     (if length psk < smPSKMinLen then Inl ''PSK must be at least 4 bytes'' else Inr psk)"

text \<open>\<open>keyInput\<close> holds the key followed by room for the salt.\<close>

definition keyLocked :: "(bytes \<Rightarrow> bytes) \<Rightarrow> bytes \<Rightarrow> bytes \<Rightarrow> bytes" where
  "keyLocked sum256 psk salt = sum256 (psk @ take smSaltLen salt)"

definition xor_key :: "bytes \<Rightarrow> bytes \<Rightarrow> bytes" where
  "xor_key key d = map2 (\<lambda>i c. c XOR (key ! (i mod smKeyLen))) [0..<length d] d"

definition sal_Obfuscate :: "(bytes \<Rightarrow> bytes) \<Rightarrow> bytes \<Rightarrow> bytes \<Rightarrow> bytes \<Rightarrow> nat \<Rightarrow> bytes" where
  "sal_Obfuscate sum256 psk salt p cap =
     (if cap < length p + smSaltLen then []
      else let salt = fill smSaltLen salt
           in salt @ xor_key (keyLocked sum256 psk salt) p)"

definition sal_Deobfuscate :: "(bytes \<Rightarrow> bytes) \<Rightarrow> bytes \<Rightarrow> bytes \<Rightarrow> nat \<Rightarrow> bytes" where
  "sal_Deobfuscate sum256 psk d cap =
     (if length d \<le> smSaltLen \<or> cap < length d - smSaltLen then []
      else xor_key (keyLocked sum256 psk (take smSaltLen d)) (drop smSaltLen d))"

lemma length_xor_key [simp]: "length (xor_key key d) = length d"
  by (simp add: xor_key_def)

lemma xor_key_twice [simp]: "xor_key key (xor_key key d) = d"
proof (rule nth_equalityI)
  fix i assume "i < length (xor_key key (xor_key key d))"
  then show "xor_key key (xor_key key d) ! i = d ! i"
    by (simp add: xor_key_def word_bw_assocs(3))
qed simp

interpretation sal: obfuscator "sal_Obfuscate sum256 psk" "\<lambda>_ s d cap. (s, sal_Deobfuscate sum256 psk d cap)" "\<lambda>_ _ _. True" smSaltLen
  for sum256 psk
  by unfold_locales (auto simp: sal_Obfuscate_def sal_Deobfuscate_def Let_def)


section \<open>Salamander v2\<close>

definition smV2SaltLen :: nat where "smV2SaltLen = 12"
definition smV2TSLen :: nat where "smV2TSLen = 4"
definition smV2TagLen :: nat where "smV2TagLen = 16"
definition smV2Overhead :: nat where "smV2Overhead = smV2SaltLen + smV2TSLen + smV2TagLen"
definition smV2MinLen :: nat where "smV2MinLen = smV2Overhead + 1"
definition smV2MaxSkew :: duration where "smV2MaxSkew = 30 * Second"
definition replayPeriod :: duration where "replayPeriod = smV2MaxSkew"

definition WireOverhead :: nat where "WireOverhead = smV2Overhead"

lemmas v2_consts = smV2SaltLen_def smV2TSLen_def smV2TagLen_def smV2Overhead_def smV2MinLen_def smV2MaxSkew_def replayPeriod_def

datatype Role = RoleClient | RoleServer

text \<open>The counters of refused packets.\<close>

record Stats =
  Dropped :: u64
  Malformed :: u64
  AEADFailed :: u64
  ClockSkew :: u64
  Replayed :: u64
  LastSkewSeconds :: int

definition zeroObfsStats :: Stats where
  "zeroObfsStats = \<lparr>Dropped = 0, Malformed = 0, AEADFailed = 0, ClockSkew = 0, Replayed = 0, LastSkewSeconds = 0\<rparr>"

definition recordSkew :: "int \<Rightarrow> int \<Rightarrow> Stats \<Rightarrow> Stats" where
  "recordSkew peerUnix localUnix s = s\<lparr>ClockSkew := ClockSkew s + 1, LastSkewSeconds := peerUnix - localUnix\<rparr>"

subsection \<open>The replay set\<close>

record replaySet =
  buckets :: "bytes set list"
  r_idx :: nat
  lastRotate :: "instant option"

definition newReplaySet :: replaySet where
  "newReplaySet = \<lparr>buckets = replicate 4 {}, r_idx = 0, lastRotate = None\<rparr>"

function rotate_buckets :: "instant \<Rightarrow> instant \<Rightarrow> bytes set list \<Rightarrow> nat \<Rightarrow> instant \<times> bytes set list \<times> nat" where
  "rotate_buckets now lr bs i =
     (if now - lr \<ge> replayPeriod
      then let i = (i + 1) mod length bs in rotate_buckets now (lr + replayPeriod) (bs[i := {}]) i
      else (lr, bs, i))"
  by pat_completeness auto
termination by (relation "measure (\<lambda>(now, lr, bs, i). nat (now - lr))") (auto simp: v2_consts)

declare rotate_buckets.simps [simp del]

definition seenOrAdd :: "bytes \<Rightarrow> instant \<Rightarrow> replaySet \<Rightarrow> replaySet \<times> bool" where
  "seenOrAdd salt now r =
     (let lr = (case lastRotate r of None \<Rightarrow> now | Some l \<Rightarrow> l);
          (lr, bs, i) = rotate_buckets now lr (buckets r) (r_idx r)
      in if \<exists>b \<in> set bs. salt \<in> b then (\<lparr>buckets = bs, r_idx = i, lastRotate = Some lr\<rparr>, True)
         else (\<lparr>buckets = bs[i := insert salt (bs ! i)], r_idx = i, lastRotate = Some lr\<rparr>, False))"

subsection \<open>The obfuscator\<close>

record salamanderV2 =
  sendKey :: bytes
  recvKey :: bytes
  bootTime :: instant
  replay :: replaySet
  v2_stats :: Stats

text \<open>
  \<open>stretch\<close> and \<open>derive\<close> are \<open>crypto.StretchPassword\<close> and \<open>crypto.DeriveSubkey\<close>; \<open>now\<close> is the first reading of the
  clock the options left in place.
\<close>

definition NewSalamanderV2 :: "(bytes \<Rightarrow> string \<Rightarrow> string + bytes) \<Rightarrow> (bytes \<Rightarrow> string \<Rightarrow> nat \<Rightarrow> string + bytes) \<Rightarrow> bytes \<Rightarrow> string \<Rightarrow> Role
    \<Rightarrow> instant \<Rightarrow> string + salamanderV2" where
  "NewSalamanderV2 stretch derive password realm role now =
     (if password = [] then Inl ''obfs: password is required''
      else case stretch password realm of Inl e \<Rightarrow> Inl e
      | Inr root \<Rightarrow>
          (case derive root ''chameleon/obfs/salamander-v2/c2s'' 32 of Inl e \<Rightarrow> Inl e
           | Inr c2s \<Rightarrow>
               (case derive root ''chameleon/obfs/salamander-v2/s2c'' 32 of Inl e \<Rightarrow> Inl e
                | Inr s2c \<Rightarrow>
                    Inr \<lparr>sendKey = (if role = RoleServer then s2c else c2s), recvKey = (if role = RoleServer then c2s else s2c),
                         bootTime = now, replay = newReplaySet, v2_stats = zeroObfsStats\<rparr>)))"

definition v2_Obfuscate :: "(bytes \<Rightarrow> bytes \<Rightarrow> bytes \<Rightarrow> bytes) \<Rightarrow> bytes \<Rightarrow> bytes \<times> instant \<Rightarrow> bytes \<Rightarrow> nat \<Rightarrow> bytes" where
  "v2_Obfuscate seal key r p cap =
     (if p = [] \<or> cap < length p + smV2Overhead then []
      else let salt = fill smV2SaltLen (fst r)
           in salt @ seal key salt (p @ be32 (word_of_int (Unix (snd r)))))"

definition timestampInWindow :: "instant \<Rightarrow> int \<Rightarrow> instant \<Rightarrow> bool" where
  "timestampInWindow boot ts now =
     (let skew = go_div smV2MaxSkew Second
      in if ts > Unix now + skew then False
         else let lower = Unix now - skew;
                  lower = (if now - boot < smV2MaxSkew \<and> Unix boot > lower then Unix boot else lower)
              in ts \<ge> lower)"

definition v2_Deobfuscate :: "(bytes \<Rightarrow> bytes \<Rightarrow> bytes \<Rightarrow> bytes option) \<Rightarrow> instant \<Rightarrow> salamanderV2 \<Rightarrow> bytes \<Rightarrow> nat \<Rightarrow> salamanderV2 \<times> bytes" where
  "v2_Deobfuscate unseal now o2 d cap =
     (let st = v2_stats o2
      in if length d < smV2MinLen then (o2\<lparr>v2_stats := st\<lparr>Malformed := Malformed st + 1\<rparr>\<rparr>, [])
         else let salt = take smV2SaltLen d
              in case unseal (recvKey o2) salt (drop smV2SaltLen d) of
                   None \<Rightarrow> (o2\<lparr>v2_stats := st\<lparr>AEADFailed := AEADFailed st + 1\<rparr>\<rparr>, [])
                 | Some plaintext \<Rightarrow>
                     if length plaintext < smV2TSLen + 1 then (o2\<lparr>v2_stats := st\<lparr>Malformed := Malformed st + 1\<rparr>\<rparr>, [])
                     else let payload = take (length plaintext - smV2TSLen) plaintext;
                              ts = uint (Uint32 (drop (length plaintext - smV2TSLen) plaintext))
                          in if \<not> timestampInWindow (bootTime o2) ts now
                             then (o2\<lparr>v2_stats := recordSkew ts (Unix now) st\<rparr>, [])
                             else let (r, seen) = seenOrAdd salt now (replay o2); o2 = o2\<lparr>replay := r\<rparr>
                                  in if seen then (o2\<lparr>v2_stats := st\<lparr>Replayed := Replayed st + 1\<rparr>\<rparr>, [])
                                     else if cap < length payload then (o2\<lparr>v2_stats := st\<lparr>Malformed := Malformed st + 1\<rparr>\<rparr>, [])
                                     else (o2, payload))"


section \<open>The replay set remembers\<close>

text \<open>
  \<open>remembers H r\<close>: what was added at the times of \<open>H\<close> is still found as long as those times are
  not too far behind the last rotation: what was added since \<open>k\<close> periods before it is in one of the \<open>k + 1\<close> newest buckets.
\<close>

definition bucket :: "nat \<Rightarrow> nat \<Rightarrow> bytes set list \<Rightarrow> bytes set" where
  "bucket i j bs = bs ! ((i + 4 - j) mod 4)"

definition remembers :: "(bytes \<times> instant) set \<Rightarrow> instant \<Rightarrow> bytes set list \<Rightarrow> nat \<Rightarrow> bool" where
  "remembers H lr bs i \<longleftrightarrow> length bs = 4 \<and> i < 4 \<and>
     (\<forall>(x, t) \<in> H. t < lr + replayPeriod \<and> (\<forall>k \<le> 3. t \<ge> lr - int k * replayPeriod \<longrightarrow> (\<exists>j \<le> k. x \<in> bucket i j bs)))"

lemma remembersD:
  "remembers H lr bs i \<Longrightarrow> (x, t) \<in> H \<Longrightarrow> k \<le> 3 \<Longrightarrow> lr - int k * replayPeriod \<le> t \<Longrightarrow> \<exists>j \<le> k. x \<in> bucket i j bs"
  unfolding remembers_def by blast

lemma bucket_rotate:
  assumes "length bs = 4" "i < 4" "j \<le> 2"
  shows "bucket ((i + 1) mod 4) (Suc j) (bs[(i + 1) mod 4 := {}]) = bucket i j bs"
proof -
  have "i \<in> {0, 1, 2, 3}" "j \<in> {0, 1, 2}" using assms by auto
  then show ?thesis using assms(1) by (auto simp: bucket_def)
qed

lemma remembers_rotate1:
  assumes "remembers H lr bs i"
  shows "remembers H (lr + replayPeriod) (bs[(i + 1) mod 4 := {}]) ((i + 1) mod 4)"
proof -
  have l: "length bs = 4" "i < 4" using assms by (auto simp: remembers_def)
  have "t < lr + replayPeriod + replayPeriod \<and>
    (\<forall>k \<le> 3. t \<ge> lr + replayPeriod - int k * replayPeriod \<longrightarrow> (\<exists>j \<le> k. x \<in> bucket ((i + 1) mod 4) j (bs[(i + 1) mod 4 := {}])))"
    if xt: "(x, t) \<in> H" for x t
  proof (intro conjI allI impI)
    have t: "t < lr + replayPeriod" using assms xt by (auto simp: remembers_def)
    then show "t < lr + replayPeriod + replayPeriod" by (simp add: v2_consts)
    fix k :: nat
    assume k: "k \<le> 3" and ge: "t \<ge> lr + replayPeriod - int k * replayPeriod"
    then obtain m where m: "k = Suc m" using t by (cases k) auto
    have "t \<ge> lr - int m * replayPeriod" using ge by (simp add: m algebra_simps)
    then obtain j where "j \<le> m" "x \<in> bucket i j bs" using remembersD [OF assms xt, of m] k m by auto
    then show "\<exists>j \<le> k. x \<in> bucket ((i + 1) mod 4) j (bs[(i + 1) mod 4 := {}])"
      using bucket_rotate [OF l, of j] k m by (intro exI [of _ "Suc j"]) auto
  qed
  then show ?thesis using l by (auto simp: remembers_def)
qed

lemma rotate_remembers:
  assumes "remembers H lr bs i" and "rotate_buckets now lr bs i = (lr', bs', i')"
  shows "remembers H lr' bs' i' \<and> now < lr' + replayPeriod \<and> (lr' = lr \<or> lr' \<le> now) \<and> lr \<le> lr'"
  using assms
proof (induction now lr bs i rule: rotate_buckets.induct)
  case (1 now lr bs i)
  have l: "length bs = 4" using 1(2) by (simp add: remembers_def)
  show ?case
  proof (cases "now - lr \<ge> replayPeriod")
    case True
    then have r: "rotate_buckets now (lr + replayPeriod) (bs[(i + 1) mod 4 := {}]) ((i + 1) mod 4) = (lr', bs', i')"
      using 1(3) l by (subst (asm) rotate_buckets.simps) (simp add: Let_def)
    have "remembers H lr' bs' i' \<and> now < lr' + replayPeriod \<and> (lr' = lr + replayPeriod \<or> lr' \<le> now) \<and> lr + replayPeriod \<le> lr'"
      using 1(1) [OF True] remembers_rotate1 [OF 1(2)] r l by simp
    then show ?thesis using True by (auto simp: v2_consts)
  next
    case False
    then show ?thesis using 1(2,3) by (subst (asm) rotate_buckets.simps) simp
  qed
qed

definition replay_ok :: "(bytes \<times> instant) set \<Rightarrow> instant \<Rightarrow> replaySet \<Rightarrow> bool" where
  "replay_ok H t r \<longleftrightarrow>
     (case lastRotate r of
        None \<Rightarrow> r = newReplaySet \<and> H = {}
      | Some lr \<Rightarrow> remembers H lr (buckets r) (r_idx r) \<and> lr \<le> t)"

lemma replay_ok_new: "replay_ok {} t newReplaySet"
  by (simp add: replay_ok_def newReplaySet_def)

text \<open>One call: a salt added less than three periods ago is seen; a new one is added.\<close>

lemma seenOrAdd_ok:
  assumes ok: "replay_ok H t0 r" and mono: "t0 \<le> now" and r: "seenOrAdd salt now r = (r', seen)"
  shows "replay_ok (if seen then H else insert (salt, now) H) now r'"
    and "(salt, t) \<in> H \<Longrightarrow> now - t < 3 * replayPeriod \<Longrightarrow> seen"
proof -
  define lr where "lr = (case lastRotate r of None \<Rightarrow> now | Some l \<Rightarrow> l)"
  obtain lr' bs i where rot: "rotate_buckets now lr (buckets r) (r_idx r) = (lr', bs, i)" by (metis prod_cases3)
  have rem: "remembers H lr (buckets r) (r_idx r)" and le: "lr \<le> now"
    using ok mono by (auto simp: replay_ok_def lr_def remembers_def newReplaySet_def split: option.splits)
  have rem': "remembers H lr' bs i" and now: "now < lr' + replayPeriod" "lr' \<le> now"
    using rotate_remembers [OF rem rot] le by auto
  have l: "length bs = 4" "i < 4" using rem' by (auto simp: remembers_def)
  have res: "r' = (if seen then \<lparr>buckets = bs, r_idx = i, lastRotate = Some lr'\<rparr>
      else \<lparr>buckets = bs[i := insert salt (bs ! i)], r_idx = i, lastRotate = Some lr'\<rparr>)"
    "seen = (\<exists>b \<in> set bs. salt \<in> b)"
    using r rot by (auto simp: seenOrAdd_def lr_def [symmetric] split: if_splits)
  have grow: "bucket i j bs \<subseteq> bucket i j (bs[i := insert salt (bs ! i)])" for j
    using l by (auto simp: bucket_def nth_list_update)
  have here: "salt \<in> bucket i 0 (bs[i := insert salt (bs ! i)])" using l by (simp add: bucket_def)
  let ?bs = "bs[i := insert salt (bs ! i)]"
  have old: "\<exists>j \<le> k. x \<in> bucket i j ?bs" if "(x, t) \<in> H" "k \<le> 3" "lr' - int k * replayPeriod \<le> t" for x t k
    using remembersD [OF rem' that] grow by blast
  have "remembers (insert (salt, now) H) lr' ?bs i"
    using rem' now(1) here old unfolding remembers_def by auto
  then show "replay_ok (if seen then H else insert (salt, now) H) now r'"
    using rem' now(2) res(1) by (auto simp: replay_ok_def)
  assume H: "(salt, t) \<in> H" and age: "now - t < 3 * replayPeriod"
  have "t \<ge> lr' - int 3 * replayPeriod" using age now(2) by simp
  then obtain j where "salt \<in> bucket i j bs" using remembersD [OF rem' H, of 3] by auto
  then show seen using res(2) l by (auto simp: bucket_def)
qed


section \<open>No packet is accepted twice\<close>

text \<open>The timestamp an authentic packet carries.\<close>

definition packet_ts :: "(bytes \<Rightarrow> bytes \<Rightarrow> bytes \<Rightarrow> bytes option) \<Rightarrow> bytes \<Rightarrow> bytes \<Rightarrow> int option" where
  "packet_ts unseal key d =
     map_option (\<lambda>m. uint (Uint32 (drop (length m - smV2TSLen) m))) (unseal key (take smV2SaltLen d) (drop smV2SaltLen d))"

lemma replay_ok_later: "replay_ok H t r \<Longrightarrow> t \<le> t' \<Longrightarrow> replay_ok H t' r"
  by (auto simp: replay_ok_def split: option.splits)

lemma window_bounds:
  assumes "timestampInWindow boot ts now"
  shows "ts \<le> Unix now + 30" "Unix now - 30 \<le> ts" "Unix boot \<le> ts"
proof -
  have *: "go_div smV2MaxSkew 1000000000 = 30" by (simp add: v2_consts)
  show "ts \<le> Unix now + 30" "Unix now - 30 \<le> ts"
    using assms by (auto simp: timestampInWindow_def * Let_def split: if_splits)
  show "Unix boot \<le> ts"
  proof (cases "now - boot < smV2MaxSkew")
    case True
    then show ?thesis using assms by (auto simp: timestampInWindow_def * Let_def split: if_splits)
  next
    case False
    then have "boot div Second \<le> (now - 30 * Second) div Second"
      by (intro zdiv_mono1) (auto simp: v2_consts)
    also have "\<dots> = now div Second - 30" by simp
    finally show ?thesis using \<open>Unix now - 30 \<le> ts\<close> by (simp add: Unix_def)
  qed
qed

lemma Deobfuscate_step:
  assumes r: "v2_Deobfuscate unseal now o1 d cap = (o2, p)" and ok: "replay_ok H t0 (replay o1)" and mono: "t0 \<le> now"
  shows "bootTime o2 = bootTime o1 \<and> recvKey o2 = recvKey o1 \<and>
    (\<exists>H'. replay_ok H' now (replay o2) \<and> H \<subseteq> H' \<and>
      (p \<noteq> [] \<longrightarrow> (take smV2SaltLen d, now) \<in> H' \<and>
        (\<exists>ts. packet_ts unseal (recvKey o1) d = Some ts \<and> timestampInWindow (bootTime o1) ts now) \<and>
        (\<forall>t. (take smV2SaltLen d, t) \<in> H \<longrightarrow> 3 * replayPeriod \<le> now - t)))"
proof -
  have keep: "replay_ok H now (replay o1)" using ok mono by (rule replay_ok_later)
  show ?thesis
  proof (cases "length d < smV2MinLen \<or> unseal (recvKey o1) (take smV2SaltLen d) (drop smV2SaltLen d) = None")
    case True
    then show ?thesis using r keep by (auto simp: v2_Deobfuscate_def Let_def split: if_splits)
  next
    case False
    then obtain m where m: "\<not> length d < smV2MinLen" "unseal (recvKey o1) (take smV2SaltLen d) (drop smV2SaltLen d) = Some m"
      by auto
    let ?ts = "uint (Uint32 (drop (length m - smV2TSLen) m))"
    show ?thesis
    proof (cases "length m < smV2TSLen + 1 \<or> \<not> timestampInWindow (bootTime o1) ?ts now")
      case True
      then show ?thesis using r m keep by (auto simp: v2_Deobfuscate_def Let_def split: if_splits)
    next
      case False
      obtain r' seen where s: "seenOrAdd (take smV2SaltLen d) now (replay o1) = (r', seen)" by fastforce
      note so = seenOrAdd_ok [OF ok mono s]
      have o2: "replay o2 = r'" "bootTime o2 = bootTime o1" "recvKey o2 = recvKey o1" "p \<noteq> [] \<Longrightarrow> \<not> seen"
        using r m False s by (auto simp: v2_Deobfuscate_def Let_def split: if_splits)
      show ?thesis
        using o2 so m False
        by (auto simp: packet_ts_def not_less intro!: exI [of _ "if seen then H else insert (take smV2SaltLen d, now) H"]
            dest: leI)
    qed
  qed
qed

fun v2_run :: "(bytes \<Rightarrow> bytes \<Rightarrow> bytes \<Rightarrow> bytes option) \<Rightarrow> (instant \<times> bytes \<times> nat) list \<Rightarrow> salamanderV2 \<Rightarrow> salamanderV2 \<times> bytes list" where
  "v2_run unseal [] s = (s, [])"
| "v2_run unseal ((now, d, cap) # xs) s =
     (let (s1, p) = v2_Deobfuscate unseal now s d cap; (s2, ps) = v2_run unseal xs s1 in (s2, p # ps))"

lemma v2_run_refuses:
  assumes "replay_ok H t0 (replay s)" and "(take smV2SaltLen d, t1) \<in> H" and "t1 \<le> t0" and "sorted (t0 # map fst xs)"
    and "packet_ts unseal (recvKey s) d = Some ts" and "ts \<le> Unix t1 + 30" and "j < length xs" and "fst (snd (xs ! j)) = d"
  shows "snd (v2_run unseal xs s) ! j = []"
  using assms
proof (induction xs arbitrary: s H t0 j)
  case (Cons x xs)
  obtain now d' cap where x: "x = (now, d', cap)" by (cases x)
  obtain s1 p where p: "v2_Deobfuscate unseal now s d' cap = (s1, p)" by fastforce
  have mono: "t0 \<le> now" "sorted (now # map fst xs)" using Cons.prems(4) x by auto
  from Deobfuscate_step [OF p Cons.prems(1) mono(1)] obtain H' where
    H': "replay_ok H' now (replay s1)" "H \<subseteq> H'" "recvKey s1 = recvKey s" and
    acc: "p \<noteq> [] \<Longrightarrow> (\<exists>ts. packet_ts unseal (recvKey s) d' = Some ts \<and> timestampInWindow (bootTime s) ts now) \<and>
        (\<forall>t. (take smV2SaltLen d', t) \<in> H \<longrightarrow> 3 * replayPeriod \<le> now - t)" by blast
  show ?case
  proof (cases j)
    case 0
    have "p = []" if "d' = d"
    proof (rule ccontr)
      assume "p \<noteq> []"
      then have "timestampInWindow (bootTime s) ts now" "3 * replayPeriod \<le> now - t1"
        using acc that Cons.prems(2,5) by auto
      then have "now div Second \<le> t1 div Second + 60" "90 * Second \<le> now - t1"
        using window_bounds(2) [of "bootTime s" ts now] Cons.prems(6) by (auto simp: Unix_def v2_consts)
      then show False by simp
    qed
    then show ?thesis using 0 x p Cons.prems(8) by (auto simp: Let_def split: prod.split)
  next
    case (Suc k)
    have "snd (v2_run unseal xs s1) ! k = []"
      using Cons.IH [OF H'(1) _ _ mono(2), of k] Cons.prems H' Suc mono(1) by auto
    then show ?thesis using Suc x p by (auto simp: Let_def split: prod.split)
  qed
qed simp

lemma v2_run_once:
  assumes "replay_ok H t0 (replay s)" and "sorted (t0 # map fst xs)" and "i < j" and "j < length xs"
    and "fst (snd (xs ! i)) = fst (snd (xs ! j))" and "snd (v2_run unseal xs s) ! i \<noteq> []"
  shows "snd (v2_run unseal xs s) ! j = []"
  using assms
proof (induction xs arbitrary: s H t0 i j)
  case (Cons x xs)
  obtain now d cap where x: "x = (now, d, cap)" by (cases x)
  obtain s1 p where p: "v2_Deobfuscate unseal now s d cap = (s1, p)" by fastforce
  have mono: "t0 \<le> now" "sorted (now # map fst xs)" using Cons.prems(2) x by auto
  from Deobfuscate_step [OF p Cons.prems(1) mono(1)] obtain H' where
    H': "replay_ok H' now (replay s1)" "recvKey s1 = recvKey s" and
    acc: "p \<noteq> [] \<Longrightarrow> (take smV2SaltLen d, now) \<in> H' \<and>
        (\<exists>ts. packet_ts unseal (recvKey s) d = Some ts \<and> timestampInWindow (bootTime s) ts now)" by blast
  obtain k where j: "j = Suc k" using Cons.prems(3) by (cases j) auto
  have run: "snd (v2_run unseal (x # xs) s) = p # snd (v2_run unseal xs s1)"
    using x p by (simp add: Let_def split: prod.split)
  show ?case
  proof (cases i)
    case 0
    then have "p \<noteq> []" using Cons.prems(6) run by simp
    then obtain ts where "packet_ts unseal (recvKey s1) d = Some ts" "ts \<le> Unix now + 30" "(take smV2SaltLen d, now) \<in> H'"
      using acc H'(2) window_bounds(1) by metis
    then have "snd (v2_run unseal xs s1) ! k = []"
      using v2_run_refuses [OF H'(1) _ _ mono(2), of d now unseal ts k] Cons.prems(4,5) 0 j x by simp
    then show ?thesis using run j by simp
  next
    case (Suc m)
    then show ?thesis using Cons.IH [OF H'(1) mono(2), of m k] Cons.prems run j by simp
  qed
qed simp


section \<open>Salamander v2 as an obfuscator\<close>

definition v2_good :: "bytes \<Rightarrow> bytes \<times> instant \<Rightarrow> instant \<Rightarrow> salamanderV2 \<Rightarrow> bool" where
  "v2_good key r now s \<longleftrightarrow> recvKey s = key \<and> timestampInWindow (bootTime s) (Unix (snd r) mod 2 ^ 32) now
     \<and> \<not> snd (seenOrAdd (fill smV2SaltLen (fst r)) now (replay s))"

lemma Uint32_be32_exact: "Uint32 (be32 w) = w"
  using Uint32_be32 [of w "[]"] by simp

sublocale aead \<subseteq> v2: obfuscator "v2_Obfuscate seal key" "v2_Deobfuscate unseal" "v2_good key" smV2Overhead
  for key
proof
  fix p :: bytes and cap cap' and r :: "bytes \<times> instant" and now s
  assume p: "p \<noteq> []" "length p + smV2Overhead \<le> cap" "length p \<le> cap'" and g: "v2_good key r now s"
  let ?salt = "fill smV2SaltLen (fst r)"
  let ?m = "p @ be32 (word_of_int (Unix (snd r)))"
  have o: "v2_Obfuscate seal key r p cap = ?salt @ seal key ?salt ?m"
    using p by (simp add: v2_Obfuscate_def Let_def)
  have len: "length (?salt @ seal key ?salt ?m) = length p + smV2Overhead"
    by (simp add: length_seal v2_consts)
  have u: "unseal (recvKey s) ?salt (seal key ?salt ?m) = Some ?m" using g unseal_seal by (simp add: v2_good_def)
  have ts: "uint (word_of_int (Unix (snd r)) :: u32) = Unix (snd r) mod 2 ^ 32"
    by (simp add: uint_word_of_int)
  have tk: "take smV2SaltLen (?salt @ x) = ?salt" "drop smV2SaltLen (?salt @ x) = x" for x
    by simp_all
  have long: "\<not> length (?salt @ seal key ?salt ?m) < smV2MinLen"
    using p(1) len by (cases p) (simp_all add: v2_consts)
  obtain r' where "seenOrAdd ?salt now (replay s) = (r', False)"
    using g by (cases "seenOrAdd ?salt now (replay s)") (auto simp: v2_good_def)
  then show "snd (v2_Deobfuscate unseal now s (v2_Obfuscate seal key r p cap) cap') = p"
    unfolding o using u ts p tk long g
    by (simp add: v2_Deobfuscate_def Let_def Uint32_be32_exact v2_good_def smV2TSLen_def)
next
  fix p :: bytes and cap and r :: "bytes \<times> instant"
  assume "p \<noteq> []" "length p + smV2Overhead \<le> cap"
  then show "length (v2_Obfuscate seal key r p cap) = length p + smV2Overhead"
    by (simp add: v2_Obfuscate_def Let_def length_seal v2_consts)
qed


context aead
begin

lemmas v2_conn_transparent = v2.conn_transparent

end


section \<open>Properties\<close>

text \<open>
  Salamander is transparent: whatever the hash, the key and the salt, a packet written on one end is read unchanged on the
  other, after whatever datagrams it refused before; those are only counted.
\<close>

theorem salamander_transparent:
  assumes "p \<noteq> []" and "length p + 8 \<le> 2048" and "length p \<le> cap"
    and "refuses (\<lambda>_ s d cap. (s, sal_Deobfuscate sum256 psk d cap)) cap junk s = Some t"
  shows "\<exists>s'. obfs_ReadFrom (\<lambda>_ s d cap. (s, sal_Deobfuscate sum256 psk d cap)) cap
      (junk @ (e, obfs_WriteTo (sal_Obfuscate sum256 psk) salt p) # rest) s n = (s', n + of_nat (length junk), Some p, rest)"
  by (rule sal.conn_transparent) (use assms in \<open>simp_all add: udpBufferSize_def smSaltLen_def\<close>)

theorem salamander_transparent_witness:
  "\<exists>s'. obfs_ReadFrom (\<lambda>_ s d cap. (s, sal_Deobfuscate rev [1, 2, 3, 4] d cap)) 100
      ([((), [9, 9, 9])] @ ((), obfs_WriteTo (sal_Obfuscate rev [1, 2, 3, 4]) [5, 6, 7] [0x40, 1, 2]) # []) () 0
      = (s', 0 + of_nat (length [((), [9, 9, 9 :: u8])]), Some [0x40, 1, 2], [])"
  by (rule salamander_transparent) (simp_all add: udpBufferSize_def sal_Deobfuscate_def smSaltLen_def)

text \<open>
  C21. Salamander v2 is transparent over any AEAD: a packet sealed by one end is read unchanged on the other, provided
  the receiver has the sender's key, its clock is within the window of the timestamp, and the salt is new to it.
\<close>

theorem salamander_v2_transparent:
  assumes "aead seal unseal" and "p \<noteq> []" and "length p + 32 \<le> 2048" and "length p \<le> cap"
    and "refuses (v2_Deobfuscate unseal) cap junk s = Some t" and "v2_good key (salt, sent) now t"
  shows "\<exists>s'. obfs_ReadFrom (v2_Deobfuscate unseal) cap (junk @ (now, obfs_WriteTo (v2_Obfuscate seal key) (salt, sent) p) # rest) s n
    = (s', n + of_nat (length junk), Some p, rest)"
  by (rule aead.v2_conn_transparent [OF assms(1)]) (use assms in \<open>simp_all add: udpBufferSize_def v2_consts\<close>)

text \<open>A receiver that just started, and a packet sent to it.\<close>

definition fresh_v2 :: "instant \<Rightarrow> salamanderV2" where
  "fresh_v2 boot = \<lparr>sendKey = [], recvKey = [7], bootTime = boot, replay = newReplaySet, v2_stats = zeroObfsStats\<rparr>"

lemma fresh_not_seen: "seenOrAdd salt now newReplaySet =
    (\<lparr>buckets = (replicate 4 {})[0 := {salt}], r_idx = 0, lastRotate = Some now\<rparr>, False)"
  by (simp add: seenOrAdd_def newReplaySet_def rotate_buckets.simps v2_consts)

lemma fresh_good:
  "Unix boot \<le> Unix sent \<Longrightarrow> \<bar>Unix sent - Unix now\<bar> \<le> 30 \<Longrightarrow> 0 \<le> Unix sent \<Longrightarrow> Unix sent < 2 ^ 32 \<Longrightarrow>
   v2_good [7] (salt, sent) now (fresh_v2 boot)"
  by (auto simp: v2_good_def fresh_v2_def fresh_not_seen timestampInWindow_def v2_consts Let_def)

theorem salamander_v2_transparent_witness:
  "\<exists>s'. obfs_ReadFrom (v2_Deobfuscate chacha20poly1305_open) 100
      ([] @ (105 * Second, obfs_WriteTo (v2_Obfuscate chacha20poly1305_seal [7]) ([1, 2], 100 * Second) [0xC0, 1]) # []) (fresh_v2 (90 * Second)) 0
    = (s', 0 + of_nat (length ([] :: (instant \<times> bytes) list)), Some [0xC0, 1], [])"
  by (rule salamander_v2_transparent [OF rfc8439.aead_axioms, where t = "fresh_v2 (90 * Second)"])
    (simp_all add: fresh_good Unix_def)

text \<open>
  C5. No packet is accepted twice: whatever datagrams arrive, as long as the receiver's clock does not run backwards, a datagram that was
  delivered once is refused every time it is seen again - the replay set retains a salt for longer than the
  timestamp window keeps the packet acceptable.
\<close>

theorem v2_never_accepts_twice:
  assumes "replay s = newReplaySet" and "sorted (map fst xs)" and "i < j" and "j < length xs"
    and "fst (snd (xs ! i)) = fst (snd (xs ! j))" and "snd (v2_run unseal xs s) ! i \<noteq> []"
  shows "snd (v2_run unseal xs s) ! j = []"
proof (rule v2_run_once [OF _ _ assms(3-6)])
  show "replay_ok {} (fst (hd xs)) (replay s)" using assms(1) replay_ok_new by simp
  show "sorted (fst (hd xs) # map fst xs)" using assms(2,4) by (cases xs) auto
qed

theorem v2_never_accepts_twice_witness:
  "let d = v2_Obfuscate chacha20poly1305_seal [7] ([1, 2], 100 * Second) [0xC0, 1] 2048;
       xs = [(105 * Second, d, 100), (125 * Second, d, 100)]
   in snd (v2_run chacha20poly1305_open xs (fresh_v2 (90 * Second))) ! 0 = [0xC0, 1]
    \<and> snd (v2_run chacha20poly1305_open xs (fresh_v2 (90 * Second))) ! 1 = []"
proof -
  define d where "d = v2_Obfuscate chacha20poly1305_seal [7] ([1, 2], 100 * Second) [0xC0, 1] 2048"
  define xs where "xs = [(105 * Second, d, 100 :: nat), (125 * Second, d, 100)]"
  have "snd (v2_Deobfuscate chacha20poly1305_open (105 * Second) (fresh_v2 (90 * Second)) d 100) = [0xC0, 1]"
    unfolding d_def
    by (rule rfc8439.v2.deobfuscate_obfuscate) (simp_all add: fresh_good Unix_def v2_consts)
  then have 0: "snd (v2_run chacha20poly1305_open xs (fresh_v2 (90 * Second))) ! 0 = [0xC0, 1]"
    by (simp add: xs_def Let_def split_beta)
  have "snd (v2_run chacha20poly1305_open xs (fresh_v2 (90 * Second))) ! 1 = []"
    by (rule v2_never_accepts_twice [where i = 0]) (use 0 in \<open>simp_all add: xs_def fresh_v2_def\<close>)
  then show ?thesis unfolding Let_def d_def [symmetric] xs_def [symmetric] using 0 by blast
qed

text \<open>
  The boot barrier: whatever the state, a packet that is accepted carries a timestamp no older than the second in which the receiver was started, and
  within 30 seconds of the receiver's clock.
\<close>

theorem v2_boot_barrier:
  assumes "v2_Deobfuscate unseal now s d cap = (s', p)" and "p \<noteq> []"
  shows "\<exists>ts. packet_ts unseal (recvKey s) d = Some ts \<and> Unix (bootTime s) \<le> ts \<and> \<bar>ts - Unix now\<bar> \<le> 30"
proof -
  have "\<exists>ts. packet_ts unseal (recvKey s) d = Some ts \<and> timestampInWindow (bootTime s) ts now"
    using assms by (auto simp: v2_Deobfuscate_def packet_ts_def Let_def split: if_splits option.splits)
  then show ?thesis using window_bounds by fastforce
qed

theorem v2_boot_barrier_witness:
  "\<exists>ts. packet_ts chacha20poly1305_open [7] (v2_Obfuscate chacha20poly1305_seal [7] ([1, 2], 100 * Second) [0xC0, 1] 2048) = Some ts
     \<and> 90 \<le> ts \<and> \<bar>ts - 105\<bar> \<le> 30"
proof -
  let ?d = "v2_Obfuscate chacha20poly1305_seal [7] ([1, 2], 100 * Second) [0xC0, 1] 2048"
  obtain s' p where sp: "v2_Deobfuscate chacha20poly1305_open (105 * Second) (fresh_v2 (90 * Second)) ?d 100 = (s', p)" by fastforce
  have "snd (v2_Deobfuscate chacha20poly1305_open (105 * Second) (fresh_v2 (90 * Second)) ?d 100) = [0xC0, 1]"
    by (rule rfc8439.v2.deobfuscate_obfuscate) (simp_all add: fresh_good Unix_def v2_consts)
  then have "p \<noteq> []" using sp by simp
  then show ?thesis
    using v2_boot_barrier [OF sp] by (simp add: fresh_v2_def Unix_def)
qed


text \<open>
  Every refusal is accounted for: when \<open>Deobfuscate\<close> refuses a packet exactly one of the four counters is bumped, and when it
  accepts one none is.
\<close>

definition classes :: "Stats \<Rightarrow> u64 list" where
  "classes st = [Malformed st, AEADFailed st, ClockSkew st, Replayed st]"

theorem v2_refusals_counted:
  assumes "v2_Deobfuscate unseal now s d cap = (s', p)"
  shows "if p = [] then \<exists>i < 4. classes (v2_stats s') = (classes (v2_stats s))[i := classes (v2_stats s) ! i + 1]
    else v2_stats s' = v2_stats s"
proof -
  have bump: "\<exists>i < 4. classes (st\<lparr>Malformed := Malformed st + 1\<rparr>) = (classes st)[i := classes st ! i + 1]"
    "\<exists>i < 4. classes (st\<lparr>AEADFailed := AEADFailed st + 1\<rparr>) = (classes st)[i := classes st ! i + 1]"
    "\<exists>i < 4. classes (recordSkew a b st) = (classes st)[i := classes st ! i + 1]"
    "\<exists>i < 4. classes (st\<lparr>Replayed := Replayed st + 1\<rparr>) = (classes st)[i := classes st ! i + 1]" for st a b
    by (rule exI [of _ 0], simp add: classes_def) (rule exI [of _ 1], simp add: classes_def,
        rule exI [of _ 2], simp add: classes_def recordSkew_def, rule exI [of _ 3], simp add: classes_def)
  have "payload \<noteq> []" if "\<not> length m < smV2TSLen + 1" "payload = take (length m - smV2TSLen) m" for m payload :: bytes
    using that by (cases m) (auto simp: smV2TSLen_def)
  then show ?thesis
    using assms bump by (auto simp: v2_Deobfuscate_def Let_def split: if_splits option.splits prod.splits)
qed

theorem v2_refusals_counted_witness:
  "\<exists>s' p. v2_Deobfuscate chacha20poly1305_open 0 (fresh_v2 0) [1, 2, 3] 100 = (s', p) \<and> p = []
     \<and> (\<exists>i < 4. classes (v2_stats s') = (classes zeroObfsStats)[i := classes zeroObfsStats ! i + 1])"
proof -
  obtain s' p where sp: "v2_Deobfuscate chacha20poly1305_open 0 (fresh_v2 0) [1, 2, 3] 100 = (s', p)" by fastforce
  have "p = []" using sp by (auto simp: v2_Deobfuscate_def v2_consts Let_def)
  then show ?thesis using v2_refusals_counted [OF sp] sp by (auto simp: fresh_v2_def)
qed

end
