(* ===== verification/Gecko.thy ===== *)
theory Gecko
  imports Obfs "HOL-Library.Multiset"
begin

text \<open>
  Gecko, the shape obfuscation (\<open>extras/obfs/gecko_frame.go\<close>, \<open>extras/obfs/gecko.go\<close>): a QUIC long-header packet is
  cut into 2 to 8 chunks, each sent as a padded frame, and put together again at the other end.
  Random numbers and random padding bytes, the clock and the map iteration order are arguments;
  the packet connection underneath is a function saying whether a write fails.
\<close>

section \<open>Frames\<close>

definition geckoHeaderSize :: nat where "geckoHeaderSize = 5"

datatype frame_error = errFrameTruncated | errFrameInvalid | errRand

record frameHeader =
  padLen :: u16
  msgID :: u8
  chunkIdx :: u8
  totalChunks :: u8

text \<open>\<open>pad\<close> is what \<open>rand.Read\<close> delivers: as many bytes as asked for, or an error.\<close>

definition encodeFrame :: "(nat \<Rightarrow> bytes option) \<Rightarrow> frameHeader \<Rightarrow> bytes \<Rightarrow> bytes \<Rightarrow> frame_error + bytes \<times> nat" where
  "encodeFrame pad h payload out =
     (if totalChunks h < 2 \<or> totalChunks h > 8 then Inl errFrameInvalid
      else if chunkIdx h \<ge> totalChunks h then Inl errFrameInvalid
      else let needed = geckoHeaderSize + unat (padLen h) + length payload
           in if length out < needed then Inl errFrameTruncated
              else case pad (unat (padLen h)) of
                None \<Rightarrow> Inl errRand
              | Some r \<Rightarrow>
                  Inr ([0x80, msgID h, push_bit 4 (chunkIdx h) OR (totalChunks h AND 0x0f)] @ be16 (padLen h)
                       @ take (unat (padLen h)) r @ payload @ drop needed out, needed))"

definition decodeFrame :: "bytes \<Rightarrow> frame_error + frameHeader \<times> bytes" where
  "decodeFrame inp =
     (if length inp < geckoHeaderSize then Inl errFrameTruncated
      else if inp ! 0 AND 0x80 = 0 then Inl errFrameInvalid
      else let h = \<lparr>padLen = Uint16 (drop 3 inp), msgID = inp ! 1, chunkIdx = drop_bit 4 (inp ! 2),
                    totalChunks = inp ! 2 AND 0x0f\<rparr>
           in if totalChunks h < 2 \<or> totalChunks h > 8 then Inl errFrameInvalid
              else if chunkIdx h \<ge> totalChunks h then Inl errFrameInvalid
              else if geckoHeaderSize + unat (padLen h) > length inp then Inl errFrameTruncated
              else Inr (h, drop (geckoHeaderSize + unat (padLen h)) inp))"


section \<open>The send path\<close>

definition geckoReassemblyTTL :: duration where "geckoReassemblyTTL = 8 * Second"
definition geckoMaxReassembly :: nat where "geckoMaxReassembly = 4096"
definition geckoMaxPerSource :: int where "geckoMaxPerSource = 8"
definition geckoBufferSize :: nat where "geckoBufferSize = 2048"

record GeckoOptions =
  go_Password :: bytes
  MinPacketSize :: int
  MaxPacketSize :: int

type_synonym reassemblyKey = "string \<times> u8"

record reassemblyEntry =
  re_chunks :: "bytes option list"
  re_received :: int
  re_total :: u8
  re_deadline :: instant

record geckoPacketConn =
  g_minPkt :: int
  g_maxPkt :: int
  g_msgID :: u32
  reassembly :: "(reassemblyKey \<times> reassemblyEntry) list"
  perSource :: "(string \<times> int) list"
  g_closed :: bool

definition newGeckoPacketConn :: "int \<Rightarrow> int \<Rightarrow> geckoPacketConn" where
  "newGeckoPacketConn minPkt maxPkt = \<lparr>g_minPkt = minPkt, g_maxPkt = maxPkt, g_msgID = 0, reassembly = [],
     perSource = [], g_closed = False\<rparr>"

text \<open>\<open>WrapPacketConnGecko\<close>; \<open>salamander\<close> is what \<open>WrapPacketConnSalamander\<close> answers to the password.\<close>

definition WrapPacketConnGecko :: "(bytes \<Rightarrow> string option) \<Rightarrow> GeckoOptions \<Rightarrow> string + geckoPacketConn" where
  "WrapPacketConnGecko salamander opts =
     (if go_Password opts = [] then Inl ''gecko: password is required''
      else let minPkt = (if MinPacketSize opts = 0 then 512 else MinPacketSize opts);
               maxPkt = (if MaxPacketSize opts = 0 then 1200 else MaxPacketSize opts)
           in if minPkt \<le> 0 \<or> minPkt > maxPkt \<or> maxPkt > int geckoBufferSize
              then Inl ''gecko: invalid min/max packet size''
              else case salamander (go_Password opts) of
                     Some e \<Rightarrow> Inl e
                   | None \<Rightarrow> Inr (newGeckoPacketConn minPkt maxPkt))"

definition randIntn :: "u32 \<Rightarrow> int \<Rightarrow> int" where
  "randIntn b n = (if n \<le> 1 then 0 else uint b mod uint (word_of_int n :: u32))"

definition randomFragmentChunks :: "u32 \<Rightarrow> nat" where
  "randomFragmentChunks b = nat (2 + randIntn b (8 - 2 + 1))"

definition randomPadLen :: "u32 \<Rightarrow> geckoPacketConn \<Rightarrow> nat \<Rightarrow> u16" where
  "randomPadLen b g chunkLen =
     (let base = int smSaltLen + int geckoHeaderSize + int chunkLen;
          lo = max (g_minPkt g) base
      in if lo > g_maxPkt g then 0
         else word_of_int (lo - base + randIntn b (g_maxPkt g - lo + 1)))"

text \<open>The bounds of chunk \<open>i\<close>, and the loop over the chunks. \<open>rnd i\<close> and \<open>pad i\<close> are the random draws of turn \<open>i\<close>.\<close>

definition chunk_at :: "bytes \<Rightarrow> nat \<Rightarrow> nat \<Rightarrow> bytes" where
  "chunk_at p chunks i =
     (let chunkSize = length p div chunks; start = i * chunkSize;
          end = (if i < chunks - 1 then start + chunkSize else length p)
      in take (end - start) (drop start p))"

fun write_chunks :: "(nat \<Rightarrow> u32) \<Rightarrow> (nat \<Rightarrow> nat \<Rightarrow> bytes option) \<Rightarrow> (bytes \<Rightarrow> bool) \<Rightarrow> geckoPacketConn \<Rightarrow> bytes \<Rightarrow> nat \<Rightarrow> u8
    \<Rightarrow> nat list \<Rightarrow> bytes list \<times> bool" where
  "write_chunks rnd pad ok g p chunks mid [] = ([], True)"
| "write_chunks rnd pad ok g p chunks mid (i # is) =
     (let chunk = chunk_at p chunks i;
          pl = randomPadLen (rnd i) g (length chunk);
          buf = make_bytes (geckoHeaderSize + unat pl + length chunk)
      in case encodeFrame (pad i) \<lparr>padLen = pl, msgID = mid, chunkIdx = of_nat i, totalChunks = of_nat chunks\<rparr> chunk buf of
           Inl e \<Rightarrow> ([], False)
         | Inr (out, n) \<Rightarrow>
             if ok (take n out)
             then let (sent, r) = write_chunks rnd pad ok g p chunks mid is in (take n out # sent, r)
             else ([], False))"

definition writeFragmented :: "u32 \<Rightarrow> (nat \<Rightarrow> u32) \<Rightarrow> (nat \<Rightarrow> nat \<Rightarrow> bytes option) \<Rightarrow> (bytes \<Rightarrow> bool) \<Rightarrow> geckoPacketConn \<Rightarrow> bytes
    \<Rightarrow> geckoPacketConn \<times> bytes list \<times> bool" where
  "writeFragmented b rnd pad ok g p =
     (let chunks = randomFragmentChunks b;
          g = g\<lparr>g_msgID := g_msgID g + 1\<rparr>
      in (g, write_chunks rnd pad ok g p chunks (ucast (g_msgID g)) [0..<chunks]))"

text \<open>The datagrams handed to the connection underneath, and whether the write succeeded.\<close>

definition gecko_WriteTo :: "u32 \<Rightarrow> (nat \<Rightarrow> u32) \<Rightarrow> (nat \<Rightarrow> nat \<Rightarrow> bytes option) \<Rightarrow> (bytes \<Rightarrow> bool) \<Rightarrow> geckoPacketConn \<Rightarrow> bytes
    \<Rightarrow> geckoPacketConn \<times> bytes list \<times> bool" where
  "gecko_WriteTo b rnd pad ok g p =
     (case p of
        [] \<Rightarrow> (g, [], True)
      | c # _ \<Rightarrow> if c AND 0x80 \<noteq> 0 then writeFragmented b rnd pad ok g p
                 else (g, if ok p then ([p], True) else ([], False)))"


section \<open>The receive path\<close>

definition ps_count :: "geckoPacketConn \<Rightarrow> string \<Rightarrow> int" where
  "ps_count g a = (case map_of (perSource g) a of None \<Rightarrow> 0 | Some n \<Rightarrow> n)"

definition dropEntryLocked :: "reassemblyKey \<Rightarrow> geckoPacketConn \<Rightarrow> geckoPacketConn" where
  "dropEntryLocked k g =
     (case map_of (reassembly g) k of
        None \<Rightarrow> g
      | Some _ \<Rightarrow>
          let g = g\<lparr>reassembly := AList.delete k (reassembly g)\<rparr>;
              n = ps_count g (fst k) - 1
          in g\<lparr>perSource := (if n \<le> 0 then AList.delete (fst k) (perSource g)
                             else AList.update (fst k) n (perSource g))\<rparr>)"

fun oldest_key :: "(reassemblyKey \<rightharpoonup> reassemblyEntry) \<Rightarrow> reassemblyKey list \<Rightarrow> (reassemblyKey \<times> instant) option
    \<Rightarrow> (reassemblyKey \<times> instant) option" where
  "oldest_key m [] acc = acc"
| "oldest_key m (k # ks) acc =
     (case m k of
        None \<Rightarrow> oldest_key m ks acc
      | Some e \<Rightarrow> oldest_key m ks
          (case acc of None \<Rightarrow> Some (k, re_deadline e)
           | Some (k', d) \<Rightarrow> if re_deadline e < d then Some (k, re_deadline e) else Some (k', d)))"

definition evictOldestLocked :: "(reassemblyKey list \<Rightarrow> reassemblyKey list) \<Rightarrow> geckoPacketConn \<Rightarrow> geckoPacketConn" where
  "evictOldestLocked ord g =
     (case oldest_key (map_of (reassembly g)) (ord (map fst (reassembly g))) None of
        None \<Rightarrow> g | Some (k, _) \<Rightarrow> dropEntryLocked k g)"

definition gcExpired :: "(reassemblyKey list \<Rightarrow> reassemblyKey list) \<Rightarrow> instant \<Rightarrow> geckoPacketConn \<Rightarrow> geckoPacketConn" where
  "gcExpired ord now g =
     fold dropEntryLocked
       (filter (\<lambda>k. case map_of (reassembly g) k of None \<Rightarrow> False | Some e \<Rightarrow> now > re_deadline e)
          (ord (map fst (reassembly g)))) g"

text \<open>The part of \<open>acceptChunk\<close> after the entry was found or created.\<close>

definition store_chunk :: "reassemblyKey \<Rightarrow> reassemblyEntry \<Rightarrow> frameHeader \<Rightarrow> bytes \<Rightarrow> geckoPacketConn \<Rightarrow> geckoPacketConn \<times> bytes option" where
  "store_chunk key e h payload g =
     (if unat (chunkIdx h) \<ge> length (re_chunks e) \<or> re_chunks e ! unat (chunkIdx h) \<noteq> None then (g, None)
      else let e = e\<lparr>re_chunks := (re_chunks e)[unat (chunkIdx h) := Some payload], re_received := re_received e + 1\<rparr>;
               g = g\<lparr>reassembly := AList.update key e (reassembly g)\<rparr>
           in if re_received e < int (unat (re_total e)) then (g, None)
              else (dropEntryLocked key g,
                    Some (concat (map (\<lambda>c. case c of None \<Rightarrow> [] | Some d \<Rightarrow> d) (re_chunks e)))))"

definition acceptChunk :: "(reassemblyKey list \<Rightarrow> reassemblyKey list) \<Rightarrow> instant \<Rightarrow> string \<Rightarrow> frameHeader \<Rightarrow> bytes
    \<Rightarrow> geckoPacketConn \<Rightarrow> geckoPacketConn \<times> bytes option" where
  "acceptChunk ord now addr h payload g =
     (let key = (addr, msgID h)
      in case map_of (reassembly g) key of
           None \<Rightarrow>
             if ps_count g addr \<ge> geckoMaxPerSource then (g, None)
             else let g = (if length (reassembly g) \<ge> geckoMaxReassembly then evictOldestLocked ord g else g);
                      e = \<lparr>re_chunks = replicate (unat (totalChunks h)) None, re_received = 0, re_total = totalChunks h,
                           re_deadline = now + geckoReassemblyTTL\<rparr>;
                      g = g\<lparr>reassembly := AList.update key e (reassembly g),
                            perSource := AList.update addr (ps_count g addr + 1) (perSource g)\<rparr>
                  in store_chunk key e h payload g
         | Some e \<Rightarrow> if re_total e \<noteq> totalChunks h then (g, None) else store_chunk key e h payload g)"

text \<open>
  One turn of the loop of \<open>ReadFrom\<close> on a datagram from the connection underneath: a packet for the caller,
  or none and the loop goes on.
\<close>

definition gecko_read :: "(reassemblyKey list \<Rightarrow> reassemblyKey list) \<Rightarrow> instant \<Rightarrow> string \<Rightarrow> bytes \<Rightarrow> geckoPacketConn
    \<Rightarrow> geckoPacketConn \<times> bytes option" where
  "gecko_read ord now addr dgram g =
     (let buf = take geckoBufferSize dgram
      in if buf = [] then (g, None)
         else if buf ! 0 AND 0x80 = 0 then (g, Some buf)
         else case decodeFrame buf of
                Inl e \<Rightarrow> (g, None)
              | Inr (h, payload) \<Rightarrow> acceptChunk ord now addr h payload g)"

text \<open>\<open>ReadFrom\<close> on the datagrams that arrive, until one gives a packet; it is cut to the caller's buffer.\<close>

fun gecko_ReadFrom :: "(reassemblyKey list \<Rightarrow> reassemblyKey list) \<Rightarrow> nat \<Rightarrow> (instant \<times> string \<times> bytes) list \<Rightarrow> geckoPacketConn
    \<Rightarrow> geckoPacketConn \<times> (bytes \<times> string) option \<times> (instant \<times> string \<times> bytes) list" where
  "gecko_ReadFrom ord cap [] g = (g, None, [])"
| "gecko_ReadFrom ord cap ((now, addr, dgram) # rest) g =
     (case gecko_read ord now addr dgram g of
        (g', Some out) \<Rightarrow> (g', Some (take cap out, addr), rest)
      | (g', None) \<Rightarrow> gecko_ReadFrom ord cap rest g')"


section \<open>Frames: encoding and decoding\<close>

lemma nibbles:
  assumes "c < (16 :: u8)" "t < 16"
  shows "drop_bit 4 (push_bit 4 c OR (t AND 0x0f)) = c" "(push_bit 4 c OR (t AND 0x0f)) AND 0x0f = t"
proof -
  have c: "n < 4" if "bit c n" for n
    using bit_less_exp [of c 4 n] assms(1) that by (simp add: word_less_nat_alt)
  have t: "n < 4" if "bit t n" for n
    using bit_less_exp [of t 4 n] assms(2) that by (simp add: word_less_nat_alt)
  have m: "(0x0f :: u8) = mask 4" by (simp add: mask_eq_exp_minus_1)
  show "drop_bit 4 (push_bit 4 c OR (t AND 0x0f)) = c"
    unfolding m by (rule bit_word_eqI) (use c in \<open>auto simp: bit_simps dest: bit_imp_le_length\<close>)
  show "(push_bit 4 c OR (t AND 0x0f)) AND 0x0f = t"
    unfolding m by (rule bit_word_eqI) (use t in \<open>auto simp: bit_simps dest: bit_imp_le_length\<close>)
qed

definition header_ok :: "frameHeader \<Rightarrow> bool" where
  "header_ok h \<longleftrightarrow> 2 \<le> totalChunks h \<and> totalChunks h \<le> 8 \<and> chunkIdx h < totalChunks h"

lemma encode_shape:
  assumes "header_ok h" and "pad (unat (padLen h)) = Some r" and "length r = unat (padLen h)"
    and "geckoHeaderSize + unat (padLen h) + length payload = length out"
  shows "encodeFrame pad h payload out =
    Inr ([0x80, msgID h, push_bit 4 (chunkIdx h) OR (totalChunks h AND 0x0f)] @ be16 (padLen h) @ r @ payload, length out)"
  using assms by (auto simp: encodeFrame_def header_ok_def Let_def not_less)

lemma decode_frame:
  assumes "header_ok h" and "length r = unat (padLen h)"
  shows "decodeFrame ([0x80, msgID h, push_bit 4 (chunkIdx h) OR (totalChunks h AND 0x0f)] @ be16 (padLen h) @ r @ payload)
    = Inr (h, payload)"
proof -
  have b: "chunkIdx h < 16" "totalChunks h < 16"
    using assms(1) by (auto simp: header_ok_def word_less_nat_alt word_le_nat_alt)
  define x where "x = push_bit 4 (chunkIdx h) OR (totalChunks h AND 0x0f)"
  have n: "drop_bit 4 x = chunkIdx h" "x AND 0x0f = totalChunks h" using nibbles [OF b] by (simp_all add: x_def)
  have h: "\<lparr>padLen = padLen h, msgID = msgID h, chunkIdx = chunkIdx h, totalChunks = totalChunks h\<rparr> = h" by simp
  show ?thesis
    unfolding x_def [symmetric] using assms n h
    by (simp add: decodeFrame_def geckoHeaderSize_def header_ok_def Let_def not_less not_le drop_Cons' nth_Cons')
qed


section \<open>The shape of what is sent\<close>

lemma uint_word_of_int_small: "0 \<le> k \<Longrightarrow> k < 2 ^ LENGTH('a) \<Longrightarrow> uint (word_of_int k :: 'a::len word) = k"
  by (simp add: uint_word_of_int)

lemma randIntn_range:
  assumes "0 < n" and "n < 2 ^ 32"
  shows "0 \<le> randIntn b n \<and> randIntn b n < n"
proof (cases "n \<le> 1")
  case False
  have "uint (word_of_int n :: u32) = n"
    using assms by (simp add: uint_word_of_int)
  then show ?thesis using False by (simp add: randIntn_def)
qed (use assms in \<open>simp add: randIntn_def\<close>)

lemma randomFragmentChunks_range: "2 \<le> randomFragmentChunks b \<and> randomFragmentChunks b \<le> 8"
  using randIntn_range [of 7 b] by (auto simp: randomFragmentChunks_def)

definition gecko_config_ok :: "geckoPacketConn \<Rightarrow> bool" where
  "gecko_config_ok g \<longleftrightarrow> 0 < g_minPkt g \<and> g_minPkt g \<le> g_maxPkt g \<and> g_maxPkt g \<le> int geckoBufferSize"

lemma randomPadLen_range:
  assumes "gecko_config_ok g"
  shows "let total = int (smSaltLen + geckoHeaderSize + chunkLen + unat (randomPadLen b g chunkLen))
    in (if int (smSaltLen + geckoHeaderSize + chunkLen) > g_maxPkt g then randomPadLen b g chunkLen = 0
        else g_minPkt g \<le> total \<and> total \<le> g_maxPkt g)"
proof -
  define base where "base = int (smSaltLen + geckoHeaderSize + chunkLen)"
  define lo where "lo = max (g_minPkt g) base"
  show ?thesis
  proof (cases "lo > g_maxPkt g")
    case True
    then show ?thesis
      using assms by (auto simp: randomPadLen_def Let_def lo_def base_def gecko_config_ok_def max_def split: if_splits)
  next
    case False
    define r where "r = randIntn b (g_maxPkt g - lo + 1)"
    have bounds: "0 < base" "base \<le> lo" "g_minPkt g \<le> lo" "g_maxPkt g \<le> 2048"
      using assms by (auto simp: base_def lo_def smSaltLen_def gecko_config_ok_def geckoBufferSize_def)
    have r: "0 \<le> r" "r \<le> g_maxPkt g - lo"
      using randIntn_range [of "g_maxPkt g - lo + 1" b] False bounds by (auto simp: r_def)
    have p: "randomPadLen b g chunkLen = word_of_int (lo - base + r)"
      using False by (simp add: randomPadLen_def Let_def lo_def base_def r_def add.assoc)
    have "uint (word_of_int (lo - base + r) :: u16) = lo - base + r"
      by (rule uint_word_of_int_small) (use r bounds False in auto)
    then have "int (unat (randomPadLen b g chunkLen)) = lo - base + r" unfolding p by simp
    then show ?thesis using False r bounds by (auto simp: Let_def base_def [symmetric]) (simp_all add: base_def)
  qed
qed


lemma take_chunks:
  "n * c \<le> length p \<Longrightarrow> concat (map (\<lambda>i. take c (drop (i * c) p)) [0..<n]) = take (n * c) p"
proof (induction n)
  case (Suc n)
  have "take (Suc n * c) p = take (n * c + c) p" by (simp add: add.commute)
  also have "\<dots> = take (n * c) p @ take c (drop (n * c) p)" by (rule take_add)
  finally show ?case using Suc by simp
qed simp

lemma chunks_concat:
  assumes "0 < n" shows "concat (map (chunk_at p n) [0..<n]) = p"
proof -
  define c where "c = length p div n"
  obtain k where n: "n = Suc k" using assms by (cases n) auto
  have le: "k * c \<le> length p"
  proof -
    have "k * c \<le> n * c" using n by simp
    also have "\<dots> \<le> length p" by (simp add: c_def)
    finally show ?thesis .
  qed
  have first: "map (chunk_at p n) [0..<k] = map (\<lambda>i. take c (drop (i * c) p)) [0..<k]"
    by (rule map_cong) (auto simp: chunk_at_def Let_def n c_def [unfolded n])
  have last: "chunk_at p n k = drop (k * c) p"
    by (simp add: chunk_at_def Let_def n c_def [unfolded n])
  have "concat (map (chunk_at p n) [0..<n]) = concat (map (chunk_at p n) [0..<k]) @ chunk_at p n k" by (simp add: n)
  also have "\<dots> = take (k * c) p @ drop (k * c) p" unfolding first last take_chunks [OF le] ..
  finally show ?thesis by simp
qed

text \<open>The frame of chunk \<open>i\<close>, and what \<open>write_chunks\<close> sends when nothing fails.\<close>

definition hdr :: "(nat \<Rightarrow> u32) \<Rightarrow> geckoPacketConn \<Rightarrow> bytes \<Rightarrow> nat \<Rightarrow> u8 \<Rightarrow> nat \<Rightarrow> frameHeader" where
  "hdr rnd g p n mid i = \<lparr>padLen = randomPadLen (rnd i) g (length (chunk_at p n i)), msgID = mid,
     chunkIdx = of_nat i, totalChunks = of_nat n\<rparr>"

definition frame_bytes :: "frameHeader \<Rightarrow> bytes \<Rightarrow> bytes \<Rightarrow> bytes" where
  "frame_bytes h r payload = [0x80, msgID h, push_bit 4 (chunkIdx h) OR (totalChunks h AND 0x0f)] @ be16 (padLen h) @ r @ payload"

lemma hdr_ok: "2 \<le> n \<Longrightarrow> n \<le> 8 \<Longrightarrow> i < n \<Longrightarrow> header_ok (hdr rnd g p n mid i)"
  by (simp add: header_ok_def hdr_def word_le_nat_alt word_less_nat_alt unat_of_nat take_bit_eq_mod)

lemma unat_small_u8: "i < 256 \<Longrightarrow> unat (of_nat i :: u8) = i"
  by (simp add: unat_of_nat take_bit_eq_mod)

definition pads_ok :: "(nat \<Rightarrow> nat \<Rightarrow> bytes option) \<Rightarrow> bool" where
  "pads_ok pad \<longleftrightarrow> (\<forall>i n. \<exists>r. pad i n = Some r \<and> length r = n)"

definition sent_frame :: "(nat \<Rightarrow> u32) \<Rightarrow> (nat \<Rightarrow> nat \<Rightarrow> bytes option) \<Rightarrow> geckoPacketConn \<Rightarrow> bytes \<Rightarrow> nat \<Rightarrow> u8 \<Rightarrow> nat \<Rightarrow> bytes" where
  "sent_frame rnd pad g p n mid i =
     frame_bytes (hdr rnd g p n mid i) (the (pad i (unat (padLen (hdr rnd g p n mid i))))) (chunk_at p n i)"

lemma write_chunks_frames:
  assumes "pads_ok pad" and "\<And>d. ok d" and "2 \<le> n" "n \<le> 8" and "\<forall>i \<in> set is. i < n"
  shows "write_chunks rnd pad ok g p n mid is = (map (sent_frame rnd pad g p n mid) is, True)"
  using assms(5)
proof (induction "is")
  case (Cons i "is")
  let ?h = "hdr rnd g p n mid i"
  obtain r where r: "pad i (unat (padLen ?h)) = Some r" "length r = unat (padLen ?h)"
    using assms(1) by (auto simp: pads_ok_def)
  let ?buf = "make_bytes (geckoHeaderSize + unat (padLen ?h) + length (chunk_at p n i))"
  have h: "header_ok ?h" using hdr_ok assms(3,4) Cons.prems by simp
  have "encodeFrame (pad i) ?h (chunk_at p n i) ?buf = Inr (sent_frame rnd pad g p n mid i, length ?buf)"
    using encode_shape [of ?h "pad i" r "chunk_at p n i" ?buf] h r by (simp add: sent_frame_def frame_bytes_def)
  moreover have "length (sent_frame rnd pad g p n mid i) = length ?buf"
    using r by (simp add: sent_frame_def frame_bytes_def geckoHeaderSize_def)
  ultimately show ?case
    using Cons assms(2) by (simp add: Let_def hdr_def)
qed simp

lemma decode_sent:
  assumes "pads_ok pad" "2 \<le> n" "n \<le> 8" "i < n"
  shows "decodeFrame (sent_frame rnd pad g p n mid i) = Inr (hdr rnd g p n mid i, chunk_at p n i)"
proof -
  let ?h = "hdr rnd g p n mid i"
  obtain r where "pad i (unat (padLen ?h)) = Some r" "length r = unat (padLen ?h)"
    using assms(1) by (auto simp: pads_ok_def)
  then show ?thesis
    using decode_frame [OF hdr_ok [OF assms(2-4)], of r] by (simp add: sent_frame_def frame_bytes_def)
qed

lemma length_sent:
  assumes "pads_ok pad"
  shows "length (sent_frame rnd pad g p n mid i) = geckoHeaderSize + unat (padLen (hdr rnd g p n mid i)) + length (chunk_at p n i)"
  using assms by (auto simp: sent_frame_def frame_bytes_def geckoHeaderSize_def pads_ok_def) (metis option.sel)


section \<open>The state of reassembly\<close>

abbreviation gkeys :: "geckoPacketConn \<Rightarrow> reassemblyKey set" where
  "gkeys g \<equiv> fst ` set (reassembly g)"

definition from_source :: "geckoPacketConn \<Rightarrow> string \<Rightarrow> nat" where
  "from_source g a = card {k \<in> gkeys g. fst k = a}"

definition some_count :: "bytes option list \<Rightarrow> nat" where
  "some_count cs = length (filter (\<lambda>c. c \<noteq> None) cs)"

definition rentry_ok :: "reassemblyEntry \<Rightarrow> bool" where
  "rentry_ok e \<longleftrightarrow> length (re_chunks e) = unat (re_total e) \<and> 2 \<le> unat (re_total e) \<and> unat (re_total e) \<le> 8
     \<and> re_received e = int (some_count (re_chunks e)) \<and> re_received e < int (unat (re_total e))"

definition gmaps_ok :: "geckoPacketConn \<Rightarrow> bool" where
  "gmaps_ok g \<longleftrightarrow> distinct (map fst (reassembly g)) \<and> distinct (map fst (perSource g))
     \<and> (\<forall>a. ps_count g a = int (from_source g a)) \<and> (\<forall>a. from_source g a \<le> 8)
     \<and> length (reassembly g) \<le> 4096 \<and> (\<forall>(a, n) \<in> set (perSource g). 0 < n)"

definition gecko_ok :: "geckoPacketConn \<Rightarrow> bool" where
  "gecko_ok g \<longleftrightarrow> gmaps_ok g \<and> (\<forall>(k, e) \<in> set (reassembly g). rentry_ok e)"

lemma gkeys_delete [simp]: "gkeys (g\<lparr>reassembly := AList.delete k (reassembly g)\<rparr>) = gkeys g - {k}"
  by (auto simp: image_iff)

lemma ps_count_eq: "ps_count g a = (case map_of (perSource g) a of None \<Rightarrow> 0 | Some n \<Rightarrow> n)"
  by (simp add: ps_count_def)

lemma from_source_delete:
  assumes "k \<in> gkeys g"
  shows "int (from_source (g\<lparr>reassembly := AList.delete k (reassembly g)\<rparr>) a) = int (from_source g a) - of_bool (fst k = a)"
proof -
  let ?A = "{k' \<in> gkeys g. fst k' = a}"
  have eq: "{k' \<in> gkeys g - {k}. fst k' = a} = ?A - {k}" by auto
  have fin: "finite ?A" by simp
  show ?thesis
  proof (cases "fst k = a")
    case True
    then have "k \<in> ?A" using assms by simp
    then have "card ?A = Suc (card (?A - {k}))" by (rule card.remove [OF fin])
    then show ?thesis using True by (simp only: from_source_def gkeys_delete eq) simp
  next
    case False
    then have "?A - {k} = ?A" by auto
    then show ?thesis using False by (simp only: from_source_def gkeys_delete eq) simp
  qed
qed

lemma dropEntry_ok:
  assumes "gecko_ok g"
  shows "gecko_ok (dropEntryLocked k g) \<and> gkeys (dropEntryLocked k g) = gkeys g - {k}
    \<and> length (reassembly (dropEntryLocked k g)) = (if k \<in> gkeys g then length (reassembly g) - 1 else length (reassembly g))
    \<and> set (reassembly (dropEntryLocked k g)) = {q \<in> set (reassembly g). fst q \<noteq> k}"
proof (cases "map_of (reassembly g) k")
  case None
  then have "k \<notin> gkeys g" by (simp add: map_of_eq_None_iff)
  then show ?thesis using assms None by (auto simp: dropEntryLocked_def)
next
  case (Some e)
  let ?g = "g\<lparr>reassembly := AList.delete k (reassembly g)\<rparr>"
  let ?n = "ps_count g (fst k) - 1"
  have k: "k \<in> gkeys g" using Some by (rule map_of_in_fst)
  have d: "distinct (map fst (reassembly g))" "distinct (map fst (perSource g))"
    "\<And>a. ps_count g a = int (from_source g a)" "\<And>a. from_source g a \<le> 8" "length (reassembly g) \<le> 4096"
    "\<forall>(a, n) \<in> set (perSource g). 0 < n" "\<forall>(k, e) \<in> set (reassembly g). rentry_ok e"
    using assms by (auto simp: gecko_ok_def gmaps_ok_def)
  have r: "dropEntryLocked k g = ?g\<lparr>perSource := (if ?n \<le> 0 then AList.delete (fst k) (perSource g)
      else AList.update (fst k) ?n (perSource g))\<rparr>"
    using Some by (simp add: dropEntryLocked_def Let_def ps_count_def)
  have fs: "from_source (dropEntryLocked k g) a = from_source ?g a" for a
    by (simp add: r from_source_def)
  note fd = from_source_delete [OF k]
  have n: "?n \<ge> 0" using fd [of "fst k"] d(3) [of "fst k"] by simp
  have ps: "ps_count (dropEntryLocked k g) a = int (from_source (dropEntryLocked k g) a)" for a
  proof (cases "a = fst k")
    case True
    have "ps_count (dropEntryLocked k g) a = ?n"
      unfolding r ps_count_eq using True n by (simp add: alist_conv ps_count_eq)
    then show ?thesis using True fd [of a] d(3) [of a] unfolding fs by simp
  next
    case False
    have "ps_count (dropEntryLocked k g) a = ps_count g a"
      unfolding r ps_count_eq using False by (simp add: alist_conv)
    then show ?thesis using False fd [of a] d(3) [of a] unfolding fs by simp
  qed
  have len: "length (reassembly (dropEntryLocked k g)) = length (reassembly g) - 1"
    using k d(1) by (simp add: r length_alist_delete)
  have src: "from_source (dropEntryLocked k g) a \<le> 8" for a
    using fd [of a] d(4) [of a] unfolding fs by (cases "fst k = a") auto
  have "distinct (map fst (perSource (dropEntryLocked k g)))" "\<forall>(a, n) \<in> set (perSource (dropEntryLocked k g)). 0 < n"
    using d(2,6) by (auto simp: r)
  moreover have "distinct (map fst (reassembly (dropEntryLocked k g)))" using d(1) by (simp add: r)
  ultimately have "gmaps_ok (dropEntryLocked k g)"
    unfolding gmaps_ok_def using d(5) ps len src by simp
  then show ?thesis
    using d k len by (auto simp: gecko_ok_def r)
qed

lemma oldest_key_mem:
  "oldest_key m ks acc = Some (k, d) \<Longrightarrow> acc = Some (k, d) \<or> (k \<in> set ks \<and> m k \<noteq> None)"
proof (induction ks arbitrary: acc)
  case (Cons k0 ks)
  show ?case
  proof (cases "m k0")
    case (Some e)
    let ?acc = "case acc of None \<Rightarrow> Some (k0, re_deadline e)
      | Some (k', d) \<Rightarrow> if re_deadline e < d then Some (k0, re_deadline e) else Some (k', d)"
    have "?acc = Some (k, d) \<or> (k \<in> set ks \<and> m k \<noteq> None)" using Cons.IH [of ?acc] Cons.prems Some by simp
    then show ?thesis using Some by (auto split: option.splits if_splits)
  qed (use Cons in auto)
qed simp

lemma oldest_key_acc: "oldest_key m ks (Some x) \<noteq> None"
proof (induction ks arbitrary: x)
  case (Cons k ks)
  show ?case by (cases "m k"; cases x) (use Cons in auto)
qed simp

lemma oldest_key_None: "oldest_key m ks None = None \<Longrightarrow> k \<in> set ks \<Longrightarrow> m k = None"
proof (induction ks)
  case (Cons k' ks)
  then show ?case using oldest_key_acc by (cases "m k'") auto
qed simp

lemma evictOldest_ok:
  assumes ok: "gecko_ok g" and ord: "\<And>ks. set (ord ks) = set ks"
  shows "gecko_ok (evictOldestLocked ord g) \<and> set (reassembly (evictOldestLocked ord g)) \<subseteq> set (reassembly g)
    \<and> (reassembly g \<noteq> [] \<longrightarrow> length (reassembly (evictOldestLocked ord g)) = length (reassembly g) - 1)"
proof (cases "oldest_key (map_of (reassembly g)) (ord (map fst (reassembly g))) None")
  case None
  have "map_of (reassembly g) k = None" if "k \<in> gkeys g" for k
    by (rule oldest_key_None [OF None]) (use ord that in simp)
  then have "gkeys g = {}" by (metis map_of_eq_None_iff equals0I)
  then have "reassembly g = []" by simp
  then show ?thesis using ok None by (simp add: evictOldestLocked_def)
next
  case (Some p)
  obtain k d where p: "p = (k, d)" by (cases p)
  have "k \<in> gkeys g" using oldest_key_mem [OF Some [unfolded p]] by (auto dest: map_of_in_fst)
  then show ?thesis using dropEntry_ok [OF ok, of k] Some p by (auto simp: evictOldestLocked_def)
qed

lemma some_count_update:
  "i < length cs \<Longrightarrow> cs ! i = None \<Longrightarrow> some_count (cs[i := Some d]) = Suc (some_count cs)"
  by (induction cs arbitrary: i) (auto simp: some_count_def nth_Cons split: nat.splits)

lemma update_entry_ok:
  assumes "gmaps_ok g" and "k \<in> gkeys g"
  shows "gmaps_ok (g\<lparr>reassembly := AList.update k e (reassembly g)\<rparr>)"
proof -
  have d: "distinct (map fst (reassembly g))" using assms(1) by (simp add: gmaps_ok_def)
  have keys: "gkeys (g\<lparr>reassembly := AList.update k e (reassembly g)\<rparr>) = gkeys g"
    using d assms(2) by (auto simp: image_iff)
  have "from_source (g\<lparr>reassembly := AList.update k e (reassembly g)\<rparr>) a = from_source g a" for a
    by (simp only: from_source_def keys)
  moreover have "ps_count (g\<lparr>reassembly := x\<rparr>) a = ps_count g a" for a x by (simp add: ps_count_def)
  ultimately show ?thesis
    using assms d by (simp add: gmaps_ok_def length_alist_update)
qed

lemma dropEntry_update:
  "dropEntryLocked key (g\<lparr>reassembly := AList.update key e al\<rparr>) = dropEntryLocked key (g\<lparr>reassembly := AList.update key e' al\<rparr>)"
  by (simp add: dropEntryLocked_def alist_conv ps_count_def Let_def AList.delete_update_same)

lemma store_chunk_ok:
  assumes ok: "gecko_ok g" and e: "map_of (reassembly g) key = Some e"
  shows "gecko_ok (fst (store_chunk key e h payload g))"
proof -
  let ?i = "unat (chunkIdx h)"
  let ?e = "e\<lparr>re_chunks := (re_chunks e)[?i := Some payload], re_received := re_received e + 1\<rparr>"
  let ?g = "g\<lparr>reassembly := AList.update key ?e (reassembly g)\<rparr>"
  have d: "distinct (map fst (reassembly g))" using ok by (simp add: gecko_ok_def gmaps_ok_def)
  have re: "rentry_ok e" using ok map_of_SomeD [OF e] by (auto simp: gecko_ok_def)
  have key: "key \<in> gkeys g" using e by (rule map_of_in_fst)
  show ?thesis
  proof (cases "?i \<ge> length (re_chunks e) \<or> re_chunks e ! ?i \<noteq> None")
    case False
    have maps: "gmaps_ok ?g" using ok key by (intro update_entry_ok) (auto simp: gecko_ok_def)
    show ?thesis
    proof (cases "re_received ?e < int (unat (re_total ?e))")
      case True
      then have "rentry_ok ?e" using re False some_count_update [of ?i "re_chunks e" payload] by (simp add: rentry_ok_def)
      then have "gecko_ok ?g" using maps ok d by (auto simp: gecko_ok_def)
      then show ?thesis using False True by (simp add: store_chunk_def Let_def)
    next
      case full: False
      let ?old = "g\<lparr>reassembly := AList.update key e (reassembly g)\<rparr>"
      have g0: "gecko_ok ?old" using ok key d re update_entry_ok [of g key e] by (auto simp: gecko_ok_def)
      have fst: "fst (store_chunk key e h payload g) = dropEntryLocked key ?g"
        using False full by (simp add: store_chunk_def Let_def not_le)
      show ?thesis
        unfolding fst dropEntry_update [where e = ?e and e' = e] using dropEntry_ok [OF g0] by blast
    qed
  qed (use ok in \<open>auto simp: store_chunk_def\<close>)
qed

lemma newEntry_ok:
  assumes ok: "gecko_ok g" and k: "(addr, mid) \<notin> gkeys g" and n: "ps_count g addr < 8" and len: "length (reassembly g) < 4096"
    and e: "rentry_ok e"
  shows "gecko_ok (g\<lparr>reassembly := AList.update (addr, mid) e (reassembly g),
      perSource := AList.update addr (ps_count g addr + 1) (perSource g)\<rparr>)" (is "gecko_ok ?h")
proof -
  have d: "distinct (map fst (reassembly g))" "distinct (map fst (perSource g))"
    "\<And>a. ps_count g a = int (from_source g a)" "\<And>a. from_source g a \<le> 8"
    "\<forall>(a, n) \<in> set (perSource g). 0 < n" "\<forall>(k, e) \<in> set (reassembly g). rentry_ok e"
    using ok by (auto simp: gecko_ok_def gmaps_ok_def)
  have keys: "gkeys ?h = insert (addr, mid) (gkeys g)" using d(1) by (auto simp: image_iff) 
  have fs: "from_source ?h a = from_source g a + of_bool (a = addr)" for a
  proof (cases "a = addr")
    case True
    then have "{q \<in> gkeys ?h. fst q = a} = insert (addr, mid) {q \<in> gkeys g. fst q = a}" unfolding keys by auto
    then have "from_source ?h a = card (insert (addr, mid) {q \<in> gkeys g. fst q = a})" by (simp only: from_source_def)
    also have "\<dots> = Suc (card {q \<in> gkeys g. fst q = a})" using k by (intro card_insert_disjoint) auto
    finally show ?thesis using True by (simp add: from_source_def)
  next
    case False
    then have "{q \<in> gkeys ?h. fst q = a} = {q \<in> gkeys g. fst q = a}" unfolding keys by auto
    then show ?thesis using False by (simp only: from_source_def) simp
  qed
  have ps: "ps_count ?h a = int (from_source ?h a)" for a
    using d(3) [of a] unfolding fs by (cases "a = addr") (simp_all add: ps_count_eq alist_conv)
  have src: "from_source ?h a \<le> 8" for a
    using d(3) [of a] d(4) [of a] n unfolding fs by (cases "a = addr") auto
  have pos: "\<forall>(a, n) \<in> set (perSource ?h). 0 < n"
    using d(2,3,5) by auto
  have "gmaps_ok ?h"
    unfolding gmaps_ok_def using d(1,2) ps src pos k len by (simp add: length_alist_update)
  moreover have "\<forall>(k, e) \<in> set (reassembly ?h). rentry_ok e" using d(1,6) e by auto
  ultimately show ?thesis by (simp add: gecko_ok_def)
qed

lemma fresh_rentry_ok:
  "2 \<le> unat t \<Longrightarrow> unat t \<le> 8 \<Longrightarrow>
   rentry_ok \<lparr>re_chunks = replicate (unat t) None, re_received = 0, re_total = t, re_deadline = dl\<rparr>"
  by (simp add: rentry_ok_def some_count_def del: of_nat_unat)

lemma acceptChunk_ok:
  assumes ok: "gecko_ok g" and h: "header_ok h" and ord: "\<And>ks. set (ord ks) = set ks"
  shows "gecko_ok (fst (acceptChunk ord now addr h payload g))"
proof (cases "map_of (reassembly g) (addr, msgID h)")
  case (Some e)
  then show ?thesis using ok store_chunk_ok [OF ok Some] by (simp add: acceptChunk_def Let_def)
next
  case None
  show ?thesis
  proof (cases "ps_count g addr \<ge> geckoMaxPerSource")
    case True
    then show ?thesis using None ok by (simp add: acceptChunk_def Let_def)
  next
    case False
    let ?g1 = "if length (reassembly g) \<ge> geckoMaxReassembly then evictOldestLocked ord g else g"
    let ?e = "\<lparr>re_chunks = replicate (unat (totalChunks h)) None, re_received = 0, re_total = totalChunks h,
      re_deadline = now + geckoReassemblyTTL\<rparr>"
    let ?g2 = "?g1\<lparr>reassembly := AList.update (addr, msgID h) ?e (reassembly ?g1),
      perSource := AList.update addr (ps_count ?g1 addr + 1) (perSource ?g1)\<rparr>"
    note ev = evictOldest_ok [OF ok ord]
    have 1: "gecko_ok ?g1" "set (reassembly ?g1) \<subseteq> set (reassembly g)" "length (reassembly ?g1) < 4096"
      using ev ok by (auto simp: geckoMaxReassembly_def gecko_ok_def gmaps_ok_def)
    have k: "(addr, msgID h) \<notin> gkeys ?g1" using None 1(2) by (auto simp: map_of_eq_None_iff)
    have sub: "{q \<in> gkeys ?g1. fst q = addr} \<subseteq> {q \<in> gkeys g. fst q = addr}" using 1(2) by auto
    have "from_source ?g1 addr \<le> from_source g addr"
      unfolding from_source_def by (rule card_mono [OF _ sub]) simp
    then have n: "ps_count ?g1 addr < 8"
      using False 1(1) ok by (auto simp: gecko_ok_def gmaps_ok_def geckoMaxPerSource_def)
    have re: "rentry_ok ?e"
      using h by (intro fresh_rentry_ok) (auto simp: header_ok_def word_le_nat_alt)
    have 2: "gecko_ok ?g2" by (rule newEntry_ok [OF 1(1) k n 1(3) re])
    have "acceptChunk ord now addr h payload g = store_chunk (addr, msgID h) ?e h payload ?g2"
      using None False by (simp add: acceptChunk_def Let_def)
    moreover have "map_of (reassembly ?g2) (addr, msgID h) = Some ?e" by (simp add: alist_conv)
    ultimately show ?thesis using store_chunk_ok [OF 2] by simp
  qed
qed

lemma decode_header_ok: "decodeFrame d = Inr (h, p) \<Longrightarrow> header_ok h"
  by (auto simp: decodeFrame_def Let_def header_ok_def not_less not_le split: if_splits)

lemma gecko_read_ok:
  assumes "gecko_ok g" and "\<And>ks. set (ord ks) = set ks"
  shows "gecko_ok (fst (gecko_read ord now addr d g))"
  using assms acceptChunk_ok [OF assms(1) decode_header_ok assms(2)]
  by (auto simp: gecko_read_def Let_def split: sum.split)

lemma gcExpired_ok: "gecko_ok g \<Longrightarrow> gecko_ok (gcExpired ord now g)"
proof -
  have "gecko_ok (fold dropEntryLocked ks g)" if "gecko_ok g" for ks
    using that by (induction ks arbitrary: g) (simp_all add: dropEntry_ok)
  then show "gecko_ok g \<Longrightarrow> gecko_ok (gcExpired ord now g)" by (simp add: gcExpired_def)
qed


section \<open>Reassembly in any order\<close>

definition part :: "nat \<Rightarrow> (nat \<Rightarrow> bytes) \<Rightarrow> nat set \<Rightarrow> bytes option list" where
  "part n f S = map (\<lambda>j. if j \<in> S then Some (f j) else None) [0..<n]"

lemma part_update: "i < n \<Longrightarrow> (part n f S)[i := Some (f i)] = part n f (insert i S)"
  by (rule nth_equalityI) (auto simp: part_def nth_list_update)

lemma some_count_part: "S \<subseteq> {0..<n} \<Longrightarrow> some_count (part n f S) = card S"
proof -
  assume S: "S \<subseteq> {0..<n}"
  have "some_count (part n f S) = length (filter (\<lambda>j. j \<in> S) [0..<n])"
    by (simp add: some_count_def part_def filter_map o_def if_distrib cong: if_cong)
  also have "\<dots> = card (set (filter (\<lambda>j. j \<in> S) [0..<n]))" by (rule distinct_card [symmetric]) simp
  also have "set (filter (\<lambda>j. j \<in> S) [0..<n]) = S" using S by auto
  finally show ?thesis .
qed

definition holds :: "geckoPacketConn \<Rightarrow> reassemblyKey \<Rightarrow> nat \<Rightarrow> (nat \<Rightarrow> bytes) \<Rightarrow> nat set \<Rightarrow> bool" where
  "holds g key n f S \<longleftrightarrow>
     (case map_of (reassembly g) key of
        None \<Rightarrow> S = {} \<and> ps_count g (fst key) < geckoMaxPerSource
      | Some e \<Rightarrow> re_chunks e = part n f S \<and> re_total e = of_nat n)"

definition chunk_header :: "frameHeader \<Rightarrow> u8 \<Rightarrow> nat \<Rightarrow> nat \<Rightarrow> bool" where
  "chunk_header h mid n i \<longleftrightarrow> msgID h = mid \<and> chunkIdx h = of_nat i \<and> totalChunks h = of_nat n"

lemma store_chunk_part:
  assumes h: "chunk_header h mid n i" and n: "2 \<le> n" "n \<le> 8" "i < n" and S: "S \<subseteq> {0..<n}" "i \<notin> S"
    and e: "re_chunks e = part n f S" "re_total e = of_nat n" "rentry_ok e"
  shows "if insert i S = {0..<n} then snd (store_chunk key e h (f i) g) = Some (concat (map f [0..<n]))
    else snd (store_chunk key e h (f i) g) = None \<and> holds (fst (store_chunk key e h (f i) g)) key n f (insert i S)"
proof -
  have u: "unat (chunkIdx h) = i" "unat (re_total e) = n"
    using h n e(2) by (auto simp: chunk_header_def unat_small_u8)
  have guard: "\<not> (unat (chunkIdx h) \<ge> length (re_chunks e) \<or> re_chunks e ! unat (chunkIdx h) \<noteq> None)"
    using e(1) n(3) S(2) u by (simp add: part_def)
  have fin: "finite S" using S(1) finite_subset by blast
  have rec: "re_received e = int (card S)" using e(1,3) some_count_part [OF S(1)] by (simp add: rentry_ok_def)
  have full: "insert i S = {0..<n} \<longleftrightarrow> \<not> Suc (card S) < n"
  proof
    assume "\<not> Suc (card S) < n"
    then have "card (insert i S) \<ge> card {0..<n}" using fin S(2) by simp
    then show "insert i S = {0..<n}" using S(1) n(3) by (intro card_seteq) auto
  next
    assume "insert i S = {0..<n}"
    then have "card (insert i S) = n" by simp
    then show "\<not> Suc (card S) < n" using fin S(2) by simp
  qed
  show ?thesis
  proof (cases "insert i S = {0..<n}")
    case True
    have "concat (map (\<lambda>c. case c of None \<Rightarrow> [] | Some d \<Rightarrow> d) (part n f (insert i S))) = concat (map f [0..<n])"
      unfolding True by (rule arg_cong [where f = concat]) (simp add: part_def)
    then show ?thesis
      using guard True full rec u e(1) part_update [OF n(3), of f S]
      by (simp add: store_chunk_def Let_def del: of_nat_unat)
  next
    case False
    then show ?thesis
      using guard full rec u e(1,2) part_update [OF n(3), of f S]
      by (simp add: store_chunk_def Let_def holds_def alist_conv del: of_nat_unat)
  qed
qed

lemma accept_member:
  assumes ok: "gecko_ok g" and ord: "\<And>ks. set (ord ks) = set ks" and h: "chunk_header h mid n i"
    and n: "2 \<le> n" "n \<le> 8" "i < n" and S: "S \<subseteq> {0..<n}" "i \<notin> S" and hl: "holds g (addr, mid) n f S"
  shows "if insert i S = {0..<n} then snd (acceptChunk ord now addr h (f i) g) = Some (concat (map f [0..<n]))
    else snd (acceptChunk ord now addr h (f i) g) = None
      \<and> holds (fst (acceptChunk ord now addr h (f i) g)) (addr, mid) n f (insert i S)"
proof -
  have hm: "msgID h = mid" "totalChunks h = of_nat n" "unat (totalChunks h) = n"
    using h n by (auto simp: chunk_header_def unat_small_u8)
  have "\<exists>e g'. acceptChunk ord now addr h (f i) g = store_chunk (addr, mid) e h (f i) g'
    \<and> re_chunks e = part n f S \<and> re_total e = of_nat n \<and> rentry_ok e"
  proof (cases "map_of (reassembly g) (addr, mid)")
    case (Some e)
    then have "rentry_ok e" using ok by (auto simp: gecko_ok_def dest!: map_of_SomeD)
    then show ?thesis
      using Some hl hm by (intro exI [of _ e] exI [of _ g]) (simp add: acceptChunk_def holds_def)
  next
    case None
    let ?e = "\<lparr>re_chunks = replicate n None, re_received = 0, re_total = totalChunks h, re_deadline = now + geckoReassemblyTTL\<rparr>"
    have "rentry_ok ?e" using fresh_rentry_ok [of "totalChunks h"] hm n by simp
    moreover have "part n f S = replicate n None"
      using None hl by (simp add: holds_def part_def map_replicate_const)
    moreover have "\<exists>g'. acceptChunk ord now addr h (f i) g = store_chunk (addr, mid) ?e h (f i) g'"
      using None hl hm by (auto simp: acceptChunk_def Let_def holds_def)
    ultimately show ?thesis using hm(2) by (metis (lifting) reassemblyEntry.select_convs(1,3))
  qed
  then obtain e g' where *: "acceptChunk ord now addr h (f i) g = store_chunk (addr, mid) e h (f i) g'"
    "re_chunks e = part n f S" "re_total e = of_nat n" "rentry_ok e" by blast
  show ?thesis unfolding *(1) by (rule store_chunk_part [OF h n S *(2-4)])
qed

text \<open>Reading a list of datagrams, one turn of the loop each.\<close>

fun read_all :: "(reassemblyKey list \<Rightarrow> reassemblyKey list) \<Rightarrow> (instant \<times> string \<times> bytes) list \<Rightarrow> geckoPacketConn
    \<Rightarrow> geckoPacketConn \<times> bytes option list" where
  "read_all ord [] g = (g, [])"
| "read_all ord ((now, addr, d) # xs) g =
     (let (g1, r) = gecko_read ord now addr d g; (g2, rs) = read_all ord xs g1 in (g2, r # rs))"

lemma read_frame:
  assumes "pads_ok pad" "2 \<le> n" "n \<le> 8" "i < n" and "length (sent_frame rnd pad g0 p n mid i) \<le> geckoBufferSize"
  shows "gecko_read ord now addr (sent_frame rnd pad g0 p n mid i) g
    = acceptChunk ord now addr (hdr rnd g0 p n mid i) (chunk_at p n i) g"
proof -
  let ?d = "sent_frame rnd pad g0 p n mid i"
  have "?d \<noteq> []" "?d ! 0 AND 0x80 \<noteq> 0" by (simp_all add: sent_frame_def frame_bytes_def)
  then show ?thesis using assms(5) decode_sent [OF assms(1-4)] by (simp add: gecko_read_def Let_def)
qed

lemma read_all_group:
  assumes ok: "gecko_ok g" and ord: "\<And>ks. set (ord ks) = set ks" and pads: "pads_ok pad" and n: "2 \<le> n" "n \<le> 8"
    and fit: "\<forall>i < n. length (sent_frame rnd pad g0 p n mid i) \<le> geckoBufferSize"
    and xs: "distinct is" "set is = {0..<n} - S" "is \<noteq> []" and S: "S \<subseteq> {0..<n}"
    and hl: "holds g (addr, mid) n (chunk_at p n) S" and len: "length ts = length is"
  shows "snd (read_all ord (map (\<lambda>(t, i). (t, addr, sent_frame rnd pad g0 p n mid i)) (zip ts is)) g)
    = replicate (length is - 1) None @ [Some p]"
  using ok xs S hl len
proof (induction "is" arbitrary: g S ts)
  case (Cons i "is")
  obtain t ts' where ts: "ts = t # ts'" "length ts' = length is" using Cons.prems(7) by (cases ts) auto
  have i: "i < n" "i \<notin> S" using Cons.prems by auto
  let ?h = "hdr rnd g0 p n mid i"
  have rd: "gecko_read ord t addr (sent_frame rnd pad g0 p n mid i) g = acceptChunk ord t addr ?h (chunk_at p n i) g"
    using read_frame [OF pads n i(1)] fit i by simp
  have ch: "chunk_header ?h mid n i" by (simp add: chunk_header_def hdr_def)
  obtain g1 r where a: "acceptChunk ord t addr ?h (chunk_at p n i) g = (g1, r)" by fastforce
  have g1: "gecko_ok g1" using acceptChunk_ok [OF Cons.prems(1) hdr_ok [OF n i(1)] ord] a by (metis fst_conv)
  note m = accept_member [OF Cons.prems(1) ord ch n i(1) Cons.prems(5) i(2) Cons.prems(6), of t, unfolded a fst_conv snd_conv]
  show ?case
  proof (cases "is = []")
    case True
    then have "insert i S = {0..<n}" using Cons.prems i by auto
    then show ?thesis using True m a rd ts chunks_concat [of n p] n by simp
  next
    case False
    then have ne: "insert i S \<noteq> {0..<n}" using Cons.prems(2,3) by (cases "is") auto
    have rest: "set is = {0..<n} - insert i S" using Cons.prems(2,3) by auto
    have "snd (read_all ord (map (\<lambda>(t, i). (t, addr, sent_frame rnd pad g0 p n mid i)) (zip ts' is)) g1)
        = replicate (length is - 1) None @ [Some p]"
      using Cons.IH [OF g1 _ rest False _ _ ts(2)] Cons.prems(2,5) i m ne by simp
    then show ?thesis
      using False m ne a rd ts by (cases "is") (auto simp: Let_def split: prod.splits)
  qed
qed simp

lemma length_chunk_le: "length (chunk_at p n i) \<le> length p"
  by (simp add: chunk_at_def Let_def)

lemma frames_fit:
  assumes "gecko_config_ok g" and "pads_ok pad" and "length p \<le> 2043"
  shows "length (sent_frame rnd pad g p n mid i) \<le> geckoBufferSize"
proof -
  let ?c = "length (chunk_at p n i)"
  have l: "length (sent_frame rnd pad g p n mid i) = geckoHeaderSize + unat (randomPadLen (rnd i) g ?c) + ?c"
    using length_sent [OF assms(2)] by (simp add: hdr_def)
  have c: "?c \<le> 2043" using length_chunk_le [of p n i] assms(3) by simp
  show ?thesis
  proof (cases "int (smSaltLen + geckoHeaderSize + ?c) > g_maxPkt g")
    case True
    then have "randomPadLen (rnd i) g ?c = 0" using randomPadLen_range [OF assms(1), of ?c "rnd i"] by (simp add: Let_def)
    then show ?thesis using l c by (simp add: geckoHeaderSize_def geckoBufferSize_def)
  next
    case False
    then have "int (smSaltLen + geckoHeaderSize + ?c + unat (randomPadLen (rnd i) g ?c)) \<le> g_maxPkt g"
      using randomPadLen_range [OF assms(1), of ?c "rnd i"] by (simp add: Let_def)
    then show ?thesis
      using l assms(1) unfolding gecko_config_ok_def geckoBufferSize_def by linarith
  qed
qed

lemma writeFragmented_frames:
  assumes "pads_ok pad" and "\<And>d. ok d"
  shows "writeFragmented b rnd pad ok g p =
    (g\<lparr>g_msgID := g_msgID g + 1\<rparr>,
     map (sent_frame rnd pad (g\<lparr>g_msgID := g_msgID g + 1\<rparr>) p (randomFragmentChunks b) (ucast (g_msgID g + 1))) [0..<randomFragmentChunks b], True)"
  using write_chunks_frames [OF assms, of "randomFragmentChunks b"] randomFragmentChunks_range [of b]
  by (simp add: writeFragmented_def Let_def)

lemma gecko_config_msgID [simp]: "gecko_config_ok (g\<lparr>g_msgID := x\<rparr>) = gecko_config_ok g"
  by (simp add: gecko_config_ok_def)

text \<open>Everything that happens to the receive path: datagrams arrive, the collector runs.\<close>

inductive gecko_reach :: "(reassemblyKey list \<Rightarrow> reassemblyKey list) \<Rightarrow> geckoPacketConn \<Rightarrow> bool" for ord where
  start: "gecko_reach ord (newGeckoPacketConn mn mx)"
| reads: "gecko_reach ord g \<Longrightarrow> gecko_reach ord (fst (gecko_read ord now addr d g))"
| gc: "gecko_reach ord g \<Longrightarrow> gecko_reach ord (gcExpired ord now g)"
| writes: "gecko_reach ord g \<Longrightarrow> gecko_reach ord (fst (gecko_WriteTo b rnd pad ok g p))"

lemma gecko_ok_msgID [simp]: "gecko_ok (g\<lparr>g_msgID := x\<rparr>) = gecko_ok g"
  by (simp add: gecko_ok_def gmaps_ok_def ps_count_def from_source_def)

lemma gecko_new_ok: "gecko_ok (newGeckoPacketConn mn mx)"
  by (simp add: gecko_ok_def gmaps_ok_def newGeckoPacketConn_def ps_count_def from_source_def)

lemma gecko_reach_ok:
  assumes ord: "\<And>ks. set (ord ks) = set ks"
  shows "gecko_reach ord g \<Longrightarrow> gecko_ok g"
proof (induction rule: gecko_reach.induct)
  case (start mn mx)
  show ?case by (rule gecko_new_ok)
next
  case (writes g b rnd pad ok p)
  then show ?case by (auto simp: gecko_WriteTo_def writeFragmented_def Let_def split: list.split)
qed (auto intro: gecko_read_ok [OF _ ord] gcExpired_ok)


section \<open>Properties\<close>

text \<open>
  C11. Gecko is transparent: a long-header packet, cut by one end into 2 to 8 frames with whatever random sizes and padding, and received by the
  other end in any order, at any times, gives nothing until the last frame and then exactly the packet. The receiver needs a free
  place: no unfinished message with this number from this source, and fewer than eight unfinished ones.
\<close>

theorem gecko_transparent:
  assumes "gecko_config_ok g" and "pads_ok pad" and "\<And>d. ok d" and "c AND 0x80 \<noteq> 0" and "length (c # p) \<le> 2043"
    and send: "gecko_WriteTo b rnd pad ok g (c # p) = (g', ds, r)"
    and rcv: "gecko_ok q" and ord: "\<And>ks. set (ord ks) = set ks"
    and free: "map_of (reassembly q) (addr, ucast (g_msgID g + 1)) = None" "ps_count q addr < 8"
    and perm: "mset is = mset [0..<length ds]" and ts: "length ts = length is"
  shows "r \<and> snd (read_all ord (map (\<lambda>(t, i). (t, addr, ds ! i)) (zip ts is)) q) = replicate (length ds - 1) None @ [Some (c # p)]"
proof -
  let ?n = "randomFragmentChunks b" and ?mid = "ucast (g_msgID g + 1)"
  let ?fr = "sent_frame rnd pad (g\<lparr>g_msgID := g_msgID g + 1\<rparr>) (c # p) ?n ?mid"
  note n = randomFragmentChunks_range [of b]
  have ds: "ds = map ?fr [0..<?n]" and r: "r"
    using send writeFragmented_frames [OF assms(2), of ok b rnd g "c # p"] assms(3) assms(4)
    by (auto simp: gecko_WriteTo_def)
  have "mset is = mset [0..<?n]" using perm ds by simp
  then have "set is = set [0..<?n]" "distinct is = distinct [0..<?n]" "length is = ?n"
    by (rule mset_eq_setD, rule mset_eq_imp_distinct_iff) (use \<open>mset is = mset [0..<?n]\<close> mset_eq_length in fastforce)
  then have isl: "set is = {0..<?n} - {}" "distinct is" "length is = ?n" "is \<noteq> []" using n by auto
  have fit: "\<forall>i < ?n. length (?fr i) \<le> geckoBufferSize"
    using frames_fit [of "g\<lparr>g_msgID := g_msgID g + 1\<rparr>" pad "c # p"] assms by simp
  have hl: "holds q (addr, ?mid) ?n (chunk_at (c # p) ?n) {}"
    using free by (simp add: holds_def geckoMaxPerSource_def)
  have eq: "map (\<lambda>(t, i). (t, addr, ds ! i)) (zip ts is) = map (\<lambda>(t, i). (t, addr, ?fr i)) (zip ts is)"
    using isl(1) by (intro map_cong) (auto simp: ds dest!: set_zip_rightD)
  have "snd (read_all ord (map (\<lambda>(t, i). (t, addr, ?fr i)) (zip ts is)) q) = replicate (length is - 1) None @ [Some (c # p)]"
    using read_all_group [OF rcv ord assms(2) _ _ fit isl(2,1,4) _ hl ts] n by simp
  then show ?thesis unfolding eq using isl(3) ds r by simp
qed

definition demo_gecko :: geckoPacketConn where "demo_gecko = newGeckoPacketConn 20 40"

definition demo_pad :: "nat \<Rightarrow> nat \<Rightarrow> bytes option" where "demo_pad i n = Some (replicate n 0xAA)"

theorem gecko_transparent_witness:
  "\<exists>g' ds r. gecko_WriteTo 1 (\<lambda>i. of_nat i) demo_pad (\<lambda>_. True) demo_gecko [0xC3, 1, 2, 3, 4] = (g', ds, r) \<and> length ds = 3
    \<and> snd (read_all id (map (\<lambda>(t, i). (t, ''a'', ds ! i)) (zip [5, 6, 7] [2, 0, 1])) demo_gecko) = [None, None, Some [0xC3, 1, 2, 3, 4]]"
proof -
  obtain g' ds r where w: "gecko_WriteTo 1 (\<lambda>i. of_nat i) demo_pad (\<lambda>_. True) demo_gecko [0xC3, 1, 2, 3, 4] = (g', ds, r)"
    by (metis prod_cases3)
  have pads: "pads_ok demo_pad" by (simp add: pads_ok_def demo_pad_def)
  have n: "randomFragmentChunks 1 = 3" by (simp add: randomFragmentChunks_def randIntn_def)
  have len: "length ds = 3"
    using w writeFragmented_frames [OF pads, of "\<lambda>_. True" 1 "\<lambda>i. of_nat i" demo_gecko "[0xC3, 1, 2, 3, 4]"] n
    by (auto simp: gecko_WriteTo_def)
  have "snd (read_all id (map (\<lambda>(t, i). (t, ''a'', ds ! i)) (zip [5, 6, 7] [2, 0, 1])) demo_gecko)
    = replicate (length ds - 1) None @ [Some [0xC3, 1, 2, 3, 4]]"
    by (rule gecko_transparent [OF _ pads _ _ _ w, THEN conjunct2])
      (simp_all add: len upt_rec gecko_config_ok_def demo_gecko_def geckoBufferSize_def gecko_new_ok,
       simp_all add: newGeckoPacketConn_def ps_count_def add_mset_commute)
  then show ?thesis using w len by (simp add: numeral_2_eq_2)
qed

text \<open>
  The shape Gecko promises: every datagram on the wire (8 bytes of Salamander salt, the frame header, padding and chunk)
  is between the configured minimum and maximum, except that a chunk too large for the maximum is sent without padding.
\<close>

theorem gecko_packet_sizes:
  assumes "gecko_config_ok g" and "pads_ok pad" and "\<And>d. ok d" and "c AND 0x80 \<noteq> 0"
    and "gecko_WriteTo b rnd pad ok g (c # p) = (g', ds, r)"
  shows "2 \<le> length ds \<and> length ds \<le> 8 \<and>
    (\<forall>i < length ds. let chunk = length (chunk_at (c # p) (length ds) i); total = int (smSaltLen + length (ds ! i))
      in if int (smSaltLen + geckoHeaderSize + chunk) > g_maxPkt g then total = int (smSaltLen + geckoHeaderSize + chunk)
         else g_minPkt g \<le> total \<and> total \<le> g_maxPkt g)"
proof -
  let ?n = "randomFragmentChunks b" and ?mid = "ucast (g_msgID g + 1)"
  let ?g = "g\<lparr>g_msgID := g_msgID g + 1\<rparr>"
  have ds: "ds = map (sent_frame rnd pad ?g (c # p) ?n ?mid) [0..<?n]"
    using assms(4,5) writeFragmented_frames [OF assms(2), of ok b rnd g "c # p"] assms(3) by (auto simp: gecko_WriteTo_def)
  have "let chunk = length (chunk_at (c # p) ?n i); total = int (smSaltLen + length (ds ! i))
      in if int (smSaltLen + geckoHeaderSize + chunk) > g_maxPkt g then total = int (smSaltLen + geckoHeaderSize + chunk)
         else g_minPkt g \<le> total \<and> total \<le> g_maxPkt g" if "i < ?n" for i
    using that ds randomPadLen_range [of ?g "length (chunk_at (c # p) ?n i)" "rnd i"] assms(1)
    by (auto simp: Let_def length_sent [OF assms(2)] hdr_def split: if_splits)
  then show ?thesis using ds randomFragmentChunks_range [of b] by simp
qed

theorem gecko_packet_sizes_witness:
  "\<exists>g' ds r. gecko_WriteTo 1 (\<lambda>i. of_nat i) demo_pad (\<lambda>_. True) demo_gecko [0xC3, 1, 2, 3, 4] = (g', ds, r)
     \<and> 2 \<le> length ds \<and> length ds \<le> 8"
proof -
  obtain g' ds r where w: "gecko_WriteTo 1 (\<lambda>i. of_nat i) demo_pad (\<lambda>_. True) demo_gecko [0xC3, 1, 2, 3, 4] = (g', ds, r)"
    by (metis prod_cases3)
  have "pads_ok demo_pad" by (simp add: pads_ok_def demo_pad_def)
  then have "2 \<le> length ds \<and> length ds \<le> 8"
    using gecko_packet_sizes [OF _ _ _ _ w]
    by (simp add: gecko_config_ok_def demo_gecko_def newGeckoPacketConn_def geckoBufferSize_def)
  then show ?thesis using w by blast
qed

text \<open>
  C20. Whatever datagrams arrive and whenever the collector runs, the memory of the receive path is bounded: at most 4096 unfinished messages, at most eight per source, and the
  per-source counters are exactly the numbers of unfinished messages; no unfinished message is in fact complete.
\<close>

theorem gecko_bounded:
  assumes "\<And>ks. set (ord ks) = set ks" and "gecko_reach ord g"
  shows "length (reassembly g) \<le> 4096 \<and> (\<forall>a. ps_count g a = int (from_source g a) \<and> from_source g a \<le> 8)
    \<and> (\<forall>(k, e) \<in> set (reassembly g). some_count (re_chunks e) < length (re_chunks e))"
proof -
  have "gecko_ok g" using gecko_reach_ok assms by blast
  then show ?thesis by (auto simp: gecko_ok_def gmaps_ok_def rentry_ok_def simp del: of_nat_unat)
qed

theorem gecko_bounded_witness:
  "\<exists>g. gecko_reach rev g \<and> reassembly g \<noteq> [] \<and> length (reassembly g) \<le> 4096"
proof -
  let ?g = "fst (gecko_read rev 5 ''a'' [0x80, 7, 2, 0, 0, 9] demo_gecko)"
  have "gecko_reach rev ?g" unfolding demo_gecko_def by (rule gecko_reach.reads [OF gecko_reach.start])
  moreover have "reassembly ?g \<noteq> []"
    by (simp add: gecko_read_def demo_gecko_def newGeckoPacketConn_def geckoBufferSize_def decodeFrame_def geckoHeaderSize_def
      Uint16_def acceptChunk_def ps_count_def geckoMaxPerSource_def geckoMaxReassembly_def store_chunk_def Let_def upt_rec)
  ultimately show ?thesis using gecko_bounded [of rev ?g] by auto
qed

end
