(* ===== verification/Port_Union.thy ===== *)
theory Port_Union
  imports Go_Strings
begin

text \<open>
  Port ranges (\<open>extras/utils/portunion.go\<close>). A union is a list of inclusive ranges; Go's \<open>nil\<close> result is \<open>None\<close>. Ports are 16-bit words, and the
  comparison with \<open>End + 1\<close> is made at 32 bits as in the source.
\<close>

section \<open>Definitions\<close>

datatype PortRange = PortRange (Start: u16) (End: u16)

type_synonym PortUnion = "PortRange list"

text \<open>The order \<open>Normalize\<close> sorts by, as the linear order of the type.\<close>

instantiation PortRange :: linorder
begin

definition less_eq_PortRange :: "PortRange \<Rightarrow> PortRange \<Rightarrow> bool" where
  "less_eq_PortRange a b = (Start a < Start b \<or> Start a = Start b \<and> End a \<le> End b)"

definition less_PortRange :: "PortRange \<Rightarrow> PortRange \<Rightarrow> bool" where
  "less_PortRange a b = (if Start a = Start b then End a < End b else Start a < Start b)"

instance
  by standard (auto simp: less_eq_PortRange_def less_PortRange_def PortRange.expand split: if_splits)

end

text \<open>The merging loop of \<open>Normalize\<close>; \<open>acc\<close> is \<open>normalized\<close> without its last element, \<open>cur\<close> that element.\<close>

fun merge_ranges :: "PortRange \<Rightarrow> PortRange list \<Rightarrow> PortUnion" where
  "merge_ranges cur [] = [cur]"
| "merge_ranges cur (r # rs) =
     (if (ucast (Start r) :: u32) \<le> ucast (End cur) + 1
      then merge_ranges (if End r > End cur then PortRange (Start cur) (End r) else cur) rs
      else cur # merge_ranges r rs)"

definition Normalize :: "PortUnion \<Rightarrow> PortUnion" where
  "Normalize u = (case sort u of [] \<Rightarrow> [] | r # rs \<Rightarrow> merge_ranges r rs)"

fun parse_ranges :: "string list \<Rightarrow> PortUnion option" where
  "parse_ranges [] = Some []"
| "parse_ranges (p # ps) =
     (if CHR ''-'' \<in> set p
      then case split_on CHR ''-'' p of
             [a, b] \<Rightarrow>
               (case (ParseUint 16 a, ParseUint 16 b) of
                  ((start, None), (end, None)) \<Rightarrow>
                    let (start, end) = (if start > end then (end, start) else (start, end))
                    in map_option (\<lambda>rs. PortRange (of_nat start) (of_nat end) # rs) (parse_ranges ps)
                | _ \<Rightarrow> None)
           | _ \<Rightarrow> None
      else case ParseUint 16 p of
             (port, None) \<Rightarrow> map_option (\<lambda>rs. PortRange (of_nat port) (of_nat port) # rs) (parse_ranges ps)
           | _ \<Rightarrow> None)"

definition ParsePortUnion :: "string \<Rightarrow> PortUnion option" where
  "ParsePortUnion s =
     (if s = ''all'' \<or> s = ''*'' then Some [PortRange 0 65535]
      else map_option Normalize (parse_ranges (split_on CHR '','' s)))"

definition range_ports :: "PortRange \<Rightarrow> u16 list" where
  "range_ports r = map of_nat [unat (Start r)..<Suc (unat (End r))]"

definition Ports :: "PortUnion \<Rightarrow> u16 list" where
  "Ports u = concat (map range_ports u)"

definition Contains :: "PortUnion \<Rightarrow> u16 \<Rightarrow> bool" where
  "Contains u port = (\<exists>r \<in> set u. port \<ge> Start r \<and> port \<le> End r)"


section \<open>Normal form\<close>

text \<open>Well-formed ranges; ranges sorted with at least one port missing between neighbours.\<close>

definition range_ok :: "PortRange \<Rightarrow> bool" where "range_ok r = (Start r \<le> End r)"

definition apart :: "PortRange \<Rightarrow> PortRange \<Rightarrow> bool" where
  "apart a b = (unat (End a) + 1 < unat (Start b))"

definition normal :: "PortUnion \<Rightarrow> bool" where
  "normal u = (sorted_wrt apart u \<and> (\<forall>r \<in> set u. range_ok r))"

lemma adjacent_iff: "(ucast (a :: u16) :: u32) \<le> ucast (b :: u16) + 1 \<longleftrightarrow> unat a \<le> unat b + 1"
proof -
  have a: "unat a < 2 ^ LENGTH(16)" and b: "unat b < 2 ^ LENGTH(16)" by (rule unsigned_less)+
  have "unat (ucast a :: u32) = unat a" "unat (ucast b :: u32) = unat b"
    using a b by (simp_all add: unsigned_ucast_eq take_bit_nat_eq_self_iff)
  moreover from this(2) b have "unat ((ucast b :: u32) + 1) = unat b + 1"
    by (simp add: unat_word_ariths(1))
  ultimately show ?thesis by (simp add: word_le_nat_alt)
qed

lemma Contains_Cons: "Contains (r # u) p \<longleftrightarrow> Start r \<le> p \<and> p \<le> End r \<or> Contains u p"
  by (auto simp: Contains_def)

lemma join_ranges:
  assumes "Start cur \<le> Start r" and "unat (Start r) \<le> unat (End cur) + 1" and "range_ok r"
  shows "Start cur \<le> p \<and> p \<le> (if End r > End cur then End r else End cur)
    \<longleftrightarrow> Start cur \<le> p \<and> p \<le> End cur \<or> Start r \<le> p \<and> p \<le> End r"
  using assms by (auto simp: word_le_nat_alt word_less_nat_alt range_ok_def)

lemma merge_normal:
  assumes "sorted (map Start (cur # rs))" and "\<forall>r \<in> set (cur # rs). range_ok r"
  shows "normal (merge_ranges cur rs) \<and> (\<forall>r \<in> set (merge_ranges cur rs). Start cur \<le> Start r)
    \<and> (\<forall>p. Contains (merge_ranges cur rs) p \<longleftrightarrow> Contains (cur # rs) p)"
  using assms
proof (induction cur rs rule: merge_ranges.induct)
  case (1 cur)
  then show ?case by (simp add: normal_def)
next
  case (2 cur r rs)
  have sorted: "Start cur \<le> Start r" "sorted (map Start (r # rs))" using 2(3) by auto
  have ok: "range_ok cur" "range_ok r" using 2(4) by auto
  show ?case
  proof (cases "(ucast (Start r) :: u32) \<le> ucast (End cur) + 1")
    case True
    let ?cur = "if End r > End cur then PortRange (Start cur) (End r) else cur"
    have adj: "unat (Start r) \<le> unat (End cur) + 1" using True by (simp add: adjacent_iff)
    have cur: "Start ?cur = Start cur" "End ?cur = (if End r > End cur then End r else End cur)" by auto
    have "sorted (map Start (?cur # rs))" using 2(3) cur(1) by simp
    moreover have "range_ok ?cur" using ok by (auto simp: range_ok_def)
    then have "\<forall>x \<in> set (?cur # rs). range_ok x" using 2(4) by auto
    ultimately have ih: "normal (merge_ranges ?cur rs)" "\<forall>x \<in> set (merge_ranges ?cur rs). Start ?cur \<le> Start x"
      "\<forall>p. Contains (merge_ranges ?cur rs) p \<longleftrightarrow> Contains (?cur # rs) p"
      using 2(1) [OF True] by blast+
    have "Contains (?cur # rs) p \<longleftrightarrow> Contains (cur # r # rs) p" for p
      using join_ranges [OF sorted(1) adj ok(2), of p] cur by (simp only: Contains_Cons) blast
    then show ?thesis using True ih cur(1) by simp
  next
    case False
    then have gap: "unat (End cur) + 1 < unat (Start r)" by (simp add: adjacent_iff)
    have ih: "normal (merge_ranges r rs)" "\<forall>x \<in> set (merge_ranges r rs). Start r \<le> Start x"
      "\<forall>p. Contains (merge_ranges r rs) p \<longleftrightarrow> Contains (r # rs) p"
      using 2(2) [OF False] sorted 2(4) by auto
    have "apart cur x" if "x \<in> set (merge_ranges r rs)" for x
      using gap that ih(2) by (force simp: apart_def word_le_nat_alt)
    then show ?thesis
      using False ih ok sorted(1) by (auto simp: normal_def Contains_Cons intro: order_trans)
  qed
qed

lemma Normalize_ok:
  assumes "\<forall>r \<in> set u. range_ok r"
  shows "normal (Normalize u) \<and> (\<forall>p. Contains (Normalize u) p \<longleftrightarrow> Contains u p)"
proof (cases "sort u")
  case Nil
  then have "u = []" by (metis set_empty set_sort)
  then show ?thesis by (simp add: Normalize_def normal_def)
next
  case (Cons r rs)
  have "sorted (r # rs)" unfolding Cons [symmetric] by simp
  then have "sorted (map Start (r # rs))"
    unfolding sorted_wrt_map by (rule sorted_wrt_mono_rel [rotated]) (auto simp: less_eq_PortRange_def)
  moreover have set: "set (r # rs) = set u" using Cons by (metis set_sort)
  ultimately have "normal (merge_ranges r rs) \<and> (\<forall>p. Contains (merge_ranges r rs) p \<longleftrightarrow> Contains (r # rs) p)"
    using merge_normal assms by blast
  moreover have "Contains (r # rs) p \<longleftrightarrow> Contains u p" for p using set by (simp only: Contains_def)
  ultimately show ?thesis using Cons by (simp add: Normalize_def)
qed

lemma range_of_nat_ok: "a \<le> b \<Longrightarrow> b \<le> 65535 \<Longrightarrow> range_ok (PortRange (of_nat a) (of_nat b))"
  by (simp add: range_ok_def word_le_nat_alt unat_of_nat take_bit_eq_mod)

lemma ParseUint_16_le: "ParseUint 16 s = (n, e) \<Longrightarrow> n \<le> 65535"
  using parse_digits_le [of 0 "2 ^ 16 - 1" s] by (auto simp: ParseUint_def split: if_splits)

lemma parse_ranges_ok: "parse_ranges ps = Some rs \<Longrightarrow> \<forall>r \<in> set rs. range_ok r"
proof (induction ps arbitrary: rs rule: parse_ranges.induct)
  case (2 p ps)
  then show ?case
    by (auto split: if_splits list.splits option.splits prod.splits
        intro!: range_of_nat_ok dest: ParseUint_16_le)
qed simp


section \<open>Listing the ports\<close>

lemma set_range_ports: "range_ok r \<Longrightarrow> p \<in> set (range_ports r) \<longleftrightarrow> Start r \<le> p \<and> p \<le> End r"
proof -
  assume "range_ok r"
  have "p \<in> set (range_ports r) \<longleftrightarrow> (\<exists>n. unat (Start r) \<le> n \<and> n \<le> unat (End r) \<and> p = of_nat n)"
    by (auto simp: range_ports_def)
  also have "\<dots> \<longleftrightarrow> unat (Start r) \<le> unat p \<and> unat p \<le> unat (End r)"
  proof
    assume "\<exists>n. unat (Start r) \<le> n \<and> n \<le> unat (End r) \<and> p = of_nat n"
    then obtain n where n: "unat (Start r) \<le> n" "n \<le> unat (End r)" "p = of_nat n" by blast
    have "unat (End r) < 2 ^ LENGTH(16)" by (rule unsigned_less)
    then have "unat p = n" using n by (simp add: unat_of_nat take_bit_eq_mod)
    then show "unat (Start r) \<le> unat p \<and> unat p \<le> unat (End r)" using n by simp
  next
    assume "unat (Start r) \<le> unat p \<and> unat p \<le> unat (End r)"
    then show "\<exists>n. unat (Start r) \<le> n \<and> n \<le> unat (End r) \<and> p = of_nat n"
      by (intro exI [of _ "unat p"]) simp
  qed
  finally show ?thesis by (simp add: word_le_nat_alt)
qed

lemma map_unat_range: "map unat (range_ports r) = [unat (Start r)..<Suc (unat (End r))]"
proof -
  have "unat (End r) < 2 ^ LENGTH(16)" by (rule unsigned_less)
  then have "map unat (range_ports r) = map (\<lambda>n. n) [unat (Start r)..<Suc (unat (End r))]"
    unfolding range_ports_def map_map by (intro map_cong) (auto simp: unat_of_nat take_bit_eq_mod)
  then show ?thesis by simp
qed

lemma Ports_sorted: "normal u \<Longrightarrow> sorted_wrt (<) (map unat (Ports u))"
proof (induction u)
  case (Cons r u)
  have "unat p < unat q" if p: "p \<in> set (range_ports r)" and q: "q \<in> set (Ports u)" for p q
  proof -
    obtain s where s: "s \<in> set u" "q \<in> set (range_ports s)" using q by (auto simp: Ports_def)
    have "range_ok r" "range_ok s" "apart r s" using Cons.prems s by (auto simp: normal_def)
    then show ?thesis
      using set_range_ports p s(2) by (auto simp: apart_def word_le_nat_alt)
  qed
  moreover have "sorted_wrt (<) (map unat (Ports u))" using Cons by (simp add: normal_def)
  moreover have "sorted_wrt (<) (map unat (range_ports r))" unfolding map_unat_range by (rule sorted_wrt_upt)
  ultimately show ?case by (auto simp: Ports_def sorted_wrt_append)
qed (simp add: Ports_def)

lemma set_Ports: "\<forall>r \<in> set u. range_ok r \<Longrightarrow> p \<in> set (Ports u) \<longleftrightarrow> Contains u p"
  using set_range_ports by (auto simp: Ports_def Contains_def)


section \<open>Properties\<close>

text \<open>
  \<open>Normalize\<close> keeps the set of ports and produces the normal form: well-formed ranges from low to high with at least one port
  missing between neighbours, even at the ends of the 16-bit range.
\<close>

theorem Normalize_correct:
  assumes "\<forall>r \<in> set u. Start r \<le> End r"
  shows "sorted_wrt (\<lambda>a b. unat (End a) + 1 < unat (Start b)) (Normalize u) \<and> (\<forall>r \<in> set (Normalize u). Start r \<le> End r)
    \<and> (\<forall>p. Contains (Normalize u) p \<longleftrightarrow> Contains u p)"
  using Normalize_ok [of u] assms by (auto simp: range_ok_def normal_def apart_def [abs_def])

theorem Normalize_correct_witness:
  "\<forall>p. Contains (Normalize [PortRange 80 90, PortRange 0 65535, PortRange 91 95]) p
     \<longleftrightarrow> Contains [PortRange 80 90, PortRange 0 65535, PortRange 91 95] p"
  using Normalize_correct [of "[PortRange 80 90, PortRange 0 65535, PortRange 91 95]"] by simp

text \<open>
  Whatever the string, if \<open>ParsePortUnion\<close> accepts it, \<open>Ports\<close> of the result lists exactly the ports the union contains, in increasing
  order and each once.
\<close>

theorem ParsePortUnion_Ports:
  assumes "ParsePortUnion s = Some u"
  shows "sorted_wrt (<) (map unat (Ports u)) \<and> (\<forall>p. p \<in> set (Ports u) \<longleftrightarrow> Contains u p)"
proof -
  have "normal u"
    using assms Normalize_ok parse_ranges_ok
    by (auto simp: ParsePortUnion_def normal_def range_ok_def split: if_splits)
  then show ?thesis using Ports_sorted set_Ports by (simp add: normal_def)
qed

theorem ParsePortUnion_Ports_witness:
  "\<exists>u. ParsePortUnion ''443,9000-8999'' = Some u \<and> (\<forall>p. p \<in> set (Ports u) \<longleftrightarrow> Contains u p)"
proof -
  have "\<exists>u. ParsePortUnion ''443,9000-8999'' = Some u"
    by (simp add: ParsePortUnion_def ParseUint_def digit_val_def)
  then show ?thesis using ParsePortUnion_Ports by blast
qed

end
