(* ===== verification/Udp_Hop.thy ===== *)
theory Udp_Hop
  imports Port_Union
begin

text \<open>
  Port hopping (\<open>extras/transport/udphop/addr.go\<close>, \<open>extras/transport/udphop/conn.go\<close>). Sockets are indices into a list that records whether the
  program has closed them and the deadlines and buffer sizes it asked for; what the calls on a socket return is not modelled. Name resolution, listening and random numbers are
  arguments; the zero time is \<open>None\<close>. Debug output is left out.
\<close>

section \<open>Definitions\<close>

type_synonym hop_target = "string \<times> u16"

record UDPHopAddr =
  ha_IP :: string
  ha_Ports :: "u16 list"
  ha_PortStr :: string

definition addrs :: "UDPHopAddr \<Rightarrow> hop_target list" where
  "addrs a = map (\<lambda>port. (ha_IP a, port)) (ha_Ports a)"

text \<open>\<open>split\<close> is \<open>net.SplitHostPort\<close>, \<open>resolve\<close> is \<open>net.ResolveIPAddr\<close>.\<close>

definition ResolveUDPHopAddr :: "(string \<Rightarrow> (string \<times> string) option) \<Rightarrow> (string \<Rightarrow> string option) \<Rightarrow> string \<Rightarrow> string + UDPHopAddr" where
  "ResolveUDPHopAddr split resolve addr =
     (case split addr of
        None \<Rightarrow> Inl ''invalid address''
      | Some (host, portStr) \<Rightarrow>
          (case resolve host of
             None \<Rightarrow> Inl ''cannot resolve''
           | Some ip \<Rightarrow>
               (case ParsePortUnion portStr of
                  None \<Rightarrow> Inl (portStr @ '' is not a valid port number or range'')
                | Some pu \<Rightarrow> Inr \<lparr>ha_IP = ip, ha_Ports = Ports pu, ha_PortStr = portStr\<rparr>)))"

definition packetQueueSize :: nat where "packetQueueSize = 1024"
definition hop_udpBufferSize :: nat where "hop_udpBufferSize = 2048"
definition defaultHopInterval :: duration where "defaultHopInterval = 30 * Second"

record HopIntervalConfig =
  hi_Min :: duration
  hi_Max :: duration

definition normalized :: "HopIntervalConfig \<Rightarrow> string + HopIntervalConfig" where
  "normalized c =
     (if hi_Min c = 0 \<and> hi_Max c = 0 then Inr \<lparr>hi_Min = defaultHopInterval, hi_Max = defaultHopInterval\<rparr>
      else if hi_Min c = 0 \<or> hi_Max c = 0 then Inl ''min and max hop interval must both be set''
      else if hi_Min c > hi_Max c then Inl ''min hop interval must not be greater than max hop interval''
      else if hi_Min c < 5 * Second then Inl ''hop interval must be at least 5 seconds''
      else Inr c)"

record sock =
  sk_open :: bool
  sk_readDeadline :: "instant option"
  sk_writeDeadline :: "instant option"
  sk_readBuffer :: int
  sk_writeBuffer :: int

definition new_sock :: sock where
  "new_sock = \<lparr>sk_open = True, sk_readDeadline = None, sk_writeDeadline = None, sk_readBuffer = 0, sk_writeBuffer = 0\<rparr>"

datatype udpPacket = Packet bytes string | TimeoutErr

record udpHopPacketConn =
  hc_Addr :: UDPHopAddr
  hc_Addrs :: "hop_target list"
  HopInterval :: HopIntervalConfig
  prevConn :: "nat option"
  currentConn :: nat
  addrIndex :: nat
  readBufferSize :: int
  writeBufferSize :: int
  deadline :: "instant option"
  readDeadline :: "instant option"
  writeDeadline :: "instant option"
  recvQueue :: "udpPacket list"
  hc_closed :: bool
  hc_socks :: "sock list"

text \<open>\<open>rand.Intn(0)\<close> panics: an address without ports is the value \<open>None\<close>.\<close>

definition NewUDPHopPacketConn :: "UDPHopAddr \<Rightarrow> HopIntervalConfig \<Rightarrow> string option \<Rightarrow> nat \<Rightarrow> (string + udpHopPacketConn) option" where
  "NewUDPHopPacketConn addr hopInterval listen rnd =
     (case normalized hopInterval of
        Inl e \<Rightarrow> Some (Inl e)
      | Inr hi \<Rightarrow>
          (case listen of
             Some e \<Rightarrow> Some (Inl e)
           | None \<Rightarrow>
               if addrs addr = [] then None
               else Some (Inr \<lparr>hc_Addr = addr, hc_Addrs = addrs addr, HopInterval = hi, prevConn = None, currentConn = 0,
                       addrIndex = rnd mod length (addrs addr), readBufferSize = 0, writeBufferSize = 0,
                       deadline = None, readDeadline = None, writeDeadline = None, recvQueue = [], hc_closed = False,
                       hc_socks = [new_sock]\<rparr>)))"

text \<open>\<open>rand.Int63n(n)\<close> is below \<open>n\<close>.\<close>

definition nextHopInterval :: "nat \<Rightarrow> udpHopPacketConn \<Rightarrow> duration" where
  "nextHopInterval rnd u =
     (let hi = HopInterval u
      in if hi_Min hi = hi_Max hi then hi_Min hi
         else hi_Min hi + int rnd mod (hi_Max hi - hi_Min hi + 1))"

definition upd_sock :: "nat \<Rightarrow> (sock \<Rightarrow> sock) \<Rightarrow> udpHopPacketConn \<Rightarrow> udpHopPacketConn" where
  "upd_sock i f u = u\<lparr>hc_socks := (hc_socks u)[i := f (hc_socks u ! i)]\<rparr>"

definition upd_prev :: "(sock \<Rightarrow> sock) \<Rightarrow> udpHopPacketConn \<Rightarrow> udpHopPacketConn" where
  "upd_prev f u = (case prevConn u of None \<Rightarrow> u | Some i \<Rightarrow> upd_sock i f u)"

definition sock_close :: "sock \<Rightarrow> sock" where "sock_close s = s\<lparr>sk_open := False\<rparr>"
definition sock_SetDeadline :: "instant option \<Rightarrow> sock \<Rightarrow> sock" where
  "sock_SetDeadline t s = s\<lparr>sk_readDeadline := t, sk_writeDeadline := t\<rparr>"
definition sock_SetReadDeadline :: "instant option \<Rightarrow> sock \<Rightarrow> sock" where
  "sock_SetReadDeadline t s = s\<lparr>sk_readDeadline := t\<rparr>"
definition sock_SetWriteDeadline :: "instant option \<Rightarrow> sock \<Rightarrow> sock" where
  "sock_SetWriteDeadline t s = s\<lparr>sk_writeDeadline := t\<rparr>"
definition trySetReadBuffer :: "int \<Rightarrow> sock \<Rightarrow> sock" where "trySetReadBuffer n s = s\<lparr>sk_readBuffer := n\<rparr>"
definition trySetWriteBuffer :: "int \<Rightarrow> sock \<Rightarrow> sock" where "trySetWriteBuffer n s = s\<lparr>sk_writeBuffer := n\<rparr>"

text \<open>What \<open>hop\<close> applies to the new socket.\<close>

definition carry_over :: "udpHopPacketConn \<Rightarrow> sock \<Rightarrow> sock" where
  "carry_over u s =
     (let s = (if readBufferSize u > 0 then trySetReadBuffer (readBufferSize u) s else s);
          s = (if writeBufferSize u > 0 then trySetWriteBuffer (writeBufferSize u) s else s);
          s = (if deadline u \<noteq> None then sock_SetDeadline (deadline u) s else s);
          s = (if readDeadline u \<noteq> None then sock_SetReadDeadline (readDeadline u) s else s)
      in if writeDeadline u \<noteq> None then sock_SetWriteDeadline (writeDeadline u) s else s)"

definition hop :: "bool \<Rightarrow> nat \<Rightarrow> udpHopPacketConn \<Rightarrow> udpHopPacketConn" where
  "hop listen_ok rnd u =
     (if hc_closed u then u
      else if \<not> listen_ok then u
      else let u = upd_prev sock_close u;
               new = length (hc_socks u);
               u = u\<lparr>hc_socks := hc_socks u @ [new_sock], prevConn := Some (currentConn u), currentConn := new\<rparr>;
               u = upd_sock new (carry_over u) u
           in u\<lparr>addrIndex := rnd mod length (hc_Addrs u)\<rparr>)"

text \<open>
  A datagram or a timeout arriving on a socket; other errors end its loop. A datagram is cut to the buffer and dropped when the queue is full; a timeout
  then waits for room, which is no step.
\<close>

definition recvLoop :: "udpPacket \<Rightarrow> udpHopPacketConn \<Rightarrow> udpHopPacketConn" where
  "recvLoop p u =
     (let p = (case p of Packet b a \<Rightarrow> Packet (take hop_udpBufferSize b) a | TimeoutErr \<Rightarrow> TimeoutErr)
      in if length (recvQueue u) < packetQueueSize then u\<lparr>recvQueue := recvQueue u @ [p]\<rparr> else u)"

datatype read_result = ReadOK bytes UDPHopAddr | ReadTimeout | ReadClosed | ReadBlocks

text \<open>
  \<open>pick\<close> is the choice of \<open>select\<close> when a packet is queued and the connection is closed. The address reported is the configured one.
\<close>

definition hop_ReadFrom :: "bool \<Rightarrow> nat \<Rightarrow> udpHopPacketConn \<Rightarrow> udpHopPacketConn \<times> read_result" where
  "hop_ReadFrom pick cap u =
     (if hc_closed u \<and> (pick \<or> recvQueue u = []) then (u, ReadClosed)
      else case recvQueue u of
        p # ps \<Rightarrow> (u\<lparr>recvQueue := ps\<rparr>, case p of Packet b _ \<Rightarrow> ReadOK (take cap b) (hc_Addr u) | TimeoutErr \<Rightarrow> ReadTimeout)
      | [] \<Rightarrow> (u, ReadBlocks))"

text \<open>The socket and the target a datagram goes to; \<open>None\<close> is \<open>net.ErrClosed\<close>. The caller's address is ignored.\<close>

definition hop_WriteTo :: "string \<Rightarrow> udpHopPacketConn \<Rightarrow> (nat \<times> hop_target) option" where
  "hop_WriteTo addr u = (if hc_closed u then None else Some (currentConn u, hc_Addrs u ! addrIndex u))"

definition hop_Close :: "udpHopPacketConn \<Rightarrow> udpHopPacketConn" where
  "hop_Close u =
     (if hc_closed u then u
      else let u = upd_prev sock_close u; u = upd_sock (currentConn u) sock_close u
           in u\<lparr>hc_closed := True, hc_Addrs := []\<rparr>)"

definition SetDeadline :: "instant option \<Rightarrow> udpHopPacketConn \<Rightarrow> udpHopPacketConn" where
  "SetDeadline t u =
     (let u = u\<lparr>deadline := t, readDeadline := t, writeDeadline := t\<rparr>;
          u = upd_prev (sock_SetDeadline t) u
      in upd_sock (currentConn u) (sock_SetDeadline t) u)"

definition SetReadDeadline :: "instant option \<Rightarrow> udpHopPacketConn \<Rightarrow> udpHopPacketConn" where
  "SetReadDeadline t u =
     (let u = u\<lparr>deadline := None, readDeadline := t\<rparr>;
          u = upd_prev (sock_SetReadDeadline t) u
      in upd_sock (currentConn u) (sock_SetReadDeadline t) u)"

definition SetWriteDeadline :: "instant option \<Rightarrow> udpHopPacketConn \<Rightarrow> udpHopPacketConn" where
  "SetWriteDeadline t u =
     (let u = u\<lparr>deadline := None, writeDeadline := t\<rparr>;
          u = upd_prev (sock_SetWriteDeadline t) u
      in upd_sock (currentConn u) (sock_SetWriteDeadline t) u)"

definition SetReadBuffer :: "int \<Rightarrow> udpHopPacketConn \<Rightarrow> udpHopPacketConn" where
  "SetReadBuffer n u =
     (let u = u\<lparr>readBufferSize := n\<rparr>; u = upd_prev (trySetReadBuffer n) u
      in upd_sock (currentConn u) (trySetReadBuffer n) u)"

definition SetWriteBuffer :: "int \<Rightarrow> udpHopPacketConn \<Rightarrow> udpHopPacketConn" where
  "SetWriteBuffer n u =
     (let u = u\<lparr>writeBufferSize := n\<rparr>; u = upd_prev (trySetWriteBuffer n) u
      in upd_sock (currentConn u) (trySetWriteBuffer n) u)"

inductive hop_step :: "udpHopPacketConn \<Rightarrow> udpHopPacketConn \<Rightarrow> bool" where
  hops: "hop_step u (hop ok rnd u)"
| recv: "hop_step u (recvLoop p u)"
| reads: "hop_step u (fst (hop_ReadFrom pick cap u))"
| close: "hop_step u (hop_Close u)"
| dl: "hop_step u (SetDeadline t u)"
| rdl: "hop_step u (SetReadDeadline t u)"
| wdl: "hop_step u (SetWriteDeadline t u)"
| rbuf: "hop_step u (SetReadBuffer n u)"
| wbuf: "hop_step u (SetWriteBuffer n u)"

inductive hop_reach :: "udpHopPacketConn \<Rightarrow> udpHopPacketConn \<Rightarrow> bool" for u0 where
  start: "hop_reach u0 u0"
| step: "hop_reach u0 u \<Longrightarrow> hop_step u u' \<Longrightarrow> hop_reach u0 u'"


section \<open>The invariant\<close>

text \<open>
  The sockets in use are the current and the previous one; they are the open ones until the connection is closed, and then none is. The deadlines in force
  on them are those the caller set last.
\<close>

definition in_use :: "udpHopPacketConn \<Rightarrow> nat set" where
  "in_use u = insert (currentConn u) (set_option (prevConn u))"

definition hop_ok :: "hop_target set \<Rightarrow> HopIntervalConfig \<Rightarrow> udpHopPacketConn \<Rightarrow> bool" where
  "hop_ok T hi u \<longleftrightarrow>
     HopInterval u = hi \<and> currentConn u < length (hc_socks u) \<and> (\<forall>i \<in> set_option (prevConn u). i < length (hc_socks u) \<and> i \<noteq> currentConn u)
     \<and> (\<forall>i < length (hc_socks u). sk_open (hc_socks u ! i) \<longleftrightarrow> \<not> hc_closed u \<and> i \<in> in_use u)
     \<and> (\<not> hc_closed u \<longrightarrow> addrIndex u < length (hc_Addrs u) \<and> set (hc_Addrs u) = T)
     \<and> length (recvQueue u) \<le> packetQueueSize
     \<and> (\<forall>i \<in> in_use u. sk_readDeadline (hc_socks u ! i) = readDeadline u \<and> sk_writeDeadline (hc_socks u ! i) = writeDeadline u)
     \<and> (deadline u \<noteq> None \<longrightarrow> readDeadline u = deadline u \<and> writeDeadline u = deadline u)"

lemmas hop_defs = hop_ok_def in_use_def upd_sock_def upd_prev_def sock_close_def sock_SetDeadline_def sock_SetReadDeadline_def
  sock_SetWriteDeadline_def trySetReadBuffer_def trySetWriteBuffer_def Let_def

lemma carry_over_deadlines:
  "deadline u \<noteq> None \<longrightarrow> readDeadline u = deadline u \<and> writeDeadline u = deadline u \<Longrightarrow>
   sk_readDeadline (carry_over u new_sock) = readDeadline u \<and> sk_writeDeadline (carry_over u new_sock) = writeDeadline u
   \<and> sk_open (carry_over u new_sock)"
  by (auto simp: carry_over_def new_sock_def hop_defs)

lemma hop_ok_hop:
  assumes ok: "hop_ok T hi u"
  shows "hop_ok T hi (hop b rnd u)"
proof (cases "hc_closed u \<or> \<not> b")
  case False
  let ?n = "length (hc_socks u)"
  let ?u1 = "upd_prev sock_close u"
  let ?u2 = "?u1\<lparr>hc_socks := hc_socks ?u1 @ [new_sock], prevConn := Some (currentConn u), currentConn := ?n\<rparr>"
  have len: "length (hc_socks ?u1) = ?n" by (simp add: upd_prev_def upd_sock_def split: option.split)
  have keep: "HopInterval ?u1 = HopInterval u" "hc_closed ?u1 = hc_closed u" "hc_Addrs ?u1 = hc_Addrs u" "recvQueue ?u1 = recvQueue u"
    "readDeadline ?u1 = readDeadline u" "writeDeadline ?u1 = writeDeadline u" "deadline ?u1 = deadline u" "currentConn ?u1 = currentConn u"
    by (simp_all add: upd_prev_def upd_sock_def split: option.split)
  have h: "hop b rnd u = (upd_sock ?n (carry_over ?u2) ?u2)\<lparr>addrIndex := rnd mod length (hc_Addrs u)\<rparr>"
    using False len keep by (simp add: hop_def Let_def upd_sock_def nth_append list_update_append)
  have co: "sk_readDeadline (carry_over ?u2 new_sock) = readDeadline u \<and> sk_writeDeadline (carry_over ?u2 new_sock) = writeDeadline u
    \<and> sk_open (carry_over ?u2 new_sock)"
    using carry_over_deadlines [of ?u2] ok keep by (simp add: hop_ok_def)
  have socks: "hc_socks (hop b rnd u) = hc_socks ?u1 @ [carry_over ?u2 new_sock]"
    unfolding h using len by (simp add: upd_sock_def nth_append list_update_append)
  have old: "hc_socks ?u1 ! i = (if prevConn u = Some i then sock_close (hc_socks u ! i) else hc_socks u ! i)" if "i < ?n" for i
    using that by (auto simp: upd_prev_def upd_sock_def nth_list_update split: option.split)
  have cur: "currentConn u < ?n" "prevConn u \<noteq> Some (currentConn u)" using ok by (auto simp: hop_ok_def)
  have fields: "currentConn (hop b rnd u) = ?n" "prevConn (hop b rnd u) = Some (currentConn u)" "hc_closed (hop b rnd u) = hc_closed u"
    "hc_Addrs (hop b rnd u) = hc_Addrs u" "recvQueue (hop b rnd u) = recvQueue u" "HopInterval (hop b rnd u) = HopInterval u"
    "readDeadline (hop b rnd u) = readDeadline u" "writeDeadline (hop b rnd u) = writeDeadline u" "deadline (hop b rnd u) = deadline u"
    "addrIndex (hop b rnd u) = rnd mod length (hc_Addrs u)"
    unfolding h using keep by (simp_all add: upd_sock_def)
  have opn: "sk_open (hc_socks (hop b rnd u) ! i) \<longleftrightarrow> i = ?n \<or> i = currentConn u" if "i < Suc ?n" for i
    using that old [of i] co ok False cur len unfolding socks
    by (cases "i = ?n") (auto simp: nth_append hop_ok_def in_use_def sock_close_def)
  have dls: "sk_readDeadline (hc_socks (hop b rnd u) ! i) = readDeadline u \<and> sk_writeDeadline (hc_socks (hop b rnd u) ! i) = writeDeadline u"
    if "i = ?n \<or> i = currentConn u" for i
    using that old [of i] co ok cur len unfolding socks by (auto simp: nth_append hop_ok_def in_use_def)
  have "0 < length (hc_Addrs u)" using ok False by (auto simp: hop_ok_def)
  then have idx: "rnd mod length (hc_Addrs u) < length (hc_Addrs u)" by (rule mod_less_divisor)
  show ?thesis
    unfolding hop_ok_def in_use_def fields using ok False cur opn dls socks len idx
    by (auto simp: hop_ok_def)
qed (use ok in \<open>auto simp: hop_def\<close>)

lemma hop_ok_deadlines:
  assumes ok: "hop_ok T hi u"
  shows "hop_ok T hi (SetDeadline t u)" "hop_ok T hi (SetReadDeadline t u)" "hop_ok T hi (SetWriteDeadline t u)"
    "hop_ok T hi (SetReadBuffer n u)" "hop_ok T hi (SetWriteBuffer n u)"
  using ok
  by (cases "prevConn u"; auto simp: hop_defs SetDeadline_def SetReadDeadline_def SetWriteDeadline_def SetReadBuffer_def
      SetWriteBuffer_def nth_list_update)+

lemma hop_ok_Close:
  assumes ok: "hop_ok T hi u"
  shows "hop_ok T hi (hop_Close u)"
  using ok by (cases "prevConn u") (auto simp: hop_defs hop_Close_def nth_list_update)

lemma hop_ok_queue:
  assumes ok: "hop_ok T hi u"
  shows "hop_ok T hi (recvLoop p u)" "hop_ok T hi (fst (hop_ReadFrom pick cap u))"
  using ok by (auto simp: hop_ok_def in_use_def recvLoop_def hop_ReadFrom_def Let_def split: list.split)

lemma hop_ok_step: "hop_step u u' \<Longrightarrow> hop_ok T hi u \<Longrightarrow> hop_ok T hi u'"
  by (induction rule: hop_step.induct) (simp_all add: hop_ok_hop hop_ok_deadlines hop_ok_Close hop_ok_queue)

lemma hop_reach_ok: "hop_reach u0 u \<Longrightarrow> hop_ok T hi u0 \<Longrightarrow> hop_ok T hi u"
  by (induction rule: hop_reach.induct) (auto intro: hop_ok_step)

lemma New_ok:
  assumes "NewUDPHopPacketConn a hi listen rnd = Some (Inr u)"
  shows "\<exists>hi'. normalized hi = Inr hi' \<and> hop_ok (set (addrs a)) hi' u"
  using assms
  by (auto simp: NewUDPHopPacketConn_def hop_ok_def in_use_def new_sock_def split: sum.splits option.splits if_splits)

lemma normalized_ok: "normalized hi = Inr hi' \<Longrightarrow> 5 * Second \<le> hi_Min hi' \<and> hi_Min hi' \<le> hi_Max hi'"
  by (auto simp: normalized_def defaultHopInterval_def split: if_splits)


section \<open>Properties\<close>

text \<open>A connection over two ports, and what it looks like after a hop.\<close>

definition demo_hop_addr :: UDPHopAddr where
  "demo_hop_addr = \<lparr>ha_IP = ''198.51.100.1'', ha_Ports = [443, 8443], ha_PortStr = ''443,8443''\<rparr>"

definition demo_hop :: udpHopPacketConn where
  "demo_hop = \<lparr>hc_Addr = demo_hop_addr, hc_Addrs = addrs demo_hop_addr, HopInterval = \<lparr>hi_Min = 5 * Second, hi_Max = 9 * Second\<rparr>, prevConn = None, currentConn = 0,
     addrIndex = 1, readBufferSize = 0, writeBufferSize = 0, deadline = None, readDeadline = None, writeDeadline = None, recvQueue = [],
     hc_closed = False, hc_socks = [new_sock]\<rparr>"

lemma demo_hop_new: "NewUDPHopPacketConn demo_hop_addr \<lparr>hi_Min = 5 * Second, hi_Max = 9 * Second\<rparr> None 1 = Some (Inr demo_hop)"
  by (simp add: NewUDPHopPacketConn_def normalized_def addrs_def demo_hop_addr_def demo_hop_def)

text \<open>
  C23. However the connection hops, is read, written, tuned and closed: until it is closed exactly the current and the previous socket are open -
  at most two - and every datagram goes from the current socket to one of the configured ports; after it is closed no socket
  is open and nothing is written.
\<close>

theorem hop_sockets:
  assumes "NewUDPHopPacketConn a hi listen rnd = Some (Inr u0)" and "hop_reach u0 u"
  shows "{i. i < length (hc_socks u) \<and> sk_open (hc_socks u ! i)} = (if hc_closed u then {} else in_use u)
    \<and> card (in_use u) \<le> 2
    \<and> (case hop_WriteTo addr u of None \<Rightarrow> hc_closed u | Some (s, target) \<Rightarrow> \<not> hc_closed u \<and> s = currentConn u \<and> target \<in> set (addrs a))"
proof -
  obtain hi' where ok: "hop_ok (set (addrs a)) hi' u" using New_ok [OF assms(1)] hop_reach_ok [OF assms(2)] by blast
  have "card (in_use u) \<le> 2" by (cases "prevConn u") (auto simp: in_use_def card_insert_if)
  moreover have "{i. i < length (hc_socks u) \<and> sk_open (hc_socks u ! i)} = (if hc_closed u then {} else in_use u)"
    using ok by (auto simp: hop_ok_def in_use_def)
  moreover have "hc_Addrs u ! addrIndex u \<in> set (addrs a)" if "\<not> hc_closed u"
  proof -
    have "addrIndex u < length (hc_Addrs u)" "set (hc_Addrs u) = set (addrs a)" using ok that by (auto simp: hop_ok_def)
    then show ?thesis using nth_mem by blast
  qed
  ultimately show ?thesis by (simp add: hop_WriteTo_def)
qed

theorem hop_sockets_witness:
  "case hop_WriteTo ''x'' (hop True 0 demo_hop) of None \<Rightarrow> False | Some (s, target) \<Rightarrow> s = 1 \<and> target \<in> {(''198.51.100.1'', 443), (''198.51.100.1'', 8443)}"
proof -
  have "hop_reach demo_hop (hop True 0 demo_hop)"
    by (rule hop_reach.step [OF hop_reach.start hop_step.hops])
  from hop_sockets [OF demo_hop_new this, of "''x''"] show ?thesis
    by (simp add: hop_WriteTo_def hop_def demo_hop_def upd_prev_def upd_sock_def Let_def addrs_def demo_hop_addr_def)
qed

text \<open>
  Hopping does not lose deadlines: in every reachable state the read and write deadlines in force on the current and on the previous socket
  are the ones the caller set last, although the new socket of a hop starts without any.
\<close>

theorem hop_keeps_deadlines:
  assumes "NewUDPHopPacketConn a hi listen rnd = Some (Inr u0)" and "hop_reach u0 u" and "i \<in> in_use u"
  shows "sk_readDeadline (hc_socks u ! i) = readDeadline u \<and> sk_writeDeadline (hc_socks u ! i) = writeDeadline u"
  using New_ok [OF assms(1)] hop_reach_ok [OF assms(2)] assms(3) by (auto simp: hop_ok_def)

theorem hop_keeps_deadlines_witness:
  "sk_readDeadline (hc_socks (hop True 0 (SetDeadline (Some 9) demo_hop)) ! 1) = Some 9"
proof -
  let ?u = "hop True 0 (SetDeadline (Some 9) demo_hop)"
  have r: "hop_reach demo_hop ?u"
    by (rule hop_reach.step [OF hop_reach.step [OF hop_reach.start hop_step.dl] hop_step.hops])
  have "1 \<in> in_use ?u" "readDeadline ?u = Some 9"
    by (simp_all add: hop_def SetDeadline_def demo_hop_def upd_prev_def upd_sock_def Let_def in_use_def)
  then show ?thesis using hop_keeps_deadlines [OF demo_hop_new r] by metis
qed

text \<open>
  The time between hops is at least five seconds and within the configured bounds, whatever the random number; a configuration that
  could not guarantee this is rejected.
\<close>

theorem hop_interval_bounds:
  assumes "NewUDPHopPacketConn a hi listen rnd = Some (Inr u0)" and "hop_reach u0 u"
  shows "5 * Second \<le> nextHopInterval r u \<and>
    (hi_Min hi \<noteq> 0 \<longrightarrow> hi_Min hi \<le> nextHopInterval r u \<and> nextHopInterval r u \<le> hi_Max hi)"
proof -
  obtain hi' where n: "normalized hi = Inr hi'" and "hop_ok (set (addrs a)) hi' u"
    using New_ok [OF assms(1)] hop_reach_ok [OF assms(2)] by blast
  then have hi: "HopInterval u = hi'" by (simp add: hop_ok_def)
  note b = normalized_ok [OF n]
  have "0 \<le> int r mod (hi_Max hi' - hi_Min hi' + 1)" "int r mod (hi_Max hi' - hi_Min hi' + 1) < hi_Max hi' - hi_Min hi' + 1"
    using b by (auto intro!: pos_mod_bound pos_mod_sign simp del: zle_add1_eq_le)
  then have "hi_Min hi' \<le> nextHopInterval r u" "nextHopInterval r u \<le> hi_Max hi'"
    using hi b by (auto simp: nextHopInterval_def Let_def)
  moreover have "hi_Min hi \<noteq> 0 \<Longrightarrow> hi' = hi" using n by (auto simp: normalized_def split: if_splits)
  ultimately show ?thesis using b by auto
qed

theorem hop_interval_bounds_witness:
  "5 * Second \<le> nextHopInterval 12345678901 demo_hop \<and> nextHopInterval 12345678901 demo_hop \<le> 9 * Second"
  using hop_interval_bounds [OF demo_hop_new hop_reach.start, of 12345678901] by simp

end
