(* ===== verification/Acl_Matchers.thy ===== *)
theory Acl_Matchers
  imports Go_Strings "HOL-Library.List_Lexorder"
begin

text \<open>
  Host matchers of the access control list (\<open>extras/outbounds/acl/matchers.go\<close>,
  \<open>extras/outbounds/acl/matchers_v2geo.go\<close>). An IP address is Go's \<open>net.IP\<close>, a slice of bytes with the empty list for
  \<open>nil\<close>; \<open>To4\<close>, \<open>Equal\<close>, \<open>CIDRMask\<close> and \<open>IPNet.Contains\<close> are those of package \<open>net\<close>, and
  \<open>bytes.Compare\<close> is the lexicographic order of lists. Host names are ASCII, so that runes are characters. International
  domain names, regular expressions and the parsing and printing of addresses are the fields of \<open>acl_env\<close>.
\<close>

section \<open>Package net\<close>

type_synonym IP = bytes

record IPNet =
  n_IP :: IP
  n_Mask :: bytes

definition v4InV6Prefix :: bytes where "v4InV6Prefix = replicate 10 0 @ [255, 255]"

definition To4 :: "IP \<Rightarrow> IP option" where
  "To4 ip =
     (if length ip = 4 then Some ip
      else if length ip = 16 \<and> take 12 ip = v4InV6Prefix then Some (drop 12 ip)
      else None)"

definition Equal :: "IP \<Rightarrow> IP \<Rightarrow> bool" where
  "Equal ip x =
     (if length ip = length x then ip = x
      else if length ip = 4 \<and> length x = 16 then take 12 x = v4InV6Prefix \<and> ip = drop 12 x
      else if length ip = 16 \<and> length x = 4 then take 12 ip = v4InV6Prefix \<and> drop 12 ip = x
      else False)"

fun mask_bytes :: "nat \<Rightarrow> nat \<Rightarrow> bytes" where
  "mask_bytes 0 n = []"
| "mask_bytes (Suc l) n =
     (if n \<ge> 8 then 255 # mask_bytes l (n - 8) else not (drop_bit n 255) # mask_bytes l 0)"

definition CIDRMask :: "nat \<Rightarrow> nat \<Rightarrow> bytes" where
  "CIDRMask ones bits = (if ones > bits then [] else mask_bytes (bits div 8) ones)"

definition networkNumberAndMask :: "IPNet \<Rightarrow> IP \<times> bytes" where
  "networkNumberAndMask n =
     (let ip = (case To4 (n_IP n) of Some ip4 \<Rightarrow> ip4 | None \<Rightarrow> n_IP n); m = n_Mask n
      in if length ip \<noteq> 4 \<and> length ip \<noteq> 16 then ([], [])
         else if length m = 4 then if length ip \<noteq> 4 then ([], []) else (ip, m)
         else if length m = 16 then if length ip = 4 then (ip, drop 12 m) else (ip, m)
         else ([], []))"

definition masked_eq :: "bytes \<Rightarrow> bytes \<Rightarrow> bytes \<Rightarrow> bool" where
  "masked_eq m a b = list_all (\<lambda>(m, a, b). and a m = and b m) (zip m (zip a b))"

definition IPNet_Contains :: "IPNet \<Rightarrow> IP \<Rightarrow> bool" where
  "IPNet_Contains n ip =
     (let (nn, m) = networkNumberAndMask n; ip = (case To4 ip of Some x \<Rightarrow> x | None \<Rightarrow> ip)
      in length ip = length nn \<and> masked_eq m nn ip)"


section \<open>The matchers\<close>

record acl_env =
  ToUnicode :: "string \<Rightarrow> string option"
  regexp_Compile :: "string \<Rightarrow> string option"
  MatchString :: "string \<Rightarrow> string \<Rightarrow> bool"
  ParseIP :: "string \<Rightarrow> IP"
  ParseCIDR :: "string \<Rightarrow> IPNet option"
  IP_String :: "IP \<Rightarrow> string"

record HostInfo =
  h_Name :: string
  h_IPv4 :: IP
  h_IPv6 :: IP

definition domainMatchExact :: u8 where "domainMatchExact = 0"
definition domainMatchWildcard :: u8 where "domainMatchWildcard = 1"
definition domainMatchSuffix :: u8 where "domainMatchSuffix = 2"

definition ipMatcher_Match :: "IP \<Rightarrow> HostInfo \<Rightarrow> bool" where
  "ipMatcher_Match ip host = (Equal ip (h_IPv4 host) \<or> Equal ip (h_IPv6 host))"

definition cidrMatcher_Match :: "IPNet \<Rightarrow> HostInfo \<Rightarrow> bool" where
  "cidrMatcher_Match n host = (IPNet_Contains n (h_IPv4 host) \<or> IPNet_Contains n (h_IPv6 host))"

fun deepMatchRune :: "string \<Rightarrow> string \<Rightarrow> bool" where
  "deepMatchRune str [] = (str = [])"
| "deepMatchRune [] (p # ps) = (p = CHR ''*'' \<and> deepMatchRune [] ps)"
| "deepMatchRune (c # cs) (p # ps) =
     (if p = CHR ''*'' then deepMatchRune (c # cs) ps \<or> deepMatchRune cs (p # ps)
      else c = p \<and> deepMatchRune cs ps)"

definition unicode_name :: "acl_env \<Rightarrow> HostInfo \<Rightarrow> string" where
  "unicode_name env host = (case ToUnicode env (h_Name host) of Some u \<Rightarrow> u | None \<Rightarrow> h_Name host)"

definition domainMatcher_Match :: "acl_env \<Rightarrow> string \<Rightarrow> u8 \<Rightarrow> HostInfo \<Rightarrow> bool" where
  "domainMatcher_Match env pat mode host =
     (let name = unicode_name env host
      in if mode = domainMatchExact then name = pat
         else if mode = domainMatchWildcard then deepMatchRune name pat
         else if mode = domainMatchSuffix then name = pat \<or> HasSuffix name (''.'' @ pat)
         else False)"

record geoipMatcher =
  N4 :: "IPNet list"
  N6 :: "IPNet list"
  Inverse :: bool

text \<open>The binary search of \<open>matchIP\<close>, with Go's signed indices.\<close>

function search_nets :: "IPNet list \<Rightarrow> IP \<Rightarrow> int \<Rightarrow> int \<Rightarrow> bool" where
  "search_nets n ip left right =
     (if left \<le> right
      then let mid = (left + right) div 2
           in if IPNet_Contains (n ! nat mid) ip then True
              else if n_IP (n ! nat mid) < ip then search_nets n ip (mid + 1) right
              else search_nets n ip left (mid - 1)
      else False)"
  by pat_completeness auto
termination by (relation "measure (\<lambda>(n, ip, left, right). nat (right - left + 1))") auto

declare search_nets.simps [simp del]

definition matchIP :: "geoipMatcher \<Rightarrow> IP \<Rightarrow> bool" where
  "matchIP m ip =
     (let (ip, n) = (case To4 ip of Some ip4 \<Rightarrow> (ip4, N4 m) | None \<Rightarrow> (ip, N6 m))
      in search_nets n ip 0 (int (length n) - 1))"

definition geoip_Match :: "geoipMatcher \<Rightarrow> HostInfo \<Rightarrow> bool" where
  "geoip_Match m host =
     (if h_IPv4 host \<noteq> [] \<and> matchIP m (h_IPv4 host) then \<not> Inverse m
      else if h_IPv6 host \<noteq> [] \<and> matchIP m (h_IPv6 host) then \<not> Inverse m
      else Inverse m)"

text \<open>The entries of the GeoIP and GeoSite databases (package \<open>v2geo\<close>).\<close>

record CIDR =
  c_Ip :: bytes
  c_Prefix :: u32

record GeoIP =
  Cidr :: "CIDR list"
  InverseMatch :: bool

definition cidr_net :: "nat \<Rightarrow> CIDR \<Rightarrow> IPNet" where
  "cidr_net bits c = \<lparr>n_IP = c_Ip c, n_Mask = CIDRMask (unat (c_Prefix c)) bits\<rparr>"

fun geoip_nets :: "CIDR list \<Rightarrow> IPNet list \<Rightarrow> IPNet list \<Rightarrow> string + IPNet list \<times> IPNet list" where
  "geoip_nets [] n4 n6 = Inr (n4, n6)"
| "geoip_nets (c # cs) n4 n6 =
     (if length (c_Ip c) = 4 then geoip_nets cs (n4 @ [cidr_net 32 c]) n6
      else if length (c_Ip c) = 16 then geoip_nets cs n4 (n6 @ [cidr_net 128 c])
      else Inl ''invalid IP length'')"

text \<open>\<open>sort.Slice\<close> may order networks with the same address either way; here they keep their order.\<close>

definition newGeoIPMatcher :: "GeoIP \<Rightarrow> string + geoipMatcher" where
  "newGeoIPMatcher l =
     (case geoip_nets (Cidr l) [] [] of
        Inl e \<Rightarrow> Inl e
      | Inr (n4, n6) \<Rightarrow> Inr \<lparr>N4 = sort_key n_IP n4, N6 = sort_key n_IP n6, Inverse = InverseMatch l\<rparr>)"

datatype geositeDomainType = geositeDomainPlain | geositeDomainRegex | geositeDomainRoot | geositeDomainFull

record geositeDomain =
  gd_Type :: geositeDomainType
  gd_Value :: string
  gd_Regex :: "string option"
  gd_Attrs :: "string list"

record geositeMatcher =
  gs_Domains :: "geositeDomain list"
  gs_Attrs :: "string list"

definition matchDomain :: "acl_env \<Rightarrow> geositeMatcher \<Rightarrow> geositeDomain \<Rightarrow> HostInfo \<Rightarrow> bool" where
  "matchDomain env m d host =
     (if gs_Attrs m \<noteq> [] \<and> (gd_Attrs d = [] \<or> \<not> list_all (\<lambda>a. a \<in> set (gd_Attrs d)) (gs_Attrs m)) then False
      else case gd_Type d of
        geositeDomainPlain \<Rightarrow> Contains_str (h_Name host) (gd_Value d)
      | geositeDomainRegex \<Rightarrow> (case gd_Regex d of Some r \<Rightarrow> MatchString env r (h_Name host) | None \<Rightarrow> False)
      | geositeDomainFull \<Rightarrow> h_Name host = gd_Value d
      | geositeDomainRoot \<Rightarrow> h_Name host = gd_Value d \<or> HasSuffix (h_Name host) (''.'' @ gd_Value d))"

definition geosite_Match :: "acl_env \<Rightarrow> geositeMatcher \<Rightarrow> HostInfo \<Rightarrow> bool" where
  "geosite_Match env m host = list_ex (\<lambda>d. matchDomain env m d host) (gs_Domains m)"

datatype Domain_Type = Domain_Plain | Domain_Regex | Domain_RootDomain | Domain_Full | Domain_Other

record v2Domain =
  d_Type :: Domain_Type
  d_Value :: string
  d_Attribute :: "string list"

type_synonym GeoSite = "v2Domain list"

text \<open>A map whose values are all \<open>true\<close> is the list of its keys.\<close>

definition domainAttributeToMap :: "string list \<Rightarrow> string list" where
  "domainAttributeToMap attrs = remdups attrs"

definition geosite_domain :: "acl_env \<Rightarrow> v2Domain \<Rightarrow> string + geositeDomain" where
  "geosite_domain env d =
     (let attrs = domainAttributeToMap (d_Attribute d);
          plain = (\<lambda>t. Inr \<lparr>gd_Type = t, gd_Value = d_Value d, gd_Regex = None, gd_Attrs = attrs\<rparr>)
      in case d_Type d of
           Domain_Plain \<Rightarrow> plain geositeDomainPlain
         | Domain_Regex \<Rightarrow>
             (case regexp_Compile env (d_Value d) of
                Some e \<Rightarrow> Inl e
              | None \<Rightarrow> Inr \<lparr>gd_Type = geositeDomainRegex, gd_Value = [], gd_Regex = Some (d_Value d), gd_Attrs = attrs\<rparr>)
         | Domain_Full \<Rightarrow> plain geositeDomainFull
         | Domain_RootDomain \<Rightarrow> plain geositeDomainRoot
         | Domain_Other \<Rightarrow> Inl ''unsupported domain type'')"

fun geosite_domains :: "acl_env \<Rightarrow> v2Domain list \<Rightarrow> string + geositeDomain list" where
  "geosite_domains env [] = Inr []"
| "geosite_domains env (d # ds) =
     (case geosite_domain env d of
        Inl e \<Rightarrow> Inl e
      | Inr g \<Rightarrow> (case geosite_domains env ds of Inl e \<Rightarrow> Inl e | Inr gs \<Rightarrow> Inr (g # gs)))"

definition newGeositeMatcher :: "acl_env \<Rightarrow> GeoSite \<Rightarrow> string list \<Rightarrow> string + geositeMatcher" where
  "newGeositeMatcher env l attrs =
     (case geosite_domains env l of Inl e \<Rightarrow> Inl e | Inr ds \<Rightarrow> Inr \<lparr>gs_Domains = ds, gs_Attrs = attrs\<rparr>)"

datatype hostMatcher =
    IpMatcher IP
  | CidrMatcher IPNet
  | DomainMatcher string u8
  | AllMatcher
  | GeoipMatcher geoipMatcher
  | GeositeMatcher geositeMatcher

fun hostMatcher_Match :: "acl_env \<Rightarrow> hostMatcher \<Rightarrow> HostInfo \<Rightarrow> bool" where
  "hostMatcher_Match env (IpMatcher ip) host = ipMatcher_Match ip host"
| "hostMatcher_Match env (CidrMatcher n) host = cidrMatcher_Match n host"
| "hostMatcher_Match env (DomainMatcher pat mode) host = domainMatcher_Match env pat mode host"
| "hostMatcher_Match env AllMatcher host = True"
| "hostMatcher_Match env (GeoipMatcher m) host = geoip_Match m host"
| "hostMatcher_Match env (GeositeMatcher m) host = geosite_Match env m host"


section \<open>Wildcards\<close>

text \<open>What a wildcard pattern means: a star stands for any sequence, every other character for itself.\<close>

inductive glob :: "string \<Rightarrow> string \<Rightarrow> bool" where
  glob_nil: "glob [] []"
| glob_char: "c \<noteq> CHR ''*'' \<Longrightarrow> glob s p \<Longrightarrow> glob (c # s) (c # p)"
| glob_star: "glob s p \<Longrightarrow> glob (x @ s) (CHR ''*'' # p)"

inductive_cases glob_nilE: "glob s []"
inductive_cases glob_consE: "glob s (c # p)"

lemma deepMatchRune_star: "deepMatchRune s p \<Longrightarrow> deepMatchRune (x @ s) (CHR ''*'' # p)"
proof (induction x)
  case Nil
  then show ?case by (cases s) auto
qed simp

lemma glob_star_cons: "glob s (CHR ''*'' # p) \<Longrightarrow> glob (c # s) (CHR ''*'' # p)"
  by (erule glob_consE) (use glob_star [of _ p "c # _"] in auto)

lemma deepMatchRune_glob: "deepMatchRune s p \<longleftrightarrow> glob s p"
proof
  show "deepMatchRune s p \<Longrightarrow> glob s p"
  proof (induction s p rule: deepMatchRune.induct)
    case (2 p ps)
    then show ?case using glob_star [of "[]" ps "[]"] by auto
  next
    case (3 c cs p ps)
    then show ?case using glob_star [of "c # cs" ps "[]"] by (auto intro: glob_char glob_star_cons split: if_splits)
  qed (auto intro: glob_nil)
  show "glob s p \<Longrightarrow> deepMatchRune s p"
    by (induction rule: glob.induct) (auto intro: deepMatchRune_star)
qed

lemma HasSuffix_iff: "HasSuffix s p \<longleftrightarrow> (\<exists>x. s = x @ p)"
proof
  assume "HasSuffix s p"
  then have "rev s = rev p @ drop (length p) (rev s)"
    by (metis HasSuffix_def HasPrefix_def append_take_drop_id length_rev)
  then have "s = rev (drop (length p) (rev s)) @ p" by (metis rev_append rev_rev_ident)
  then show "\<exists>x. s = x @ p" by blast
qed (auto simp: HasSuffix_def HasPrefix_def)


section \<open>Binary search over networks\<close>

lemma masked_byte: "n < 8 \<Longrightarrow> and (a :: u8) (not (drop_bit n 255)) = push_bit (8 - n) (drop_bit (8 - n) a)"
proof -
  assume n: "n < 8"
  have "(255 :: u8) = mask 8" by (simp add: mask_eq_exp_minus_1)
  then have "drop_bit n (255 :: u8) = drop_bit n (mask 8)" by (rule arg_cong)
  also have "\<dots> = mask (8 - n)" using n by (auto intro!: bit_word_eqI simp: bit_simps)
  finally have "drop_bit n (255 :: u8) = mask (8 - n)" .
  then show ?thesis using n by (auto intro!: bit_word_eqI simp: bit_simps)
qed

lemma drop_bit_mono: "(a :: u8) \<le> b \<Longrightarrow> drop_bit k a \<le> drop_bit k b"
  by (simp add: word_le_nat_alt unat_drop_bit_eq del: drop_bit_eq_div) (simp add: drop_bit_eq_div div_le_mono)

lemma masked_byte_convex:
  assumes n: "n < 8" and ab: "(a :: u8) \<le> b" and bc: "b \<le> c"
    and eq: "and a (not (drop_bit n 255)) = and c (not (drop_bit n 255))"
  shows "and b (not (drop_bit n 255)) = and a (not (drop_bit n 255))"
proof -
  let ?k = "8 - n"
  have push: "drop_bit ?k (push_bit ?k (drop_bit ?k x)) = drop_bit ?k x" for x :: u8
    using bit_imp_le_length by (fastforce intro!: bit_word_eqI simp: bit_simps)
  have "drop_bit ?k a = drop_bit ?k c" using eq unfolding masked_byte [OF n] by (metis push)
  then have "drop_bit ?k b = drop_bit ?k a" using drop_bit_mono [OF ab, of ?k] drop_bit_mono [OF bc, of ?k] by simp
  then show ?thesis by (simp add: masked_byte [OF n])
qed

lemma length_mask_bytes [simp]: "length (mask_bytes l n) = l"
  by (induction l n rule: mask_bytes.induct) auto

lemma masked_eq_simps [simp]:
  "masked_eq [] u v" "masked_eq (m # ms) (a # as) (b # bs) \<longleftrightarrow> and a m = and b m \<and> masked_eq ms as bs"
  by (simp_all add: masked_eq_def)

lemma and_255 [simp]: "and x (255 :: u8) = x"
proof -
  have "(255 :: u8) = - 1" by simp
  then show ?thesis by (simp only: and.right_neutral)
qed

lemma and_minus_256 [simp]: "and x (- 256 :: u8) = 0"
proof -
  have "(- 256 :: u8) = 0" by simp
  then show ?thesis by (simp only: and_zero_eq)
qed

lemma masked_zero: "length a = l \<Longrightarrow> length b = l \<Longrightarrow> masked_eq (mask_bytes l 0) a b"
proof (induction l arbitrary: a b)
  case (Suc l)
  then show ?case by (auto simp: length_Suc_conv)
qed simp

lemma masked_eq_nth: "masked_eq m a b \<longleftrightarrow> (\<forall>i < min (length m) (min (length a) (length b)). and (a ! i) (m ! i) = and (b ! i) (m ! i))"
  by (simp add: masked_eq_def list_all_length)

lemma masked_refl: "masked_eq m a a"
  by (simp add: masked_eq_nth)

lemma masked_sym: "masked_eq m a b = masked_eq m b a"
  by (auto simp: masked_eq_nth)

lemma masked_trans:
  "length a = length b \<Longrightarrow> length c = length b \<Longrightarrow> masked_eq m a b \<Longrightarrow> masked_eq m b c \<Longrightarrow> masked_eq m a c"
  by (simp add: masked_eq_nth)

lemma masked_convex:
  "length a = l \<Longrightarrow> length b = l \<Longrightarrow> length c = l \<Longrightarrow> a \<le> b \<Longrightarrow> b \<le> c \<Longrightarrow> masked_eq (mask_bytes l n) a c
   \<Longrightarrow> masked_eq (mask_bytes l n) a b"
proof (induction l n arbitrary: a b c rule: mask_bytes.induct)
  case (2 l n)
  from "2.prems" obtain x a' y b' z c' where l: "a = x # a'" "b = y # b'" "c = z # c'"
    "length a' = l" "length b' = l" "length c' = l" by (auto simp: length_Suc_conv)
  have le: "x \<le> y" "y \<le> z" using "2.prems"(4,5) l by (auto simp: Cons_le_Cons)
  show ?case
  proof (cases "n \<ge> 8")
    case True
    then have "x = z" "masked_eq (mask_bytes l (n - 8)) a' c'"
      using "2.prems"(6) l by simp_all
    then have "x = y" "a' \<le> b'" "b' \<le> c'" using le "2.prems"(4,5) l by (auto simp: Cons_le_Cons)
    then show ?thesis using True l "2.IH"(1) [of a' b' c'] \<open>masked_eq (mask_bytes l (n - 8)) a' c'\<close> by simp
  next
    case False
    then show ?thesis using "2.prems"(6) l masked_byte_convex [of n x y z] le by (auto intro: masked_zero)
  qed
qed simp

text \<open>Addresses and networks of one family, in the form the search compares them: \<open>w\<close> is 4 or 16 bytes.\<close>

definition net_addr :: "nat \<Rightarrow> IP \<Rightarrow> bool" where
  "net_addr w ip = (length ip = w \<and> (w = 4 \<or> w = 16 \<and> To4 ip = None))"

definition net_ok :: "nat \<Rightarrow> IPNet \<Rightarrow> bool" where
  "net_ok w n = (net_addr w (n_IP n) \<and> n_Mask n \<in> mask_bytes w ` {0..8 * w})"

lemma net_addrD: "net_addr w ip \<Longrightarrow> length ip = w \<and> To4 ip = (if w = 4 then Some ip else None)"
  by (auto simp: net_addr_def To4_def)

lemma net_number:
  assumes "net_ok w n"
  shows "networkNumberAndMask n = (n_IP n, n_Mask n)"
proof -
  have n: "net_addr w (n_IP n)" "length (n_Mask n) = w" using assms by (auto simp: net_ok_def)
  moreover have "w = 4 \<or> w = 16" using n(1) by (auto simp: net_addr_def)
  ultimately show ?thesis using net_addrD [OF n(1)] by (auto simp: networkNumberAndMask_def Let_def)
qed

lemma Contains_masked:
  assumes "net_ok w n" and "net_addr w ip"
  shows "IPNet_Contains n ip \<longleftrightarrow> masked_eq (n_Mask n) (n_IP n) ip"
proof -
  have "length (n_IP n) = w" using assms(1) by (auto simp: net_ok_def net_addr_def)
  moreover have "(case To4 ip of Some x \<Rightarrow> x | None \<Rightarrow> ip) = ip" using net_addrD [OF assms(2)] by simp
  ultimately show ?thesis using net_addrD [OF assms(2)] net_number [OF assms(1)] by (simp add: IPNet_Contains_def)
qed

lemma Contains_own: "net_ok w n \<Longrightarrow> IPNet_Contains n (n_IP n)"
  by (simp add: Contains_masked net_ok_def masked_refl)

lemma Contains_convex:
  assumes ok: "net_ok w n" and fam: "net_addr w a" "net_addr w b" "net_addr w c" and le: "a \<le> b" "b \<le> c"
    and c: "IPNet_Contains n a" "IPNet_Contains n c"
  shows "IPNet_Contains n b"
proof -
  obtain k where m: "n_Mask n = mask_bytes w k" using ok by (auto simp: net_ok_def)
  have len: "length a = w" "length b = w" "length c = w" "length (n_IP n) = w"
    using fam ok by (auto simp: net_ok_def net_addr_def)
  have "masked_eq (mask_bytes w k) (n_IP n) a" "masked_eq (mask_bytes w k) (n_IP n) c"
    using c fam ok m by (simp_all add: Contains_masked)
  then have "masked_eq (mask_bytes w k) a c" 
    using masked_trans [of a "n_IP n" c "mask_bytes w k"] masked_sym [of "mask_bytes w k" a "n_IP n"] len by metis
  from masked_convex [OF len(1-3) le this] have "masked_eq (mask_bytes w k) a b" .
  then have "masked_eq (mask_bytes w k) (n_IP n) b"
    using masked_trans [of "n_IP n" a b] len \<open>masked_eq (mask_bytes w k) (n_IP n) a\<close> by simp
  then show ?thesis using ok fam m by (simp add: Contains_masked)
qed

definition separated :: "IPNet list \<Rightarrow> bool" where
  "separated ns = (distinct ns \<and> (\<forall>a \<in> set ns. \<forall>b \<in> set ns. a \<noteq> b \<longrightarrow> \<not> IPNet_Contains a (n_IP b)))"

text \<open>The step of the search: a network that misses the address sends the search to the only side that can contain it.\<close>

lemma search_side:
  assumes ok: "\<forall>n \<in> set ns. net_ok w n" and sep: "separated ns" and srt: "sorted (map n_IP ns)" and ip: "net_addr w ip"
    and mid: "m < length ns" and miss: "\<not> IPNet_Contains (ns ! m) ip" and j: "j < length ns" and hit: "IPNet_Contains (ns ! j) ip"
  shows "m < j \<longleftrightarrow> n_IP (ns ! m) < ip"
proof -
  have okj: "net_ok w (ns ! j)" and okm: "net_ok w (ns ! m)" using ok j mid by auto
  have fam: "net_addr w (n_IP (ns ! j))" "net_addr w (n_IP (ns ! m))" using okj okm by (auto simp: net_ok_def)
  have ne: "j \<noteq> m" using hit miss by auto
  then have "ns ! j \<noteq> ns ! m" using sep mid j by (simp add: separated_def nth_eq_iff_index_eq)
  then have apart: "\<not> IPNet_Contains (ns ! j) (n_IP (ns ! m))" using sep mid j by (simp add: separated_def)
  have own: "IPNet_Contains (ns ! j) (n_IP (ns ! j))" using okj by (rule Contains_own)
  have le: "i \<le> k \<Longrightarrow> k < length ns \<Longrightarrow> n_IP (ns ! i) \<le> n_IP (ns ! k)" for i k
    using srt sorted_nth_mono [of "map n_IP ns" i k] by simp
  have "\<not> (m < j \<and> ip \<le> n_IP (ns ! m))"
    using Contains_convex [OF okj ip fam(2) fam(1) _ _ hit own] le [of m j] j apart by auto
  moreover have "\<not> (j < m \<and> n_IP (ns ! m) \<le> ip)"
    using Contains_convex [OF okj fam(1) fam(2) ip _ _ own hit] le [of j m] mid apart by auto
  ultimately show ?thesis using ne by (metis le_cases linorder_not_le nat_neq_iff order_less_imp_le)
qed

lemma search_nets_correct:
  assumes ok: "\<forall>n \<in> set ns. net_ok w n" and sep: "separated ns" and srt: "sorted (map n_IP ns)" and ip: "net_addr w ip"
  shows "0 \<le> left \<Longrightarrow> right < int (length ns) \<Longrightarrow>
    search_nets ns ip left right \<longleftrightarrow> (\<exists>j. left \<le> int j \<and> int j \<le> right \<and> IPNet_Contains (ns ! j) ip)"
proof (induction "nat (right - left + 1)" arbitrary: left right rule: less_induct)
  case less
  show ?case
  proof (cases "left \<le> right")
    case True
    define mid where "mid = (left + right) div 2"
    have mid: "left \<le> mid" "mid \<le> right" using True by (auto simp: mid_def)
    let ?m = "nat mid"
    have m: "int ?m = mid" "?m < length ns" using mid less.prems by auto
    note side = search_side [OF ok sep srt ip m(2)]
    have lo: "search_nets ns ip left (mid - 1) \<longleftrightarrow> (\<exists>j. left \<le> int j \<and> int j \<le> mid - 1 \<and> IPNet_Contains (ns ! j) ip)"
      by (rule less.hyps) (use mid less.prems in auto)
    have hi: "search_nets ns ip (mid + 1) right \<longleftrightarrow> (\<exists>j. mid + 1 \<le> int j \<and> int j \<le> right \<and> IPNet_Contains (ns ! j) ip)"
      by (rule less.hyps) (use mid less.prems in auto)
    consider (here) "IPNet_Contains (ns ! ?m) ip" | (up) "\<not> IPNet_Contains (ns ! ?m) ip" "n_IP (ns ! ?m) < ip"
      | (down) "\<not> IPNet_Contains (ns ! ?m) ip" "\<not> n_IP (ns ! ?m) < ip" by blast
    then show ?thesis
    proof cases
      case here
      then have "search_nets ns ip left right" using True by (subst search_nets.simps) (simp add: Let_def mid_def)
      moreover have "\<exists>j. left \<le> int j \<and> int j \<le> right \<and> IPNet_Contains (ns ! j) ip"
        using here mid m(1) by (intro exI [of _ ?m]) auto
      ultimately show ?thesis by simp
    next
      case up
      then have "search_nets ns ip left right = search_nets ns ip (mid + 1) right"
        using True by (subst search_nets.simps) (simp add: Let_def mid_def)
      moreover have "mid + 1 \<le> int j" if "int j \<le> right" "IPNet_Contains (ns ! j) ip" for j
        using side [of j] up that less.prems m(1) by simp
      ultimately show ?thesis unfolding hi using mid by (smt (verit))
    next
      case down
      then have "search_nets ns ip left right = search_nets ns ip left (mid - 1)"
        using True by (subst search_nets.simps) (simp add: Let_def mid_def)
      moreover have "int j \<le> mid - 1" if "int j \<le> right" "IPNet_Contains (ns ! j) ip" for j
        using side [of j] down that less.prems m(1) by (cases "j = ?m") auto
      ultimately show ?thesis unfolding lo using mid by auto
    qed
  qed (simp add: search_nets.simps)
qed

lemma search_nets_all:
  assumes "\<forall>n \<in> set ns. net_ok w n" and "separated ns" and "sorted (map n_IP ns)" and "net_addr w ip"
  shows "search_nets ns ip 0 (int (length ns) - 1) \<longleftrightarrow> (\<exists>n \<in> set ns. IPNet_Contains n ip)"
proof -
  have "(\<exists>j. 0 \<le> int j \<and> int j \<le> int (length ns) - 1 \<and> IPNet_Contains (ns ! j) ip) \<longleftrightarrow> (\<exists>j < length ns. IPNet_Contains (ns ! j) ip)"
    by (intro arg_cong [where f = Ex] ext) auto
  also have "\<dots> \<longleftrightarrow> (\<exists>n \<in> set ns. IPNet_Contains n ip)" by (metis in_set_conv_nth)
  finally show ?thesis using search_nets_correct [OF assms, of 0 "int (length ns) - 1"] by simp
qed

text \<open>
  What the search needs of a GeoIP list: prefixes that fit their address, no IPv4-mapped entry, and no network that contains the base
  address of another one (prefix networks are nested or disjoint, so this says that no two overlap).
\<close>

definition net_of :: "CIDR \<Rightarrow> IPNet" where
  "net_of c = cidr_net (8 * length (c_Ip c)) c"

definition cidrs_ok :: "CIDR list \<Rightarrow> bool" where
  "cidrs_ok cs =
     (distinct cs
      \<and> (\<forall>c \<in> set cs. unat (c_Prefix c) \<le> 8 * length (c_Ip c) \<and> (length (c_Ip c) = 16 \<longrightarrow> To4 (c_Ip c) = None))
      \<and> (\<forall>a \<in> set cs. \<forall>b \<in> set cs. a \<noteq> b \<longrightarrow> length (c_Ip a) = length (c_Ip b) \<longrightarrow> \<not> IPNet_Contains (net_of a) (c_Ip b)))"

lemma geoip_nets_Inr:
  "geoip_nets cs n4 n6 = Inr (r4, r6) \<Longrightarrow>
     r4 = n4 @ map net_of (filter (\<lambda>c. length (c_Ip c) = 4) cs) \<and> r6 = n6 @ map net_of (filter (\<lambda>c. length (c_Ip c) = 16) cs)
     \<and> (\<forall>c \<in> set cs. length (c_Ip c) = 4 \<or> length (c_Ip c) = 16)"
  by (induction cs n4 n6 rule: geoip_nets.induct) (auto simp: net_of_def split: if_splits)

lemma net_of_IP [simp]: "n_IP (net_of c) = c_Ip c"
  by (simp add: net_of_def cidr_net_def)

lemma net_of_ok:
  assumes "cidrs_ok cs" and "c \<in> set cs" and "length (c_Ip c) = w" and "w = 4 \<or> w = 16"
  shows "net_ok w (net_of c)"
proof -
  have p: "unat (c_Prefix c) \<le> 8 * w" using assms by (auto simp: cidrs_ok_def)
  then have "n_Mask (net_of c) = mask_bytes w (unat (c_Prefix c))" using assms(3) by (simp add: net_of_def cidr_net_def CIDRMask_def)
  moreover have "net_addr w (c_Ip c)" using assms by (auto simp: cidrs_ok_def net_addr_def)
  ultimately show ?thesis using p by (simp add: net_ok_def)
qed

lemma nets_separated:
  assumes ok: "cidrs_ok cs" and w: "w = 4 \<or> w = 16"
  shows "separated (map net_of (filter (\<lambda>c. length (c_Ip c) = w) cs))"
proof -
  let ?cs = "filter (\<lambda>c. length (c_Ip c) = w) cs"
  have no: "\<not> IPNet_Contains (net_of a) (c_Ip b)" if "a \<in> set ?cs" "b \<in> set ?cs" "a \<noteq> b" for a b
    using ok that by (auto simp: cidrs_ok_def)
  have "inj_on net_of (set ?cs)"
  proof (rule inj_onI, rule ccontr)
    fix a b assume ab: "a \<in> set ?cs" "b \<in> set ?cs" "net_of a = net_of b" "a \<noteq> b"
    have "c_Ip a = c_Ip b" using ab(3) by (metis net_of_IP)
    then have "IPNet_Contains (net_of a) (c_Ip b)" using Contains_own [OF net_of_ok [OF ok _ _ w, of a]] ab(1) by auto
    then show False using no ab by blast
  qed
  moreover have "\<not> IPNet_Contains x (n_IP y)" if "x \<in> net_of ` set ?cs" "y \<in> net_of ` set ?cs" "x \<noteq> y" for x y
    using that no by (metis (no_types, lifting) imageE net_of_IP)
  moreover have "distinct ?cs" using ok by (simp add: cidrs_ok_def)
  ultimately show ?thesis unfolding separated_def distinct_map set_map by blast
qed

lemma separated_sort: "separated (sort_key f ns) = separated ns"
  by (simp add: separated_def)

lemma search_sorted:
  assumes ok: "cidrs_ok cs" and w: "w = 4 \<or> w = 16" and ip: "net_addr w ip"
  shows "(let n = sort_key n_IP (map net_of (filter (\<lambda>c. length (c_Ip c) = w) cs)) in search_nets n ip 0 (int (length n) - 1))
    \<longleftrightarrow> (\<exists>c \<in> set cs. length (c_Ip c) = w \<and> IPNet_Contains (net_of c) ip)"
proof -
  let ?n = "sort_key n_IP (map net_of (filter (\<lambda>c. length (c_Ip c) = w) cs))"
  have "\<forall>n \<in> set ?n. net_ok w n" using net_of_ok [OF ok _ _ w] by auto
  moreover have "separated ?n" using nets_separated [OF ok w] by (simp add: separated_sort)
  moreover have "sorted (map n_IP ?n)" by simp
  ultimately have "search_nets ?n ip 0 (int (length ?n) - 1) \<longleftrightarrow> (\<exists>n \<in> set ?n. IPNet_Contains n ip)"
    using ip by (rule search_nets_all)
  also have "\<dots> \<longleftrightarrow> (\<exists>c \<in> set cs. length (c_Ip c) = w \<and> IPNet_Contains (net_of c) ip)" by auto
  finally show ?thesis by (simp add: Let_def)
qed

lemma Contains_To4: "IPNet_Contains n ip = IPNet_Contains n (case To4 ip of Some x \<Rightarrow> x | None \<Rightarrow> ip)"
  by (auto simp: IPNet_Contains_def To4_def split: option.splits)

lemma other_family:
  assumes "cidrs_ok cs" and "c \<in> set cs" and "length (c_Ip c) = w" and "w = 4 \<or> w = 16" and "net_addr v ip" and "v \<noteq> w"
  shows "\<not> IPNet_Contains (net_of c) ip"
proof -
  have "networkNumberAndMask (net_of c) = (c_Ip c, n_Mask (net_of c))"
    using net_number [OF net_of_ok [OF assms(1-4)]] by simp
  then show ?thesis using assms(3,6) net_addrD [OF assms(5)] by (auto simp: IPNet_Contains_def Let_def split: if_splits)
qed

lemma matchIP_correct:
  assumes ok: "cidrs_ok (Cidr l)" and new: "newGeoIPMatcher l = Inr m" and ip: "length ip = 4 \<or> length ip = 16"
  shows "matchIP m ip \<longleftrightarrow> (\<exists>c \<in> set (Cidr l). IPNet_Contains (net_of c) ip)"
proof -
  let ?ip = "case To4 ip of Some x \<Rightarrow> x | None \<Rightarrow> ip"
  let ?w = "if To4 ip = None then 16 else 4 :: nat"
  let ?n = "\<lambda>w. sort_key n_IP (map net_of (filter (\<lambda>c. length (c_Ip c) = w) (Cidr l)))"
  obtain n4 n6 where g: "geoip_nets (Cidr l) [] [] = Inr (n4, n6)"
    using new by (auto simp: newGeoIPMatcher_def split: sum.splits)
  have m: "N4 m = ?n 4" "N6 m = ?n 16" and len: "\<forall>c \<in> set (Cidr l). length (c_Ip c) = 4 \<or> length (c_Ip c) = 16"
    using new g geoip_nets_Inr [OF g] by (auto simp: newGeoIPMatcher_def)
  have addr: "net_addr ?w ?ip" using ip by (auto simp: net_addr_def To4_def)
  have "matchIP m ip = search_nets (?n ?w) ?ip 0 (int (length (?n ?w)) - 1)"
    using m by (auto simp: matchIP_def Let_def split: option.splits)
  also have "\<dots> \<longleftrightarrow> (\<exists>c \<in> set (Cidr l). length (c_Ip c) = ?w \<and> IPNet_Contains (net_of c) ?ip)"
    using search_sorted [OF ok _ addr] unfolding Let_def by simp
  also have "\<dots> \<longleftrightarrow> (\<exists>c \<in> set (Cidr l). IPNet_Contains (net_of c) ?ip)"
    using other_family [OF ok _ refl _ addr] len by metis
  finally show ?thesis using Contains_To4 by metis
qed


section \<open>Properties\<close>

text \<open>
  A GeoIP rule matches a host exactly when one of the addresses known for it lies in one of the listed networks - or exactly when none
  does, for an inverted list - provided that no two networks of the list overlap: the binary search loses nothing.
\<close>

theorem geoip_Match_correct:
  assumes "cidrs_ok (Cidr l)" and "newGeoIPMatcher l = Inr m"
    and "length (h_IPv4 host) \<in> {0, 4, 16}" and "length (h_IPv6 host) \<in> {0, 4, 16}"
  shows "geoip_Match m host \<longleftrightarrow>
    ((\<exists>ip \<in> {h_IPv4 host, h_IPv6 host}. ip \<noteq> [] \<and> (\<exists>c \<in> set (Cidr l). IPNet_Contains (net_of c) ip)) \<noteq> InverseMatch l)"
proof -
  have inv: "Inverse m = InverseMatch l" using assms(2) by (auto simp: newGeoIPMatcher_def split: sum.splits)
  have "matchIP m ip \<longleftrightarrow> (\<exists>c \<in> set (Cidr l). IPNet_Contains (net_of c) ip)" if "length ip \<in> {0, 4, 16}" "ip \<noteq> []" for ip
    using matchIP_correct [OF assms(1,2)] that by auto
  then show ?thesis using assms(3,4) inv by (auto simp: geoip_Match_def)
qed

definition demo_geoip :: GeoIP where
  "demo_geoip = \<lparr>Cidr = [\<lparr>c_Ip = [192, 168, 0, 0], c_Prefix = 16\<rparr>, \<lparr>c_Ip = [10, 0, 0, 0], c_Prefix = 8\<rparr>], InverseMatch = False\<rparr>"

definition demo_geoipMatcher :: geoipMatcher where
  "demo_geoipMatcher =
     \<lparr>N4 = [\<lparr>n_IP = [10, 0, 0, 0], n_Mask = [255, 0, 0, 0]\<rparr>, \<lparr>n_IP = [192, 168, 0, 0], n_Mask = [255, 255, 0, 0]\<rparr>], N6 = [], Inverse = False\<rparr>"

theorem geoip_Match_correct_witness:
  "geoip_Match demo_geoipMatcher \<lparr>h_Name = ''x'', h_IPv4 = [10, 3, 0, 1], h_IPv6 = []\<rparr>"
proof -
  have ok: "cidrs_ok (Cidr demo_geoip)" by code_simp
  have new: "newGeoIPMatcher demo_geoip = Inr demo_geoipMatcher" by code_simp
  have "IPNet_Contains (net_of \<lparr>c_Ip = [10, 0, 0, 0], c_Prefix = 8\<rparr>) [10, 3, 0, 1]" by code_simp
  then show ?thesis using geoip_Match_correct [OF ok new, of "\<lparr>h_Name = ''x'', h_IPv4 = [10, 3, 0, 1], h_IPv6 = []\<rparr>"]
    by (simp add: demo_geoip_def)
qed

text \<open>
  With nested networks the search can miss: 10.3.0.1 lies in 10.0.0.0/8, but the search looks at 10.1.0.0/16 and 10.2.0.0/16 only.
\<close>

lemma geoip_nested_miss:
  "let l = \<lparr>Cidr = [\<lparr>c_Ip = [10, 0, 0, 0], c_Prefix = 8\<rparr>, \<lparr>c_Ip = [10, 1, 0, 0], c_Prefix = 16\<rparr>, \<lparr>c_Ip = [10, 2, 0, 0], c_Prefix = 16\<rparr>],
             InverseMatch = False\<rparr>
   in case newGeoIPMatcher l of
        Inr m \<Rightarrow> \<not> matchIP m [10, 3, 0, 1] \<and> list_ex (\<lambda>c. IPNet_Contains (net_of c) [10, 3, 0, 1]) (Cidr l)
      | Inl _ \<Rightarrow> False"
  by code_simp

text \<open>
  A domain pattern matches by its mode: an exact one the name itself, a wildcard one the names it describes with every star standing for
  any sequence of characters, a suffix one the domain and its subdomains.
\<close>

theorem domain_Match_correct:
  "(domainMatcher_Match env pat domainMatchExact host \<longleftrightarrow> unicode_name env host = pat)
    \<and> (domainMatcher_Match env pat domainMatchWildcard host \<longleftrightarrow> glob (unicode_name env host) pat)
    \<and> (domainMatcher_Match env pat domainMatchSuffix host \<longleftrightarrow>
         unicode_name env host = pat \<or> (\<exists>sub. unicode_name env host = sub @ ''.'' @ pat))"
  by (simp add: Let_def domainMatcher_Match_def deepMatchRune_glob HasSuffix_iff domainMatchExact_def domainMatchWildcard_def domainMatchSuffix_def)

end
