(* ===== verification/Acl.thy ===== *)
theory Acl
  imports Acl_Matchers
begin

text \<open>
  The access control list: the text rules (\<open>extras/outbounds/acl/parse.go\<close>) and the compiled rule set
  (\<open>extras/outbounds/acl/compile.go\<close>). The regular expression of a line is a function on strings, as every line has at most one
  way to match it. The LRU cache is outside the repository: it is an argument, with the laws of the locale \<open>match_cache\<close>. The
  geo databases are loaded by an argument too; messages of errors that come from there are not empty. \<open>nil\<close> as an address
  is the empty list, and \<open>zero\<close> is the zero value of the outbound type.
\<close>

section \<open>Text rules\<close>

record TextRule =
  r_Outbound :: string
  r_Address :: string
  r_ProtoPort :: string
  r_HijackAddress :: string
  r_LineNum :: nat

definition is_word :: "char \<Rightarrow> bool" where
  "is_word c = (let n = (of_char c :: nat) in 48 \<le> n \<and> n \<le> 57 \<or> 65 \<le> n \<and> n \<le> 90 \<or> n = 95 \<or> 97 \<le> n \<and> n \<le> 122)"

definition re_space :: "char \<Rightarrow> bool" where
  "re_space c = (of_char c \<in> {9, 10, 12, 13, 32 :: nat})"

text \<open>The submatches of \<open>linePattern\<close>; a group that takes no part is empty.\<close>

definition linePattern :: "string \<Rightarrow> (string \<times> string \<times> string \<times> string) option" where
  "linePattern line =
     (let outbound = takeWhile is_word line; rest = dropWhile re_space (dropWhile is_word line)
      in if outbound = [] then None
         else case rest of
           [] \<Rightarrow> None
         | c # body \<Rightarrow>
             if c = CHR ''('' \<and> body \<noteq> [] \<and> last body = CHR '')''
             then case split_on CHR '','' (butlast body) of
                    [a] \<Rightarrow> if a \<noteq> [] then Some (outbound, a, [], []) else None
                  | [a, p] \<Rightarrow> if a \<noteq> [] \<and> p \<noteq> [] then Some (outbound, a, p, []) else None
                  | [a, p, h] \<Rightarrow> if a \<noteq> [] \<and> p \<noteq> [] \<and> h \<noteq> [] then Some (outbound, a, p, h) else None
                  | _ \<Rightarrow> None
             else None)"

definition parseLine :: "string \<Rightarrow> nat \<Rightarrow> TextRule option" where
  "parseLine line num =
     (case linePattern line of
        None \<Rightarrow> None
      | Some (m1, m2, m3, m4) \<Rightarrow>
          Some \<lparr>r_Outbound = m1, r_Address = TrimSpace m2, r_ProtoPort = TrimSpace m3, r_HijackAddress = TrimSpace m4, r_LineNum = num\<rparr>)"

record InvalidSyntaxError =
  e_Line :: string
  e_LineNum :: nat

fun parse_lines :: "nat \<Rightarrow> string list \<Rightarrow> TextRule list \<Rightarrow> InvalidSyntaxError + TextRule list" where
  "parse_lines lineNum [] rules = Inr rules"
| "parse_lines lineNum (line # lines) rules =
     (let lineNum = Suc lineNum;
          line = TrimSpace (takeWhile (\<lambda>c. c \<noteq> CHR ''#'') line)
      in if line = [] then parse_lines lineNum lines rules
         else case parseLine line lineNum of
                None \<Rightarrow> Inl \<lparr>e_Line = line, e_LineNum = lineNum\<rparr>
              | Some rule \<Rightarrow> parse_lines lineNum lines (rules @ [rule]))"

definition ParseTextRules :: "string \<Rightarrow> InvalidSyntaxError + TextRule list" where
  "ParseTextRules text = parse_lines 0 (split_on (CHR 0x0A) text) []"


section \<open>Compilation\<close>

datatype Protocol = ProtocolBoth | ProtocolTCP | ProtocolUDP

fun Protocol_String :: "Protocol \<Rightarrow> string" where
  "Protocol_String ProtocolBoth = ''tcp+udp''"
| "Protocol_String ProtocolTCP = ''tcp''"
| "Protocol_String ProtocolUDP = ''udp''"

definition HostInfo_String :: "acl_env \<Rightarrow> HostInfo \<Rightarrow> string" where
  "HostInfo_String env h = h_Name h @ ''|'' @ IP_String env (h_IPv4 h) @ ''|'' @ IP_String env (h_IPv6 h)"

record 'o compiledRule =
  cr_Outbound :: 'o
  HostMatcher :: hostMatcher
  cr_Protocol :: Protocol
  StartPort :: u16
  EndPort :: u16
  HijackAddress :: IP

definition rule_Match :: "acl_env \<Rightarrow> 'o compiledRule \<Rightarrow> HostInfo \<Rightarrow> Protocol \<Rightarrow> u16 \<Rightarrow> bool" where
  "rule_Match env r host proto port =
     (if cr_Protocol r \<noteq> ProtocolBoth \<and> cr_Protocol r \<noteq> proto then False
      else if StartPort r \<noteq> 0 \<and> (port < StartPort r \<or> port > EndPort r) then False
      else hostMatcher_Match env (HostMatcher r) host)"

type_synonym matchResultCacheKey = "string \<times> Protocol \<times> u16"
type_synonym 'o matchResult = "'o \<times> IP"

record ('o, 'c) compiledRuleSetImpl =
  Rules :: "'o compiledRule list"
  Cache :: 'c

fun first_rule :: "acl_env \<Rightarrow> 'o \<Rightarrow> 'o compiledRule list \<Rightarrow> HostInfo \<Rightarrow> Protocol \<Rightarrow> u16 \<Rightarrow> 'o matchResult" where
  "first_rule env zero [] host proto port = (zero, [])"
| "first_rule env zero (r # rs) host proto port =
     (if rule_Match env r host proto port then (cr_Outbound r, HijackAddress r) else first_rule env zero rs host proto port)"

definition normal_host :: "HostInfo \<Rightarrow> HostInfo" where
  "normal_host host = host\<lparr>h_Name := TrimRight_char CHR ''.'' (ToLower (h_Name host))\<rparr>"

definition RuleSet_Match ::
  "acl_env \<Rightarrow> ('c \<Rightarrow> matchResultCacheKey \<Rightarrow> 'o matchResult option \<times> 'c) \<Rightarrow> (matchResultCacheKey \<Rightarrow> 'o matchResult \<Rightarrow> 'c \<Rightarrow> 'c) \<Rightarrow> 'o
   \<Rightarrow> HostInfo \<Rightarrow> Protocol \<Rightarrow> u16 \<Rightarrow> ('o, 'c) compiledRuleSetImpl \<Rightarrow> 'o matchResult \<times> ('o, 'c) compiledRuleSetImpl" where
  "RuleSet_Match env Get Add zero host proto port s =
     (let host = normal_host host;
          key = (HostInfo_String env host, proto, port)
      in case Get (Cache s) key of
           (Some result, c) \<Rightarrow> (result, s\<lparr>Cache := c\<rparr>)
         | (None, c) \<Rightarrow>
             let result = first_rule env zero (Rules s) host proto port
             in (result, s\<lparr>Cache := Add key result c\<rparr>))"

definition parseProtoPort :: "string \<Rightarrow> (Protocol \<times> u16 \<times> u16) option" where
  "parseProtoPort protoPort =
     (let protoPort = ToLower protoPort
      in if protoPort = [] \<or> protoPort = ''*'' \<or> protoPort = ''*/*'' then Some (ProtocolBoth, 0, 0)
         else case split2 CHR ''/'' protoPort of
           [a] \<Rightarrow> if a = ''tcp'' then Some (ProtocolTCP, 0, 0) else if a = ''udp'' then Some (ProtocolUDP, 0, 0) else None
         | [a, b] \<Rightarrow>
             (case (if a = ''tcp'' then Some ProtocolTCP else if a = ''udp'' then Some ProtocolUDP
                    else if a = ''*'' then Some ProtocolBoth else None) of
                None \<Rightarrow> None
              | Some proto \<Rightarrow>
                  if b = ''*'' then Some (proto, 0, 0)
                  else case split2 CHR ''-'' (TrimSpace b) of
                    [_] \<Rightarrow> (case ParseUint 16 b of
                              (p, None) \<Rightarrow> Some (proto, of_nat p, of_nat p)
                            | (_, Some _) \<Rightarrow> None)
                  | [lo, hi] \<Rightarrow>
                      (case (ParseUint 16 lo, ParseUint 16 hi) of
                         ((l, None), (h, None)) \<Rightarrow>
                           if (of_nat l :: u16) > of_nat h then None else Some (proto, of_nat l, of_nat h)
                       | _ \<Rightarrow> None)
                  | _ \<Rightarrow> None)
         | _ \<Rightarrow> None)"

record GeoLoader =
  LoadGeoIP :: "string + (string \<Rightarrow> GeoIP option)"
  LoadGeoSite :: "string + (string \<Rightarrow> GeoSite option)"

definition parseGeoSiteName :: "string \<Rightarrow> string \<times> string list" where
  "parseGeoSiteName s =
     (let parts = split_on CHR ''@'' s in (TrimSpace (hd parts), map TrimSpace (tl parts)))"

definition compileHostMatcher :: "acl_env \<Rightarrow> GeoLoader \<Rightarrow> string \<Rightarrow> string + hostMatcher" where
  "compileHostMatcher env geoLoader addr =
     (let addr = TrimRight_char CHR ''.'' (ToLower addr)
      in if addr = ''*'' \<or> addr = ''all'' then Inr AllMatcher
         else if HasPrefix addr ''geoip:'' then
           let country = drop 6 addr
           in if country = [] then Inl ''empty GeoIP country code''
              else case LoadGeoIP geoLoader of
                Inl e \<Rightarrow> Inl e
              | Inr gMap \<Rightarrow>
                  (case gMap country of
                     None \<Rightarrow> Inl (''GeoIP country code '' @ country @ '' not found'')
                   | Some l \<Rightarrow> (case newGeoIPMatcher l of Inl e \<Rightarrow> Inl e | Inr m \<Rightarrow> Inr (GeoipMatcher m)))
         else if HasPrefix addr ''geosite:'' then
           let (name, attrs) = parseGeoSiteName (drop 8 addr)
           in if name = [] then Inl ''empty GeoSite name''
              else case LoadGeoSite geoLoader of
                Inl e \<Rightarrow> Inl e
              | Inr gMap \<Rightarrow>
                  (case gMap name of
                     None \<Rightarrow> Inl (''GeoSite name '' @ name @ '' not found'')
                   | Some l \<Rightarrow> (case newGeositeMatcher env l attrs of Inl e \<Rightarrow> Inl e | Inr m \<Rightarrow> Inr (GeositeMatcher m)))
         else if HasPrefix addr ''suffix:'' then
           let suffix = drop 7 addr
           in if suffix = [] then Inl ''empty domain suffix'' else Inr (DomainMatcher suffix domainMatchSuffix)
         else if CHR ''/'' \<in> set addr then
           case ParseCIDR env addr of
             None \<Rightarrow> Inl (''invalid CIDR address: '' @ addr)
           | Some ipnet \<Rightarrow> Inr (CidrMatcher ipnet)
         else if ParseIP env addr \<noteq> [] then Inr (IpMatcher (ParseIP env addr))
         else if CHR ''*'' \<in> set addr then Inr (DomainMatcher addr domainMatchWildcard)
         else Inr (DomainMatcher addr domainMatchExact))"

datatype compile_error = CompilationError nat string | CacheError string

definition compile_rule :: "acl_env \<Rightarrow> GeoLoader \<Rightarrow> (string \<Rightarrow> 'o option) \<Rightarrow> TextRule \<Rightarrow> compile_error + 'o compiledRule" where
  "compile_rule env geoLoader outbounds rule =
     (case outbounds (ToLower (r_Outbound rule)) of
        None \<Rightarrow> Inl (CompilationError (r_LineNum rule) (''outbound '' @ r_Outbound rule @ '' not found''))
      | Some outbound \<Rightarrow>
          (case compileHostMatcher env geoLoader (r_Address rule) of
             Inl e \<Rightarrow> Inl (CompilationError (r_LineNum rule) e)
           | Inr hm \<Rightarrow>
               (case parseProtoPort (r_ProtoPort rule) of
                  None \<Rightarrow> Inl (CompilationError (r_LineNum rule) (''invalid protocol/port: '' @ r_ProtoPort rule))
                | Some (proto, startPort, endPort) \<Rightarrow>
                    let hijack = (if r_HijackAddress rule \<noteq> [] then ParseIP env (r_HijackAddress rule) else [])
                    in if r_HijackAddress rule \<noteq> [] \<and> hijack = []
                       then Inl (CompilationError (r_LineNum rule)
                              (''invalid hijack address (must be an IP address): '' @ r_HijackAddress rule))
                       else Inr \<lparr>cr_Outbound = outbound, HostMatcher = hm, cr_Protocol = proto, StartPort = startPort,
                              EndPort = endPort, HijackAddress = hijack\<rparr>)))"

fun compile_rules :: "acl_env \<Rightarrow> GeoLoader \<Rightarrow> (string \<Rightarrow> 'o option) \<Rightarrow> TextRule list \<Rightarrow> compile_error + 'o compiledRule list" where
  "compile_rules env geoLoader outbounds [] = Inr []"
| "compile_rules env geoLoader outbounds (rule # rules) =
     (case compile_rule env geoLoader outbounds rule of
        Inl e \<Rightarrow> Inl e
      | Inr r \<Rightarrow> (case compile_rules env geoLoader outbounds rules of Inl e \<Rightarrow> Inl e | Inr rs \<Rightarrow> Inr (r # rs)))"

definition Compile ::
  "acl_env \<Rightarrow> (int \<Rightarrow> string + 'c) \<Rightarrow> TextRule list \<Rightarrow> (string \<Rightarrow> 'o option) \<Rightarrow> int \<Rightarrow> GeoLoader
   \<Rightarrow> compile_error + ('o, 'c) compiledRuleSetImpl" where
  "Compile env lru_New rules outbounds cacheSize geoLoader =
     (case compile_rules env geoLoader outbounds rules of
        Inl e \<Rightarrow> Inl e
      | Inr rs \<Rightarrow> (case lru_New cacheSize of Inl e \<Rightarrow> Inl (CacheError e) | Inr c \<Rightarrow> Inr \<lparr>Rules = rs, Cache = c\<rparr>))"


section \<open>Caching does not change the answer\<close>

lemma map_leD: "f \<subseteq>\<^sub>m g \<Longrightarrow> f k = Some v \<Longrightarrow> g k = Some v"
  by (force simp: map_le_def)

lemma map_leI: "(\<And>k v. f k = Some v \<Longrightarrow> g k = Some v) \<Longrightarrow> f \<subseteq>\<^sub>m g"
  by (force simp: map_le_def)

text \<open>
  What the rule set needs of its cache: a lookup reports the content, and neither a lookup nor an insertion makes up an entry; entries may be
  lost at any time.
\<close>

locale match_cache =
  fixes Get :: "'c \<Rightarrow> 'k \<Rightarrow> 'v option \<times> 'c" and Add :: "'k \<Rightarrow> 'v \<Rightarrow> 'c \<Rightarrow> 'c" and New :: "int \<Rightarrow> string + 'c"
    and content :: "'c \<Rightarrow> 'k \<Rightarrow> 'v option"
  assumes Get_result: "fst (Get c k) = content c k"
    and Get_content: "content (snd (Get c k)) \<subseteq>\<^sub>m content c"
    and Add_content: "content (Add k v c) \<subseteq>\<^sub>m (content c)(k \<mapsto> v)"
    and New_content: "New n = Inr c \<Longrightarrow> content c = Map.empty"
begin

text \<open>Every entry is the answer for some request with that key.\<close>

definition coherent :: "('r \<Rightarrow> 'k) \<Rightarrow> ('r \<Rightarrow> 'v) \<Rightarrow> 'c \<Rightarrow> bool" where
  "coherent key f c \<longleftrightarrow> (\<forall>k v. content c k = Some v \<longrightarrow> (\<exists>r. key r = k \<and> f r = v))"

lemma coherent_sub:
  assumes "coherent key f c" and "content c' \<subseteq>\<^sub>m content c"
  shows "coherent key f c'"
  unfolding coherent_def
proof (intro allI impI)
  fix k v assume "content c' k = Some v"
  then have "content c k = Some v" by (rule map_leD [OF assms(2)])
  then show "\<exists>r. key r = k \<and> f r = v" using assms(1) by (simp add: coherent_def)
qed

lemma coherent_New: "New n = Inr c \<Longrightarrow> coherent key f c"
  by (simp add: coherent_def New_content)

lemma hit:
  assumes "coherent key f c" and "\<And>r r'. key r = key r' \<Longrightarrow> f r = f r'" and "Get c (key r) = (Some v, c')"
  shows "v = f r \<and> coherent key f c'"
proof -
  have "content c (key r) = Some v" using Get_result [of c "key r"] assms(3) by simp
  moreover have "coherent key f c'" using coherent_sub [OF assms(1) Get_content [of c "key r"]] assms(3) by simp
  moreover obtain q where "key q = key r" "f q = v" using calculation(1) assms(1) by (auto simp: coherent_def)
  ultimately show ?thesis using assms(2) [of q r] by simp
qed

lemma miss:
  assumes "coherent key f c" and "Get c (key r) = (None, c')"
  shows "coherent key f (Add (key r) (f r) c')"
proof -
  have "coherent key f c'" using coherent_sub [OF assms(1) Get_content [of c "key r"]] assms(2) by simp
  then have "\<exists>q. key q = k \<and> f q = v" if "((content c')(key r \<mapsto> f r)) k = Some v" for k v
    using that by (auto simp: coherent_def split: if_splits)
  moreover have "((content c')(key r \<mapsto> f r)) k = Some v" if "content (Add (key r) (f r) c') k = Some v" for k v
    using map_leD [OF Add_content that] .
  ultimately show ?thesis unfolding coherent_def by blast
qed

end

text \<open>
  A least recently used cache, as the one the program uses is documented: an association list with the most recent entry first, cut to its
  size; a size that is not positive is refused.
\<close>

type_synonym ('k, 'v) lru = "nat \<times> ('k \<times> 'v) list"

definition lru_New :: "int \<Rightarrow> string + ('k, 'v) lru" where
  "lru_New n = (if n \<le> 0 then Inl ''must provide a positive size'' else Inr (nat n, []))"

definition lru_Get :: "('k, 'v) lru \<Rightarrow> 'k \<Rightarrow> 'v option \<times> ('k, 'v) lru" where
  "lru_Get c k =
     (case map_of (snd c) k of
        None \<Rightarrow> (None, c)
      | Some v \<Rightarrow> (Some v, (fst c, (k, v) # filter (\<lambda>e. fst e \<noteq> k) (snd c))))"

definition lru_Add :: "'k \<Rightarrow> 'v \<Rightarrow> ('k, 'v) lru \<Rightarrow> ('k, 'v) lru" where
  "lru_Add k v c = (fst c, take (fst c) ((k, v) # filter (\<lambda>e. fst e \<noteq> k) (snd c)))"

lemma map_of_filter_other: "map_of (filter (\<lambda>e. fst e \<noteq> k) es) = (map_of es)(k := None)"
  by (induction es) (auto simp: fun_eq_iff)

lemma map_of_take: "map_of (take n es) \<subseteq>\<^sub>m map_of es"
proof (rule map_leI)
  fix k v assume "map_of (take n es) k = Some v"
  then have "map_of (take n es @ drop n es) k = Some v" by (simp only: map_of_append map_add_Some_iff) simp
  then show "map_of es k = Some v" by simp
qed

interpretation lru: match_cache lru_Get lru_Add lru_New "\<lambda>c. map_of (snd c)"
proof
  show "map_of (snd (lru_Add k v c)) \<subseteq>\<^sub>m (map_of (snd c))(k \<mapsto> v)" for k v and c :: "('k, 'v) lru"
  proof -
    have "map_of ((k, v) # filter (\<lambda>e. fst e \<noteq> k) (snd c)) = (map_of (snd c))(k \<mapsto> v)"
      by (auto simp: map_of_filter_other fun_eq_iff)
    then show ?thesis using map_of_take [of "fst c"] by (metis lru_Add_def snd_conv)
  qed
qed (auto simp: lru_Get_def lru_New_def map_of_filter_other map_le_def split: option.splits if_splits)

text \<open>The canonical form of an address, which is all the matchers see.\<close>

definition canon :: "IP \<Rightarrow> IP" where
  "canon ip = (case To4 ip of Some x \<Rightarrow> x | None \<Rightarrow> ip)"

lemma length_v4InV6Prefix: "length v4InV6Prefix = 12"
  by (simp add: v4InV6Prefix_def)

lemma Equal_canon: "Equal a b \<longleftrightarrow> canon a = canon b"
proof (cases "length a = length b")
  case True
  have "a = b" if "length a = 16" "take 12 a = take 12 b" "drop 12 a = drop 12 b"
    using that by (metis append_take_drop_id)
  moreover have "drop 12 a \<noteq> b" "a \<noteq> drop 12 b" if "length a = 16"
    using that True by (auto dest: arg_cong [where f = length])
  ultimately show ?thesis using True by (simp add: Equal_def canon_def To4_def) metis
next
  case False
  have len: "length (canon x) = (if length x = 16 \<and> take 12 x = v4InV6Prefix then 4 else length x)" for x
    by (simp add: canon_def To4_def)
  have c: "canon x = (if length x = 16 \<and> take 12 x = v4InV6Prefix then drop 12 x else x)" for x
    by (simp add: canon_def To4_def)
  consider (ab) "length a = 4" "length b = 16" | (ba) "length a = 16" "length b = 4"
    | (other) "\<not> (length a = 4 \<and> length b = 16)" "\<not> (length a = 16 \<and> length b = 4)" by blast
  then show ?thesis
  proof cases
    case other
    then have "\<not> Equal a b" using False by (auto simp: Equal_def)
    moreover have "length (canon a) \<noteq> length (canon b)" using other False by (auto simp: len)
    ultimately show ?thesis by metis
  qed (use False in \<open>auto simp: Equal_def c\<close>)
qed

lemma Contains_canon: "canon a = canon b \<Longrightarrow> IPNet_Contains n a = IPNet_Contains n b"
  using Contains_To4 [of n a] Contains_To4 [of n b] by (simp add: canon_def)

lemma matchIP_canon: "canon a = canon b \<Longrightarrow> matchIP m a = matchIP m b"
proof -
  assume c: "canon a = canon b"
  have "To4 x = (if length (canon x) = 4 then Some (canon x) else None)" for x by (auto simp: canon_def To4_def)
  then have "To4 a = To4 b" using c by simp
  then show ?thesis using c by (simp add: matchIP_def canon_def split: option.splits)
qed

lemma canon_nil: "canon a = canon b \<Longrightarrow> a = [] \<longleftrightarrow> b = []"
  by (auto simp: canon_def To4_def split: if_splits)

definition same_host :: "HostInfo \<Rightarrow> HostInfo \<Rightarrow> bool" where
  "same_host h h' \<longleftrightarrow> h_Name h = h_Name h' \<and> canon (h_IPv4 h) = canon (h_IPv4 h') \<and> canon (h_IPv6 h) = canon (h_IPv6 h')"

lemma hostMatcher_same:
  assumes h: "same_host h h'"
  shows "hostMatcher_Match env m h = hostMatcher_Match env m h'"
proof -
  have n: "h_Name h = h_Name h'" and c4: "canon (h_IPv4 h) = canon (h_IPv4 h')" and c6: "canon (h_IPv6 h) = canon (h_IPv6 h')"
    using h by (simp_all add: same_host_def)
  have u: "unicode_name env h = unicode_name env h'" by (simp only: unicode_name_def n)
  show ?thesis
  proof (cases m)
    case (GeoipMatcher g)
    then show ?thesis
      using matchIP_canon [OF c4, of g] matchIP_canon [OF c6, of g] canon_nil [OF c4] canon_nil [OF c6] by (simp add: geoip_Match_def)
  next
    case (GeositeMatcher g)
    have "matchDomain env g d h = matchDomain env g d h'" for d unfolding matchDomain_def n ..
    then show ?thesis using GeositeMatcher by (simp add: geosite_Match_def)
  next
    case (CidrMatcher net)
    then show ?thesis using Contains_canon [OF c4, of net] Contains_canon [OF c6, of net] by (simp add: cidrMatcher_Match_def)
  qed (simp_all add: n c4 c6 u ipMatcher_Match_def Equal_canon domainMatcher_Match_def)
qed

lemma first_rule_same: "same_host h h' \<Longrightarrow> first_rule env zero rs h proto port = first_rule env zero rs h' proto port"
  by (induction rs) (auto simp: rule_Match_def hostMatcher_same)

lemma last_sep_unique:
  assumes "x @ c # b = y @ c # b'" and "c \<notin> set b" and "c \<notin> set b'"
  shows "x = y \<and> b = b'"
proof -
  have t: "takeWhile (\<lambda>z. z \<noteq> c) (rev (z @ c # d)) = rev d" if "c \<notin> set d" for z d
    using that by (subst rev_append, simp) (subst takeWhile_append2, auto)
  have "b = b'" using arg_cong [OF assms(1), of "\<lambda>l. takeWhile (\<lambda>z. z \<noteq> c) (rev l)"] unfolding t [OF assms(2)] t [OF assms(3)] by simp
  then show ?thesis using assms(1) by simp
qed

lemma HostInfo_String_inj:
  assumes ip: "\<And>a b. IP_String env a = IP_String env b \<Longrightarrow> canon a = canon b" and bar: "\<And>a. CHR ''|'' \<notin> set (IP_String env a)"
    and eq: "HostInfo_String env h = HostInfo_String env h'"
  shows "same_host h h'"
proof -
  let ?v4 = "\<lambda>h. IP_String env (h_IPv4 h)" and ?v6 = "\<lambda>h. IP_String env (h_IPv6 h)"
  have "(h_Name h @ CHR ''|'' # ?v4 h) @ CHR ''|'' # ?v6 h = (h_Name h' @ CHR ''|'' # ?v4 h') @ CHR ''|'' # ?v6 h'"
    using eq by (simp add: HostInfo_String_def)
  from last_sep_unique [OF this bar bar] have 1: "h_Name h @ CHR ''|'' # ?v4 h = h_Name h' @ CHR ''|'' # ?v4 h'" "?v6 h = ?v6 h'" by simp_all
  from last_sep_unique [OF 1(1) bar bar] have "h_Name h = h_Name h'" "?v4 h = ?v4 h'" by simp_all
  then show ?thesis using ip [of "h_IPv4 h" "h_IPv4 h'"] ip [of "h_IPv6 h" "h_IPv6 h'"] 1(2) by (simp only: same_host_def)
qed

text \<open>A request, its cache key and its answer without a cache.\<close>

type_synonym request = "HostInfo \<times> Protocol \<times> u16"

definition request_key :: "acl_env \<Rightarrow> request \<Rightarrow> matchResultCacheKey" where
  "request_key env = (\<lambda>(h, p, q). (HostInfo_String env (normal_host h), p, q))"

definition answer :: "acl_env \<Rightarrow> 'o \<Rightarrow> 'o compiledRule list \<Rightarrow> request \<Rightarrow> 'o matchResult" where
  "answer env zero rs = (\<lambda>(h, p, q). first_rule env zero rs (normal_host h) p q)"

fun run_Match where
  "run_Match env Get Add zero s [] = []"
| "run_Match env Get Add zero s ((h, p, q) # reqs) =
     (let (r, s) = RuleSet_Match env Get Add zero h p q s in r # run_Match env Get Add zero s reqs)"

locale rule_cache = match_cache Get Add New content
  for Get :: "'c \<Rightarrow> matchResultCacheKey \<Rightarrow> 'o matchResult option \<times> 'c" and Add and New and content
begin

lemma RuleSet_Match_coherent:
  assumes "\<And>r r'. request_key env r = request_key env r' \<Longrightarrow> answer env zero (Rules s) r = answer env zero (Rules s) r'"
    and "coherent (request_key env) (answer env zero (Rules s)) (Cache s)"
    and "RuleSet_Match env Get Add zero h p q s = (v, s')"
  shows "v = answer env zero (Rules s) (h, p, q) \<and> Rules s' = Rules s \<and> coherent (request_key env) (answer env zero (Rules s)) (Cache s')"
proof -
  have k: "request_key env (h, p, q) = (HostInfo_String env (normal_host h), p, q)" by (simp add: request_key_def)
  have f: "answer env zero (Rules s) (h, p, q) = first_rule env zero (Rules s) (normal_host h) p q" by (simp add: answer_def)
  obtain res c where g: "Get (Cache s) (request_key env (h, p, q)) = (res, c)" by (cases "Get (Cache s) (request_key env (h, p, q))")
  show ?thesis
  proof (cases res)
    case None
    then have "v = answer env zero (Rules s) (h, p, q)" "s' = s\<lparr>Cache := Add (request_key env (h, p, q)) (answer env zero (Rules s) (h, p, q)) c\<rparr>"
      using assms(3) g unfolding k f by (auto simp: RuleSet_Match_def Let_def)
    then show ?thesis using miss [OF assms(2)] g None by simp
  next
    case (Some w)
    then have "v = w" "s' = s\<lparr>Cache := c\<rparr>" using assms(3) g unfolding k by (simp_all add: RuleSet_Match_def Let_def)
    then show ?thesis using hit [OF assms(2,1)] g Some by simp
  qed
qed

lemma run_Match_answers:
  assumes "\<And>r r'. request_key env r = request_key env r' \<Longrightarrow> answer env zero rs r = answer env zero rs r'"
    and "Rules s = rs" and "coherent (request_key env) (answer env zero rs) (Cache s)"
  shows "run_Match env Get Add zero s reqs = map (answer env zero rs) reqs"
  using assms(2,3)
proof (induction reqs arbitrary: s)
  case (Cons r reqs)
  obtain h p q where r: "r = (h, p, q)" by (cases r)
  obtain v s' where m: "RuleSet_Match env Get Add zero h p q s = (v, s')" by (cases "RuleSet_Match env Get Add zero h p q s")
  have "v = answer env zero rs (h, p, q) \<and> Rules s' = rs \<and> coherent (request_key env) (answer env zero rs) (Cache s')"
    using RuleSet_Match_coherent [OF _ _ m] assms(1) Cons.prems by blast
  then show ?case using Cons.IH [of s'] by (simp add: r m)
qed simp

end

interpretation lru_rules: rule_cache lru_Get lru_Add lru_New "\<lambda>c. map_of (snd c)" ..

lemma request_key_answer:
  assumes "\<And>a b. IP_String env a = IP_String env b \<Longrightarrow> canon a = canon b" and "\<And>a. CHR ''|'' \<notin> set (IP_String env a)"
    and "request_key env r = request_key env r'"
  shows "answer env zero rs r = answer env zero rs r'"
proof -
  obtain h p q h' where r: "r = (h, p, q)" "r' = (h', p, q)" and k: "HostInfo_String env (normal_host h) = HostInfo_String env (normal_host h')"
    using assms(3) by (cases r, cases r') (auto simp: request_key_def)
  have "same_host (normal_host h) (normal_host h')" by (rule HostInfo_String_inj [OF assms(1,2) k])
  then show ?thesis by (simp add: r answer_def first_rule_same)
qed


section \<open>Properties of the rule set\<close>


text \<open>Addresses printed as pairs of hexadecimal digits, for the examples.\<close>

definition hex_String :: "IP \<Rightarrow> string" where
  "hex_String ip = concat (map (\<lambda>b. [char_of (unat b div 16), char_of (unat b mod 16)]) (canon ip))"

definition demo_env :: acl_env where
  "demo_env = \<lparr>ToUnicode = Some, regexp_Compile = (\<lambda>_. None), MatchString = (\<lambda>r s. r = s), ParseIP = (\<lambda>s. if s = ''10.0.0.1'' then [10, 0, 0, 1] else []),
     ParseCIDR = (\<lambda>_. None), IP_String = hex_String\<rparr>"

lemma hex_digits_inj:
  "concat (map (\<lambda>b :: u8. [char_of (unat b div 16), char_of (unat b mod 16)] :: string) xs)
     = concat (map (\<lambda>b. [char_of (unat b div 16), char_of (unat b mod 16)]) ys) \<Longrightarrow> xs = ys"
proof (induction xs arbitrary: ys)
  case (Cons x xs)
  then obtain y ys' where ys: "ys = y # ys'" by (cases ys) auto
  have lt: "unat z div 16 < 256" "unat z mod 16 < 256" for z :: u8
    using unsigned_less [of z, where ?'a = nat] by auto
  have "of_char (char_of (unat x div 16) :: char) = (of_char (char_of (unat y div 16) :: char) :: nat)"
    "of_char (char_of (unat x mod 16) :: char) = (of_char (char_of (unat y mod 16) :: char) :: nat)"
    using Cons.prems ys by auto
  then have "unat x div 16 = unat y div 16" "unat x mod 16 = unat y mod 16" using lt by (auto simp: of_char_of)
  then have "unat x = unat y" by (metis div_mult_mod_eq)
  then have "x = y" by (simp add: word_unat_eq_iff)
  then show ?case using Cons.IH [of ys'] Cons.prems ys by auto
qed auto

lemma hex_String_bar: "CHR ''|'' \<notin> set (hex_String ip)"
proof -
  have "(char_of n :: char) \<noteq> CHR ''|''" if "n < 16" for n :: nat
  proof
    assume "(char_of n :: char) = CHR ''|''"
    then have "(of_char (char_of n :: char) :: nat) = 124" by simp
    then show False using that by (simp add: of_char_of)
  qed
  moreover have "unat b div 16 < 16" for b :: u8 using unsigned_less [of b, where ?'a = nat] by auto
  ultimately show ?thesis unfolding hex_String_def by (auto dest: sym)
qed



section \<open>Properties of the parsers\<close>

text \<open>
  How a rule is written in an ACL file, with the blanks and the comment its line may carry.
\<close>

definition print_rule :: "TextRule \<Rightarrow> string" where
  "print_rule r = r_Outbound r @ ''('' @ r_Address r @ '', '' @ r_ProtoPort r @ '', '' @ r_HijackAddress r @ '')''"

record text_line =
  tl_indent :: string
  tl_rule :: "TextRule option"
  tl_blank :: string
  tl_comment :: "string option"

definition print_line :: "text_line \<Rightarrow> string" where
  "print_line l =
     tl_indent l @ (case tl_rule l of None \<Rightarrow> [] | Some r \<Rightarrow> print_rule r) @ tl_blank l
     @ (case tl_comment l of None \<Rightarrow> [] | Some c \<Rightarrow> CHR ''#'' # c)"

fun print_text :: "text_line list \<Rightarrow> string" where
  "print_text [] = []"
| "print_text [l] = print_line l"
| "print_text (l # ls) = print_line l @ CHR 0x0A # print_text ls"

fun numbered :: "nat \<Rightarrow> text_line list \<Rightarrow> TextRule list" where
  "numbered n [] = []"
| "numbered n (l # ls) = (case tl_rule l of None \<Rightarrow> [] | Some r \<Rightarrow> [r\<lparr>r_LineNum := Suc n\<rparr>]) @ numbered (Suc n) ls"

definition field_ok :: "string \<Rightarrow> bool" where
  "field_ok s \<longleftrightarrow> TrimSpace s = s \<and> CHR '','' \<notin> set s \<and> CHR ''#'' \<notin> set s \<and> CHR 0x0A \<notin> set s"

definition text_rule_ok :: "TextRule \<Rightarrow> bool" where
  "text_rule_ok r \<longleftrightarrow> r_Outbound r \<noteq> [] \<and> list_all is_word (r_Outbound r) \<and> r_Address r \<noteq> []
     \<and> field_ok (r_Address r) \<and> field_ok (r_ProtoPort r) \<and> field_ok (r_HijackAddress r)"

definition blank_ok :: "string \<Rightarrow> bool" where
  "blank_ok s \<longleftrightarrow> list_all (\<lambda>c. is_space c \<and> c \<noteq> CHR 0x0A) s"

definition line_ok :: "text_line \<Rightarrow> bool" where
  "line_ok l \<longleftrightarrow> blank_ok (tl_indent l) \<and> blank_ok (tl_blank l) \<and> pred_option (\<lambda>c. CHR 0x0A \<notin> set c) (tl_comment l)
     \<and> pred_option text_rule_ok (tl_rule l)"

lemma is_word_simps [simp]:
  "\<not> is_word CHR ''(''" "\<not> is_word CHR ''#''" "\<not> is_word (CHR 0x0A)"
  by (simp_all add: is_word_def)

lemma is_space_simps [simp]: "is_space CHR '' ''" "\<not> is_space CHR '')''" "\<not> is_space CHR ''#''"
  by (simp_all add: is_space_def)

lemma word_not_space: "is_word c \<Longrightarrow> \<not> is_space c"
  by (auto simp: is_word_def is_space_def Let_def)

lemma TrimSpace_blank: "list_all is_space b \<Longrightarrow> TrimSpace (b @ s) = TrimSpace s"
  by (simp add: TrimSpace_def list_all_iff)

lemma TrimSpace_blank_right: "list_all is_space b \<Longrightarrow> TrimSpace (s @ b) = TrimSpace s"
proof (induction b rule: rev_induct)
  case (snoc c b)
  have "TrimSpace (t @ [c]) = TrimSpace t" if "is_space c" for t
    using that by (cases "list_all is_space t") (auto simp: TrimSpace_def list_all_iff dropWhile_append1 dropWhile_append2 dropWhile_append3 dest: set_dropWhileD)
  from this [of "s @ b"] snoc show ?case by simp
qed simp

lemma TrimSpace_idle: "s \<noteq> [] \<Longrightarrow> \<not> is_space (hd s) \<Longrightarrow> \<not> is_space (last s) \<Longrightarrow> TrimSpace s = s"
proof -
  assume s: "s \<noteq> []" "\<not> is_space (hd s)" "\<not> is_space (last s)"
  have d: "dropWhile is_space t = t" if "t \<noteq> []" "\<not> is_space (hd t)" for t using that by (cases t) auto
  show ?thesis using s d [of s] d [of "rev s"] by (simp add: TrimSpace_def hd_rev)
qed

lemma linePattern_print:
  assumes "text_rule_ok r"
  shows "linePattern (print_rule r) = Some (r_Outbound r, r_Address r, CHR '' '' # r_ProtoPort r, CHR '' '' # r_HijackAddress r)"
proof -
  define body where "body = r_Address r @ CHR '','' # (CHR '' '' # r_ProtoPort r) @ CHR '','' # CHR '' '' # r_HijackAddress r"
  have p: "print_rule r = r_Outbound r @ CHR ''('' # body @ [CHR '')'']" by (simp add: print_rule_def body_def)
  have w: "\<forall>c \<in> set (r_Outbound r). is_word c" using assms by (simp add: text_rule_ok_def list_all_iff)
  have t: "takeWhile is_word (print_rule r) = r_Outbound r" "dropWhile is_word (print_rule r) = CHR ''('' # body @ [CHR '')'']"
    unfolding p using w by (simp_all add: takeWhile_append2 dropWhile_append2)
  have "split_on CHR '','' body = [r_Address r, CHR '' '' # r_ProtoPort r, CHR '' '' # r_HijackAddress r]"
    using assms by (simp only: body_def split_on_append split_on_no_sep text_rule_ok_def field_ok_def) (simp add: split_on_append split_on_no_sep)
  then show ?thesis using assms by (simp add: linePattern_def t re_space_def text_rule_ok_def Let_def)
qed

lemma parseLine_print: "text_rule_ok r \<Longrightarrow> parseLine (print_rule r) n = Some (r\<lparr>r_LineNum := n\<rparr>)"
  using TrimSpace_blank [of "'' ''"] by (simp add: parseLine_def linePattern_print text_rule_ok_def field_ok_def)

lemma print_rule_chars:
  assumes "text_rule_ok r"
  shows "CHR ''#'' \<notin> set (print_rule r) \<and> CHR 0x0A \<notin> set (print_rule r)"
proof -
  have "CHR ''#'' \<notin> set (r_Outbound r)" "CHR 0x0A \<notin> set (r_Outbound r)"
    using assms by (auto simp: text_rule_ok_def list_all_iff)
  then show ?thesis using assms by (simp add: print_rule_def text_rule_ok_def field_ok_def)
qed

lemma TrimSpace_print_rule:
  assumes "text_rule_ok r"
  shows "TrimSpace (print_rule r) = print_rule r \<and> print_rule r \<noteq> []"
proof -
  have "hd (print_rule r) = hd (r_Outbound r)" "print_rule r \<noteq> []" "last (print_rule r) = CHR '')''"
    using assms by (simp_all add: print_rule_def text_rule_ok_def)
  moreover have "is_word (hd (r_Outbound r))" using assms by (simp add: text_rule_ok_def list_all_iff)
  ultimately show ?thesis using TrimSpace_idle [of "print_rule r"] word_not_space by simp
qed

lemma line_content:
  assumes "line_ok l"
  shows "TrimSpace (takeWhile (\<lambda>c. c \<noteq> CHR ''#'') (print_line l)) = (case tl_rule l of None \<Rightarrow> [] | Some r \<Rightarrow> print_rule r)"
    and "CHR 0x0A \<notin> set (print_line l)"
proof -
  let ?r = "case tl_rule l of None \<Rightarrow> [] | Some r \<Rightarrow> print_rule r"
  let ?t = "tl_indent l @ ?r @ tl_blank l"
  have b: "list_all is_space (tl_indent l)" "list_all is_space (tl_blank l)"
    "CHR 0x0A \<notin> set (tl_indent l)" "CHR 0x0A \<notin> set (tl_blank l)"
    using assms by (auto simp: line_ok_def blank_ok_def list_all_iff)
  then have "CHR ''#'' \<notin> set (tl_indent l)" "CHR ''#'' \<notin> set (tl_blank l)" by (auto simp: list_all_iff)
  then have h: "CHR ''#'' \<notin> set ?t" and n: "CHR 0x0A \<notin> set ?t"
    using assms b print_rule_chars by (cases "tl_rule l"; simp add: line_ok_def)+
  have "takeWhile (\<lambda>c. c \<noteq> CHR ''#'') (print_line l) = ?t"
  proof (cases "tl_comment l")
    case None
    then have p: "print_line l = ?t" by (simp add: print_line_def)
    have "\<forall>c \<in> set ?t. c \<noteq> CHR ''#''" using h by blast
    then show ?thesis unfolding p by (rule takeWhile_eq_all_conv [THEN iffD2])
  next
    case (Some c)
    then have p: "print_line l = ?t @ CHR ''#'' # c" by (simp add: print_line_def)
    have "\<And>c. c \<in> set ?t \<Longrightarrow> c \<noteq> CHR ''#''" using h by blast
    then have "takeWhile (\<lambda>c. c \<noteq> CHR ''#'') (?t @ CHR ''#'' # c) = ?t @ takeWhile (\<lambda>c. c \<noteq> CHR ''#'') (CHR ''#'' # c)"
      by (rule takeWhile_append2)
    then show ?thesis unfolding p by simp
  qed
  then have "TrimSpace (takeWhile (\<lambda>c. c \<noteq> CHR ''#'') (print_line l)) = TrimSpace ?r"
    using TrimSpace_blank [OF b(1)] TrimSpace_blank_right [OF b(2)] by (metis append_assoc)
  also have "\<dots> = ?r" using assms TrimSpace_print_rule by (auto simp: line_ok_def TrimSpace_def split: option.splits)
  finally show "TrimSpace (takeWhile (\<lambda>c. c \<noteq> CHR ''#'') (print_line l)) = ?r" .
  show "CHR 0x0A \<notin> set (print_line l)"
    using n assms by (cases "tl_comment l") (simp_all add: print_line_def line_ok_def)
qed

lemma parse_lines_print:
  "list_all line_ok ls \<Longrightarrow> parse_lines n (map print_line ls) rules = Inr (rules @ numbered n ls)"
proof (induction ls arbitrary: n rules)
  case (Cons l ls)
  then have l: "line_ok l" by simp
  show ?case
  proof (cases "tl_rule l")
    case None
    then show ?thesis using Cons line_content(1) [OF l] by (simp add: Let_def)
  next
    case (Some r)
    then have r: "text_rule_ok r" using l by (simp add: line_ok_def)
    then show ?thesis using Some Cons line_content(1) [OF l] TrimSpace_print_rule [OF r] by (simp add: Let_def parseLine_print)
  qed
qed simp

lemma split_print_text: "list_all line_ok ls \<Longrightarrow> ls \<noteq> [] \<Longrightarrow> split_on (CHR 0x0A) (print_text ls) = map print_line ls"
  by (induction ls rule: print_text.induct) (simp_all add: split_on_no_sep split_on_append line_content(2))



lemma compile_rule_line: "compile_rule env geo outbounds r = Inl e \<Longrightarrow> \<exists>msg. e = CompilationError (r_LineNum r) msg"
  by (auto simp: compile_rule_def Let_def split: option.splits sum.splits if_splits)

lemma compile_rules_Inl:
  "compile_rules env geo outbounds rules = Inl e \<longleftrightarrow>
     (\<exists>r. find (\<lambda>x. isl (compile_rule env geo outbounds x)) rules = Some r \<and> compile_rule env geo outbounds r = Inl e)"
  by (induction rules) (auto split: sum.splits)

lemma compile_rules_Inr:
  "compile_rules env geo outbounds rules = Inr rs \<Longrightarrow> map Inr rs = map (compile_rule env geo outbounds) rules"
  by (induction rules arbitrary: rs) (auto split: sum.splits)

text \<open>
  Compilation fails on a rule exactly when some rule is invalid, and the error names the line of the first one; a rule set that compiles keeps every
  rule, in order.
\<close>

theorem Compile_errors:
  "case Compile env New rules outbounds cacheSize geo of
     Inr s \<Rightarrow> map Inr (Rules s) = map (compile_rule env geo outbounds) rules
   | Inl (CompilationError n msg) \<Rightarrow>
       (case find (\<lambda>r. isl (compile_rule env geo outbounds r)) rules of
          None \<Rightarrow> False
        | Some r \<Rightarrow> n = r_LineNum r \<and> compile_rule env geo outbounds r = Inl (CompilationError n msg))
   | Inl (CacheError msg) \<Rightarrow> find (\<lambda>r. isl (compile_rule env geo outbounds r)) rules = None \<and> New cacheSize = Inl msg"
proof (cases "compile_rules env geo outbounds rules")
  case (Inl e)
  then obtain r where r: "find (\<lambda>r. isl (compile_rule env geo outbounds r)) rules = Some r" "compile_rule env geo outbounds r = Inl e"
    by (auto simp: compile_rules_Inl)
  then show ?thesis using Inl compile_rule_line [OF r(2)] by (auto simp: Compile_def)
next
  case (Inr rs)
  note m = compile_rules_Inr [OF Inr]
  have "find (\<lambda>r. isl (compile_rule env geo outbounds r)) rules = None"
  proof -
    have "\<not> isl x" if "x \<in> set (map (compile_rule env geo outbounds) rules)" for x
      using that unfolding m [symmetric] by auto
    then show ?thesis by (simp add: find_None_iff)
  qed
  then show ?thesis using Inr m by (auto simp: Compile_def split: sum.splits)
qed

lemma split2_append: "c \<notin> set a \<Longrightarrow> split2 c (a @ c # b) = [a, b]"
  by (induction a) auto

lemma digit_chars:
  "list_all (\<lambda>d. \<not> is_space (digit_char d) \<and> lower_char (digit_char d) = digit_char d \<and> digit_char d \<noteq> CHR ''-'' \<and> digit_char d \<noteq> CHR ''/'') [0..<10]"
  by code_simp

lemma FormatUint_chars:
  assumes "c \<in> set (FormatUint n)"
  shows "\<not> is_space c \<and> lower_char c = c \<and> c \<noteq> CHR ''-'' \<and> c \<noteq> CHR ''/''"
proof -
  obtain d where "c = digit_char d" "d \<in> set [0..<10]" using FormatUint_digits [of n] assms by auto
  then show ?thesis using digit_chars unfolding list_all_iff by metis
qed

lemma parseProtoPort_range:
  assumes le: "lo \<le> hi" "hi < 65536" and name: "(name, proto) \<in> {(''tcp'', ProtocolTCP), (''udp'', ProtocolUDP), (''*'', ProtocolBoth)}"
  shows "parseProtoPort (name @ ''/'' @ FormatUint lo @ ''-'' @ FormatUint hi) = Some (proto, of_nat lo, of_nat hi)"
proof -
  let ?lo = "FormatUint lo" and ?hi = "FormatUint hi"
  let ?b = "?lo @ CHR ''-'' # ?hi"
  let ?s = "name @ CHR ''/'' # ?b"
  have "map lower_char ?lo = ?lo" "map lower_char ?hi = ?hi" using FormatUint_chars by (auto intro: map_idI)
  moreover have "map lower_char name = name" using name by (auto simp: lower_char_def)
  ultimately have low: "ToLower ?s = ?s" by (simp add: ToLower_def lower_char_def)
  have "CHR ''/'' \<notin> set name" using name by auto
  then have sp: "split2 CHR ''/'' ?s = [name, ?b]" by (rule split2_append)
  have "CHR ''-'' \<notin> set ?lo" using FormatUint_chars by blast
  then have sb: "split2 CHR ''-'' ?b = [?lo, ?hi]" by (rule split2_append)
  have tr: "TrimSpace ?b = ?b"
    using FormatUint_chars [of "hd ?lo" lo] FormatUint_chars [of "last ?hi" hi] by (intro TrimSpace_idle) auto
  have u: "ParseUint 16 ?lo = (lo, None)" "ParseUint 16 ?hi = (hi, None)" using le by (simp_all add: ParseUint_FormatUint)
  have nb: "?s \<noteq> []" "?s \<noteq> ''*''" "?s \<noteq> ''*/*''" "?b \<noteq> ''*''"
    by (auto dest: arg_cong [where f = "\<lambda>x. CHR ''-'' \<in> set x"])
  have g: "\<not> (of_nat lo :: u16) > of_nat hi" using le by (simp add: word_less_nat_alt unat_of_nat)
  show ?thesis using name nb g
    by (auto simp: parseProtoPort_def low [simplified] sp [simplified] tr [simplified] sb [simplified] u Let_def)
qed

text \<open>
  C25. What a protocol and port restriction means: a rule written for a protocol and a range of ports matches exactly the requests of that protocol
  to a port of the range whose host it matches - except that a range that starts at port 0 restricts nothing.
\<close>

theorem rule_port_range:
  assumes "lo \<le> hi" and "hi < 65536" and "(name, proto) \<in> {(''tcp'', ProtocolTCP), (''udp'', ProtocolUDP), (''*'', ProtocolBoth)}"
    and "compile_rule env geo outbounds r = Inr c" and "r_ProtoPort r = name @ ''/'' @ FormatUint lo @ ''-'' @ FormatUint hi"
  shows "rule_Match env c host p port \<longleftrightarrow>
    (proto = ProtocolBoth \<or> p = proto) \<and> (lo = 0 \<or> lo \<le> unat port \<and> unat port \<le> hi) \<and> hostMatcher_Match env (HostMatcher c) host"
proof -
  have c: "cr_Protocol c = proto" "StartPort c = of_nat lo" "EndPort c = of_nat hi"
    using assms(4) parseProtoPort_range [OF assms(1-3)]
    by (auto simp: compile_rule_def assms(5) Let_def split: option.splits sum.splits if_splits)
  have "StartPort c = 0 \<longleftrightarrow> lo = 0" "port < StartPort c \<longleftrightarrow> unat port < lo" "port > EndPort c \<longleftrightarrow> unat port > hi"
    using assms(1,2) by (simp_all add: c word_unat_eq_iff word_less_nat_alt unat_of_nat)
  then show ?thesis by (auto simp: rule_Match_def c(1))
qed

theorem rule_port_range_witness:
  "let r = \<lparr>r_Outbound = ''direct'', r_Address = ''all'', r_ProtoPort = ''tcp/'' @ FormatUint 0 @ ''-'' @ FormatUint 1000, r_HijackAddress = [], r_LineNum = 1\<rparr>
   in case compile_rule demo_env \<lparr>LoadGeoIP = Inl ''none'', LoadGeoSite = Inl ''none''\<rparr> [''direct'' \<mapsto> ()] r of
        Inr c \<Rightarrow> rule_Match demo_env c \<lparr>h_Name = ''x'', h_IPv4 = [], h_IPv6 = []\<rparr> ProtocolTCP 50000
      | Inl _ \<Rightarrow> False"
proof -
  let ?geo = "\<lparr>LoadGeoIP = Inl ''none'', LoadGeoSite = Inl ''none''\<rparr>"
  let ?r = "\<lparr>r_Outbound = ''direct'', r_Address = ''all'', r_ProtoPort = ''tcp/'' @ FormatUint 0 @ ''-'' @ FormatUint 1000, r_HijackAddress = [], r_LineNum = 1\<rparr>"
  let ?c = "\<lparr>cr_Outbound = (), HostMatcher = AllMatcher, cr_Protocol = ProtocolTCP, StartPort = 0, EndPort = 1000, HijackAddress = []\<rparr>"
  have pp: "parseProtoPort (''tcp/'' @ FormatUint 0 @ ''-'' @ FormatUint 1000) = Some (ProtocolTCP, 0, 1000)"
    using parseProtoPort_range [of 0 1000 "''tcp''" ProtocolTCP] by simp
  have hm: "compileHostMatcher demo_env ?geo ''all'' = Inr AllMatcher" by code_simp
  have tl: "ToLower ''direct'' = ''direct''" by code_simp
  have c: "compile_rule demo_env ?geo [''direct'' \<mapsto> ()] ?r = Inr ?c"
    unfolding compile_rule_def TextRule.simps tl hm pp by (simp add: Let_def)
  have "rule_Match demo_env ?c \<lparr>h_Name = ''x'', h_IPv4 = [], h_IPv6 = []\<rparr> ProtocolTCP 50000"
    by (subst rule_port_range [of 0 1000 "''tcp''" ProtocolTCP, OF _ _ _ c]) simp_all
  then show ?thesis unfolding Let_def c by simp
qed

end
