(* ===== verification/Auth_Header.thy ===== *)
theory Auth_Header
  imports Padding Go_Strings
begin

text \<open>
  The authentication headers (\<open>core/internal/protocol/http.go\<close>). A header maps canonical field names to their values, as
  \<open>http.Header\<close> does; \<open>Get\<close> and \<open>Set\<close> canonicalise the name they are given. The random numbers of the
  padding are arguments, and a panic of the padding generator is \<open>None\<close>.
\<close>

section \<open>Headers of package net/http\<close>

type_synonym header = "string \<Rightarrow> string list option"

definition upper_char :: "char \<Rightarrow> char" where
  "upper_char c = (let n = of_char c in if 97 \<le> n \<and> n \<le> (122 :: nat) then char_of (n - 32) else c)"

fun canonical :: "bool \<Rightarrow> string \<Rightarrow> string" where
  "canonical up [] = []"
| "canonical up (c # cs) = (if up then upper_char c else lower_char c) # canonical (c = CHR ''-'') cs"

definition CanonicalHeaderKey :: "string \<Rightarrow> string" where "CanonicalHeaderKey = canonical True"

definition h_Get :: "header \<Rightarrow> string \<Rightarrow> string" where
  "h_Get h k = (case h (CanonicalHeaderKey k) of Some (v # _) \<Rightarrow> v | _ \<Rightarrow> [])"

definition h_Set :: "header \<Rightarrow> string \<Rightarrow> string \<Rightarrow> header" where
  "h_Set h k v = h(CanonicalHeaderKey k := Some [v])"

definition no_header :: header where "no_header = (\<lambda>_. None)"

lemma h_Get_Set: "h_Get (h_Set h k v) k' = (if CanonicalHeaderKey k' = CanonicalHeaderKey k then v else h_Get h k')"
  by (simp add: h_Get_def h_Set_def)

lemma h_Get_no_header [simp]: "h_Get no_header k = []"
  by (simp add: h_Get_def no_header_def)


section \<open>Definitions\<close>

definition URLHost :: string where "URLHost = ''chameleon''"
definition URLPath :: string where "URLPath = ''/auth''"
definition RequestHeaderAuth :: string where "RequestHeaderAuth = ''Cham-Auth''"
definition ResponseHeaderUDPEnabled :: string where "ResponseHeaderUDPEnabled = ''Cham-UDP''"
definition CommonHeaderCCRX :: string where "CommonHeaderCCRX = ''Cham-CC-RX''"
definition CommonHeaderPadding :: string where "CommonHeaderPadding = ''Cham-Padding''"
definition StatusAuthOK :: nat where "StatusAuthOK = 200"

definition IsAuthResponse :: "header \<Rightarrow> bool" where
  "IsAuthResponse h = (h_Get h ResponseHeaderUDPEnabled \<noteq> [])"

record AuthRequest =
  rq_Auth :: string
  rq_Rx :: u64

record AuthResponse =
  rs_UDPEnabled :: bool
  rs_Rx :: u64
  rs_RxAuto :: bool

text \<open>The error of \<open>ParseUint\<close> is ignored; its value is then 0, or the largest one when the number is too large.\<close>

definition AuthRequestFromHeader :: "header \<Rightarrow> AuthRequest" where
  "AuthRequestFromHeader h =
     (let (rx, _) = ParseUint 64 (h_Get h CommonHeaderCCRX)
      in \<lparr>rq_Auth = h_Get h RequestHeaderAuth, rq_Rx = of_nat rx\<rparr>)"

definition AuthRequestToHeader :: "header \<Rightarrow> AuthRequest \<Rightarrow> PaddingScheme option \<Rightarrow> u32 \<Rightarrow> (nat \<Rightarrow> u8) \<Rightarrow> header option" where
  "AuthRequestToHeader h req ps rand32 rnd =
     (let h = h_Set h RequestHeaderAuth (rq_Auth req);
          h = h_Set h CommonHeaderCCRX (FormatUint (unat (rq_Rx req)))
      in map_option (h_Set h CommonHeaderPadding) (generate (AuthRequestP (orDefault ps)) rand32 rnd))"

definition AuthResponseFromHeader :: "header \<Rightarrow> AuthResponse" where
  "AuthResponseFromHeader h =
     (let resp = \<lparr>rs_UDPEnabled = fst (ParseBool (h_Get h ResponseHeaderUDPEnabled)), rs_Rx = 0, rs_RxAuto = False\<rparr>;
          rxStr = h_Get h CommonHeaderCCRX
      in if rxStr = ''auto'' then resp\<lparr>rs_RxAuto := True\<rparr>
         else resp\<lparr>rs_Rx := of_nat (fst (ParseUint 64 rxStr))\<rparr>)"

definition AuthResponseToHeader :: "header \<Rightarrow> AuthResponse \<Rightarrow> PaddingScheme option \<Rightarrow> u32 \<Rightarrow> (nat \<Rightarrow> u8) \<Rightarrow> header option" where
  "AuthResponseToHeader h resp ps rand32 rnd =
     (let h = h_Set h ResponseHeaderUDPEnabled (FormatBool (rs_UDPEnabled resp));
          h = (if rs_RxAuto resp then h_Set h CommonHeaderCCRX ''auto''
               else h_Set h CommonHeaderCCRX (FormatUint (unat (rs_Rx resp))))
      in map_option (h_Set h CommonHeaderPadding) (generate (AuthResponseP (orDefault ps)) rand32 rnd))"

lemmas header_names = RequestHeaderAuth_def ResponseHeaderUDPEnabled_def CommonHeaderCCRX_def CommonHeaderPadding_def


section \<open>Encoding and decoding\<close>

lemma canonical_names [simp]:
  "CanonicalHeaderKey RequestHeaderAuth = ''Cham-Auth''" "CanonicalHeaderKey ResponseHeaderUDPEnabled = ''Cham-Udp''"
  "CanonicalHeaderKey CommonHeaderCCRX = ''Cham-Cc-Rx''" "CanonicalHeaderKey CommonHeaderPadding = ''Cham-Padding''"
  by code_simp+

definition carries :: "(header \<Rightarrow> header) \<Rightarrow> header \<Rightarrow> bool" where
  "carries net h \<longleftrightarrow> list_all (\<lambda>k. h_Get (net h) k = h_Get h k) [RequestHeaderAuth, ResponseHeaderUDPEnabled, CommonHeaderCCRX]"

lemma carriesD:
  assumes "carries net h"
  shows "h_Get (net h) RequestHeaderAuth = h_Get h RequestHeaderAuth"
    "h_Get (net h) ResponseHeaderUDPEnabled = h_Get h ResponseHeaderUDPEnabled" "h_Get (net h) CommonHeaderCCRX = h_Get h CommonHeaderCCRX"
  using assms by (simp_all add: carries_def)

lemma carries_refl [simp]: "carries (\<lambda>h. h) h"
  by (simp add: carries_def)

lemma FormatUint_not_auto [simp]: "FormatUint n \<noteq> ''auto''"
proof
  assume "FormatUint n = ''auto''"
  then have "CHR ''a'' \<in> set (FormatUint n)" by simp
  then obtain d where d: "d < 10" "CHR ''a'' = digit_char d" using FormatUint_digits [of n] by auto
  then have "(of_char (CHR ''a'') :: nat) = 48 + d" by (simp add: digit_char_def of_char_of)
  then show False using d(1) by simp
qed

lemma ParseUint_u64 [simp]: "ParseUint 64 (FormatUint (unat (w :: u64))) = (unat w, None)"
  by (rule ParseUint_FormatUint) (use unsigned_less [of w, where ?'a = nat] in simp)

lemma FormatBool_ne [simp]: "FormatBool b \<noteq> []"
  by (simp add: FormatBool_def)

text \<open>
  Both messages survive a transport that carries their fields, whatever the padding: the headers are built without a panic, and read
  back as they were.
\<close>

lemma scheme_generates:
  assumes "ps = None \<or> ps = Some (NewPaddingScheme hmac seed)"
  obtains p1 p2 where "generate (AuthRequestP (orDefault ps)) r rnd = Some p1" "generate (AuthResponseP (orDefault ps)) r rnd = Some p2"
proof -
  have "scheme_ok (orDefault ps)" using assms by (auto simp: orDefault_def)
  then have ok: "padding_ok (AuthRequestP (orDefault ps))" "padding_ok (AuthResponseP (orDefault ps))" by (simp_all add: scheme_ok_def)
  obtain p1 where "generate (AuthRequestP (orDefault ps)) r rnd = Some p1" using generate_padding_ok [OF ok(1)] by blast
  moreover obtain p2 where "generate (AuthResponseP (orDefault ps)) r rnd = Some p2" using generate_padding_ok [OF ok(2)] by blast
  ultimately show ?thesis by (rule that)
qed

lemma AuthRequest_roundtrip:
  assumes "ps = None \<or> ps = Some (NewPaddingScheme hmac seed)"
  obtains h' where "AuthRequestToHeader h req ps r rnd = Some h'" "carries net h' \<Longrightarrow> AuthRequestFromHeader (net h') = req"
proof -
  obtain pad where "generate (AuthRequestP (orDefault ps)) r rnd = Some pad" using scheme_generates [OF assms] by blast
  then show ?thesis
    using that carriesD by (auto simp: AuthRequestToHeader_def AuthRequestFromHeader_def Let_def h_Get_Set)
qed

text \<open>The rate of a response is lost when it asks for bandwidth detection: the receiver then does not look at it.\<close>

lemma AuthResponse_roundtrip:
  assumes "ps = None \<or> ps = Some (NewPaddingScheme hmac seed)"
  obtains h' where "AuthResponseToHeader h resp ps r rnd = Some h'"
    "carries net h' \<Longrightarrow> IsAuthResponse (net h') \<and> AuthResponseFromHeader (net h') = (if rs_RxAuto resp then resp\<lparr>rs_Rx := 0\<rparr> else resp)"
proof -
  obtain pad where "generate (AuthResponseP (orDefault ps)) r rnd = Some pad" using scheme_generates [OF assms] by blast
  then show ?thesis
    using that carriesD by (auto simp: AuthResponseToHeader_def AuthResponseFromHeader_def IsAuthResponse_def Let_def h_Get_Set)
qed

end
