(* ===== verification/Core_Config.thy ===== *)
theory Core_Config
  imports Go_Strings Bbr_Profile
begin

text \<open>
  The configurations of both ends (\<open>core/server/config.go\<close>, \<open>core/client/config.go\<close>) and the choice of a congestion
  controller (\<open>core/internal/congestion/utils.go\<close>). What belongs to other packages - certificates, sockets, factories - is
  present here as whether it is set. A refused configuration is \<open>Inl\<close> with the field and the reason; its caller
  drops the configuration, so the fields already filled are not kept.
\<close>

section \<open>Congestion controllers\<close>

text \<open>An address is a UDP address or one of another network.\<close>

datatype netAddr = UDPAddr string | OtherAddr string

datatype controller = RenoSender | BbrSender int string | BrutalSender u64 bool

text \<open>What the program sees of a QUIC connection. The two packet sizes are constants of the QUIC library.\<close>

record quicConn =
  qc_control :: controller
  qc_remote :: netAddr
  qc_InitialPacketSize :: int
  qc_alive :: bool
  qc_ECHAccepted :: bool

record quicSizes =
  InitialPacketSize :: int
  MinInitialPacketSize :: int

definition TypeBBR :: string where "TypeBBR = ''bbr''"
definition TypeReno :: string where "TypeReno = ''reno''"

definition NormalizeType :: "string \<Rightarrow> string + string" where
  "NormalizeType congestionType =
     (let normalized = ToLower congestionType
      in if normalized = [] \<or> normalized = TypeBBR then Inr TypeBBR
         else if normalized = TypeReno then Inr TypeReno
         else Inl (''unsupported congestion type '' @ congestionType))"

definition NormalizeBBRProfile :: "string \<Rightarrow> string + string" where
  "NormalizeBBRProfile profile = (case ParseProfile profile of Inl e \<Rightarrow> Inl e | Inr p \<Rightarrow> Inr p)"

definition GetInitialPacketSize :: "quicSizes \<Rightarrow> netAddr \<Rightarrow> int" where
  "GetInitialPacketSize q a = (case a of UDPAddr _ \<Rightarrow> InitialPacketSize q | OtherAddr _ \<Rightarrow> MinInitialPacketSize q)"

definition seedPacketSize :: "int \<Rightarrow> int \<Rightarrow> int" where
  "seedPacketSize quicSize byAddr = (if quicSize \<le> 0 then byAddr else min quicSize byAddr)"

definition UseBBR :: "quicSizes \<Rightarrow> string \<Rightarrow> quicConn \<Rightarrow> quicConn" where
  "UseBBR q profile conn =
     conn\<lparr>qc_control := BbrSender (seedPacketSize (qc_InitialPacketSize conn) (GetInitialPacketSize q (qc_remote conn))) profile\<rparr>"

definition UseBrutal :: "u64 \<Rightarrow> bool \<Rightarrow> quicConn \<Rightarrow> quicConn" where
  "UseBrutal tx disableLossCompensation conn = conn\<lparr>qc_control := BrutalSender tx disableLossCompensation\<rparr>"

definition UseConfigured :: "quicSizes \<Rightarrow> string \<Rightarrow> string \<Rightarrow> quicConn \<Rightarrow> quicConn" where
  "UseConfigured q congestionType bbrProfile conn = (if congestionType = TypeReno then conn else UseBBR q bbrProfile conn)"


section \<open>Configurations\<close>

record ConfigError =
  Field :: string
  Reason :: string

abbreviation config_error :: "string \<Rightarrow> string \<Rightarrow> ConfigError" where
  "config_error f r \<equiv> \<lparr>Field = f, Reason = r\<rparr>"

definition defaultStreamReceiveWindow :: u64 where "defaultStreamReceiveWindow = 8388608"
definition defaultConnReceiveWindow :: u64 where "defaultConnReceiveWindow = 20971520"
definition defaultMaxIdleTimeout :: duration where "defaultMaxIdleTimeout = 30 * Second"
definition defaultKeepAlivePeriod :: duration where "defaultKeepAlivePeriod = 10 * Second"
definition defaultMaxIncomingStreams :: int where "defaultMaxIncomingStreams = 1024"
definition defaultUDPIdleTimeout :: duration where "defaultUDPIdleTimeout = 60 * Second"

text \<open>The fields both kinds of QUIC configuration have, and those only one of them has.\<close>

record QUICConfig =
  InitialStreamReceiveWindow :: u64
  MaxStreamReceiveWindow :: u64
  InitialConnectionReceiveWindow :: u64
  MaxConnectionReceiveWindow :: u64
  MaxIdleTimeout :: duration
  DisablePathMTUDiscovery :: bool
  DisableGSO :: bool

record serverQUICConfig = QUICConfig +
  MaxIncomingStreams :: int

record clientQUICConfig = QUICConfig +
  KeepAlivePeriod :: duration
  DisableChromeParrot :: bool

record CongestionConfig =
  cc_Type :: string
  cc_BBRProfile :: string

record BandwidthConfig =
  bw_MaxTx :: u64
  bw_MaxRx :: u64
  bw_DisableLossCompensation :: bool

record serverConfig =
  sc_Certificates :: nat
  sc_hasGetCertificate :: bool
  sc_QUICConfig :: serverQUICConfig
  sc_hasConn :: bool
  sc_hasOutbound :: bool
  sc_CongestionConfig :: CongestionConfig
  sc_BandwidthConfig :: BandwidthConfig
  sc_IgnoreClientBandwidth :: bool
  sc_DisableUDP :: bool
  sc_UDPIdleTimeout :: duration
  sc_hasAuthenticator :: bool
  sc_hasStats :: bool

record clientConfig =
  kc_hasConnFactory :: bool
  kc_ServerAddr :: "netAddr option"
  kc_Auth :: string
  kc_QUICConfig :: clientQUICConfig
  kc_CongestionConfig :: CongestionConfig
  kc_BandwidthConfig :: BandwidthConfig
  kc_FastOpen :: bool
  kc_hasStats :: bool
  kc_filled :: bool

text \<open>The step the source repeats for each window: the default for zero, an error below 16384.\<close>

definition fill_window :: "string \<Rightarrow> u64 \<Rightarrow> u64 \<Rightarrow> ConfigError + u64" where
  "fill_window f dflt v =
     (if v = 0 then Inr dflt
      else if v < 16384 then Inl (config_error (''QUICConfig.'' @ f) ''must be at least 16384'')
      else Inr v)"

definition fill_range :: "string \<Rightarrow> string \<Rightarrow> duration \<Rightarrow> duration \<Rightarrow> duration \<Rightarrow> duration \<Rightarrow> ConfigError + duration" where
  "fill_range f reason lo hi dflt v =
     (if v = 0 then Inr dflt else if v < lo \<or> v > hi then Inl (config_error f reason) else Inr v)"

fun bind_config :: "ConfigError + 'a \<Rightarrow> ('a \<Rightarrow> ConfigError + 'b) \<Rightarrow> ConfigError + 'b" where
  "bind_config (Inl e) f = Inl e"
| "bind_config (Inr a) f = f a"

definition fill_congestion :: "CongestionConfig \<Rightarrow> ConfigError + CongestionConfig" where
  "fill_congestion c =
     (case NormalizeType (cc_Type c) of
        Inl e \<Rightarrow> Inl (config_error ''CongestionConfig.Type'' e)
      | Inr t \<Rightarrow>
          if t = TypeBBR
          then (case NormalizeBBRProfile (cc_BBRProfile c) of
                  Inl e \<Rightarrow> Inl (config_error ''CongestionConfig.BBRProfile'' e)
                | Inr p \<Rightarrow> Inr \<lparr>cc_Type = t, cc_BBRProfile = p\<rparr>)
          else Inr (c\<lparr>cc_Type := t\<rparr>))"

text \<open>The windows and the idle timeout, the same in both sources; \<open>pmtud_off\<close> is the constant of the platform.\<close>

definition fill_quic :: "bool \<Rightarrow> 'a QUICConfig_scheme \<Rightarrow> ConfigError + 'a QUICConfig_scheme" where
  "fill_quic pmtud_off q =
     bind_config (fill_window ''InitialStreamReceiveWindow'' defaultStreamReceiveWindow (InitialStreamReceiveWindow q)) (\<lambda>a.
     bind_config (fill_window ''MaxStreamReceiveWindow'' defaultStreamReceiveWindow (MaxStreamReceiveWindow q)) (\<lambda>b.
     bind_config (fill_window ''InitialConnectionReceiveWindow'' defaultConnReceiveWindow (InitialConnectionReceiveWindow q)) (\<lambda>c.
     bind_config (fill_window ''MaxConnectionReceiveWindow'' defaultConnReceiveWindow (MaxConnectionReceiveWindow q)) (\<lambda>d.
     bind_config (fill_range ''QUICConfig.MaxIdleTimeout'' ''must be between 4s and 120s'' (4 * Second) (120 * Second)
                    defaultMaxIdleTimeout (MaxIdleTimeout q)) (\<lambda>t.
     Inr (q\<lparr>InitialStreamReceiveWindow := a, MaxStreamReceiveWindow := b, InitialConnectionReceiveWindow := c,
            MaxConnectionReceiveWindow := d, MaxIdleTimeout := t, DisablePathMTUDiscovery := DisablePathMTUDiscovery q \<or> pmtud_off\<rparr>))))))"

text \<open>A check that refuses the configuration, the default for the number of streams, and the lower bound of a bandwidth.\<close>

definition require :: "bool \<Rightarrow> string \<Rightarrow> string \<Rightarrow> ConfigError + unit" where
  "require ok f r = (if ok then Inr () else Inl (config_error f r))"

definition fill_streams :: "serverQUICConfig \<Rightarrow> ConfigError + serverQUICConfig" where
  "fill_streams q =
     (if MaxIncomingStreams q = 0 then Inr (q\<lparr>MaxIncomingStreams := defaultMaxIncomingStreams\<rparr>)
      else if MaxIncomingStreams q < 8 then Inl (config_error ''QUICConfig.MaxIncomingStreams'' ''must be at least 8'')
      else Inr q)"

definition server_fill :: "bool \<Rightarrow> serverConfig \<Rightarrow> ConfigError + serverConfig" where
  "server_fill pmtud_off c =
     bind_config (require (\<not> (sc_Certificates c = 0 \<and> \<not> sc_hasGetCertificate c))
                    ''TLSConfig'' ''must set at least one of Certificates or GetCertificate'') (\<lambda>_.
     bind_config (fill_quic pmtud_off (sc_QUICConfig c)) (\<lambda>q.
     bind_config (fill_streams q) (\<lambda>q.
     bind_config (fill_congestion (sc_CongestionConfig c)) (\<lambda>cc.
     bind_config (require (sc_hasConn c) ''Conn'' ''must be set'') (\<lambda>_.
     bind_config (require (\<not> (bw_MaxTx (sc_BandwidthConfig c) \<noteq> 0 \<and> bw_MaxTx (sc_BandwidthConfig c) < 65536))
                    ''BandwidthConfig.MaxTx'' ''must be at least 65536'') (\<lambda>_.
     bind_config (require (\<not> (bw_MaxRx (sc_BandwidthConfig c) \<noteq> 0 \<and> bw_MaxRx (sc_BandwidthConfig c) < 65536))
                    ''BandwidthConfig.MaxRx'' ''must be at least 65536'') (\<lambda>_.
     bind_config (fill_range ''UDPIdleTimeout'' ''must be between 2s and 600s'' (2 * Second) (600 * Second)
                    defaultUDPIdleTimeout (sc_UDPIdleTimeout c)) (\<lambda>t.
     bind_config (require (sc_hasAuthenticator c) ''Authenticator'' ''must be set'') (\<lambda>_.
     Inr (c\<lparr>sc_QUICConfig := q, sc_CongestionConfig := cc, sc_hasOutbound := True, sc_UDPIdleTimeout := t, sc_hasStats := True\<rparr>))))))))))"

definition verifyAndFill :: "bool \<Rightarrow> clientConfig \<Rightarrow> ConfigError + clientConfig" where
  "verifyAndFill pmtud_off c =
     (if kc_filled c then Inr c else
     bind_config (require (kc_ServerAddr c \<noteq> None) ''ServerAddr'' ''must be set'') (\<lambda>_.
     bind_config (fill_quic pmtud_off (kc_QUICConfig c)) (\<lambda>q.
     bind_config (fill_range ''QUICConfig.KeepAlivePeriod'' ''must be between 2s and 60s'' (2 * Second) (60 * Second)
                    defaultKeepAlivePeriod (KeepAlivePeriod q)) (\<lambda>k.
     bind_config (fill_congestion (kc_CongestionConfig c)) (\<lambda>cc.
     Inr (c\<lparr>kc_hasConnFactory := True, kc_QUICConfig := q\<lparr>KeepAlivePeriod := k\<rparr>, kc_CongestionConfig := cc, kc_hasStats := True,
            kc_filled := True\<rparr>))))))"


section \<open>What a filled configuration satisfies\<close>

lemma bind_config_Inr: "bind_config x f = Inr b \<longleftrightarrow> (\<exists>a. x = Inr a \<and> f a = Inr b)"
  by (cases x) auto

definition quic_ok :: "bool \<Rightarrow> 'a QUICConfig_scheme \<Rightarrow> bool" where
  "quic_ok pmtud_off q \<longleftrightarrow> 16384 \<le> InitialStreamReceiveWindow q \<and> 16384 \<le> MaxStreamReceiveWindow q
     \<and> 16384 \<le> InitialConnectionReceiveWindow q \<and> 16384 \<le> MaxConnectionReceiveWindow q
     \<and> 4 * Second \<le> MaxIdleTimeout q \<and> MaxIdleTimeout q \<le> 120 * Second \<and> (pmtud_off \<longrightarrow> DisablePathMTUDiscovery q)"

definition congestion_ok :: "CongestionConfig \<Rightarrow> bool" where
  "congestion_ok c \<longleftrightarrow> cc_Type c = TypeReno
     \<or> (cc_Type c = TypeBBR \<and> cc_BBRProfile c \<in> {ProfileConservative, ProfileStandard, ProfileAggressive})"

definition bandwidth_ok :: "BandwidthConfig \<Rightarrow> bool" where
  "bandwidth_ok b \<longleftrightarrow> (bw_MaxTx b = 0 \<or> 65536 \<le> bw_MaxTx b) \<and> (bw_MaxRx b = 0 \<or> 65536 \<le> bw_MaxRx b)"

text \<open>A field keeps what the user has set; only an unset field gets the default.\<close>

definition or_default :: "'a::zero \<Rightarrow> 'a \<Rightarrow> 'a" where "or_default v dflt = (if v = 0 then dflt else v)"

definition quic_filled :: "'a QUICConfig_scheme \<Rightarrow> 'a QUICConfig_scheme \<Rightarrow> bool" where
  "quic_filled q q' \<longleftrightarrow>
     InitialStreamReceiveWindow q' = or_default (InitialStreamReceiveWindow q) defaultStreamReceiveWindow
     \<and> MaxStreamReceiveWindow q' = or_default (MaxStreamReceiveWindow q) defaultStreamReceiveWindow
     \<and> InitialConnectionReceiveWindow q' = or_default (InitialConnectionReceiveWindow q) defaultConnReceiveWindow
     \<and> MaxConnectionReceiveWindow q' = or_default (MaxConnectionReceiveWindow q) defaultConnReceiveWindow
     \<and> MaxIdleTimeout q' = or_default (MaxIdleTimeout q) defaultMaxIdleTimeout \<and> DisableGSO q' = DisableGSO q"

definition server_config_ok :: "bool \<Rightarrow> serverConfig \<Rightarrow> bool" where
  "server_config_ok pmtud_off c \<longleftrightarrow> (0 < sc_Certificates c \<or> sc_hasGetCertificate c) \<and> quic_ok pmtud_off (sc_QUICConfig c)
     \<and> 8 \<le> MaxIncomingStreams (sc_QUICConfig c) \<and> congestion_ok (sc_CongestionConfig c) \<and> bandwidth_ok (sc_BandwidthConfig c)
     \<and> sc_hasConn c \<and> sc_hasOutbound c \<and> 2 * Second \<le> sc_UDPIdleTimeout c \<and> sc_UDPIdleTimeout c \<le> 600 * Second
     \<and> sc_hasAuthenticator c \<and> sc_hasStats c"

definition client_config_ok :: "bool \<Rightarrow> clientConfig \<Rightarrow> bool" where
  "client_config_ok pmtud_off c \<longleftrightarrow> kc_hasConnFactory c \<and> kc_ServerAddr c \<noteq> None \<and> quic_ok pmtud_off (kc_QUICConfig c)
     \<and> 2 * Second \<le> KeepAlivePeriod (kc_QUICConfig c) \<and> KeepAlivePeriod (kc_QUICConfig c) \<le> 60 * Second
     \<and> congestion_ok (kc_CongestionConfig c) \<and> kc_hasStats c \<and> kc_filled c"

lemmas default_defs = defaultStreamReceiveWindow_def defaultConnReceiveWindow_def defaultMaxIdleTimeout_def defaultKeepAlivePeriod_def
  defaultMaxIncomingStreams_def defaultUDPIdleTimeout_def

lemmas congestion_names = TypeBBR_def TypeReno_def ProfileConservative_def ProfileStandard_def ProfileAggressive_def

lemma fill_window_Inr:
  "fill_window f dflt v = Inr w \<Longrightarrow> 16384 \<le> dflt \<Longrightarrow> 16384 \<le> w \<and> (v \<noteq> 0 \<longrightarrow> w = v) \<and> (v = 0 \<longrightarrow> w = dflt)"
  by (auto simp: fill_window_def split: if_splits)

lemma fill_window_id: "16384 \<le> v \<Longrightarrow> fill_window f dflt v = Inr v" for v :: u64
  by (cases "v = 0") (auto simp: fill_window_def)

lemma fill_range_Inr:
  "fill_range f r lo hi dflt v = Inr w \<Longrightarrow> lo \<le> dflt \<Longrightarrow> dflt \<le> hi \<Longrightarrow> lo \<le> w \<and> w \<le> hi \<and> (v \<noteq> 0 \<longrightarrow> w = v) \<and> (v = 0 \<longrightarrow> w = dflt)"
  by (auto simp: fill_range_def split: if_splits)

lemma fill_range_id: "0 < lo \<Longrightarrow> lo \<le> v \<Longrightarrow> v \<le> hi \<Longrightarrow> fill_range f r lo hi dflt v = Inr v"
  by (auto simp: fill_range_def)

lemma fill_congestion_ok: "fill_congestion c = Inr c' \<Longrightarrow> congestion_ok c'"
  by (auto simp: fill_congestion_def congestion_ok_def NormalizeType_def NormalizeBBRProfile_def ParseProfile_def Let_def split: if_splits)

lemma ToLower_names [simp]:
  "ToLower TypeBBR = TypeBBR" "ToLower TypeReno = TypeReno" "ToLower ProfileConservative = ProfileConservative"
  "ToLower ProfileStandard = ProfileStandard" "ToLower ProfileAggressive = ProfileAggressive"
  by code_simp+

lemma fill_congestion_id: "congestion_ok c \<Longrightarrow> fill_congestion c = Inr c"
  by (cases c) (auto simp: fill_congestion_def congestion_ok_def NormalizeType_def NormalizeBBRProfile_def ParseProfile_def Let_def congestion_names
      ToLower_names [unfolded congestion_names])

lemma fill_quic_E:
  assumes "fill_quic p q = Inr q'"
  obtains a b c d t where "q' = q\<lparr>InitialStreamReceiveWindow := a, MaxStreamReceiveWindow := b, InitialConnectionReceiveWindow := c,
      MaxConnectionReceiveWindow := d, MaxIdleTimeout := t, DisablePathMTUDiscovery := DisablePathMTUDiscovery q \<or> p\<rparr>"
    "16384 \<le> a" "16384 \<le> b" "16384 \<le> c" "16384 \<le> d" "4 * Second \<le> t" "t \<le> 120 * Second"
    "a = or_default (InitialStreamReceiveWindow q) defaultStreamReceiveWindow" "b = or_default (MaxStreamReceiveWindow q) defaultStreamReceiveWindow"
    "c = or_default (InitialConnectionReceiveWindow q) defaultConnReceiveWindow" "d = or_default (MaxConnectionReceiveWindow q) defaultConnReceiveWindow"
    "t = or_default (MaxIdleTimeout q) defaultMaxIdleTimeout"
proof -
  obtain a b c d t where f: "fill_window ''InitialStreamReceiveWindow'' defaultStreamReceiveWindow (InitialStreamReceiveWindow q) = Inr a"
    "fill_window ''MaxStreamReceiveWindow'' defaultStreamReceiveWindow (MaxStreamReceiveWindow q) = Inr b"
    "fill_window ''InitialConnectionReceiveWindow'' defaultConnReceiveWindow (InitialConnectionReceiveWindow q) = Inr c"
    "fill_window ''MaxConnectionReceiveWindow'' defaultConnReceiveWindow (MaxConnectionReceiveWindow q) = Inr d"
    "fill_range ''QUICConfig.MaxIdleTimeout'' ''must be between 4s and 120s'' (4 * Second) (120 * Second) defaultMaxIdleTimeout (MaxIdleTimeout q) = Inr t"
    "q' = q\<lparr>InitialStreamReceiveWindow := a, MaxStreamReceiveWindow := b, InitialConnectionReceiveWindow := c,
      MaxConnectionReceiveWindow := d, MaxIdleTimeout := t, DisablePathMTUDiscovery := DisablePathMTUDiscovery q \<or> p\<rparr>"
    using assms unfolding fill_quic_def bind_config_Inr by blast
  show ?thesis
    by (rule that [OF f(6)])
      (use fill_window_Inr [OF f(1)] fill_window_Inr [OF f(2)] fill_window_Inr [OF f(3)] fill_window_Inr [OF f(4)] fill_range_Inr [OF f(5)]
        in \<open>auto simp: default_defs or_default_def\<close>)
qed

lemma fill_quic_ok: "fill_quic p q = Inr q' \<Longrightarrow> quic_ok p q'"
  by (erule fill_quic_E) (simp add: quic_ok_def)

lemma fill_quic_id:
  assumes "quic_ok p q"
  shows "fill_quic p q = Inr q"
proof -
  have w: "fill_window f dflt (InitialStreamReceiveWindow q) = Inr (InitialStreamReceiveWindow q)"
    "fill_window f dflt (MaxStreamReceiveWindow q) = Inr (MaxStreamReceiveWindow q)"
    "fill_window f dflt (InitialConnectionReceiveWindow q) = Inr (InitialConnectionReceiveWindow q)"
    "fill_window f dflt (MaxConnectionReceiveWindow q) = Inr (MaxConnectionReceiveWindow q)" for f dflt
    using assms by (simp_all add: quic_ok_def fill_window_id)
  have t: "fill_range f r (4 * Second) (120 * Second) d (MaxIdleTimeout q) = Inr (MaxIdleTimeout q)" for f r d
    using assms by (simp add: quic_ok_def fill_range_id)
  have p: "(DisablePathMTUDiscovery q \<or> p) = DisablePathMTUDiscovery q" using assms by (auto simp: quic_ok_def)
  show ?thesis unfolding fill_quic_def w t p bind_config.simps by simp
qed

lemma fill_quic_filled: "fill_quic p q = Inr q' \<Longrightarrow> quic_filled q q' \<and> QUICConfig.more q' = QUICConfig.more q"
  by (erule fill_quic_E) (simp add: quic_filled_def)

lemma fill_streams_Inr:
  "fill_streams q = Inr q' \<Longrightarrow> 8 \<le> MaxIncomingStreams q' \<and> q' = q\<lparr>MaxIncomingStreams := or_default (MaxIncomingStreams q) defaultMaxIncomingStreams\<rparr>"
  by (auto simp: fill_streams_def or_default_def default_defs split: if_splits)

lemma require_Inr [simp]: "require ok f r = Inr u \<longleftrightarrow> ok"
  by (simp add: require_def)

lemma require_True [simp]: "require True f r = Inr ()"
  by (simp add: require_def)

lemma server_fill_ok:
  assumes "server_fill p c = Inr c'"
  shows "server_config_ok p c' \<and> quic_filled (sc_QUICConfig c) (sc_QUICConfig c') \<and> sc_BandwidthConfig c' = sc_BandwidthConfig c
    \<and> sc_UDPIdleTimeout c' = or_default (sc_UDPIdleTimeout c) defaultUDPIdleTimeout"
proof -
  obtain q q' cc t where r: "\<not> (sc_Certificates c = 0 \<and> \<not> sc_hasGetCertificate c)" "sc_hasConn c" "sc_hasAuthenticator c"
    "\<not> (bw_MaxTx (sc_BandwidthConfig c) \<noteq> 0 \<and> bw_MaxTx (sc_BandwidthConfig c) < 65536)"
    "\<not> (bw_MaxRx (sc_BandwidthConfig c) \<noteq> 0 \<and> bw_MaxRx (sc_BandwidthConfig c) < 65536)"
    and f: "fill_quic p (sc_QUICConfig c) = Inr q" "fill_streams q = Inr q'" "fill_congestion (sc_CongestionConfig c) = Inr cc"
    "fill_range ''UDPIdleTimeout'' ''must be between 2s and 600s'' (2 * Second) (600 * Second) defaultUDPIdleTimeout (sc_UDPIdleTimeout c) = Inr t"
    and c': "c' = c\<lparr>sc_QUICConfig := q', sc_CongestionConfig := cc, sc_hasOutbound := True, sc_UDPIdleTimeout := t, sc_hasStats := True\<rparr>"
    using assms unfolding server_fill_def bind_config_Inr require_Inr by blast
  have q': "quic_ok p q'" "quic_filled (sc_QUICConfig c) q'" "8 \<le> MaxIncomingStreams q'"
    using fill_quic_ok [OF f(1)] fill_quic_filled [OF f(1)] fill_streams_Inr [OF f(2)] by (auto simp: quic_ok_def quic_filled_def)
  have t: "2 * Second \<le> t" "t \<le> 600 * Second" "t = or_default (sc_UDPIdleTimeout c) defaultUDPIdleTimeout"
    using fill_range_Inr [OF f(4)] by (auto simp: default_defs or_default_def)
  show ?thesis
    using r q' t fill_congestion_ok [OF f(3)] by (auto simp: c' server_config_ok_def bandwidth_ok_def not_less)
qed

lemma server_fill_id: "server_config_ok p c \<Longrightarrow> server_fill p c = Inr c"
  by (auto simp: server_config_ok_def server_fill_def fill_quic_id fill_congestion_id fill_range_id fill_streams_def bandwidth_ok_def require_def)

lemma client_fill_ok:
  assumes "verifyAndFill p c = Inr c'" and "\<not> kc_filled c"
  shows "client_config_ok p c' \<and> quic_filled (kc_QUICConfig c) (kc_QUICConfig c') \<and> kc_Auth c' = kc_Auth c \<and> kc_ServerAddr c' = kc_ServerAddr c
    \<and> kc_BandwidthConfig c' = kc_BandwidthConfig c \<and> kc_FastOpen c' = kc_FastOpen c"
proof -
  obtain q k cc where addr: "kc_ServerAddr c \<noteq> None" and f: "fill_quic p (kc_QUICConfig c) = Inr q" "fill_congestion (kc_CongestionConfig c) = Inr cc"
    "fill_range ''QUICConfig.KeepAlivePeriod'' ''must be between 2s and 60s'' (2 * Second) (60 * Second) defaultKeepAlivePeriod (KeepAlivePeriod q) = Inr k"
    and c': "c' = c\<lparr>kc_hasConnFactory := True, kc_QUICConfig := q\<lparr>KeepAlivePeriod := k\<rparr>, kc_CongestionConfig := cc, kc_hasStats := True,
            kc_filled := True\<rparr>"
    using assms(1) unfolding verifyAndFill_def if_not_P [OF assms(2)] bind_config_Inr require_Inr by blast
  have "2 * Second \<le> k" "k \<le> 60 * Second" using fill_range_Inr [OF f(3)] by (auto simp: default_defs)
  then show ?thesis
    using addr fill_quic_ok [OF f(1)] fill_quic_filled [OF f(1)] fill_congestion_ok [OF f(2)]
    by (simp add: c' client_config_ok_def quic_ok_def quic_filled_def)
qed

lemma client_fill_again: "client_config_ok p c \<Longrightarrow> verifyAndFill p' c = Inr c"
  by (simp add: client_config_ok_def verifyAndFill_def)


section \<open>Property\<close>


definition sample_quic :: "duration \<Rightarrow> 'a \<Rightarrow> 'a QUICConfig_scheme" where
  "sample_quic idle m = \<lparr>InitialStreamReceiveWindow = 0, MaxStreamReceiveWindow = 16384, InitialConnectionReceiveWindow = 0,
     MaxConnectionReceiveWindow = 0, MaxIdleTimeout = idle, DisablePathMTUDiscovery = False, DisableGSO = True, \<dots> = m\<rparr>"

definition sample_server :: serverConfig where
  "sample_server = \<lparr>sc_Certificates = 1, sc_hasGetCertificate = False, sc_QUICConfig = sample_quic (5 * Second) \<lparr>MaxIncomingStreams = 0\<rparr>,
     sc_hasConn = True, sc_hasOutbound = False, sc_CongestionConfig = \<lparr>cc_Type = ''BBR'', cc_BBRProfile = ''Aggressive''\<rparr>,
     sc_BandwidthConfig = \<lparr>bw_MaxTx = 65536, bw_MaxRx = 0, bw_DisableLossCompensation = False\<rparr>, sc_IgnoreClientBandwidth = False,
     sc_DisableUDP = False, sc_UDPIdleTimeout = 0, sc_hasAuthenticator = True, sc_hasStats = False\<rparr>"

definition sample_client :: clientConfig where
  "sample_client = \<lparr>kc_hasConnFactory = False, kc_ServerAddr = Some (UDPAddr ''h:1''), kc_Auth = ''x'',
     kc_QUICConfig = sample_quic 0 \<lparr>KeepAlivePeriod = 0, DisableChromeParrot = False\<rparr>,
     kc_CongestionConfig = \<lparr>cc_Type = ''RENO'', cc_BBRProfile = ''?''\<rparr>,
     kc_BandwidthConfig = \<lparr>bw_MaxTx = 0, bw_MaxRx = 70000, bw_DisableLossCompensation = False\<rparr>, kc_FastOpen = False, kc_hasStats = False,
     kc_filled = False\<rparr>"

lemma sample_filled: "\<exists>sc' kc'. server_fill False sample_server = Inr sc' \<and> verifyAndFill False sample_client = Inr kc'"
proof -
  have "ToLower ''BBR'' = ''bbr''" "ToLower ''Aggressive'' = ''aggressive''" "ToLower ''RENO'' = ''reno''" by code_simp+
  then show ?thesis
    by (auto simp: sample_server_def sample_client_def sample_quic_def server_fill_def verifyAndFill_def fill_quic_def fill_window_def
        fill_range_def fill_streams_def fill_congestion_def NormalizeType_def NormalizeBBRProfile_def ParseProfile_def congestion_names
        default_defs require_def Let_def)
qed


end
