(* ===== verification/Authenticators.thy ===== *)
theory Authenticators
  imports Core_Config
begin

text \<open>
  The authenticators (\<open>extras/auth\<close>). The external command and the HTTP service are arguments. The map of users is a list of
  pairs, in the order in which Go happens to iterate over it.
\<close>

type_synonym authenticator = "netAddr \<Rightarrow> string \<Rightarrow> u64 \<Rightarrow> bool \<times> string"

definition PasswordAuthenticator_Authenticate :: "string \<Rightarrow> authenticator" where
  "PasswordAuthenticator_Authenticate Password addr auth tx = (if auth = Password then (True, ''user'') else (False, []))"

definition NewUserPassAuthenticator :: "(string \<times> string) list \<Rightarrow> string \<Rightarrow> string option" where
  "NewUserPassAuthenticator users = foldl (\<lambda>lcUsers (user, pass). lcUsers(ToLower user \<mapsto> pass)) (\<lambda>_. None) users"

definition splitUserPass :: "string \<Rightarrow> (string \<times> string) option" where
  "splitUserPass auth = (case split2 (CHR '':'') auth of [u, p] \<Rightarrow> Some (ToLower u, p) | _ \<Rightarrow> None)"

definition UserPassAuthenticator_Authenticate :: "(string \<Rightarrow> string option) \<Rightarrow> authenticator" where
  "UserPassAuthenticator_Authenticate users addr auth tx =
     (case splitUserPass auth of
        None \<Rightarrow> (False, [])
      | Some (u, p) \<Rightarrow>
          (case users u of
             None \<Rightarrow> (False, [])
           | Some rp \<Rightarrow> if rp \<noteq> p then (False, []) else (True, u)))"

text \<open>The command gets the address, the credentials and the rate; its output, or an error, is the argument \<open>exec\<close>.\<close>

definition CommandAuthenticator_Authenticate :: "(string list \<Rightarrow> string option) \<Rightarrow> (netAddr \<Rightarrow> string) \<Rightarrow> (u64 \<Rightarrow> string) \<Rightarrow> authenticator" where
  "CommandAuthenticator_Authenticate exec str itoa addr auth tx =
     (case exec [str addr, auth, itoa tx] of None \<Rightarrow> (False, []) | Some out \<Rightarrow> (True, TrimSpace out))"

text \<open>The service answers with a status and a body; \<open>unmarshal\<close> is the JSON decoder.\<close>

definition HTTPAuthenticator_post :: "(string \<times> string \<times> u64 \<Rightarrow> (nat \<times> string) option) \<Rightarrow> (string \<Rightarrow> (bool \<times> string) option) \<Rightarrow> string \<times> string \<times> u64 \<Rightarrow> (bool \<times> string) option" where
  "HTTPAuthenticator_post svc unmarshal req =
     (case svc req of
        None \<Rightarrow> None
      | Some (status, body) \<Rightarrow> if status \<noteq> 200 then None else unmarshal body)"

definition HTTPAuthenticator_Authenticate ::
  "(string \<times> string \<times> u64 \<Rightarrow> (nat \<times> string) option) \<Rightarrow> (string \<Rightarrow> (bool \<times> string) option) \<Rightarrow> (netAddr \<Rightarrow> string) \<Rightarrow> authenticator" where
  "HTTPAuthenticator_Authenticate svc unmarshal str addr auth tx =
     (case HTTPAuthenticator_post svc unmarshal (str addr, auth, tx) of None \<Rightarrow> (False, []) | Some (ok, uid) \<Rightarrow> (ok, uid))"


section \<open>What the user list accepts\<close>

lemma split2_two: "split2 c s = [u, p] \<longleftrightarrow> s = u @ c # p \<and> c \<notin> set u"
proof (induction s arbitrary: u)
  case (Cons x s)
  show ?case
  proof (cases "x = c")
    case False
    obtain q qs where "split2 c s = q # qs" by (cases "split2 c s"; cases s) (auto split: list.splits if_splits)
    then show ?thesis using False Cons [of "tl u"] by (cases u) auto
  qed (cases u; auto)
qed simp

lemma lowered_users:
  "distinct (map (ToLower \<circ> fst) users) \<Longrightarrow> NewUserPassAuthenticator users k = Some p \<longleftrightarrow> (\<exists>u. (u, p) \<in> set users \<and> ToLower u = k)"
proof (induction users rule: rev_induct)
  case (snoc x users)
  obtain u q where x: "x = (u, q)" by (cases x)
  have "ToLower u \<notin> (ToLower \<circ> fst) ` set users" using snoc.prems by (simp add: x)
  then show ?case using snoc by (auto simp: x NewUserPassAuthenticator_def image_iff)
qed (simp add: NewUserPassAuthenticator_def)

lemma UserPass_accepts:
  assumes "distinct (map (ToLower \<circ> fst) users)" and "CHR '':'' \<notin> set name"
  shows "UserPassAuthenticator_Authenticate (NewUserPassAuthenticator users) a (name @ CHR '':'' # pass) tx
    = (if \<exists>u. (u, pass) \<in> set users \<and> ToLower u = ToLower name then (True, ToLower name) else (False, []))"
proof -
  have "split2 (CHR '':'') (name @ CHR '':'' # pass) = [name, pass]" using assms(2) by (simp add: split2_two)
  then have "UserPassAuthenticator_Authenticate (NewUserPassAuthenticator users) a (name @ CHR '':'' # pass) tx
    = (if NewUserPassAuthenticator users (ToLower name) = Some pass then (True, ToLower name) else (False, []))"
    by (simp add: UserPassAuthenticator_Authenticate_def splitUserPass_def split: option.splits)
  then show ?thesis using lowered_users [OF assms(1)] by simp
qed

end
