(* ===== verification/Handshake.thy ===== *)
theory Handshake
  imports Auth_Header Authenticators Wire
begin

text \<open>
  The two ends of a connection (\<open>core/server/server.go\<close>, \<open>core/client/client.go\<close>, \<open>core/client/path.go\<close>,
  \<open>core/server/copy.go\<close>): the authentication exchange, the masquerade, proxied TCP streams, and the switch of a connection to
  another server address. HTTP/3 and QUIC are arguments: a round trip, what a stream holds, whether an operation fails. A panic is \<open>None\<close>;
  what an operation does to the world besides its result is a list of events, in order.
\<close>

section \<open>Server: authentication and masquerade\<close>

definition closeErrCodeOK :: nat where "closeErrCodeOK = 0x100"
definition closeErrCodeTrafficLimitReached :: nat where "closeErrCodeTrafficLimitReached = 0x107"
definition closeErrCodeProtocolError :: nat where "closeErrCodeProtocolError = 0x101"

record http_request =
  Method :: string
  Host :: string
  URL_Path :: string
  rq_Header :: header

record http_response =
  StatusCode :: nat
  rs_Header :: header
  Body :: string

datatype auth_event =
    OnlineState string bool
  | ConnectLog netAddr string u64
  | StartUDP string
  | ConnStats netAddr string
  | DisconnectLog netAddr string string
  | CloseClient nat

record serverImpl =
  s_config :: serverConfig
  s_Authenticate :: "netAddr \<Rightarrow> string \<Rightarrow> u64 \<Rightarrow> bool \<times> string"
  s_MasqHandler :: "(http_request \<Rightarrow> http_response) option"
  s_hasTrafficLogger :: bool
  s_hasEventLogger :: bool
  s_padding :: "PaddingScheme option"
  s_sizes :: quicSizes

record h3sHandler =
  h_conn :: quicConn
  authenticated :: bool
  h_authID :: string
  udpStarted :: bool
  MasqAuthFailed :: u64
  MasqFallback :: u64
  h_events :: "auth_event list"

definition newH3sHandler :: "quicConn \<Rightarrow> h3sHandler" where
  "newH3sHandler conn = \<lparr>h_conn = conn, authenticated = False, h_authID = [], udpStarted = False, MasqAuthFailed = 0, MasqFallback = 0, h_events = []\<rparr>"

text \<open>The answer of \<open>http.NotFound\<close>.\<close>

definition NotFound :: http_response where
  "NotFound = \<lparr>StatusCode = 404,
     rs_Header = h_Set (h_Set no_header ''Content-Type'' ''text/plain; charset=utf-8'') ''X-Content-Type-Options'' ''nosniff'',
     Body = ''404 page not found'' @ [CHR 0x0A]\<rparr>"

definition masqHandler :: "serverImpl \<Rightarrow> http_request \<Rightarrow> h3sHandler \<Rightarrow> http_response \<times> h3sHandler" where
  "masqHandler s r h =
     (case s_MasqHandler s of Some f \<Rightarrow> f r | None \<Rightarrow> NotFound, h\<lparr>MasqFallback := MasqFallback h + 1\<rparr>)"

definition auth_response :: "serverImpl \<Rightarrow> u32 \<Rightarrow> (nat \<Rightarrow> u8) \<Rightarrow> http_response option" where
  "auth_response s rand32 rnd =
     map_option (\<lambda>fs. \<lparr>StatusCode = StatusAuthOK, rs_Header = fs, Body = []\<rparr>)
       (AuthResponseToHeader no_header
         \<lparr>rs_UDPEnabled = \<not> sc_DisableUDP (s_config s), rs_Rx = bw_MaxRx (sc_BandwidthConfig (s_config s)),
          rs_RxAuto = sc_IgnoreClientBandwidth (s_config s)\<rparr> (s_padding s) rand32 rnd)"

text \<open>The congestion controller the server installs, and the rate it reports.\<close>

definition server_control :: "serverImpl \<Rightarrow> u64 \<Rightarrow> quicConn \<Rightarrow> u64 \<times> quicConn" where
  "server_control s actualTx conn =
     (let c = s_config s; bw = sc_BandwidthConfig c;
          configured = UseConfigured (s_sizes s) (cc_Type (sc_CongestionConfig c)) (cc_BBRProfile (sc_CongestionConfig c))
      in if sc_IgnoreClientBandwidth c then (0, configured conn)
         else let actualTx = (if bw_MaxTx bw > 0 \<and> actualTx > bw_MaxTx bw then bw_MaxTx bw else actualTx)
              in if actualTx > 0 then (actualTx, UseBrutal actualTx (bw_DisableLossCompensation bw) conn)
                 else (actualTx, configured conn))"

definition is_auth_request :: "http_request \<Rightarrow> bool" where
  "is_auth_request r \<longleftrightarrow> Method r = ''POST'' \<and> Host r = URLHost \<and> URL_Path r = URLPath"

definition ServeHTTP :: "serverImpl \<Rightarrow> u32 \<Rightarrow> (nat \<Rightarrow> u8) \<Rightarrow> http_request \<Rightarrow> h3sHandler \<Rightarrow> (http_response \<times> h3sHandler) option" where
  "ServeHTTP s rand32 rnd r h =
     (if is_auth_request r then
        if authenticated h then map_option (\<lambda>resp. (resp, h)) (auth_response s rand32 rnd)
        else
          let authReq = AuthRequestFromHeader (rq_Header r);
              (ok, id) = s_Authenticate s (qc_remote (h_conn h)) (rq_Auth authReq) (rq_Rx authReq)
          in if ok then
               let (actualTx, conn) = server_control s (rq_Rx authReq) (h_conn h);
                   h = h\<lparr>authenticated := True, h_authID := id, h_conn := conn\<rparr>
               in map_option (\<lambda>resp.
                    (resp, h\<lparr>h_events := h_events h
                               @ (if s_hasTrafficLogger s then [OnlineState id True] else [])
                               @ (if s_hasEventLogger s then [ConnectLog (qc_remote conn) id actualTx] else [])
                               @ (if \<not> sc_DisableUDP (s_config s) then [StartUDP id] else []),
                             udpStarted := \<not> sc_DisableUDP (s_config s)\<rparr>)) (auth_response s rand32 rnd)
             else Some (masqHandler s r (h\<lparr>MasqAuthFailed := MasqAuthFailed h + 1\<rparr>))
      else Some (masqHandler s r h))"

text \<open>
  The end of a connection: \<open>err\<close> is what serving it returned, \<open>statsLogger\<close> whether the event logger also takes statistics.
\<close>

definition handleClient_end :: "serverImpl \<Rightarrow> bool \<Rightarrow> string \<Rightarrow> h3sHandler \<Rightarrow> h3sHandler" where
  "handleClient_end s statsLogger err h =
     (let remote = qc_remote (h_conn h)
      in h\<lparr>h_events := h_events h
             @ (if authenticated h
                then (if s_hasTrafficLogger s then [OnlineState (h_authID h) False] else [])
                     @ (if s_hasEventLogger s
                        then (if statsLogger then [ConnStats remote (h_authID h)] else []) @ [DisconnectLog remote (h_authID h) err] else [])
                else [])
             @ [CloseClient closeErrCodeOK],
           h_conn := (h_conn h)\<lparr>qc_alive := False\<rparr>\<rparr>)"

text \<open>
  A stream: whether the handler takes it and the error it reports, and the rest of the stream when it starts a TCP request on it.
\<close>

definition ProxyStreamHijacker ::
  "(bytes \<Rightarrow> io_error + u64 \<times> bytes) \<Rightarrow> u64 \<Rightarrow> bytes \<Rightarrow> io_error option \<Rightarrow> h3sHandler \<Rightarrow> (bool \<times> io_error option) \<times> bytes option" where
  "ProxyStreamHijacker qread ft stream err h =
     (if err \<noteq> None \<or> \<not> authenticated h then ((False, None), None)
      else if ft = FrameTypeTCPRequest then
        (case qread stream of
           Inl e \<Rightarrow> ((False, Some e), None)
         | Inr (_, rest) \<Rightarrow> ((True, None), Some rest))
      else ((False, None), None))"


section \<open>Server: proxied streams\<close>

datatype StreamState = StreamStateInitial | StreamStateHooking | StreamStateConnecting | StreamStateEstablished | StreamStateClosed

datatype copy_error = Disconnect | CopyError string

text \<open>
  One direction of the proxy with accounting (\<open>copyBufferLog\<close>): \<open>rs\<close> is what the successive reads return, the last of them with an
  error; \<open>lg\<close> is the logger with its state, \<open>wr\<close> the error of a write after what was written before. Returned are what was
  written, the state of the logger, and the result.
\<close>

fun copyBufferLog :: "('l \<Rightarrow> u64 \<Rightarrow> bool \<times> 'l) \<Rightarrow> (bytes \<Rightarrow> bytes \<Rightarrow> string option) \<Rightarrow> 'l \<Rightarrow> bytes \<Rightarrow> (bytes \<times> io_error option) list
    \<Rightarrow> bytes \<times> 'l \<times> copy_error option" where
  "copyBufferLog lg wr l out [] = (out, l, None)"
| "copyBufferLog lg wr l out ((buf, er) # rs) =
     (let (ok, l') = (if buf \<noteq> [] then lg l (of_nat (length buf)) else (True, l));
          ew = (if buf \<noteq> [] then wr out buf else None)
      in if \<not> ok then (out, l', Some Disconnect)
         else if ew \<noteq> None then (out, l', Some (CopyError (the ew)))
         else case er of
                Some EOF \<Rightarrow> (out @ buf, l', None)
              | Some _ \<Rightarrow> (out @ buf, l', Some (CopyError ''read''))
              | None \<Rightarrow> copyBufferLog lg wr l' (out @ buf) rs)"

text \<open>With a logger that grants a quota, no more than the quota is ever passed on in one direction.\<close>

lemma copy_within_quota:
  "length out \<le> used \<Longrightarrow> used \<le> Q \<Longrightarrow> list_all (\<lambda>(b, _). length b < 2 ^ 32) rs \<Longrightarrow>
   length (fst (copyBufferLog (\<lambda>u n. (u + unat n \<le> Q, if u + unat n \<le> Q then u + unat n else u)) wr used out rs)) \<le> Q"
proof (induction rs arbitrary: out used)
  case (Cons x rs)
  obtain b er where x: "x = (b, er)" by (cases x)
  have n: "unat (of_nat (length b) :: u64) = length b" using Cons.prems(3) by (simp add: x unat_of_nat take_bit_eq_mod)
  show ?case
    using Cons.IH [of "out @ b" "used + length b"] Cons.IH [of out used] Cons.prems n
    by (cases er; cases "b = []"; cases "used + length b \<le> Q"; cases "wr out b"; cases "the er") (auto simp: x)
qed simp

datatype tcp_event =
    State StreamState
  | TraceStream
  | UntraceStream
  | ReqAddr string
  | HookedReqAddr string
  | Respond bytes
  | TCPRequestLog string
  | Dial string
  | TCPErrorLog string "copy_error option"
  | TargetWrite bytes
  | Proxy bytes
  | TargetClose
  | StreamClose
  | ConnClose nat

text \<open>
  What a request meets: the request hook (whether it wants the request, and what it makes of the stream: an error or the bytes to put
  back, the changed address and the rest of the stream), the outbound's dialler, and the result of the two copying directions.
\<close>

record tcp_env =
  te_hook :: "((bool \<Rightarrow> string \<Rightarrow> bool) \<times> (bytes \<Rightarrow> string \<Rightarrow> (string + bytes) \<times> string \<times> bytes)) option"
  te_dial :: "string \<Rightarrow> string option"
  te_copy :: "bytes \<Rightarrow> copy_error option"

text \<open>After the hook: dial, answer unless the hook has already answered, proxy, clean up.\<close>

definition connect_and_proxy ::
  "(u64 \<Rightarrow> nat) \<Rightarrow> serverImpl \<Rightarrow> tcp_env \<Rightarrow> u32 \<Rightarrow> (nat \<Rightarrow> u8) \<Rightarrow> bool \<Rightarrow> string \<Rightarrow> bytes \<Rightarrow> bytes \<Rightarrow> tcp_event list option" where
  "connect_and_proxy qlen s te rand32 rnd hooked reqAddr putback rest =
     (let ev = (if s_hasEventLogger s then [TCPRequestLog reqAddr] else []) @ [State StreamStateConnecting, Dial reqAddr]
      in case te_dial te reqAddr of
           Some err \<Rightarrow>
             map_option (\<lambda>out. ev @ out @ [StreamClose] @ (if s_hasEventLogger s then [TCPErrorLog reqAddr (Some (CopyError err))] else []))
               (if hooked then Some [] else map_option (\<lambda>b. [Respond b]) (WriteTCPResponse qlen False err (s_padding s) rand32 rnd))
         | None \<Rightarrow>
             let err = te_copy te rest
             in map_option (\<lambda>out. ev @ out @ [State StreamStateEstablished] @ (if putback \<noteq> [] then [TargetWrite putback] else [])
                    @ [Proxy rest] @ (if s_hasEventLogger s then [TCPErrorLog reqAddr err] else []) @ [TargetClose, StreamClose]
                    @ (if err = Some Disconnect then [ConnClose closeErrCodeTrafficLimitReached] else []))
                  (if hooked then Some [] else map_option (\<lambda>b. [Respond b]) (WriteTCPResponse qlen True ''Connected'' (s_padding s) rand32 rnd)))"

definition handleTCPRequest ::
  "(u64 \<Rightarrow> nat) \<Rightarrow> (bytes \<Rightarrow> io_error + u64 \<times> bytes) \<Rightarrow> serverImpl \<Rightarrow> tcp_env \<Rightarrow> u32 \<Rightarrow> (nat \<Rightarrow> u8) \<Rightarrow> bytes \<Rightarrow> tcp_event list option" where
  "handleTCPRequest qlen qread s te rand32 rnd stream =
     (let enter = [State StreamStateInitial] @ (if s_hasTrafficLogger s then [TraceStream] else []);
          leave = (if s_hasTrafficLogger s then [UntraceStream] else []) @ [State StreamStateClosed]
      in map_option (\<lambda>ev. enter @ ev @ leave)
           (case ReadTCPRequest qread stream of
              Inl _ \<Rightarrow> Some [StreamClose]
            | Inr (reqAddr, rest) \<Rightarrow>
                map_option (\<lambda>ev. ReqAddr reqAddr # ev)
                  (case te_hook te of
                     Some (check, tcp) \<Rightarrow>
                       if check False reqAddr then
                         map_option (\<lambda>(out, ev). [State StreamStateHooking, Respond out] @ ev)
                           (case WriteTCPResponse qlen True ''RequestHook enabled'' (s_padding s) rand32 rnd of
                              None \<Rightarrow> None
                            | Some out \<Rightarrow>
                                (case tcp rest reqAddr of
                                   (Inl _, _, _) \<Rightarrow> Some (out, [StreamClose])
                                 | (Inr putback, reqAddr', rest') \<Rightarrow>
                                     map_option (\<lambda>ev. (out, (if reqAddr' \<noteq> reqAddr then [HookedReqAddr reqAddr'] else []) @ ev))
                                       (connect_and_proxy qlen s te rand32 rnd True reqAddr' putback rest')))
                       else connect_and_proxy qlen s te rand32 rnd False reqAddr [] rest
                   | None \<Rightarrow> connect_and_proxy qlen s te rand32 rnd False reqAddr [] rest)))"


section \<open>UDP messages over the connection\<close>

text \<open>
  What a session manager reads and writes (\<open>udpIOImpl\<close> of both ends). The datagrams that arrive are a list, an error of the connection
  being \<open>Inl\<close>; with an empty list the call waits, which is \<open>None\<close>. The traffic logger is an argument with its state; when it
  refuses, the connection is closed, which is the last component. \<open>malformed\<close> is the counter of datagrams that do not parse.
\<close>

fun server_ReceiveMessage ::
  "(bytes \<Rightarrow> io_error + u64 \<times> bytes) \<Rightarrow> ('l \<Rightarrow> u64 \<Rightarrow> u64 \<Rightarrow> bool \<times> 'l) option \<Rightarrow> 'l \<Rightarrow> u64 \<Rightarrow> (string + bytes) list
   \<Rightarrow> ((copy_error + UDPMessage) \<times> 'l \<times> u64 \<times> (string + bytes) list \<times> bool) option" where
  "server_ReceiveMessage qread lg l malformed [] = None"
| "server_ReceiveMessage qread lg l malformed (Inl e # ds) = Some (Inl (CopyError e), l, malformed, ds, False)"
| "server_ReceiveMessage qread lg l malformed (Inr d # ds) =
     (case ParseUDPMessage qread d of
        Inl _ \<Rightarrow> server_ReceiveMessage qread lg l (malformed + 1) ds
      | Inr m \<Rightarrow>
          (case lg of
             None \<Rightarrow> Some (Inr m, l, malformed, ds, False)
           | Some log \<Rightarrow>
               let (ok, l) = log l (of_nat (length (Data m))) 0
               in if ok then Some (Inr m, l, malformed, ds, False) else Some (Inl Disconnect, l, malformed, ds, True)))"

definition server_SendMessage ::
  "(u64 \<Rightarrow> nat) \<Rightarrow> ('l \<Rightarrow> u64 \<Rightarrow> u64 \<Rightarrow> bool \<times> 'l) option \<Rightarrow> (bytes \<Rightarrow> string option) \<Rightarrow> 'l \<Rightarrow> bytes \<Rightarrow> UDPMessage
   \<Rightarrow> (copy_error option \<times> 'l \<times> bool) option" where
  "server_SendMessage qlen lg send l buf m =
     (let (ok, l) = (case lg of None \<Rightarrow> (True, l) | Some log \<Rightarrow> log l 0 (of_nat (length (Data m))))
      in if \<not> ok then Some (Some Disconnect, l, True)
         else map_option (\<lambda>out. (map_option CopyError (send out), l, False)) (SerializeTo qlen m buf))"

definition client_ReceiveMessage where
  "client_ReceiveMessage qread malformed ds = server_ReceiveMessage qread None () malformed ds"

definition client_SendMessage :: "(u64 \<Rightarrow> nat) \<Rightarrow> (bytes \<Rightarrow> string option) \<Rightarrow> bytes \<Rightarrow> UDPMessage \<Rightarrow> string option option" where
  "client_SendMessage qlen send buf m = map_option send (SerializeTo qlen m buf)"

definition udp_Hook :: "((bool \<Rightarrow> string \<Rightarrow> bool) \<times> (bytes \<Rightarrow> string \<Rightarrow> string option \<times> string)) option \<Rightarrow> bytes \<Rightarrow> string \<Rightarrow> string option \<times> string" where
  "udp_Hook hook data reqAddr =
     (case hook of Some (check, udp) \<Rightarrow> if check True reqAddr then udp data reqAddr else (None, reqAddr) | None \<Rightarrow> (None, reqAddr))"

text \<open>Datagrams that do not parse never reach a session, and are counted.\<close>

lemma server_ReceiveMessage_skips:
  "list_all (\<lambda>d. \<exists>e. ParseUDPMessage qread d = Inl e) bad \<Longrightarrow>
   server_ReceiveMessage qread lg l malformed (map Inr bad @ ds) = server_ReceiveMessage qread lg l (malformed + of_nat (length bad)) ds"
  by (induction bad arbitrary: malformed) (auto simp: algebra_simps)


section \<open>Client\<close>

datatype quic_error = StreamLimitReached | IOError io_error | QuicError string

datatype client_error =
    ConnectError string
  | AuthError nat
  | DialError string
  | ClosedError "quic_error option"
  | PlainError quic_error
  | NoConnection
  | FactoryError string
  | NilAddress

datatype close_event = CloseConn nat | CloseTransport | ClosePacketConn | CloseBody

record clientImpl =
  ci_config :: clientConfig
  ci_padding :: "PaddingScheme option"
  ci_sizes :: quicSizes
  ci_conn :: quicConn
  txRate :: u64
  ci_hasUDP :: bool

record HandshakeInfo =
  hi_UDPEnabled :: bool
  hi_Tx :: u64
  hi_ServerAddr :: "netAddr option"
  hi_ECHAccepted :: bool

definition installCongestionControl :: "quicSizes \<Rightarrow> clientConfig \<Rightarrow> u64 \<Rightarrow> quicConn \<Rightarrow> quicConn" where
  "installCongestionControl q cfg rate conn =
     (if rate > 0 then UseBrutal rate (bw_DisableLossCompensation (kc_BandwidthConfig cfg)) conn
      else UseConfigured q (cc_Type (kc_CongestionConfig cfg)) (cc_BBRProfile (kc_CongestionConfig cfg)) conn)"

definition client_rate :: "BandwidthConfig \<Rightarrow> AuthResponse \<Rightarrow> u64" where
  "client_rate bw authResp =
     (if rs_RxAuto authResp then 0
      else let actualTx = rs_Rx authResp
           in if actualTx = 0 \<or> actualTx > bw_MaxTx bw then bw_MaxTx bw else actualTx)"

definition auth_http_request :: "header \<Rightarrow> http_request" where
  "auth_http_request fs = \<lparr>Method = ''POST'', Host = URLHost, URL_Path = URLPath, rq_Header = fs\<rparr>"

text \<open>
  \<open>connect\<close>: the packet connection may fail to open; the round trip gives an error, with whether a connection had been made, or a
  response on a connection. The events are what is closed again.
\<close>

definition connect ::
  "quicSizes \<Rightarrow> clientConfig \<Rightarrow> PaddingScheme option \<Rightarrow> u32 \<Rightarrow> (nat \<Rightarrow> u8) \<Rightarrow> string option
   \<Rightarrow> (http_request \<Rightarrow> (bool \<times> string) + http_response \<times> quicConn)
   \<Rightarrow> ((client_error + HandshakeInfo \<times> clientImpl) \<times> close_event list) option" where
  "connect q cfg ps rand32 rnd newConn roundTrip =
     (case newConn of
        Some err \<Rightarrow> Some (Inl (FactoryError err), [])
      | None \<Rightarrow>
          map_option (\<lambda>fs.
            case roundTrip (auth_http_request fs) of
                 Inl (dialled, err) \<Rightarrow>
                   (Inl (ConnectError err), (if dialled then [CloseConn closeErrCodeProtocolError] else []) @ [CloseTransport, ClosePacketConn])
               | Inr (resp, conn) \<Rightarrow>
                   if StatusCode resp \<noteq> StatusAuthOK \<or> \<not> IsAuthResponse (rs_Header resp)
                   then (Inl (AuthError (StatusCode resp)), [CloseConn closeErrCodeProtocolError, CloseTransport, ClosePacketConn])
                   else
                     let authResp = AuthResponseFromHeader (rs_Header resp);
                         actualTx = client_rate (kc_BandwidthConfig cfg) authResp;
                         conn = installCongestionControl q cfg actualTx conn
                     in (Inr (\<lparr>hi_UDPEnabled = rs_UDPEnabled authResp, hi_Tx = actualTx, hi_ServerAddr = kc_ServerAddr cfg,
                               hi_ECHAccepted = qc_ECHAccepted conn\<rparr>,
                              \<lparr>ci_config = cfg, ci_padding = ps, ci_sizes = q, ci_conn = conn, txRate = actualTx,
                               ci_hasUDP = rs_UDPEnabled authResp\<rparr>), [CloseBody]))
            (AuthRequestToHeader no_header
              \<lparr>rq_Auth = kc_Auth cfg, rq_Rx = bw_MaxRx (kc_BandwidthConfig cfg)\<rparr> ps rand32 rnd))"

definition wrapIfConnectionClosed :: "quic_error \<Rightarrow> client_error" where
  "wrapIfConnectionClosed err = (if err = StreamLimitReached then PlainError err else ClosedError (Some err))"

record tcpConn =
  tc_Orig :: bytes
  Established :: bool

text \<open>
  \<open>TCP\<close>: whether the stream opens, whether the request can be written, and what the server sends on the stream. Returned are
  the result, what was written, and whether the stream was closed.
\<close>

definition client_TCP ::
  "(u64 \<Rightarrow> nat) \<Rightarrow> (bytes \<Rightarrow> io_error + u64 \<times> bytes) \<Rightarrow> clientImpl \<Rightarrow> u32 \<Rightarrow> (nat \<Rightarrow> u8) \<Rightarrow> quic_error option \<Rightarrow> quic_error option \<Rightarrow> bytes
   \<Rightarrow> string \<Rightarrow> ((client_error + tcpConn) \<times> bytes \<times> bool) option" where
  "client_TCP qlen qread c rand32 rnd openErr writeErr reply addr =
     (case openErr of
        Some e \<Rightarrow> Some (Inl (wrapIfConnectionClosed e), [], False)
      | None \<Rightarrow>
          map_option (\<lambda>out.
            case writeErr of
              Some e \<Rightarrow> (Inl (wrapIfConnectionClosed e), [], True)
            | None \<Rightarrow>
                if kc_FastOpen (ci_config c) then (Inr \<lparr>tc_Orig = reply, Established = False\<rparr>, out, False)
                else
                  (case ReadTCPResponse qread reply of
                     Inl e \<Rightarrow> (Inl (wrapIfConnectionClosed (IOError e)), out, True)
                   | Inr (ok, msg, rest) \<Rightarrow>
                       if \<not> ok then (Inl (DialError msg), out, True)
                       else (Inr \<lparr>tc_Orig = rest, Established = True\<rparr>, out, False)))
            (WriteTCPRequest qlen addr (ci_padding c) rand32 rnd))"

text \<open>A read of at most \<open>n\<close> bytes, all of them available; a connection is not used again after a read has failed.\<close>

definition tcp_Read :: "(bytes \<Rightarrow> io_error + u64 \<times> bytes) \<Rightarrow> nat \<Rightarrow> tcpConn \<Rightarrow> client_error + bytes \<times> tcpConn" where
  "tcp_Read qread n c =
     (case (if Established c then Inr c
            else case ReadTCPResponse qread (tc_Orig c) of
                   Inl e \<Rightarrow> Inl (PlainError (IOError e))
                 | Inr (ok, msg, rest) \<Rightarrow> if \<not> ok then Inl (DialError msg) else Inr \<lparr>tc_Orig = rest, Established = True\<rparr>) of
        Inl e \<Rightarrow> Inl e
      | Inr c \<Rightarrow> Inr (take n (tc_Orig c), c\<lparr>tc_Orig := drop n (tc_Orig c)\<rparr>))"

definition client_Close :: "close_event list" where
  "client_Close = [CloseConn closeErrCodeOK, CloseTransport, ClosePacketConn]"

text \<open>\<open>ResetPathState\<close> of the QUIC library is an argument; the context of the connection tells whether it is alive.\<close>

definition SwitchTo :: "(quicConn \<Rightarrow> quicConn) \<Rightarrow> netAddr option \<Rightarrow> clientImpl \<Rightarrow> client_error option \<times> clientImpl" where
  "SwitchTo ResetPathState addr c =
     (case addr of
        None \<Rightarrow> (Some NilAddress, c)
      | Some a \<Rightarrow>
          if \<not> qc_alive (ci_conn c) then (Some NoConnection, c)
          else
            let conn = ResetPathState ((ci_conn c)\<lparr>qc_remote := a\<rparr>);
                c = c\<lparr>ci_conn := conn\<rparr>
            in if \<not> qc_alive conn then (Some NoConnection, c)
               else (None, c\<lparr>ci_conn := installCongestionControl (ci_sizes c) (ci_config c) (txRate c) conn\<rparr>))"

definition Current :: "clientImpl \<Rightarrow> netAddr" where "Current c = qc_remote (ci_conn c)"


section \<open>The authentication exchange\<close>

text \<open>
  Both ends together: the request of the client reaches the server through \<open>up\<close>, the response comes back through \<open>down\<close>;
  returned are the client's result and what it closed, and the server's handler.
\<close>

definition deliver_request :: "(header \<Rightarrow> header) \<Rightarrow> http_request \<Rightarrow> http_request" where
  "deliver_request up r = r\<lparr>rq_Header := up (rq_Header r)\<rparr>"

definition exchange where
  "exchange q cfg kps kr krnd s sr srnd up down kconn h =
     (case AuthRequestToHeader no_header \<lparr>rq_Auth = kc_Auth cfg, rq_Rx = bw_MaxRx (kc_BandwidthConfig cfg)\<rparr> kps kr krnd of
        None \<Rightarrow> None
      | Some fs \<Rightarrow>
          (case ServeHTTP s sr srnd (deliver_request up (auth_http_request fs)) h of
             None \<Rightarrow> None
           | Some (resp, h') \<Rightarrow>
               map_option (\<lambda>(res, ev). (res, ev, h'))
                 (connect q cfg kps kr krnd None (\<lambda>_. Inr (resp\<lparr>rs_Header := down (rs_Header resp)\<rparr>, kconn)))))"

text \<open>The rates both ends should settle on: the smaller of what the receiver declares and what the sender may use, 0 standing for no limit.\<close>

definition agreed_rate :: "bool \<Rightarrow> u64 \<Rightarrow> u64 \<Rightarrow> u64" where
  "agreed_rate auto limit wanted = (if auto then 0 else if limit = 0 then wanted else min limit wanted)"

abbreviation scheme_of :: "PaddingScheme option \<Rightarrow> bool" where
  "scheme_of ps \<equiv> (\<exists>hmac seed. ps = Some (NewPaddingScheme hmac seed))"

lemma auth_response_Some:
  assumes "scheme_of (s_padding s)"
  obtains fs where "auth_response s r rnd = Some \<lparr>StatusCode = StatusAuthOK, rs_Header = fs, Body = []\<rparr>"
    "carries down fs \<Longrightarrow> IsAuthResponse (down fs) \<and> AuthResponseFromHeader (down fs) =
       \<lparr>rs_UDPEnabled = \<not> sc_DisableUDP (s_config s),
        rs_Rx = (if sc_IgnoreClientBandwidth (s_config s) then 0 else bw_MaxRx (sc_BandwidthConfig (s_config s))),
        rs_RxAuto = sc_IgnoreClientBandwidth (s_config s)\<rparr>"
proof -
  obtain hmac seed where ps: "s_padding s = None \<or> s_padding s = Some (NewPaddingScheme hmac seed)" using assms by blast
  show ?thesis
    by (rule AuthResponse_roundtrip [OF ps, where h = no_header and r = r and rnd = rnd and net = down
          and resp = "\<lparr>rs_UDPEnabled = \<not> sc_DisableUDP (s_config s), rs_Rx = bw_MaxRx (sc_BandwidthConfig (s_config s)),
                       rs_RxAuto = sc_IgnoreClientBandwidth (s_config s)\<rparr>"])
      (rule that, simp add: auth_response_def, simp split: if_splits)
qed

lemma client_rate_agreed: "client_rate bw r = agreed_rate (rs_RxAuto r) (rs_Rx r) (bw_MaxTx bw)"
  by (auto simp: client_rate_def agreed_rate_def Let_def min_def not_less)

lemma server_control_agreed:
  "fst (server_control s rx conn) = agreed_rate (sc_IgnoreClientBandwidth (s_config s)) (bw_MaxTx (sc_BandwidthConfig (s_config s))) rx"
  by (auto simp: server_control_def agreed_rate_def Let_def min_def not_less word_gt_0)


definition masq_answer :: "serverImpl \<Rightarrow> http_request \<Rightarrow> http_response" where
  "masq_answer s r = (case s_MasqHandler s of Some f \<Rightarrow> f r | None \<Rightarrow> NotFound)"

lemma masqHandler_answer: "masqHandler s r h = (masq_answer s r, h\<lparr>MasqFallback := MasqFallback h + 1\<rparr>)"
  by (simp add: masqHandler_def masq_answer_def)

lemma is_auth_deliver [simp]: "is_auth_request (deliver_request up (auth_http_request fs))"
  by (simp add: is_auth_request_def deliver_request_def auth_http_request_def)

lemma rq_Header_deliver [simp]: "rq_Header (deliver_request up (auth_http_request fs)) = up fs"
  by (simp add: deliver_request_def auth_http_request_def)

lemma auth_request_of:
  assumes "scheme_of ps"
  obtains fs where "AuthRequestToHeader no_header req ps r rnd = Some fs" "carries up fs \<Longrightarrow> AuthRequestFromHeader (up fs) = req"
proof -
  obtain hmac seed where "ps = None \<or> ps = Some (NewPaddingScheme hmac seed)" using assms by blast
  then show ?thesis using AuthRequest_roundtrip that by metis
qed

section \<open>A sample pair of ends\<close>

definition sample_scheme :: "PaddingScheme option" where "sample_scheme = Some (NewPaddingScheme (\<lambda>_ _. []) [])"

definition sample_sizes :: quicSizes where "sample_sizes = \<lparr>InitialPacketSize = 1280, MinInitialPacketSize = 1200\<rparr>"

definition sample_conn :: quicConn where
  "sample_conn = \<lparr>qc_control = RenoSender, qc_remote = UDPAddr ''h:1'', qc_InitialPacketSize = 1280, qc_alive = True, qc_ECHAccepted = False\<rparr>"

definition sample_impl :: serverImpl where
  "sample_impl = \<lparr>s_config = sample_server, s_Authenticate = PasswordAuthenticator_Authenticate ''x'', s_MasqHandler = None,
     s_hasTrafficLogger = True, s_hasEventLogger = False, s_padding = sample_scheme, s_sizes = sample_sizes\<rparr>"

lemma sample_scheme_of [simp]: "scheme_of sample_scheme" "scheme_of (s_padding sample_impl)"
  by (auto simp: sample_scheme_def sample_impl_def)

lemma NotFound_not_auth [simp]: "StatusCode NotFound \<noteq> StatusAuthOK"
  by (simp add: NotFound_def StatusAuthOK_def)

lemma sample_masq [simp]: "masq_answer sample_impl r = NotFound"
  by (simp add: masq_answer_def sample_impl_def)


section \<open>Agreement\<close>

text \<open>
  C2. Both ends agree: when the authenticator accepts the credentials, the client's handshake succeeds, the server has authenticated the connection under the
  identifier the authenticator gave, each end sends at the smaller of its own limit and what the other end declared (none when the server
  ignores the client's bandwidth), the client's controller is built for that rate, and UDP is on at both ends or at none. When the
  credentials are refused, the client reports an authentication error with the masquerade's status and has closed everything it opened, and the server
  has changed nothing but its counters.
\<close>

theorem handshake_agreement:
  assumes ps: "scheme_of kps" "scheme_of (s_padding s)" and net: "\<forall>fs. carries up fs" "\<forall>fs. carries down fs"
    and new: "\<not> authenticated h"
    and auth: "s_Authenticate s (qc_remote (h_conn h)) (kc_Auth cfg) (bw_MaxRx (kc_BandwidthConfig cfg)) = (ok, uid)"
    and masq: "\<forall>r. StatusCode (masq_answer s r) \<noteq> StatusAuthOK \<or> \<not> IsAuthResponse (down (rs_Header (masq_answer s r)))"
    and rates: "toClient = agreed_rate (sc_IgnoreClientBandwidth (s_config s)) (bw_MaxTx (sc_BandwidthConfig (s_config s))) (bw_MaxRx (kc_BandwidthConfig cfg))"
      "toServer = agreed_rate (sc_IgnoreClientBandwidth (s_config s)) (bw_MaxRx (sc_BandwidthConfig (s_config s))) (bw_MaxTx (kc_BandwidthConfig cfg))"
  shows "\<exists>res ev h'. exchange q cfg kps kr krnd s sr srnd up down kconn h = Some (res, ev, h')
    \<and> (if ok then
         authenticated h' \<and> h_authID h' = uid \<and> ev = [CloseBody] \<and> udpStarted h' = (\<not> sc_DisableUDP (s_config s))
         \<and> (toClient > 0 \<longrightarrow> qc_control (h_conn h') = BrutalSender toClient (bw_DisableLossCompensation (sc_BandwidthConfig (s_config s))))
         \<and> (\<exists>info c. res = Inr (info, c) \<and> hi_Tx info = toServer \<and> txRate c = toServer \<and> hi_UDPEnabled info = udpStarted h' \<and> ci_hasUDP c = udpStarted h'
              \<and> ci_conn c = installCongestionControl q cfg toServer kconn)
       else
         (\<exists>r. res = Inl (AuthError (StatusCode (masq_answer s r)))) \<and> ev = [CloseConn closeErrCodeProtocolError, CloseTransport, ClosePacketConn]
         \<and> h' = h\<lparr>MasqAuthFailed := MasqAuthFailed h + 1, MasqFallback := MasqFallback h + 1\<rparr>)"
proof -
  obtain fs where fs: "AuthRequestToHeader no_header \<lparr>rq_Auth = kc_Auth cfg, rq_Rx = bw_MaxRx (kc_BandwidthConfig cfg)\<rparr> kps kr krnd = Some fs"
    "AuthRequestFromHeader (up fs) = \<lparr>rq_Auth = kc_Auth cfg, rq_Rx = bw_MaxRx (kc_BandwidthConfig cfg)\<rparr>"
    using auth_request_of [OF ps(1)] net(1) by metis
  obtain rs where rs: "auth_response s sr srnd = Some \<lparr>StatusCode = StatusAuthOK, rs_Header = rs, Body = []\<rparr>" "IsAuthResponse (down rs)"
    "AuthResponseFromHeader (down rs) =
       \<lparr>rs_UDPEnabled = \<not> sc_DisableUDP (s_config s),
        rs_Rx = (if sc_IgnoreClientBandwidth (s_config s) then 0 else bw_MaxRx (sc_BandwidthConfig (s_config s))),
        rs_RxAuto = sc_IgnoreClientBandwidth (s_config s)\<rparr>"
    using auth_response_Some [OF ps(2)] net(2) by metis
  show ?thesis
  proof (cases ok)
    case True
    obtain tx conn where sc: "server_control s (bw_MaxRx (kc_BandwidthConfig cfg)) (h_conn h) = (tx, conn)" by fastforce
    have tx: "tx = toClient" using server_control_agreed [of s] sc rates(1) by (metis fst_conv)
    have ctrl: "toClient > 0 \<longrightarrow> qc_control conn = BrutalSender toClient (bw_DisableLossCompensation (sc_BandwidthConfig (s_config s)))"
      using sc tx by (auto simp: server_control_def UseBrutal_def Let_def split: if_splits)
    have toS: "client_rate (kc_BandwidthConfig cfg) (AuthResponseFromHeader (down rs)) = toServer"
      by (auto simp: client_rate_agreed rs(3) rates(2) agreed_rate_def)
    show ?thesis
      using True fs rs(1,2) new auth ctrl toS
      by (simp add: exchange_def ServeHTTP_def connect_def sc Let_def rs(3))
  next
    case False
    let ?r = "deliver_request up (auth_http_request fs)"
    have "ServeHTTP s sr srnd ?r h = Some (masq_answer s ?r, h\<lparr>MasqAuthFailed := MasqAuthFailed h + 1, MasqFallback := MasqFallback h + 1\<rparr>)"
      using False new auth fs(2) by (simp add: ServeHTTP_def masqHandler_answer Let_def)
    then show ?thesis using False fs(1) masq by (auto simp: exchange_def connect_def)
  qed
qed


theorem handshake_agreement_witness:
  "\<exists>res ev h'. exchange sample_sizes sample_client sample_scheme 0 (\<lambda>_. 0) sample_impl 0 (\<lambda>_. 0) (\<lambda>fs. fs) (\<lambda>fs. fs) sample_conn (newH3sHandler sample_conn)
       = Some (res, ev, h') \<and> authenticated h' \<and> h_authID h' = ''user'' \<and> qc_control (h_conn h') = BrutalSender 65536 False"
proof -
  have auth: "s_Authenticate sample_impl (qc_remote (h_conn (newH3sHandler sample_conn))) (kc_Auth sample_client)
    (bw_MaxRx (kc_BandwidthConfig sample_client)) = (True, ''user'')"
    by (simp add: sample_impl_def sample_client_def PasswordAuthenticator_Authenticate_def)
  have rate: "agreed_rate (sc_IgnoreClientBandwidth (s_config sample_impl)) (bw_MaxTx (sc_BandwidthConfig (s_config sample_impl)))
    (bw_MaxRx (kc_BandwidthConfig sample_client)) = 65536"
    "bw_DisableLossCompensation (sc_BandwidthConfig (s_config sample_impl)) = False"
    by (simp_all add: agreed_rate_def sample_impl_def sample_server_def sample_client_def)
  have "\<not> authenticated (newH3sHandler sample_conn)" by (simp add: newH3sHandler_def)
  from handshake_agreement [OF sample_scheme_of _ _ this auth _ refl refl, where q = sample_sizes and kr = 0 and krnd = "\<lambda>_. 0" and sr = 0
      and srnd = "\<lambda>_. 0" and up = "\<lambda>fs. fs" and down = "\<lambda>fs. fs" and kconn = sample_conn]
  show ?thesis unfolding rate if_True by (simp only: carries_refl sample_masq NotFound_not_auth) auto
qed


section \<open>Without credentials there is only the masquerade\<close>

fun serve_all :: "serverImpl \<Rightarrow> (u32 \<times> (nat \<Rightarrow> u8) \<times> http_request) list \<Rightarrow> h3sHandler \<Rightarrow> (http_response list \<times> h3sHandler) option" where
  "serve_all s [] h = Some ([], h)"
| "serve_all s ((r32, rnd, r) # rs) h =
     (case ServeHTTP s r32 rnd r h of
        None \<Rightarrow> None
      | Some (resp, h') \<Rightarrow> map_option (\<lambda>(resps, h''). (resp # resps, h'')) (serve_all s rs h'))"

definition refused :: "serverImpl \<Rightarrow> netAddr \<Rightarrow> http_request \<Rightarrow> bool" where
  "refused s a r \<longleftrightarrow>
     (let q = AuthRequestFromHeader (rq_Header r) in \<not> is_auth_request r \<or> \<not> fst (s_Authenticate s a (rq_Auth q) (rq_Rx q)))"

lemma ServeHTTP_refused:
  assumes "refused s (qc_remote (h_conn h)) r" and "\<not> authenticated h"
  shows "ServeHTTP s r32 rnd r h = Some (masq_answer s r,
    h\<lparr>MasqFallback := MasqFallback h + 1, MasqAuthFailed := MasqAuthFailed h + (if is_auth_request r then 1 else 0)\<rparr>)"
  using assms by (cases "is_auth_request r")
    (auto simp: ServeHTTP_def refused_def masqHandler_answer Let_def split: prod.splits)

text \<open>
  C3. Without accepted credentials there is only the masquerade: whatever requests arrive on a connection, in whatever number, as long as the authenticator
  refuses each attempt every answer is the answer of the masquerade handler - the same for a failed attempt as for a stray request - no
  stream is taken for proxying, UDP is not started, the connection is untouched, and the two counters count exactly these requests.
\<close>

theorem only_masquerade:
  assumes "\<not> authenticated h" and "list_all (\<lambda>(_, _, r). refused s (qc_remote (h_conn h)) r) rs"
  shows "\<exists>h'. serve_all s rs h = Some (map (\<lambda>(_, _, r). masq_answer s r) rs, h')
    \<and> (\<forall>ft stream err. ProxyStreamHijacker qread ft stream err h' = ((False, None), None))
    \<and> h' = h\<lparr>MasqFallback := MasqFallback h + of_nat (length rs),
             MasqAuthFailed := MasqAuthFailed h + of_nat (length (filter (\<lambda>(_, _, r). is_auth_request r) rs))\<rparr>"
  using assms
proof (induction rs arbitrary: h)
  case (Cons x rs)
  obtain r32 rnd r where x: "x = (r32, rnd, r)" by (cases x)
  let ?h = "h\<lparr>MasqFallback := MasqFallback h + 1, MasqAuthFailed := MasqAuthFailed h + (if is_auth_request r then 1 else 0)\<rparr>"
  have "ServeHTTP s r32 rnd r h = Some (masq_answer s r, ?h)" using Cons.prems ServeHTTP_refused by (simp add: x)
  then show ?case using Cons.IH [of ?h] Cons.prems by (auto simp: x algebra_simps)
qed (simp add: ProxyStreamHijacker_def)


theorem only_masquerade_witness:
  "let fs = h_Set no_header RequestHeaderAuth ''y''; r = \<lparr>Method = ''GET'', Host = ''h'', URL_Path = ''/'', rq_Header = no_header\<rparr>;
       rs = [(0, \<lambda>_. 0, auth_http_request fs), (0, \<lambda>_. 0, r)]
   in \<exists>h'. serve_all sample_impl rs (newH3sHandler sample_conn) = Some ([NotFound, NotFound], h') \<and> MasqFallback h' = 2 \<and> MasqAuthFailed h' = 1
      \<and> ProxyStreamHijacker rfc9000_read FrameTypeTCPRequest [] None h' = ((False, None), None)"
proof -
  define fs where "fs = h_Set no_header RequestHeaderAuth ''y''"
  define r where "r = \<lparr>Method = ''GET'', Host = ''h'', URL_Path = ''/'', rq_Header = no_header\<rparr>"
  have "refused sample_impl a (auth_http_request fs)" "refused sample_impl a r" "is_auth_request (auth_http_request fs)" "\<not> is_auth_request r" for a
    by (simp_all add: refused_def is_auth_request_def auth_http_request_def fs_def r_def sample_impl_def PasswordAuthenticator_Authenticate_def
        AuthRequestFromHeader_def h_Get_Set Let_def split: prod.splits)
  then show ?thesis
    using only_masquerade [of "newH3sHandler sample_conn" sample_impl "[(0, \<lambda>_. 0, auth_http_request fs), (0, \<lambda>_. 0, r)]" rfc9000_read]
    unfolding Let_def fs_def [symmetric] r_def [symmetric] by (simp add: newH3sHandler_def)
qed


section \<open>Proxied TCP connections\<close>

definition responses :: "tcp_event list \<Rightarrow> bytes" where
  "responses ev = concat (map (\<lambda>e. case e of Respond b \<Rightarrow> b | _ \<Rightarrow> []) ev)"

definition dials :: "tcp_event list \<Rightarrow> string list" where
  "dials ev = concat (map (\<lambda>e. case e of Dial a \<Rightarrow> [a] | _ \<Rightarrow> []) ev)"

lemma client_TCP_reply:
  assumes "ReadTCPResponse qread reply = Inr (ok, msg, rest)" and "WriteTCPRequest qlen addr (ci_padding c) r rnd = Some out"
  shows "\<exists>res closed. client_TCP qlen qread c r rnd None None reply addr = Some (res, out, closed)
    \<and> (if ok then \<exists>t. res = Inr t \<and> (\<forall>n. \<exists>t'. tcp_Read qread n t = Inr (take n rest, t') \<and> Established t' \<and> tc_Orig t' = drop n rest)
       else if kc_FastOpen (ci_config c) then \<exists>t. res = Inr t \<and> (\<forall>n. tcp_Read qread n t = Inl (DialError msg))
       else res = Inl (DialError msg) \<and> closed)"
  using assms by (auto simp: client_TCP_def tcp_Read_def)





section \<open>Switching to another server address\<close>

definition negotiated :: "clientImpl \<Rightarrow> bool" where
  "negotiated c =
     (let cfg = ci_config c in
      case qc_control (ci_conn c) of
        BrutalSender rate d \<Rightarrow> rate > 0 \<and> rate = txRate c \<and> d = bw_DisableLossCompensation (kc_BandwidthConfig cfg)
      | RenoSender \<Rightarrow> txRate c = 0 \<and> cc_Type (kc_CongestionConfig cfg) = TypeReno
      | BbrSender _ p \<Rightarrow> txRate c = 0 \<and> cc_Type (kc_CongestionConfig cfg) \<noteq> TypeReno \<and> p = cc_BBRProfile (kc_CongestionConfig cfg))"

text \<open>What happens to a connection: switches, the peer's address changing by itself, and its end.\<close>

datatype path_event = SwitchAddr "netAddr option" | PeerMoves netAddr | Dies

definition path_step :: "(quicConn \<Rightarrow> quicConn) \<Rightarrow> path_event \<Rightarrow> clientImpl \<Rightarrow> clientImpl" where
  "path_step reset e c =
     (case e of
        SwitchAddr a \<Rightarrow> snd (SwitchTo reset a c)
      | PeerMoves a \<Rightarrow> c\<lparr>ci_conn := (ci_conn c)\<lparr>qc_remote := a\<rparr>\<rparr>
      | Dies \<Rightarrow> c\<lparr>ci_conn := (ci_conn c)\<lparr>qc_alive := False\<rparr>\<rparr>)"

lemma install_negotiated:
  assumes "qc_control conn = RenoSender" and "ci_conn c = installCongestionControl q (ci_config c) (txRate c) conn"
  shows "negotiated c"
  using assms by (auto simp: negotiated_def installCongestionControl_def UseBrutal_def UseConfigured_def UseBBR_def Let_def word_gt_0)

lemma install_keeps [simp]:
  "qc_alive (installCongestionControl q cfg rate conn) = qc_alive conn" "qc_remote (installCongestionControl q cfg rate conn) = qc_remote conn"
  by (simp_all add: installCongestionControl_def UseBrutal_def UseConfigured_def UseBBR_def)

lemma SwitchTo_ok:
  assumes reset: "\<forall>conn. qc_alive (reset conn) \<longrightarrow> qc_control (reset conn) = RenoSender \<and> qc_remote (reset conn) = qc_remote conn"
    and c: "qc_alive (ci_conn c) \<longrightarrow> negotiated c" and sw: "SwitchTo reset a c = (err, c')"
  shows "(qc_alive (ci_conn c') \<longrightarrow> negotiated c') \<and> txRate c' = txRate c \<and> (err = None \<longrightarrow> qc_alive (ci_conn c') \<and> a = Some (Current c'))
    \<and> (\<not> qc_alive (ci_conn c) \<longrightarrow> err \<noteq> None)"
proof (cases a)
  case (Some b)
  let ?conn = "reset ((ci_conn c)\<lparr>qc_remote := b\<rparr>)"
  show ?thesis
  proof (cases "qc_alive (ci_conn c) \<and> qc_alive ?conn")
    case True
    then have r: "qc_control ?conn = RenoSender" "qc_remote ?conn = b" using reset by simp_all
    have "err = None" and c': "c' = c\<lparr>ci_conn := installCongestionControl (ci_sizes c) (ci_config c) (txRate c) ?conn\<rparr>"
      using sw True Some by (simp_all add: SwitchTo_def Let_def)
    moreover have "negotiated c'" by (rule install_negotiated [OF r(1)]) (simp add: c')
    ultimately show ?thesis using True Some r(2) by (simp add: Current_def)
  qed (use sw Some c in \<open>auto simp: SwitchTo_def Let_def split: if_splits\<close>)
qed (use sw c in \<open>auto simp: SwitchTo_def\<close>)

lemma path_step_ok:
  assumes "\<forall>conn. qc_alive (reset conn) \<longrightarrow> qc_control (reset conn) = RenoSender \<and> qc_remote (reset conn) = qc_remote conn"
    and "qc_alive (ci_conn c) \<longrightarrow> negotiated c"
  shows "(qc_alive (ci_conn (path_step reset e c)) \<longrightarrow> negotiated (path_step reset e c)) \<and> txRate (path_step reset e c) = txRate c"
proof (cases e)
  case (SwitchAddr a)
  then show ?thesis using SwitchTo_ok [OF assms, of a] by (cases "SwitchTo reset a c") (simp add: path_step_def)
qed (use assms(2) in \<open>auto simp: path_step_def negotiated_def Let_def split: controller.splits\<close>)

lemma path_run_ok:
  assumes "\<forall>conn. qc_alive (reset conn) \<longrightarrow> qc_control (reset conn) = RenoSender \<and> qc_remote (reset conn) = qc_remote conn"
  shows "qc_alive (ci_conn c) \<longrightarrow> negotiated c \<Longrightarrow>
    (qc_alive (ci_conn (fold (path_step reset) es c)) \<longrightarrow> negotiated (fold (path_step reset) es c)) \<and> txRate (fold (path_step reset) es c) = txRate c"
proof (induction es arbitrary: c)
  case (Cons e es)
  then show ?case using path_step_ok [OF assms Cons.prems, of e] by simp
qed simp

text \<open>
  C13. A switch keeps the negotiated controller: from the handshake on, through any sequence of switches, moves of the peer and the end of the connection, a
  live connection runs the congestion controller the handshake settled on, although every switch resets the connection to the
  library's default; a switch that reports success leaves the connection alive and on the requested address, and a switch on a
  dead connection never reports success.
\<close>

theorem switch_keeps_controller:
  assumes reset: "\<forall>conn. qc_alive (reset conn) \<longrightarrow> qc_control (reset conn) = RenoSender \<and> qc_remote (reset conn) = qc_remote conn"
    and up: "connect q cfg ps r rnd None (\<lambda>_. Inr (resp, conn)) = Some (Inr (info, c0), ev)" and fresh: "qc_control conn = RenoSender"
    and c: "c = fold (path_step reset) es c0" and sw: "SwitchTo reset a c = (err, c')"
  shows "(qc_alive (ci_conn c) \<longrightarrow> negotiated c) \<and> (qc_alive (ci_conn c') \<longrightarrow> negotiated c') \<and> txRate c' = hi_Tx info
    \<and> (err = None \<longrightarrow> qc_alive (ci_conn c') \<and> a = Some (Current c')) \<and> (\<not> qc_alive (ci_conn c) \<longrightarrow> err \<noteq> None)"
proof -
  have c0: "ci_conn c0 = installCongestionControl q (ci_config c0) (txRate c0) conn" "txRate c0 = hi_Tx info"
    using up by (auto simp: connect_def Let_def split: option.splits if_splits)
  have "negotiated c0" by (rule install_negotiated [OF fresh c0(1)])
  then have run: "qc_alive (ci_conn c) \<longrightarrow> negotiated c" "txRate c = hi_Tx info" using path_run_ok [OF reset, of c0 es] c0(2) by (simp_all add: c)
  show ?thesis using SwitchTo_ok [OF reset run(1) sw] run by simp
qed

theorem switch_keeps_controller_witness:
  "let reset = (\<lambda>conn. conn\<lparr>qc_control := RenoSender\<rparr>); hdr = h_Set (h_Set no_header ResponseHeaderUDPEnabled ''true'') CommonHeaderCCRX ''90000'';
       cfg = sample_client\<lparr>kc_BandwidthConfig := \<lparr>bw_MaxTx = 80000, bw_MaxRx = 0, bw_DisableLossCompensation = True\<rparr>\<rparr>
   in \<exists>info c0 ev. connect sample_sizes cfg sample_scheme 0 (\<lambda>_. 0) None
         (\<lambda>_. Inr (\<lparr>StatusCode = 200, rs_Header = hdr, Body = []\<rparr>, sample_conn)) = Some (Inr (info, c0), ev)
      \<and> negotiated (fold (path_step reset) [PeerMoves (UDPAddr ''p:2''), SwitchAddr (Some (UDPAddr ''q:3''))] c0)"
proof -
  define reset :: "quicConn \<Rightarrow> quicConn" where "reset = (\<lambda>conn. conn\<lparr>qc_control := RenoSender\<rparr>)"
  define resp where "resp = \<lparr>StatusCode = 200, rs_Header = h_Set (h_Set no_header ResponseHeaderUDPEnabled ''true'') CommonHeaderCCRX ''90000'', Body = []\<rparr>"
  define cfg where "cfg = sample_client\<lparr>kc_BandwidthConfig := \<lparr>bw_MaxTx = 80000, bw_MaxRx = 0, bw_DisableLossCompensation = True\<rparr>\<rparr>"
  obtain fs where fs: "AuthRequestToHeader no_header \<lparr>rq_Auth = kc_Auth cfg, rq_Rx = bw_MaxRx (kc_BandwidthConfig cfg)\<rparr> sample_scheme 0 (\<lambda>_. 0) = Some fs"
    using auth_request_of [OF sample_scheme_of(1)] by metis
  have "IsAuthResponse (rs_Header resp)" "StatusCode resp = StatusAuthOK"
    by (simp_all add: IsAuthResponse_def resp_def h_Get_Set StatusAuthOK_def)
  then obtain info c0 ev where up: "connect sample_sizes cfg sample_scheme 0 (\<lambda>_. 0) None (\<lambda>_. Inr (resp, sample_conn)) = Some (Inr (info, c0), ev)"
    and alive: "qc_alive (ci_conn c0)"
    using fs by (simp add: connect_def Let_def sample_conn_def)
  let ?es = "[PeerMoves (UDPAddr ''p:2''), SwitchAddr (Some (UDPAddr ''q:3''))]"
  have "qc_alive (ci_conn (fold (path_step reset) ?es c0))" using alive by (simp add: path_step_def SwitchTo_def reset_def Let_def)
  moreover have r: "\<forall>conn. qc_alive (reset conn) \<longrightarrow> qc_control (reset conn) = RenoSender \<and> qc_remote (reset conn) = qc_remote conn"
    by (simp add: reset_def)
  moreover have "qc_control sample_conn = RenoSender" by (simp add: sample_conn_def)
  moreover obtain err c' where "SwitchTo reset None (fold (path_step reset) ?es c0) = (err, c')" by fastforce
  ultimately have "negotiated (fold (path_step reset) ?es c0)"
    using switch_keeps_controller [OF r up _ refl] by blast
  then show ?thesis unfolding Let_def reset_def [symmetric] cfg_def [symmetric] resp_def [symmetric] using up by blast
qed

end
