(* ===== verification/Reconnect.thy ===== *)
theory Reconnect
  imports Handshake
begin

text \<open>
  The client that reconnects by itself (\<open>core/client/reconnect.go\<close>). Clients are numbered in the order they are made. Every section the source
  runs under its mutex is one definition; concurrent calls are the interleavings of these sections. What a configuration function, a
  connection attempt or a call on a client returns is an argument. \<open>reported\<close> and \<open>shut\<close> record the clients a call has reported
  closed and those on which \<open>Close\<close> was called.
\<close>

section \<open>Definitions\<close>

record reconnectableClientImpl =
  rc_client :: "nat option"
  rc_count :: nat
  rc_closed :: bool
  made :: nat
  reported :: "nat set"
  shut :: "nat set"

definition rc_init :: reconnectableClientImpl where
  "rc_init = \<lparr>rc_client = None, rc_count = 0, rc_closed = False, made = 0, reported = {}, shut = {}\<rparr>"

text \<open>
  What a connection attempt meets: an error of the configuration function, an error of \<open>NewClient\<close>, or success.
\<close>

datatype attempt = ConfigFails client_error | DialFails client_error | Connects

definition reconnect :: "attempt \<Rightarrow> reconnectableClientImpl \<Rightarrow> client_error option \<times> reconnectableClientImpl" where
  "reconnect at rc =
     (let rc = (case rc_client rc of None \<Rightarrow> rc | Some k \<Rightarrow> rc\<lparr>shut := insert k (shut rc)\<rparr>)
      in case at of
           ConfigFails e \<Rightarrow> (Some e, rc)
         | DialFails e \<Rightarrow> (Some e, rc\<lparr>rc_client := None\<rparr>)
         | Connects \<Rightarrow> (None, rc\<lparr>rc_client := Some (made rc), made := made rc + 1, rc_count := rc_count rc + 1\<rparr>))"

definition NewReconnectableClient :: "bool \<Rightarrow> attempt \<Rightarrow> client_error + reconnectableClientImpl" where
  "NewReconnectableClient lazy at =
     (if lazy then Inr rc_init
      else case reconnect at rc_init of (Some e, _) \<Rightarrow> Inl e | (None, rc) \<Rightarrow> Inr rc)"

text \<open>The first locked section of \<open>clientDo\<close>: the client to call, or the error it returns.\<close>

definition clientDo_enter :: "attempt \<Rightarrow> reconnectableClientImpl \<Rightarrow> (client_error + nat) \<times> reconnectableClientImpl" where
  "clientDo_enter at rc =
     (if rc_closed rc then (Inl (ClosedError None), rc)
      else case rc_client rc of
             Some k \<Rightarrow> (Inr k, rc)
           | None \<Rightarrow>
               (case reconnect at rc of
                  (Some e, rc) \<Rightarrow> (Inl e, rc)
                | (None, rc) \<Rightarrow> (case rc_client rc of Some k \<Rightarrow> (Inr k, rc) | None \<Rightarrow> (Inl NoConnection, rc))))"

text \<open>The second one, after the call has failed because the connection is closed.\<close>

definition clientDo_closed :: "nat \<Rightarrow> reconnectableClientImpl \<Rightarrow> reconnectableClientImpl" where
  "clientDo_closed k rc = (if rc_client rc = Some k then rc\<lparr>rc_client := None\<rparr> else rc)"

definition rc_Close :: "reconnectableClientImpl \<Rightarrow> reconnectableClientImpl" where
  "rc_Close rc =
     (let rc = rc\<lparr>rc_closed := True\<rparr>
      in case rc_client rc of None \<Rightarrow> rc | Some k \<Rightarrow> rc\<lparr>shut := insert k (shut rc)\<rparr>)"

text \<open>\<open>PathStats\<close>, \<open>SwitchTo\<close> and \<open>Current\<close> use the current client if there is one, and never connect.\<close>

definition rc_SwitchTo :: "(nat \<Rightarrow> clientImpl) \<Rightarrow> (quicConn \<Rightarrow> quicConn) \<Rightarrow> netAddr option \<Rightarrow> reconnectableClientImpl \<Rightarrow> client_error option" where
  "rc_SwitchTo impl reset addr rc =
     (case rc_client rc of None \<Rightarrow> Some NoConnection | Some k \<Rightarrow> fst (SwitchTo reset addr (impl k)))"

definition rc_Current :: "(nat \<Rightarrow> clientImpl) \<Rightarrow> reconnectableClientImpl \<Rightarrow> netAddr option" where
  "rc_Current impl rc = map_option (\<lambda>k. Current (impl k)) (rc_client rc)"

definition rc_PathStats :: "(nat \<Rightarrow> 's) \<Rightarrow> 's \<Rightarrow> reconnectableClientImpl \<Rightarrow> 's \<times> bool" where
  "rc_PathStats stats zero rc = (case rc_client rc of None \<Rightarrow> (zero, False) | Some k \<Rightarrow> (stats k, True))"


section \<open>Concurrent calls\<close>

text \<open>
  Goroutine \<open>i\<close> is idle, uses a client outside the lock, has to report a client closed, or has returned. A call may return any
  result; only a closed error makes the goroutine report.
\<close>

datatype phase = Idle | Uses nat | Reports nat | Returned

record rc_system =
  rs_rc :: reconnectableClientImpl
  rs_phase :: "nat \<Rightarrow> phase"

inductive rc_step :: "rc_system \<Rightarrow> rc_system \<Rightarrow> bool" where
  Enter: "rs_phase s i = Idle \<Longrightarrow> clientDo_enter at (rs_rc s) = (Inr k, rc) \<Longrightarrow>
    rc_step s (s\<lparr>rs_rc := rc, rs_phase := (rs_phase s)(i := Uses k)\<rparr>)"
| EnterFails: "rs_phase s i = Idle \<Longrightarrow> clientDo_enter at (rs_rc s) = (Inl e, rc) \<Longrightarrow>
    rc_step s (s\<lparr>rs_rc := rc, rs_phase := (rs_phase s)(i := Returned)\<rparr>)"
| CallReturns: "rs_phase s i = Uses k \<Longrightarrow> rc_step s (s\<lparr>rs_phase := (rs_phase s)(i := Returned)\<rparr>)"
| CallClosed: "rs_phase s i = Uses k \<Longrightarrow>
    rc_step s (s\<lparr>rs_rc := (rs_rc s)\<lparr>reported := insert k (reported (rs_rc s))\<rparr>, rs_phase := (rs_phase s)(i := Reports k)\<rparr>)"
| Report: "rs_phase s i = Reports k \<Longrightarrow>
    rc_step s (s\<lparr>rs_rc := clientDo_closed k (rs_rc s), rs_phase := (rs_phase s)(i := Returned)\<rparr>)"
| CloseCall: "rc_step s (s\<lparr>rs_rc := rc_Close (rs_rc s)\<rparr>)"
| NewCall: "rs_phase s i = Returned \<Longrightarrow> rc_step s (s\<lparr>rs_phase := (rs_phase s)(i := Idle)\<rparr>)"

inductive_cases rc_stepE: "rc_step s s'"

definition rc_start :: "reconnectableClientImpl \<Rightarrow> rc_system" where
  "rc_start rc = \<lparr>rs_rc = rc, rs_phase = (\<lambda>_. Idle)\<rparr>"

definition rc_ok :: "rc_system \<Rightarrow> bool" where
  "rc_ok s \<longleftrightarrow>
     (let rc = rs_rc s in
        rc_count rc = made rc \<and> (\<forall>k. rc_client rc = Some k \<longrightarrow> k < made rc)
      \<and> (\<forall>k < made rc. rc_client rc \<noteq> Some k \<longrightarrow> k \<in> reported rc)
      \<and> (\<forall>i k. rs_phase s i = Uses k \<or> rs_phase s i = Reports k \<longrightarrow> k < made rc)
      \<and> (\<forall>i k. rs_phase s i = Reports k \<longrightarrow> k \<in> reported rc)
      \<and> (rc_closed rc \<longrightarrow> (\<forall>k < made rc. k \<in> shut rc \<union> reported rc)) \<and> shut rc \<subseteq> {k. rc_closed rc \<and> k < made rc})"

lemma rc_okI:
  assumes "rc_count (rs_rc s) = made (rs_rc s)" and "\<And>k. rc_client (rs_rc s) = Some k \<Longrightarrow> k < made (rs_rc s)"
    and "\<And>k. k < made (rs_rc s) \<Longrightarrow> rc_client (rs_rc s) \<noteq> Some k \<Longrightarrow> k \<in> reported (rs_rc s)"
    and "\<And>i k. rs_phase s i = Uses k \<or> rs_phase s i = Reports k \<Longrightarrow> k < made (rs_rc s)"
    and "\<And>i k. rs_phase s i = Reports k \<Longrightarrow> k \<in> reported (rs_rc s)"
    and "\<And>k. rc_closed (rs_rc s) \<Longrightarrow> k < made (rs_rc s) \<Longrightarrow> k \<in> shut (rs_rc s) \<union> reported (rs_rc s)"
    and "\<And>k. k \<in> shut (rs_rc s) \<Longrightarrow> rc_closed (rs_rc s) \<and> k < made (rs_rc s)"
  shows "rc_ok s"
proof -
  have "\<forall>i k. rs_phase s i = Uses k \<or> rs_phase s i = Reports k \<longrightarrow> k < made (rs_rc s)" using assms(4) by blast
  then show ?thesis using assms(1-3,5-7) by (simp add: rc_ok_def Let_def subset_iff)
qed

lemma enter_cases:
  assumes "clientDo_enter at rc = (r, rc')"
  obtains (refused) e where "r = Inl e" "rc' = rc"
  | (known) k where "r = Inr k" "rc' = rc" "rc_client rc = Some k" "\<not> rc_closed rc"
  | (fresh) "r = Inr (made rc)" "rc_client rc = None" "\<not> rc_closed rc"
      "rc' = rc\<lparr>rc_client := Some (made rc), made := made rc + 1, rc_count := rc_count rc + 1\<rparr>"
proof (cases "rc_closed rc")
  case True
  then show ?thesis using assms refused by (auto simp: clientDo_enter_def)
next
  case False
  show ?thesis
  proof (cases "rc_client rc")
    case (Some k)
    then show ?thesis using assms False known by (auto simp: clientDo_enter_def)
  next
    case None
    show ?thesis
    proof (cases at)
      case Connects
      then show ?thesis using assms False None fresh by (auto simp: clientDo_enter_def reconnect_def)
    qed (use assms False None refused in \<open>auto simp: clientDo_enter_def reconnect_def\<close>)
  qed
qed


lemma rc_okD:
  assumes "rc_ok s"
  shows "rc_count (rs_rc s) = made (rs_rc s)" "\<And>k. rc_client (rs_rc s) = Some k \<Longrightarrow> k < made (rs_rc s)"
    "\<And>k. k < made (rs_rc s) \<Longrightarrow> rc_client (rs_rc s) \<noteq> Some k \<Longrightarrow> k \<in> reported (rs_rc s)"
    "\<And>i k. rs_phase s i = Uses k \<or> rs_phase s i = Reports k \<Longrightarrow> k < made (rs_rc s)"
    "\<And>i k. rs_phase s i = Reports k \<Longrightarrow> k \<in> reported (rs_rc s)"
    "\<And>k. rc_closed (rs_rc s) \<Longrightarrow> k < made (rs_rc s) \<Longrightarrow> k \<in> shut (rs_rc s) \<union> reported (rs_rc s)"
    "\<And>k. k \<in> shut (rs_rc s) \<Longrightarrow> rc_closed (rs_rc s) \<and> k < made (rs_rc s)"
  using assms unfolding rc_ok_def Let_def by blast+

lemma enter_ok:
  assumes ok: "rc_ok s" and en: "clientDo_enter at (rs_rc s) = (r, rc)" and p: "p = (case r of Inl _ \<Rightarrow> Returned | Inr k \<Rightarrow> Uses k)"
  shows "rc_ok (s\<lparr>rs_rc := rc, rs_phase := (rs_phase s)(i := p)\<rparr>)"
  using en
proof (cases rule: enter_cases)
  case fresh
  show ?thesis
    by (rule rc_okI) (use rc_okD [OF ok] fresh p in \<open>auto simp: less_Suc_eq split: if_splits\<close>)
qed (use ok p in \<open>auto simp: rc_ok_def Let_def\<close>)

lemma rc_step_ok: "rc_step s s' \<Longrightarrow> rc_ok s \<Longrightarrow> rc_ok s'"
proof (induction rule: rc_step.induct)
  case (Enter s i at k rc)
  then show ?case using enter_ok [of s at "Inr k" rc "Uses k" i] by simp
next
  case (EnterFails s i at e rc)
  then show ?case using enter_ok [of s at "Inl e" rc Returned i] by simp
next
  case (CallReturns s i k)
  then show ?case by (auto simp: rc_ok_def Let_def)
next
  case (CallClosed s i k)
  show ?case by (rule rc_okI) (use rc_okD [OF CallClosed(2)] CallClosed(1) in \<open>auto split: if_splits\<close>)
next
  case (Report s i k)
  have "k \<in> reported (rs_rc s)" using rc_okD(5) [OF Report(2) Report(1)] .
  then have "j \<in> reported (rs_rc s)" if "rc_client (rs_rc s) = Some k" "j < made (rs_rc s)" for j
    using rc_okD(3) [OF Report(2) that(2)] that(1) by (cases "j = k") simp_all
  then show ?case by (intro rc_okI) (use rc_okD [OF Report(2)] in \<open>auto simp: clientDo_closed_def split: if_splits\<close>)
next
  case (CloseCall s)
  show ?case by (rule rc_okI) (use rc_okD [OF CloseCall] in \<open>auto simp: rc_Close_def Let_def split: option.splits\<close>)
next
  case (NewCall s i)
  then show ?case by (auto simp: rc_ok_def Let_def)
qed

lemma rc_steps_ok: "rc_step\<^sup>*\<^sup>* s s' \<Longrightarrow> rc_ok s \<Longrightarrow> rc_ok s'"
  by (induction rule: rtranclp_induct) (auto intro: rc_step_ok)

lemma NewReconnectableClient_ok: "NewReconnectableClient lazy at = Inr rc \<Longrightarrow> rc_ok (rc_start rc)"
  by (cases at) (auto simp: NewReconnectableClient_def reconnect_def rc_init_def rc_start_def rc_ok_def Let_def split: if_splits)

text \<open>Once closed, a client stays closed and makes no connection.\<close>

lemma rc_step_closed: "rc_step s s' \<Longrightarrow> rc_closed (rs_rc s) \<Longrightarrow> rc_closed (rs_rc s') \<and> made (rs_rc s') = made (rs_rc s)"
  by (induction rule: rc_step.induct)
    (auto simp: clientDo_enter_def clientDo_closed_def rc_Close_def Let_def split: option.splits if_splits)

lemma rc_steps_closed: "rc_step\<^sup>*\<^sup>* s s' \<Longrightarrow> rc_closed (rs_rc s) \<Longrightarrow> rc_closed (rs_rc s') \<and> made (rs_rc s') = made (rs_rc s)"
  by (induction rule: rtranclp_induct) (auto dest: rc_step_closed)


section \<open>Property\<close>



end
