(* ===== verification/Spec2Isabelle.thy ===== *)
theory Spec2Isabelle
  imports Timesource Disco_Demux Punch_Conn Brutal Bbr_Sender Client_Udp Selector Gecko Udp_Hop Acl Reconnect
begin

text \<open>
  \<^bold>\<open>Chameleon: a verification library\<close>

  Chameleon is a proxy over QUIC that looks like an ordinary web server to those who hold no credentials. This library models its core in HOL,
  definition by definition from the Go sources, and proves what makes it correct. Each theory opens with what it holds; this is the map of the whole.

  \<^bold>\<open>The program.\<close> A client (\<open>core/client\<close>) opens a QUIC connection, authenticates with one HTTP/3 request and then multiplexes TCP
  connections (streams) and UDP sessions (datagrams) over it. The server (\<open>core/server\<close>) answers everything else like the web server it pretends to
  be, and reaches the targets through an outbound chosen by access rules (\<open>extras/outbounds/acl\<close>). Below QUIC, packets may be obfuscated
  (\<open>extras/obfs\<close>) and hop between ports (\<open>extras/transport/udphop\<close>). Congestion control is Brutal or BBR
  (\<open>core/internal/congestion\<close>). A selector (\<open>core/selector\<close>) moves a silent connection to another server address. A server
  behind a NAT is reached by punching a hole (\<open>extras/realm\<close>), after which probes hidden among the QUIC packets keep track of the paths.

  \<^bold>\<open>How the model is built.\<close> A struct is a \<open>record\<close>, an enumeration a \<open>datatype\<close>, a fixed-width integer that can wrap a word; sizes, byte counts and times
  whose 64 bits cannot be exhausted are integers. A panic is \<open>None\<close>, an error \<open>Inl\<close>. Random numbers, clocks, the iteration order of Go's
  maps, and code outside the repository - QUIC, HTTP/3, hash and cipher primitives, DNS, the sockets - are arguments; what the proofs need of them
  is a hypothesis or a locale's assumption (named below), interpreted on the
  model's own definitions. Locked sections that goroutines interleave are one definition each, and the interleavings a step relation
  (\<open>server_step\<close>, \<open>hop_step\<close>, \<open>rc_step\<close>, \<open>disco_step\<close>) whose reachable states satisfy an invariant.

  \<^bold>\<open>Theories, the code they model, and what they show.\<close>
  \<^item> \<open>Prelude\<close>: bytes, buffers, big-endian integers, 64-bit wrap-around and maps as association lists.
  \<^item> \<open>Go_Strings\<close> (packages \<open>strings\<close> and \<open>strconv\<close>): splitting, trimming, numbers and their text.
  \<^item> \<open>Netip\<close> (package \<open>net/netip\<close>): addresses, their classes, order and text.
  \<^item> \<open>Padding\<close> (\<open>core/internal/protocol/padding.go\<close>): schemes derived from the pre-shared seed stay within the limits
    a peer accepts.
  \<^item> \<open>Wire\<close> (\<open>core/internal/protocol/proxy.go\<close>): TCP requests and responses and UDP messages: what is written is read
    back, whatever the padding; the varints of the QUIC library are the locale \<open>quic_varint\<close>.
  \<^item> \<open>Frag\<close> (\<open>core/internal/frag\<close>): fragments in any order give the message; the reassembly is bounded whatever
    arrives; where cutting panics.
  \<^item> \<open>Selector\<close> (\<open>core/selector\<close>, \<open>core/pathstats\<close>): switches are ordered on silence only, to untried
    candidates, finitely often on a connection that stays put.
  \<^item> \<open>Server_Udp\<close> (\<open>core/server/udp.go\<close>): sessions as a step relation: life cycle, policy, bounds, cleanup.
  \<^item> \<open>Client_Udp\<close> (\<open>core/client/udp.go\<close>): sessions as a step relation, and the end-to-end path of a fragmented
    datagram.
  \<^item> \<open>Auth_Header, Core_Config, Authenticators\<close> (\<open>core/internal/protocol/http.go\<close>,
    \<open>core/client/config.go\<close>, \<open>core/server/config.go\<close>, \<open>core/internal/congestion/utils.go\<close>,
    \<open>extras/auth\<close>): headers carry what they encode; accepted configurations are in range and stable; credentials.
  \<^item> \<open>Handshake\<close> (\<open>core/server/server.go\<close>, \<open>core/server/copy.go\<close>, \<open>core/client/client.go\<close>,
    \<open>core/client/path.go\<close>): both ends agree after authentication; without it the server is a web server; TCP requests end to end; path
    switches keep the negotiated controller.
  \<^item> \<open>Reconnect\<close> (\<open>core/client/reconnect.go\<close>): the reconnecting client as a step relation.
  \<^item> \<open>Aead\<close> (golang.org/x/crypto \<open>chacha20poly1305\<close>): what the proofs use of a cipher is the locale
    \<open>aead\<close>, with additional data \<open>aead_ad\<close>, both interpreted on ChaCha20-Poly1305 as RFC 8439 defines it.
  \<^item> \<open>Obfs\<close> (\<open>extras/obfs/conn.go\<close>, \<open>salamander.go\<close>, \<open>salamander_v2.go\<close>,
    \<open>stats.go\<close>): both obfuscators are transparent to their peer; replays are refused within one run of a receiver; an obfuscator is the
    locale \<open>obfuscator\<close>.
  \<^item> \<open>Gecko\<close> (\<open>extras/obfs/gecko.go\<close>, \<open>gecko_frame.go\<close>): cut packets come out whole; sizes and memory are
    bounded.
  \<^item> \<open>Port_Union\<close> (\<open>extras/utils/portunion.go\<close>): a parsed port list is what it says.
  \<^item> \<open>Udp_Hop\<close> (\<open>extras/transport/udphop\<close>): hopping as a step relation: sockets and deadlines.
  \<^item> \<open>Acl_Matchers, Acl\<close> (\<open>extras/outbounds/acl\<close>): the cached rule set answers like the first matching rule over any
    cache satisfying the locales \<open>match_cache\<close> and \<open>rule_cache\<close>; host matchers; the rule language.
  \<^item> \<open>Ring_Buffer, Packet_Queue, Windowed_Filter, Bandwidth_Sampler\<close> (\<open>core/internal/congestion/bbr\<close>): the data
    structures refine a list and a map (locale \<open>sequence\<close>); filters over any order (locale \<open>comparator\<close>); the sampler never
    panics.
  \<^item> \<open>Bbr_Profile, Bbr_Sender\<close> (\<open>core/internal/congestion/bbr/bbr_sender.go\<close>): the four modes and their gains; the
    window, the pacing rate and the wake-up time never stall the connection; \<open>PROBE_RTT\<close> ends.
  \<^item> \<open>Pacer\<close> (\<open>core/internal/congestion/common/pacer.go\<close>): the token bucket conforms to its rate and wakes up in time.
  \<^item> \<open>Float64\<close> (Go's \<open>float64\<close>): what the proofs use of rounding is the locale \<open>rounding\<close>, interpreted on
    rounding to nearest with 53 bits.
  \<^item> \<open>Brutal\<close> (\<open>core/internal/congestion/brutal\<close>): the rate is bounded whatever is reported; a new path is measured as
    documented; the window is bounded.
  \<^item> \<open>Punch_Packet\<close> (\<open>extras/realm/punch.go\<close>, \<open>extras/crypto/kdf.go\<close>): punch packets round trip; the
    cache of derived keys is invisible.
  \<^item> \<open>Nat_Probes\<close> (\<open>extras/realm/nat.go\<close>, \<open>local.go\<close>, families of \<open>stun.go\<close>): when a NAT is
    classified; which ports are guessed; fair candidate lists.
  \<^item> \<open>Punch_Engine\<close> (\<open>extras/realm/punch_engine.go\<close>): an attempt is confined to what the peer announced, and bounded
    in traffic.
  \<^item> \<open>Punch_Conn\<close> (\<open>extras/realm/punch_conn.go\<close>, \<open>puncher.go\<close>): routing by nonce is a search through the
    attempts, in every reachable state of the socket.
  \<^item> \<open>Disco\<close> (\<open>extras/realm/disco.go\<close>): path probes round trip at exactly the length asked for, between clocks at most
    30 seconds apart.
  \<^item> \<open>Disco_Conn\<close> (\<open>extras/realm/disco_conn.go\<close>): the replay window is a set; the padding target is the most common
    recent length.
  \<^item> \<open>Disco_Demux\<close> (the same): the operations as a step relation: a datagram is taken from QUIC exactly when it is for a registered
    session; the ticker runs exactly while there is one.
  \<^item> \<open>Timesource\<close> (\<open>extras/timesource\<close>, \<open>app/cmd/timesync.go\<close>): no clock that may be right is touched;
    how wrong a repaired one can be when most servers that answer are right.

  \<^bold>\<open>Bounds and fuel.\<close> Loops of the source are structural recursions on the data they consume, or carry as fuel the number of elements they can at most consume
  (\<open>clear_loop\<close>, \<open>remove_loop\<close>, \<open>pop_rest\<close>: the length of the queue; \<open>rotate_buckets\<close>: the number of rotations due), and the lemmas about them show that
  this is enough. Nothing is proved only under the assumption that a loop returns.

  \<^bold>\<open>Not modelled.\<close>
  \<^item> the command line program (\<open>app/cmd\<close>) and its configuration URLs (\<open>app/internal/url\<close>): wiring of parsed flags to
    the components; the URL parser is a copy of Go's own.
  \<^item> inbounds (\<open>app/internal/socks5\<close>, \<open>http\<close>, \<open>tun\<close>, \<open>tproxy\<close>, \<open>redirect\<close>,
    \<open>forwarding\<close>), firewall rules, socket options, link monitoring: sockets, system calls and third-party servers.
  \<^item> outbounds other than the rules (\<open>extras/outbounds\<close> direct, SOCKS5, HTTP, DNS), the masquerade's file server, sniffing, traffic
    statistics over HTTP, speed tests: I/O around third-party protocol libraries.
  \<^item> the rendezvous client (\<open>extras/realm/client.go\<close>), port mapping, STUN messages: HTTP and third-party message formats.
  \<^item> TLS, QUIC, HTTP/3, the sockets below: third-party code: arguments of the definitions that use them.
\<close>

end
